(* ===== verification/Prelude.thy ===== *)
theory Prelude
  imports Main "HOL-Library.Word" "HOL-Library.Monad_Syntax"
begin

unbundle bit_operations_syntax

text \<open>
  The shared vocabulary of the development: the C integer types of the LP64 data model (x86-64, the
  platform the numbers below are taken from), the conversions between them, the convention for
  functions that may end the process, and the generic lemmas on lists, folds and word bits that the
  components use.

  \<^item> \<open>unsigned long\<close> words of a mask are \<open>64 word\<close>; \<open>unsigned int\<close> flag words are \<open>32 word\<close>.
  \<^item> \<open>int\<close> and \<open>long\<close> values are \<open>int\<close>; \<open>c_int\<close>, \<open>c_uint\<close>, \<open>c_long\<close> and \<open>c_ulong\<close> are the
    conversions, with the wrap-around written out.
  \<^item> A function that can reach \<open>exit(1)\<close> returns an option: \<open>None\<close> is the process that has exited,
    \<open>Some (r, s)\<close> the returned value and the new state.  The \<open>do\<close> notation of the option monad then
    reads like the statement sequence of the source.
\<close>

type_synonym ulong = "64 word"
type_synonym uint = "32 word"

text \<open>Conversions: a value of any integer type stored in an \<open>int\<close>, an \<open>unsigned int\<close>, a \<open>long\<close>
  or an \<open>unsigned long\<close>.\<close>

definition c_int :: "int \<Rightarrow> int" where
  "c_int x = (x + 2 ^ 31) mod 2 ^ 32 - 2 ^ 31"

definition c_uint :: "int \<Rightarrow> nat" where
  "c_uint x = nat (x mod 2 ^ 32)"

definition c_long :: "int \<Rightarrow> int" where
  "c_long x = (x + 2 ^ 63) mod 2 ^ 64 - 2 ^ 63"

definition c_ulong :: "int \<Rightarrow> nat" where
  "c_ulong x = nat (x mod 2 ^ 64)"

definition ULONG_MAX :: nat where
  "ULONG_MAX = 2 ^ 64 - 1"

named_theorems c_conv \<open>integer conversions that do nothing on a value in range\<close>

lemma c_int_id [c_conv]: "- (2 ^ 31) \<le> x \<Longrightarrow> x < 2 ^ 31 \<Longrightarrow> c_int x = x"
  by (simp add: c_int_def)

lemma c_uint_id [c_conv]: "0 \<le> x \<Longrightarrow> x < 2 ^ 32 \<Longrightarrow> c_uint x = nat x"
  by (simp add: c_uint_def)

lemma c_uint_of_nat [c_conv]: "n < 2 ^ 32 \<Longrightarrow> c_uint (int n) = n"
  by (simp add: c_uint_def)

lemma c_uint_neg [c_conv]: "x < 0 \<Longrightarrow> - (2 ^ 32) \<le> x \<Longrightarrow> int (c_uint x) = x + 2 ^ 32"
proof -
  assume "x < 0" "- (2 ^ 32) \<le> x"
  then have "(x + 2 ^ 32) mod 2 ^ 32 = x + 2 ^ 32" by (intro mod_pos_pos_trivial) simp_all
  moreover have "(x + 2 ^ 32) mod 2 ^ 32 = x mod 2 ^ 32" by simp
  ultimately show ?thesis using \<open>- (2 ^ 32) \<le> x\<close> by (simp add: c_uint_def)
qed

lemma c_uint_less: "c_uint x < 2 ^ 32"
proof -
  have "x mod 2 ^ 32 < (2 ^ 32 :: int)" by simp
  then show ?thesis by (simp add: c_uint_def nat_less_iff)
qed

lemma c_int_range: "- (2 ^ 31) \<le> c_int x \<and> c_int x < 2 ^ 31"
proof -
  have "0 \<le> (x + 2 ^ 31) mod 2 ^ 32" "(x + 2 ^ 31) mod 2 ^ 32 < (2 ^ 32 :: int)" by simp_all
  then show ?thesis by (simp add: c_int_def)
qed

lemma c_long_id [c_conv]: "- (2 ^ 63) \<le> x \<Longrightarrow> x < 2 ^ 63 \<Longrightarrow> c_long x = x"
  by (simp add: c_long_def)

lemma c_ulong_id [c_conv]: "0 \<le> x \<Longrightarrow> x < 2 ^ 64 \<Longrightarrow> c_ulong x = nat x"
  by (simp add: c_ulong_def)

lemma c_ulong_minus_one [c_conv]: "c_ulong (- 1) = ULONG_MAX"
  by (simp add: c_ulong_def ULONG_MAX_def)

section \<open>The option monad of a process that may exit\<close>

named_theorems run \<open>facts that run a step of the model: how a primitive evaluates\<close>

lemma bind_Some_iff: "Option.bind m f = Some y \<longleftrightarrow> (\<exists>x. m = Some x \<and> f x = Some y)"
  by (cases m) auto

text \<open>A loop whose body may end the process.\<close>

fun foldM :: "('a \<Rightarrow> 's \<Rightarrow> 's option) \<Rightarrow> 'a list \<Rightarrow> 's \<Rightarrow> 's option" where
  "foldM f [] s = Some s"
| "foldM f (x # xs) s = do { s' \<leftarrow> f x s; foldM f xs s' }"

lemma foldM_append: "foldM f (xs @ ys) s = do { s' \<leftarrow> foldM f xs s; foldM f ys s' }"
  by (induction xs arbitrary: s) (simp_all split: Option.bind_split)

lemma foldM_total:
  assumes "\<And>x s. x \<in> set xs \<Longrightarrow> f x s = Some (g x s)"
  shows "foldM f xs s = Some (fold g xs s)"
  using assms by (induction xs arbitrary: s) simp_all

lemma foldM_invariant:
  assumes "foldM f xs s = Some t" and "P s"
    and "\<And>x s s'. x \<in> set xs \<Longrightarrow> P s \<Longrightarrow> f x s = Some s' \<Longrightarrow> P s'"
  shows "P t"
  using assms by (induction xs arbitrary: s) (auto simp: bind_Some_iff)

lemma foldM_ex:
  assumes "P s" and "\<And>x s. x \<in> set xs \<Longrightarrow> P s \<Longrightarrow> \<exists>s'. f x s = Some s' \<and> P s'"
  shows "\<exists>t. foldM f xs s = Some t \<and> P t"
  using assms
proof (induction xs arbitrary: s)
  case (Cons x xs)
  then obtain s' where "f x s = Some s'" "P s'" by (meson list.set_intros(1))
  then show ?case using Cons by simp
qed simp

section \<open>Folds and lists\<close>

lemma fold_invariant_list:
  assumes "P s" and "\<And>x s. x \<in> set xs \<Longrightarrow> P s \<Longrightarrow> P (f x s)"
  shows "P (fold f xs s)"
  using assms by (induction xs arbitrary: s) simp_all

lemma fold_count: "fold (\<lambda>x n. if P x then Suc n else n) xs k = k + length (filter P xs)"
  by (induction xs arbitrary: k) simp_all

lemma length_filter_upt: "length (filter P [0..<n]) = card {i. i < n \<and> P i}"
proof -
  have "length (filter P [0..<n]) = card (set (filter P [0..<n]))"
    by (rule distinct_card [symmetric]) simp
  also have "set (filter P [0..<n]) = {i. i < n \<and> P i}" by auto
  finally show ?thesis .
qed

lemma length_dropWhile_less: "xs \<noteq> [] \<Longrightarrow> P (hd xs) \<Longrightarrow> length (dropWhile P xs) < length xs"
proof (cases xs)
  case (Cons x ys)
  assume "P (hd xs)"
  moreover have "length (dropWhile P ys) \<le> length ys" by (rule length_dropWhile_le)
  ultimately show ?thesis using Cons by simp
qed simp

section \<open>Bits of words\<close>

lemma bit_one_shifted [simp]: "bit ((2 :: ulong) ^ k) j \<longleftrightarrow> j = k \<and> k < 64"
  by (auto simp: bit_exp_iff)

lemma drop_bit_and_1: "drop_bit k (w :: ulong) AND 1 = of_bool (bit w k)"
  by (simp add: and_one_eq bit_iff_odd_drop_bit mod_2_eq_odd flip: one_and_eq)

lemma div_mod_eq_iff: "(i :: nat) div 64 = j div 64 \<and> i mod 64 = j mod 64 \<longleftrightarrow> i = j"
  by (metis div_mult_mod_eq)

end
