(* ===== verification/Bitset.thy ===== *)
theory Bitset
  imports Prelude
begin

text \<open>
  The contract of a set of bits.  The program has two implementations of it, \<open>struct bitmask\<close> and
  \<open>nodemask_t\<close> (theory \<open>Bitmask\<close>).  The locale \<open>bitset\<close> holds what both promise of testing, setting and
  clearing one bit within the capacity; the loops of the program over bit sets (set the bits that pass
  a test, invert a range, count, find the first) are verified once in it.  \<open>bitset_total\<close> adds that an
  index beyond the capacity is ignored, which only \<open>struct bitmask\<close> promises.
\<close>

section \<open>The interface\<close>

locale bitset =
  fixes test :: "'m \<Rightarrow> nat \<Rightarrow> bool"
    and put :: "'m \<Rightarrow> nat \<Rightarrow> 'm"
    and clr :: "'m \<Rightarrow> nat \<Rightarrow> 'm"
    and cap :: "'m \<Rightarrow> nat"
    and inv :: "'m \<Rightarrow> bool"
  assumes test_cap: "test m i \<Longrightarrow> i < cap m"
    and test_put: "inv m \<Longrightarrow> i < cap m \<Longrightarrow> test (put m i) j \<longleftrightarrow> j = i \<or> test m j"
    and test_clr: "inv m \<Longrightarrow> i < cap m \<Longrightarrow> test (clr m i) j \<longleftrightarrow> j \<noteq> i \<and> test m j"
    and cap_put: "cap (put m i) = cap m"
    and cap_clr: "cap (clr m i) = cap m"
    and inv_put: "inv m \<Longrightarrow> i < cap m \<Longrightarrow> inv (put m i)"
    and inv_clr: "inv m \<Longrightarrow> i < cap m \<Longrightarrow> inv (clr m i)"
begin

abbreviation put_all :: "(nat \<Rightarrow> bool) \<Rightarrow> nat list \<Rightarrow> 'm \<Rightarrow> 'm" where
  "put_all P \<equiv> fold (\<lambda>i m. if P i then put m i else m)"

abbreviation flip_all :: "nat list \<Rightarrow> 'm \<Rightarrow> 'm" where
  "flip_all \<equiv> fold (\<lambda>i m. if test m i then clr m i else put m i)"

text \<open>The loop \<open>for (i ...) if (P(i)) set(m, i)\<close> over any index list within the capacity.\<close>

lemma put_loop:
  assumes "inv m" and "\<And>i. i \<in> set xs \<Longrightarrow> i < cap m"
  shows "inv (put_all P xs m) \<and> cap (put_all P xs m) = cap m \<and> (\<forall>j. test (put_all P xs m) j \<longleftrightarrow> j \<in> set xs \<and> P j \<or> test m j)"
  using assms(1,2) 
proof (induction xs arbitrary: m)
  case (Cons x xs)
  let ?m = "if P x then put m x else m"
  have x: "x < cap m" using Cons.prems by simp
  then have m: "inv ?m" "cap ?m = cap m" "\<And>j. test ?m j \<longleftrightarrow> (j = x \<and> P x) \<or> test m j"
    using Cons.prems by (auto simp: inv_put cap_put test_put)
  then have "\<And>i. i \<in> set xs \<Longrightarrow> i < cap ?m" using Cons.prems by simp
  from Cons.IH [OF m(1) this] m show ?case by auto
qed simp

text \<open>The inversion loop \<open>for (i ...) if (test(m, i)) clear(m, i) else set(m, i)\<close>.\<close>

lemma flip_loop:
  assumes "inv m" and "distinct xs" and "\<And>i. i \<in> set xs \<Longrightarrow> i < cap m"
  shows "inv (flip_all xs m) \<and> cap (flip_all xs m) = cap m \<and>
    (\<forall>j. test (flip_all xs m) j \<longleftrightarrow> (if j \<in> set xs then \<not> test m j else test m j))"
  using assms(1-3) 
proof (induction xs arbitrary: m)
  case (Cons x xs)
  define m' where "m' = (if test m x then clr m x else put m x)"
  have eq: "flip_all (x # xs) m = flip_all xs m'" by (simp add: m'_def)
  have x: "x < cap m" using Cons.prems by simp
  then have m: "inv m'" "cap m' = cap m" "\<And>j. test m' j \<longleftrightarrow> (if j = x then \<not> test m j else test m j)"
    using Cons.prems by (auto simp: m'_def inv_put inv_clr cap_put cap_clr test_put test_clr)
  then have "\<And>i. i \<in> set xs \<Longrightarrow> i < cap m'" using Cons.prems by simp
  from Cons.IH [OF m(1) _ this] Cons.prems(2) m show ?case unfolding eq by (auto simp del: fold.simps)
qed simp

text \<open>The elements of a bit set; there are finitely many, and the loops that count and search compute
  its cardinality and its least element.\<close>

lemma finite_test: "finite {i. test m i}"
  by (rule finite_subset [of _ "{..<cap m}"]) (auto dest: test_cap)

lemma count_loop: "fold (\<lambda>i w. if test m i then Suc w else w) [0..<cap m] 0 = card {i. test m i}"
proof -
  have "{i. i < cap m \<and> test m i} = {i. test m i}" by (auto dest: test_cap)
  then show ?thesis by (simp add: fold_count length_filter_upt)
qed

lemma find_loop:
  "List.find (test m) [0..<cap m] = (if {i. test m i} = {} then None else Some (Min {i. test m i}))"
proof (cases "{i. test m i} = {}")
  case True
  then show ?thesis by (auto simp: find_None_iff)
next
  case False
  let ?k = "Min {i. test m i}"
  have k: "test m ?k" using Min_in [OF finite_test False] by simp
  have least: "\<not> test m j" if "j < ?k" for j
    using Min_le [OF finite_test, of j m] that by (auto simp: not_le)
  have "List.find (test m) [0..<cap m] = Some ?k"
    unfolding find_Some_iff
    using k least test_cap [OF k] by (intro exI [of _ ?k]) (auto dest: test_cap)
  then show ?thesis using False by simp
qed

end

text \<open>An implementation that ignores an index beyond its capacity, as \<open>_setbit\<close> does.\<close>

locale bitset_total = bitset +
  assumes put_beyond: "\<not> i < cap m \<Longrightarrow> put m i = m"
    and clr_beyond: "\<not> i < cap m \<Longrightarrow> clr m i = m"
begin

lemma test_put_total: "inv m \<Longrightarrow> test (put m i) j \<longleftrightarrow> (j = i \<and> i < cap m) \<or> test m j"
  by (cases "i < cap m") (auto simp: test_put put_beyond)

lemma test_clr_total: "inv m \<Longrightarrow> test (clr m i) j \<longleftrightarrow> j \<noteq> i \<and> test m j"
  by (cases "i < cap m") (auto simp: test_clr clr_beyond dest: test_cap)

lemma inv_put_total: "inv m \<Longrightarrow> inv (put m i)"
  by (cases "i < cap m") (simp_all add: inv_put put_beyond)

lemma inv_clr_total: "inv m \<Longrightarrow> inv (clr m i)"
  by (cases "i < cap m") (simp_all add: inv_clr clr_beyond)

lemma put_loop_total:
  assumes "inv m"
  shows "inv (put_all P xs m) \<and> cap (put_all P xs m) = cap m \<and>
    (\<forall>j. test (put_all P xs m) j \<longleftrightarrow> j \<in> set xs \<and> P j \<and> j < cap m \<or> test m j)"
  using assms(1) 
proof (induction xs arbitrary: m)
  case (Cons x xs)
  let ?m = "if P x then put m x else m"
  have m: "inv ?m" "cap ?m = cap m" "\<And>j. test ?m j \<longleftrightarrow> (j = x \<and> P x \<and> x < cap m) \<or> test m j"
    using Cons.prems by (auto simp: inv_put_total cap_put test_put_total)
  from Cons.IH [OF m(1)] m show ?case by auto
qed simp

lemma flip_loop_total:
  assumes "inv m" and "distinct xs"
  shows "inv (flip_all xs m) \<and> cap (flip_all xs m) = cap m \<and>
    (\<forall>j. test (flip_all xs m) j \<longleftrightarrow> (if j \<in> set xs \<and> j < cap m then \<not> test m j else test m j))"
  using assms(1,2) 
proof (induction xs arbitrary: m)
  case (Cons x xs)
  define m' where "m' = (if test m x then clr m x else put m x)"
  have eq: "flip_all (x # xs) m = flip_all xs m'" by (simp add: m'_def)
  have m: "inv m'" "cap m' = cap m"
    "\<And>j. test m' j \<longleftrightarrow> (if j = x \<and> x < cap m then \<not> test m j else test m j)"
    using Cons.prems
    by (auto simp: m'_def inv_put_total inv_clr_total cap_put cap_clr test_put_total test_clr_total
        dest: test_cap)
  from Cons.IH [OF m(1)] Cons.prems(2) m show ?case unfolding eq by (auto simp del: fold.simps)
qed simp

end

end
