(* ===== verification/Bitmask.thy ===== *)
theory Bitmask
  imports Bitset
begin

unbundle bit_operations_syntax

text \<open>
  The bit sets of the library: the heap-allocated \<open>struct bitmask\<close> of any size (\<open>numa.h\<close>,
  \<open>libnuma.c\<close> lines 131-336 and 1254-1303), and the fixed-size \<open>nodemask_t\<close> of the version 1 interface.
  A bitmask is its size in bits and the array of \<open>unsigned long\<close> words behind it; a pointer to one is
  passed as a value and returned updated.  The bits of the last word beyond the size are the padding:
  no \<open>numa_bitmask\<close> operation reads or sets them, but the copies move whole words.
\<close>

section \<open>struct bitmask\<close>

record bitmask =
  bm_size :: nat
  maskp :: "ulong list"

text \<open>\<open>longsperbits(n)\<close> is \<open>howmany(n, bitsperlong)\<close>; the arithmetic is in \<open>unsigned long\<close>.\<close>

definition longsperbits :: "nat \<Rightarrow> nat" where
  "longsperbits n = (n + (64 - 1)) div 64"

definition bm_inv :: "bitmask \<Rightarrow> bool" where
  "bm_inv b \<longleftrightarrow> length (maskp b) = longsperbits (bm_size b)"

lemma word_index: "i < n \<Longrightarrow> i div 64 < longsperbits n"
  by (simp add: longsperbits_def less_mult_imp_div_less [of i "(n + 63) div 64" 64] div_less_iff_less_mult)

section \<open>Single bits\<close>

definition getbit :: "bitmask \<Rightarrow> nat \<Rightarrow> nat" where
  "getbit bmp n =
     (if n < bm_size bmp then unat (drop_bit (n mod 64) (maskp bmp ! (n div 64)) AND 1) else 0)"

definition setbit :: "bitmask \<Rightarrow> nat \<Rightarrow> nat \<Rightarrow> bitmask" where
  "setbit bmp n v =
     (if n < bm_size bmp then
        let k = n div 64; w = maskp bmp ! k in
        if v \<noteq> 0
        then bmp\<lparr>maskp := (maskp bmp)[k := w OR push_bit (n mod 64) 1]\<rparr>
        else bmp\<lparr>maskp := (maskp bmp)[k := w AND NOT (push_bit (n mod 64) 1)]\<rparr>
      else bmp)"

text \<open>The result of \<open>numa_bitmask_isbitset\<close> is used as a truth value throughout.\<close>

definition numa_bitmask_isbitset :: "bitmask \<Rightarrow> nat \<Rightarrow> bool" where
  "numa_bitmask_isbitset bmp i \<longleftrightarrow> getbit bmp i \<noteq> 0"

definition numa_bitmask_setbit :: "bitmask \<Rightarrow> nat \<Rightarrow> bitmask" where
  "numa_bitmask_setbit bmp i = setbit bmp i 1"

definition numa_bitmask_clearbit :: "bitmask \<Rightarrow> nat \<Rightarrow> bitmask" where
  "numa_bitmask_clearbit bmp i = setbit bmp i 0"

lemma getbit_bit:
  "getbit bmp n = of_bool (n < bm_size bmp \<and> bit (maskp bmp ! (n div 64)) (n mod 64))"
  by (simp add: getbit_def drop_bit_and_1)

lemma isbitset_bit:
  "numa_bitmask_isbitset bmp n \<longleftrightarrow> n < bm_size bmp \<and> bit (maskp bmp ! (n div 64)) (n mod 64)"
  by (simp add: numa_bitmask_isbitset_def getbit_bit)

lemma getbit_isbitset: "getbit bmp n = of_bool (numa_bitmask_isbitset bmp n)"
  by (simp add: isbitset_bit getbit_bit)

lemma bm_size_setbit [simp]: "bm_size (setbit b i v) = bm_size b"
  by (simp add: setbit_def Let_def)

lemma length_maskp_setbit [simp]: "length (maskp (setbit b i v)) = length (maskp b)"
  by (simp add: setbit_def Let_def)

lemma isbitset_setbit:
  assumes "bm_inv b" "i < bm_size b"
  shows "numa_bitmask_isbitset (setbit b i v) j \<longleftrightarrow>
    (if j = i then v \<noteq> 0 else numa_bitmask_isbitset b j)"
proof (cases "j div 64 = i div 64")
  case True
  have len: "i div 64 < length (maskp b)" using assms word_index by (simp add: bm_inv_def)
  have "j mod 64 = i mod 64 \<longleftrightarrow> j = i" using True div_mod_eq_iff by blast
  moreover have "j mod 64 < 64" by simp
  ultimately show ?thesis
    using assms(2) len True
    by (auto simp: isbitset_bit setbit_def Let_def bit_or_iff bit_and_iff bit_not_iff)
next
  case False
  then have "j \<noteq> i" by auto
  with False assms(2) show ?thesis
    by (simp add: isbitset_bit setbit_def Let_def)
qed

interpretation bm: bitset_total numa_bitmask_isbitset numa_bitmask_setbit numa_bitmask_clearbit
  bm_size bm_inv
proof unfold_locales
  fix m i j
  show "numa_bitmask_isbitset m i \<Longrightarrow> i < bm_size m" by (simp add: isbitset_bit)
  show "bm_inv m \<Longrightarrow> i < bm_size m \<Longrightarrow>
      numa_bitmask_isbitset (numa_bitmask_setbit m i) j = (j = i \<or> numa_bitmask_isbitset m j)"
    by (simp add: numa_bitmask_setbit_def isbitset_setbit)
  show "bm_inv m \<Longrightarrow> i < bm_size m \<Longrightarrow>
      numa_bitmask_isbitset (numa_bitmask_clearbit m i) j = (j \<noteq> i \<and> numa_bitmask_isbitset m j)"
    by (simp add: numa_bitmask_clearbit_def isbitset_setbit)
qed (simp_all add: numa_bitmask_setbit_def numa_bitmask_clearbit_def bm_inv_def setbit_def Let_def)

text \<open>The set a bitmask stands for.\<close>

definition bm_bits :: "bitmask \<Rightarrow> nat set" where
  "bm_bits b = {i. numa_bitmask_isbitset b i}"

lemma mem_bm_bits [simp]: "i \<in> bm_bits b \<longleftrightarrow> numa_bitmask_isbitset b i"
  by (simp add: bm_bits_def)

lemma finite_bm_bits [simp]: "finite (bm_bits b)"
  by (simp add: bm_bits_def bm.finite_test)

lemma bm_bits_below: "bm_bits b \<subseteq> {..<bm_size b}"
  by (auto dest: bm.test_cap)

section \<open>Whole masks\<close>

definition numa_bitmask_setall :: "bitmask \<Rightarrow> bitmask" where
  "numa_bitmask_setall bmp = fold (\<lambda>i b. setbit b i 1) [0..<bm_size bmp] bmp"

definition numa_bitmask_clearall :: "bitmask \<Rightarrow> bitmask" where
  "numa_bitmask_clearall bmp = fold (\<lambda>i b. setbit b i 0) [0..<bm_size bmp] bmp"

text \<open>The result type is \<open>unsigned int\<close>.\<close>

definition numa_bitmask_nbytes :: "bitmask \<Rightarrow> nat" where
  "numa_bitmask_nbytes bmp = longsperbits (bm_size bmp) * 8 mod 2 ^ 32"

text \<open>The block a successful \<open>numa_bitmask_alloc(n)\<close> returns: \<open>calloc\<close> clears the words.\<close>

definition new_bitmask :: "nat \<Rightarrow> bitmask" where
  "new_bitmask n = \<lparr>bm_size = n, maskp = replicate (longsperbits n) 0\<rparr>"

definition numa_bitmask_equal :: "bitmask \<Rightarrow> bitmask \<Rightarrow> bool" where
  "numa_bitmask_equal bmp1 bmp2 \<longleftrightarrow>
     list_all (\<lambda>i. getbit bmp1 i = getbit bmp2 i) [0..<max (bm_size bmp1) (bm_size bmp2)]"

definition numa_bitmask_weight :: "bitmask \<Rightarrow> nat" where
  "numa_bitmask_weight bmp =
     fold (\<lambda>i w. if getbit bmp i \<noteq> 0 then Suc w else w) [0..<bm_size bmp] 0"

definition numa_find_first :: "bitmask \<Rightarrow> int" where
  "numa_find_first bmp =
     (case List.find (numa_bitmask_isbitset bmp) [0..<bm_size bmp] of
        None \<Rightarrow> - 1
      | Some i \<Rightarrow> int i)"

lemma bm_inv_setbit [simp]: "bm_inv (setbit b i v) = bm_inv b"
  by (simp add: bm_inv_def)

lemma bm_inv_new [simp]: "bm_inv (new_bitmask n)"
  by (simp add: bm_inv_def new_bitmask_def)

lemma bm_size_new [simp]: "bm_size (new_bitmask n) = n"
  by (simp add: new_bitmask_def)

lemma isbitset_new [simp]: "\<not> numa_bitmask_isbitset (new_bitmask n) i"
  using word_index [of i n] by (auto simp: isbitset_bit new_bitmask_def)

lemma bm_bits_new [simp]: "bm_bits (new_bitmask n) = {}"
  by auto

text \<open>Loops over a list of bit indices, as instances of the contract.\<close>

lemma setbits_loop:
  assumes "bm_inv b"
  shows "bm_inv (fold (\<lambda>i b. setbit b i v) xs b) \<and> bm_size (fold (\<lambda>i b. setbit b i v) xs b) = bm_size b \<and>
    bm_bits (fold (\<lambda>i b. setbit b i v) xs b) =
      (if v \<noteq> 0 then bm_bits b \<union> (set xs \<inter> {..<bm_size b}) else bm_bits b - set xs)"
  using assms
proof (induction xs arbitrary: b)
  case (Cons x xs)
  have "bm_bits (setbit b x v) =
      (if v \<noteq> 0 then bm_bits b \<union> ({x} \<inter> {..<bm_size b}) else bm_bits b - {x})"
  proof (cases "x < bm_size b")
    case True
    then show ?thesis using Cons.prems by (auto simp: isbitset_setbit split: if_splits)
  next
    case False
    then have "setbit b x v = b" by (simp add: setbit_def)
    with False show ?thesis by (auto dest: bm.test_cap)
  qed
  with Cons.IH [of "setbit b x v"] Cons.prems show ?case by auto
qed auto

lemma setall_bits:
  assumes "bm_inv b"
  shows "bm_inv (numa_bitmask_setall b)" "bm_size (numa_bitmask_setall b) = bm_size b"
    "bm_bits (numa_bitmask_setall b) = {..<bm_size b}"
  using setbits_loop [OF assms, of 1 "[0..<bm_size b]"] bm_bits_below [of b]
  by (auto simp: numa_bitmask_setall_def simp del: mem_bm_bits)

lemma clearall_bits:
  assumes "bm_inv b"
  shows "bm_inv (numa_bitmask_clearall b)" "bm_size (numa_bitmask_clearall b) = bm_size b"
    "bm_bits (numa_bitmask_clearall b) = {}"
  using setbits_loop [OF assms, of 0 "[0..<bm_size b]"] bm_bits_below [of b]
  by (auto simp: numa_bitmask_clearall_def simp del: mem_bm_bits)

lemma setbit_bits:
  assumes "bm_inv b"
  shows "bm_bits (numa_bitmask_setbit b i) = bm_bits b \<union> ({i} \<inter> {..<bm_size b})"
    "bm_inv (numa_bitmask_setbit b i)" "bm_size (numa_bitmask_setbit b i) = bm_size b"
  using assms by (auto simp: bm.test_put_total bm.cap_put bm.inv_put_total dest: bm.test_cap)

lemma clearbit_bits:
  assumes "bm_inv b"
  shows "bm_bits (numa_bitmask_clearbit b i) = bm_bits b - {i}"
    "bm_inv (numa_bitmask_clearbit b i)" "bm_size (numa_bitmask_clearbit b i) = bm_size b"
  using assms by (auto simp: bm.test_clr_total bm.cap_clr bm.inv_clr_total)

lemma equal_bits: "numa_bitmask_equal b1 b2 \<longleftrightarrow> bm_bits b1 = bm_bits b2"
proof
  assume "numa_bitmask_equal b1 b2"
  then have "numa_bitmask_isbitset b1 i = numa_bitmask_isbitset b2 i"
    if "i < max (bm_size b1) (bm_size b2)" for i
    using that by (auto simp: numa_bitmask_equal_def list_all_iff getbit_isbitset of_bool_eq_iff)
  moreover have "i < max (bm_size b1) (bm_size b2)"
    if "numa_bitmask_isbitset b1 i \<or> numa_bitmask_isbitset b2 i" for i
    using that by (auto dest: bm.test_cap)
  ultimately show "bm_bits b1 = bm_bits b2" by (auto simp: set_eq_iff)
next
  assume "bm_bits b1 = bm_bits b2"
  then have "numa_bitmask_isbitset b1 = numa_bitmask_isbitset b2" by (auto simp: bm_bits_def)
  then show "numa_bitmask_equal b1 b2" by (simp add: numa_bitmask_equal_def list_all_iff getbit_isbitset)
qed

lemma weight_bits: "numa_bitmask_weight b = card (bm_bits b)"
  using bm.count_loop [of b] by (simp add: numa_bitmask_weight_def numa_bitmask_isbitset_def bm_bits_def)

lemma find_first_bits:
  "numa_find_first b = (if bm_bits b = {} then - 1 else int (Min (bm_bits b)))"
  unfolding numa_find_first_def bm.find_loop by (simp add: bm_bits_def)

section \<open>Copying masks\<close>

text \<open>\<open>round_up\<close>, \<open>CPU_BYTES\<close> and \<open>CPU_LONGS\<close> of \<open>util.h\<close> and \<open>numaint.h\<close>: the size in whole words,
  computed with a mask of the low bits.\<close>

definition round_up :: "ulong \<Rightarrow> ulong \<Rightarrow> ulong" where
  "round_up x y = (x + y - 1) AND NOT (y - 1)"

definition CPU_BYTES :: "nat \<Rightarrow> nat" where
  "CPU_BYTES x = unat (round_up (of_nat x) 64) div 8"

definition CPU_LONGS :: "nat \<Rightarrow> nat" where
  "CPU_LONGS x = CPU_BYTES x div 8"

lemma CPU_LONGS_longsperbits:
  assumes "n < 2 ^ 32"
  shows "CPU_LONGS n = longsperbits n" "CPU_BYTES n = 8 * longsperbits n"
proof -
  have m: "(64 - 1 :: ulong) = mask 6" by (simp add: mask_eq_exp_minus_1)
  have rnd: "w AND NOT (mask 6) = push_bit 6 (drop_bit 6 w)" for w :: ulong
    by (rule bit_eqI) (auto simp: bit_and_iff bit_not_iff bit_push_bit_iff bit_drop_bit_eq bit_mask_iff)
  have sum: "of_nat n + 64 - 1 = (of_nat (n + 63) :: ulong)" by simp
  have "round_up (of_nat n) 64 = push_bit 6 (drop_bit 6 (of_nat (n + 63)))"
    unfolding round_up_def m rnd sum ..
  moreover have "unat (of_nat (n + 63) :: ulong) = n + 63"
    using assms by (simp add: unat_of_nat del: of_nat_add)
  then have "unat (push_bit 6 (drop_bit 6 (of_nat (n + 63) :: ulong))) =
      take_bit 64 (push_bit 6 (drop_bit 6 (take_bit 64 (n + 63))))"
    by (simp del: of_nat_add add: unsigned_push_bit_eq unsigned_drop_bit_eq)
  moreover have "take_bit 64 (n + 63) = n + 63" using assms by (simp add: take_bit_eq_mod)
  ultimately have "unat (round_up (of_nat n) 64) = take_bit 64 (push_bit 6 (drop_bit 6 (n + 63)))"
    by (simp only:)
  also have "\<dots> = (n + 63) div 64 * 64"
    using assms by (simp add: take_bit_eq_mod push_bit_eq_mult drop_bit_eq_div)
  finally have "unat (round_up (of_nat n) 64) = (n + 63) div 64 * 64" .
  then show "CPU_LONGS n = longsperbits n" "CPU_BYTES n = 8 * longsperbits n"
    by (simp_all add: CPU_LONGS_def CPU_BYTES_def longsperbits_def)
qed

text \<open>\<open>memcpy\<close> and \<open>memset(.., 0, ..)\<close> of a whole number of words; both are only called with a multiple
  of eight bytes here.\<close>

definition memcpy_longs :: "ulong list \<Rightarrow> ulong list \<Rightarrow> nat \<Rightarrow> ulong list" where
  "memcpy_longs dst src bytes = take (bytes div 8) src @ drop (bytes div 8) dst"

definition memzero_longs :: "ulong list \<Rightarrow> nat \<Rightarrow> nat \<Rightarrow> ulong list" where
  "memzero_longs dst off bytes =
     take (off div 8) dst @ replicate (bytes div 8) 0 @ drop ((off + bytes) div 8) dst"

definition copy_bitmask_to_bitmask :: "bitmask \<Rightarrow> bitmask \<Rightarrow> bitmask" where
  "copy_bitmask_to_bitmask bmpfrom bmpto =
     (if bm_size bmpto \<le> bm_size bmpfrom then
        bmpto\<lparr>maskp := memcpy_longs (maskp bmpto) (maskp bmpfrom) (CPU_BYTES (bm_size bmpto))\<rparr>
      else
        let bytes = CPU_BYTES (bm_size bmpfrom);
            p = memcpy_longs (maskp bmpto) (maskp bmpfrom) bytes
        in bmpto\<lparr>maskp := memzero_longs p bytes (CPU_BYTES (bm_size bmpto) - bytes)\<rparr>)"

text \<open>Bit \<open>i\<close> of the words of a mask, the padding included, and the masks whose padding is clear.\<close>

definition wbit :: "ulong list \<Rightarrow> nat \<Rightarrow> bool" where
  "wbit ws i \<longleftrightarrow> i div 64 < length ws \<and> bit (ws ! (i div 64)) (i mod 64)"

definition bm_clean :: "bitmask \<Rightarrow> bool" where
  "bm_clean b \<longleftrightarrow> bm_inv b \<and> (\<forall>i < 64 * length (maskp b). wbit (maskp b) i \<longrightarrow> i < bm_size b)"

lemma isbitset_wbit: "bm_inv b \<Longrightarrow> numa_bitmask_isbitset b i \<longleftrightarrow> i < bm_size b \<and> wbit (maskp b) i"
  using word_index [of i "bm_size b"] by (auto simp: isbitset_bit wbit_def bm_inv_def)

lemma wbit_less: "wbit ws i \<Longrightarrow> i < 64 * length ws"
  unfolding wbit_def by arith

lemma bm_cleanD: "bm_clean b \<Longrightarrow> wbit (maskp b) i \<Longrightarrow> i < bm_size b"
  using wbit_less by (auto simp: bm_clean_def)

lemma wbit_append: "wbit (xs @ ys) i \<longleftrightarrow> (if i < 64 * length xs then wbit xs i else wbit ys (i - 64 * length xs))"
proof (cases "i < 64 * length xs")
  case True
  then have "i div 64 < length xs" by (simp add: div_less_iff_less_mult mult.commute)
  with True show ?thesis by (simp add: wbit_def nth_append)
next
  case False
  then obtain k where k: "i = k + 64 * length xs" by (metis le_add_diff_inverse2 not_less)
  then show ?thesis by (simp add: wbit_def nth_append)
qed

lemma wbit_take: "wbit (take n ws) i \<longleftrightarrow> i < 64 * n \<and> wbit ws i"
  by (auto simp: wbit_def div_less_iff_less_mult mult.commute)

lemma wbit_drop: "wbit (drop n ws) i \<longleftrightarrow> wbit ws (i + 64 * n)"
  by (auto simp: wbit_def add.commute)

lemma wbit_replicate_0 [simp]: "\<not> wbit (replicate n 0) i"
  by (auto simp: wbit_def)

lemma wbit_append_zeros: "wbit (xs @ replicate n 0) i \<longleftrightarrow> wbit xs i"
  by (auto simp: wbit_append dest: wbit_less)

lemma size_le_words: "n \<le> 64 * longsperbits n"
  unfolding longsperbits_def by arith

lemma longsperbits_mono: "m \<le> n \<Longrightarrow> longsperbits m \<le> longsperbits n"
  by (simp add: longsperbits_def div_le_mono)

lemma copy_words:
  assumes "bm_inv from" "bm_inv to" "bm_size from < 2 ^ 32" "bm_size to < 2 ^ 32"
  shows "bm_size (copy_bitmask_to_bitmask from to) = bm_size to"
    "bm_inv (copy_bitmask_to_bitmask from to)"
    "wbit (maskp (copy_bitmask_to_bitmask from to)) i \<longleftrightarrow>
       i < 64 * longsperbits (bm_size to) \<and> wbit (maskp from) i"
proof -
  let ?r = "copy_bitmask_to_bitmask from to"
  let ?f = "longsperbits (bm_size from)" and ?t = "longsperbits (bm_size to)"
  have len: "length (maskp from) = ?f" "length (maskp to) = ?t" using assms by (simp_all add: bm_inv_def)
  show sz: "bm_size ?r = bm_size to" by (simp add: copy_bitmask_to_bitmask_def Let_def)
  have words: "maskp ?r = take ?t (maskp from) @ replicate (?t - ?f) 0"
  proof (cases "bm_size to \<le> bm_size from")
    case True
    then show ?thesis
      using longsperbits_mono [OF True] len assms(4)
      by (simp add: copy_bitmask_to_bitmask_def memcpy_longs_def CPU_LONGS_longsperbits)
  next
    case False
    then have "?f \<le> ?t" by (intro longsperbits_mono) simp
    then show ?thesis
      using False len assms(3,4)
      by (simp add: copy_bitmask_to_bitmask_def memcpy_longs_def memzero_longs_def Let_def
          CPU_LONGS_longsperbits flip: diff_mult_distrib2)
  qed
  then show "bm_inv ?r" using sz len by (simp add: bm_inv_def min_def)
  show "wbit (maskp ?r) i \<longleftrightarrow> i < 64 * ?t \<and> wbit (maskp from) i"
    unfolding words wbit_append_zeros wbit_take by (rule refl)
qed

lemma copy_isbitset:
  assumes "bm_inv from" "bm_inv to" "bm_size from < 2 ^ 32" "bm_size to < 2 ^ 32"
  shows "numa_bitmask_isbitset (copy_bitmask_to_bitmask from to) i \<longleftrightarrow> i < bm_size to \<and> wbit (maskp from) i"
proof -
  have "i < bm_size to \<Longrightarrow> i < 64 * longsperbits (bm_size to)"
    using size_le_words [of "bm_size to"] by linarith
  then show ?thesis
    unfolding isbitset_wbit [OF copy_words(2) [OF assms]] copy_words(1,3) [OF assms] by blast
qed

lemma copy_bits:
  assumes "bm_clean from" "bm_inv to" "bm_size from < 2 ^ 32" "bm_size to < 2 ^ 32"
  shows "bm_bits (copy_bitmask_to_bitmask from to) = bm_bits from \<inter> {..<bm_size to}"
proof -
  have "bm_inv from" using assms(1) by (simp add: bm_clean_def)
  then show ?thesis
    using assms copy_isbitset [OF _ assms(2-4)] by (auto simp: isbitset_wbit dest: bm_cleanD)
qed

lemma copy_clean:
  assumes "bm_clean from" "bm_inv to" "bm_size from \<le> bm_size to" "bm_size to < 2 ^ 32"
  shows "bm_clean (copy_bitmask_to_bitmask from to)"
  using assms copy_words [of "from" to] by (auto simp: bm_clean_def dest: bm_cleanD [OF assms(1)])

section \<open>nodemask_t, the masks of the version 1 interface\<close>

text \<open>\<open>NUMA_NUM_NODES\<close> is 128 on x86; a \<open>nodemask_t\<close> is the array of its two words.  Unlike the
  \<open>numa_bitmask\<close> operations, \<open>nodemask_set_compat\<close> and \<open>nodemask_clr_compat\<close> do not check the index: beyond
  the array the C is undefined, and the model, which then leaves the list alone, is used within it.\<close>

type_synonym nodemask = "ulong list"

definition NUMA_NUM_NODES :: nat where
  "NUMA_NUM_NODES = 128"

definition sizeof_nodemask :: nat where
  "sizeof_nodemask = NUMA_NUM_NODES div 64 * 8"

definition nm_inv :: "nodemask \<Rightarrow> bool" where
  "nm_inv nm \<longleftrightarrow> length nm = NUMA_NUM_NODES div 64"

text \<open>The stack \<open>struct bitmask\<close> that the compatibility wrappers build around a \<open>nodemask_t\<close>.\<close>

definition nodemask_as_bitmask :: "nodemask \<Rightarrow> bitmask" where
  "nodemask_as_bitmask nm = \<lparr>bm_size = sizeof_nodemask * 8, maskp = nm\<rparr>"

definition nodemask_zero :: "nodemask \<Rightarrow> nodemask" where
  "nodemask_zero nm = maskp (numa_bitmask_clearall (nodemask_as_bitmask nm))"

definition nodemask_set_compat :: "nodemask \<Rightarrow> nat \<Rightarrow> nodemask" where
  "nodemask_set_compat nm node = nm[node div 64 := nm ! (node div 64) OR push_bit (node mod 64) 1]"

definition nodemask_clr_compat :: "nodemask \<Rightarrow> nat \<Rightarrow> nodemask" where
  "nodemask_clr_compat nm node =
     nm[node div 64 := nm ! (node div 64) AND NOT (push_bit (node mod 64) 1)]"

definition nodemask_isset_compat :: "nodemask \<Rightarrow> nat \<Rightarrow> bool" where
  "nodemask_isset_compat nm node \<longleftrightarrow>
     (if NUMA_NUM_NODES \<le> node then False
      else nm ! (node div 64) AND push_bit (node mod 64) 1 \<noteq> 0)"

definition nodemask_equal :: "nodemask \<Rightarrow> nodemask \<Rightarrow> bool" where
  "nodemask_equal a b \<longleftrightarrow> numa_bitmask_equal (nodemask_as_bitmask a) (nodemask_as_bitmask b)"

lemma and_bit_neq_0: "(w :: ulong) AND push_bit k 1 \<noteq> 0 \<longleftrightarrow> bit w k"
proof -
  have "bit (w AND push_bit k 1) j \<longleftrightarrow> j = k \<and> bit w k" for j
    using bit_imp_le_length [of w j] by (auto simp: bit_and_iff)
  then show ?thesis by (metis bit_0_eq bit_eqI bot_apply bot_bool_def)
qed

lemma nodemask_isset_bit:
  "nodemask_isset_compat nm i \<longleftrightarrow> i < NUMA_NUM_NODES \<and> bit (nm ! (i div 64)) (i mod 64)"
  unfolding nodemask_isset_compat_def and_bit_neq_0 by auto

lemma nm_index: "nm_inv nm \<Longrightarrow> i < NUMA_NUM_NODES \<Longrightarrow> i div 64 < length nm"
  unfolding nm_inv_def NUMA_NUM_NODES_def by simp

lemma nm_update:
  assumes "nm_inv nm" "i < NUMA_NUM_NODES"
  shows "nodemask_isset_compat (nm[i div 64 := w]) j \<longleftrightarrow>
    (if j div 64 = i div 64 then j < NUMA_NUM_NODES \<and> bit w (j mod 64)
     else nodemask_isset_compat nm j)"
  using nm_index [OF assms] by (simp add: nodemask_isset_bit)

interpretation nm: bitset nodemask_isset_compat nodemask_set_compat nodemask_clr_compat
  "\<lambda>_. NUMA_NUM_NODES" nm_inv
proof unfold_locales
  fix nm i j
  assume A: "nm_inv nm" "i < NUMA_NUM_NODES"
  have eq: "j mod 64 = i mod 64 \<longleftrightarrow> j = i" if "j div 64 = i div 64"
    using that div_mod_eq_iff by blast
  have words: "k div 64 < 2 \<longleftrightarrow> k < NUMA_NUM_NODES" for k :: nat
    by (simp add: div_less_iff_less_mult NUMA_NUM_NODES_def)
  have lt: "j mod 64 < 64" "j div 64 = i div 64 \<Longrightarrow> j < NUMA_NUM_NODES"
    using A(2) words [of i] words [of j] by simp_all
  show "nodemask_isset_compat (nodemask_set_compat nm i) j = (j = i \<or> nodemask_isset_compat nm j)"
    unfolding nodemask_set_compat_def nm_update [OF A]
    using eq lt by (auto simp: nodemask_isset_bit bit_or_iff)
  show "nodemask_isset_compat (nodemask_clr_compat nm i) j = (j \<noteq> i \<and> nodemask_isset_compat nm j)"
    unfolding nodemask_clr_compat_def nm_update [OF A]
    using eq lt by (auto simp: nodemask_isset_bit bit_and_iff bit_not_iff)
qed (simp_all add: nodemask_isset_bit nodemask_set_compat_def nodemask_clr_compat_def nm_inv_def)

section \<open>Between the two representations\<close>

definition copy_bitmask_to_nodemask :: "bitmask \<Rightarrow> nodemask" where
  "copy_bitmask_to_nodemask bmp =
     fold (\<lambda>i nm. if numa_bitmask_isbitset bmp i then nodemask_set_compat nm i else nm)
       [0..<min (bm_size bmp) (sizeof_nodemask * 8)] (replicate (sizeof_nodemask div 8) 0)"

definition copy_nodemask_to_bitmask :: "nodemask \<Rightarrow> bitmask \<Rightarrow> bitmask" where
  "copy_nodemask_to_bitmask nmp bmp =
     fold (\<lambda>i b. if nodemask_isset_compat nmp i then numa_bitmask_setbit b i else b)
       [0..<min (sizeof_nodemask * 8) (bm_size bmp)] (numa_bitmask_clearall bmp)"

lemma sizeof_nodemask_bits: "sizeof_nodemask * 8 = NUMA_NUM_NODES"
  by (simp add: sizeof_nodemask_def NUMA_NUM_NODES_def)

lemma nm_inv_zero: "nm_inv (replicate (sizeof_nodemask div 8) 0)"
  by (simp add: nm_inv_def sizeof_nodemask_def NUMA_NUM_NODES_def)

lemma isset_zero [simp]: "\<not> nodemask_isset_compat (replicate (sizeof_nodemask div 8) 0) i"
  using nm_index [OF nm_inv_zero, of i] by (auto simp: nodemask_isset_bit)

lemma copy_to_nodemask:
  "nm_inv (copy_bitmask_to_nodemask b)"
  "nodemask_isset_compat (copy_bitmask_to_nodemask b) i \<longleftrightarrow> i < NUMA_NUM_NODES \<and> numa_bitmask_isbitset b i"
proof -
  let ?z = "replicate (sizeof_nodemask div 8) (0 :: ulong)"
  note L = nm.put_loop [OF nm_inv_zero, of "[0..<min (bm_size b) (sizeof_nodemask * 8)]"
      "numa_bitmask_isbitset b", folded copy_bitmask_to_nodemask_def, unfolded sizeof_nodemask_bits]
  then show "nm_inv (copy_bitmask_to_nodemask b)" by simp
  from L show "nodemask_isset_compat (copy_bitmask_to_nodemask b) i \<longleftrightarrow>
      i < NUMA_NUM_NODES \<and> numa_bitmask_isbitset b i"
    by (auto dest: bm.test_cap)
qed

lemma copy_from_nodemask:
  assumes "bm_inv b"
  shows "bm_inv (copy_nodemask_to_bitmask nm b)" "bm_size (copy_nodemask_to_bitmask nm b) = bm_size b"
    "numa_bitmask_isbitset (copy_nodemask_to_bitmask nm b) i \<longleftrightarrow> i < bm_size b \<and> nodemask_isset_compat nm i"
proof -
  note C = clearall_bits [OF assms]
  note L = bm.put_loop_total [OF C(1), of "nodemask_isset_compat nm"
      "[0..<min (sizeof_nodemask * 8) (bm_size b)]", folded copy_nodemask_to_bitmask_def,
      unfolded sizeof_nodemask_bits]
  have "\<not> numa_bitmask_isbitset (numa_bitmask_clearall b) j" for j
    using C(3) by (auto simp: bm_bits_def)
  with L C show "bm_inv (copy_nodemask_to_bitmask nm b)"
    "bm_size (copy_nodemask_to_bitmask nm b) = bm_size b"
    "numa_bitmask_isbitset (copy_nodemask_to_bitmask nm b) i \<longleftrightarrow> i < bm_size b \<and> nodemask_isset_compat nm i"
    by (auto dest: nm.test_cap)
qed

text \<open>Two version 1 masks with the same bits are the same array.\<close>

lemma nodemask_ext:
  assumes "nm_inv a" "nm_inv b" "\<And>i. nodemask_isset_compat a i = nodemask_isset_compat b i"
  shows "a = b"
proof (rule nth_equalityI)
  show "length a = length b" using assms by (simp add: nm_inv_def)
  fix k assume k: "k < length a"
  show "a ! k = b ! k"
  proof (rule bit_eqI)
    fix j assume "possible_bit TYPE(ulong) j"
    then have j: "j < 64" by simp
    have "64 * k + j < NUMA_NUM_NODES"
      using k j assms(1) by (simp add: nm_inv_def NUMA_NUM_NODES_def)
    moreover have "(64 * k + j) div 64 = k" "(64 * k + j) mod 64 = j" using j by simp_all
    ultimately show "bit (a ! k) j = bit (b ! k) j"
      using assms(3) [of "64 * k + j"] by (simp add: nodemask_isset_bit)
  qed
qed

text \<open>The members of a mask in ascending order.\<close>

definition members :: "bitmask \<Rightarrow> nat list" where
  "members b = filter (numa_bitmask_isbitset b) [0..<bm_size b]"

lemma set_members: "set (members m) = bm_bits m"
proof -
  have "i \<in> bm_bits m \<Longrightarrow> i < bm_size m" for i using bm_bits_below by blast
  then show ?thesis by (auto simp: members_def)
qed

lemma equal_members:
  assumes "bm_size a = bm_size b"
  shows "numa_bitmask_equal a b \<longleftrightarrow> members a = members b"
proof
  assume "numa_bitmask_equal a b"
  then have "numa_bitmask_isbitset a = numa_bitmask_isbitset b"
    unfolding equal_bits by (simp add: bm_bits_def set_eq_iff fun_eq_iff)
  then show "members a = members b" using assms by (simp add: members_def)
next
  assume "members a = members b"
  then show "numa_bitmask_equal a b" unfolding equal_bits by (metis set_members)
qed

text \<open>Copying between masks of the same size.\<close>

lemma copy_same:
  assumes "bm_inv a" "bm_inv b" "bm_size a = bm_size b" "bm_size a < 2 ^ 32"
  shows "copy_bitmask_to_bitmask a b = a"
proof -
  have "maskp (copy_bitmask_to_bitmask a b) = maskp a"
    using assms by (simp add: copy_bitmask_to_bitmask_def memcpy_longs_def CPU_LONGS_longsperbits bm_inv_def)
  moreover have "bm_size (copy_bitmask_to_bitmask a b) = bm_size a"
    using copy_words(1) [OF assms(1,2)] assms by simp
  ultimately show ?thesis by (simp add: bitmask.equality)
qed

end
