(* ===== verification/CString.thy ===== *)
theory CString
  imports Prelude "HOL-Library.Sublist"
begin

text \<open>
  C strings and the part of the C library that the program parses with.  A NUL-terminated string is
  the list of its characters up to the terminating NUL; a \<open>char *\<close> that walks through a string is the
  suffix it points at, so \<open>*s\<close> is the head of the suffix and the NUL is the empty suffix.  The
  functions follow glibc in the C locale: \<open>strtoul\<close> skips white space, takes a sign, a base prefix
  and as many digits as there are, saturates at \<open>ULONG_MAX\<close>, negates modulo 2\<open>^\<close>64, and leaves the end
  pointer at the start of the string when there is no digit.  The printers are \<open>%d\<close> and \<open>%08x\<close>.
\<close>

section \<open>Character classes\<close>

definition char_code :: "char \<Rightarrow> nat" where
  "char_code c = of_char c"

definition c_isspace :: "char \<Rightarrow> bool" where
  "c_isspace c \<longleftrightarrow> char_code c = 32 \<or> (9 \<le> char_code c \<and> char_code c \<le> 13)"

definition c_isdigit :: "char \<Rightarrow> bool" where
  "c_isdigit c \<longleftrightarrow> 48 \<le> char_code c \<and> char_code c \<le> 57"

definition c_isalpha :: "char \<Rightarrow> bool" where
  "c_isalpha c \<longleftrightarrow> (65 \<le> char_code c \<and> char_code c \<le> 90) \<or> (97 \<le> char_code c \<and> char_code c \<le> 122)"

definition c_toupper :: "char \<Rightarrow> char" where
  "c_toupper c = (if 97 \<le> char_code c \<and> char_code c \<le> 122 then char_of (char_code c - 32) else c)"

text \<open>The value of a character as a digit of some base up to 36.\<close>

definition digit_val :: "char \<Rightarrow> nat option" where
  "digit_val c =
     (let n = char_code c in
      if 48 \<le> n \<and> n \<le> 57 then Some (n - 48)
      else if 97 \<le> n \<and> n \<le> 122 then Some (n - 87)
      else if 65 \<le> n \<and> n \<le> 90 then Some (n - 55)
      else None)"

definition is_digit_of :: "nat \<Rightarrow> char \<Rightarrow> bool" where
  "is_digit_of base c \<longleftrightarrow> (case digit_val c of None \<Rightarrow> False | Some d \<Rightarrow> d < base)"

lemma is_digit_of_mono: "is_digit_of b c \<Longrightarrow> b \<le> b' \<Longrightarrow> is_digit_of b' c"
  by (auto simp: is_digit_of_def split: option.splits)

section \<open>strtoul and strtol\<close>

fun digits_value :: "nat \<Rightarrow> nat \<Rightarrow> string \<Rightarrow> nat \<times> string" where
  "digits_value base acc [] = (acc, [])"
| "digits_value base acc (c # cs) =
     (case digit_val c of
        None \<Rightarrow> (acc, c # cs)
      | Some d \<Rightarrow> if d < base then digits_value base (acc * base + d) cs else (acc, c # cs))"

text \<open>The sign, and the base prefix: \<open>0x\<close> counts as a prefix only before a hexadecimal digit.\<close>

fun take_sign :: "string \<Rightarrow> bool \<times> string" where
  "take_sign [] = (False, [])"
| "take_sign (c # cs) =
     (if c = CHR ''-'' then (True, cs) else if c = CHR ''+'' then (False, cs) else (False, c # cs))"

definition has_hex_prefix :: "string \<Rightarrow> bool" where
  "has_hex_prefix s \<longleftrightarrow>
     (case s of z # x # c # _ \<Rightarrow> z = CHR ''0'' \<and> (x = CHR ''x'' \<or> x = CHR ''X'') \<and> is_digit_of 16 c
      | _ \<Rightarrow> False)"

definition take_base :: "nat \<Rightarrow> string \<Rightarrow> nat \<times> string" where
  "take_base base s =
     (if (base = 0 \<or> base = 16) \<and> has_hex_prefix s then (16, drop 2 s)
      else if base = 0 then (if take 1 s = ''0'' then 8 else 10, s)
      else (base, s))"

definition starts_digit :: "nat \<Rightarrow> string \<Rightarrow> bool" where
  "starts_digit base s \<longleftrightarrow> (case s of [] \<Rightarrow> False | c # _ \<Rightarrow> is_digit_of base c)"

text \<open>\<open>scan_int s base\<close>: the sign, the magnitude and the end pointer, or no number at all.\<close>

definition scan_int :: "string \<Rightarrow> nat \<Rightarrow> (bool \<times> nat \<times> string) option" where
  "scan_int s base =
     (let (neg, s1) = take_sign (dropWhile c_isspace s);
          (b, s2) = take_base base s1
      in if starts_digit b s2
         then (let (v, r) = digits_value b 0 s2 in Some (neg, v, r))
         else None)"

definition strtoul :: "string \<Rightarrow> nat \<Rightarrow> nat \<times> string" where
  "strtoul s base =
     (case scan_int s base of
        None \<Rightarrow> (0, s)
      | Some (neg, v, r) \<Rightarrow>
          (if ULONG_MAX < v then ULONG_MAX else if neg then c_ulong (- int v) else v, r))"

definition strtol :: "string \<Rightarrow> nat \<Rightarrow> int \<times> string" where
  "strtol s base =
     (case scan_int s base of
        None \<Rightarrow> (0, s)
      | Some (neg, v, r) \<Rightarrow>
          (if neg then max (- (2 ^ 63)) (- int v) else min (2 ^ 63 - 1) (int v), r))"

lemmas strtoul_eval =
  strtoul_def scan_int_def take_base_def has_hex_prefix_def starts_digit_def is_digit_of_def digit_val_def
  char_code_def c_isspace_def ULONG_MAX_def

lemma suffix_digits_value: "suffix (snd (digits_value b acc s)) s"
  by (induction b acc s rule: digits_value.induct) (auto intro: suffix_ConsI split: option.splits)

lemma suffix_take_sign: "suffix (snd (take_sign s)) s"
  by (cases s) (auto intro: suffix_ConsI)

lemma suffix_take_base: "suffix (snd (take_base b s)) s"
  by (simp add: take_base_def suffix_drop)

lemma scan_int_suffix:
  assumes "scan_int s b = Some (neg, v, r)"
  shows "suffix r s \<and> r \<noteq> s"
proof -
  obtain n1 s1 where s1: "take_sign (dropWhile c_isspace s) = (n1, s1)" by force
  obtain b2 s2 where s2: "take_base b s1 = (b2, s2)" by force
  obtain v3 r3 where r3: "digits_value b2 0 s2 = (v3, r3)" by force
  from assms s1 s2 r3 have d: "starts_digit b2 s2" and r: "r = r3"
    by (auto simp: scan_int_def split: if_splits)
  from d obtain c cs where c: "s2 = c # cs" "is_digit_of b2 c"
    by (auto simp: starts_digit_def split: list.splits)
  then have "suffix r3 cs"
    using r3 by (auto simp: is_digit_of_def split: option.splits)
      (metis snd_conv suffix_digits_value)
  then have "length r3 < length s2" using c by (auto dest: suffix_length_le)
  moreover have "suffix s2 s1" using s2 suffix_take_base [of b s1] by simp
  moreover have "suffix s1 (dropWhile c_isspace s)"
    using s1 suffix_take_sign [of "dropWhile c_isspace s"] by simp
  moreover have "suffix (dropWhile c_isspace s) s" by (rule suffix_dropWhile)
  ultimately have "suffix s2 s" by (blast intro: suffix_order.trans)
  moreover have "suffix r3 s2" using \<open>suffix r3 cs\<close> c by (simp add: suffix_ConsI)
  ultimately have "suffix r3 s" by (blast intro: suffix_order.trans)
  moreover have "length r3 < length s"
    using \<open>length r3 < length s2\<close> \<open>suffix s2 s\<close> by (auto dest: suffix_length_le)
  ultimately show ?thesis using r by auto
qed

lemma strtoul_suffix: "suffix (snd (strtoul s b)) s"
  by (auto simp: strtoul_def dest: scan_int_suffix split: option.splits)

lemma strtol_suffix: "suffix (snd (strtol s b)) s"
  by (auto simp: strtol_def dest: scan_int_suffix split: option.splits)

text \<open>The fact the termination of every parsing loop rests on: an end pointer that moved leaves less.\<close>

lemma suffix_neq_length: "suffix r s \<Longrightarrow> r \<noteq> s \<Longrightarrow> length r < length s"
  by (auto simp: suffix_def)

lemma strtoul_shorter: "strtoul s b = (v, r) \<Longrightarrow> r \<noteq> s \<Longrightarrow> length r < length s"
  using strtoul_suffix [of s b] by (simp add: suffix_neq_length)

lemma strtol_shorter: "strtol s b = (v, r) \<Longrightarrow> r \<noteq> s \<Longrightarrow> length r < length s"
  using strtol_suffix [of s b] by (simp add: suffix_neq_length)

lemma strtoul_bound: "fst (strtoul s b) \<le> ULONG_MAX"
proof -
  have "c_ulong x < 2 ^ 64" for x
    by (simp add: c_ulong_def nat_less_iff)
  then have "c_ulong x \<le> ULONG_MAX" for x
    using less_Suc_eq_le [of "c_ulong x" ULONG_MAX] by (simp add: ULONG_MAX_def)
  then show ?thesis by (auto simp: strtoul_def split: option.splits)
qed

section \<open>Searching\<close>

text \<open>\<open>strstr\<close> and \<open>strcasestr\<close>: the index of the first occurrence.\<close>

fun find_sub :: "(char \<Rightarrow> char) \<Rightarrow> string \<Rightarrow> string \<Rightarrow> nat option" where
  "find_sub f pat [] = (if pat = [] then Some 0 else None)"
| "find_sub f pat (c # cs) =
     (if map f (take (length pat) (c # cs)) = map f pat then Some 0 else map_option Suc (find_sub f pat cs))"

definition strstr :: "string \<Rightarrow> string \<Rightarrow> nat option" where
  "strstr s pat = find_sub id pat s"

definition strcasestr :: "string \<Rightarrow> string \<Rightarrow> nat option" where
  "strcasestr s pat = find_sub c_toupper pat s"

section \<open>Printing numbers\<close>

definition digit_char :: "nat \<Rightarrow> char" where
  "digit_char d = (if d < 10 then char_of (48 + d) else char_of (87 + d))"

text \<open>\<open>%u\<close>, \<open>%d\<close> and \<open>%0kx\<close>.\<close>

fun dec_nat :: "nat \<Rightarrow> string" where
  "dec_nat n = (if n < 10 then [digit_char n] else dec_nat (n div 10) @ [digit_char (n mod 10)])"

declare dec_nat.simps [simp del]

definition dec_int :: "int \<Rightarrow> string" where
  "dec_int i = (if i < 0 then CHR ''-'' # dec_nat (nat (- i)) else dec_nat (nat i))"

fun pad_hex :: "nat \<Rightarrow> nat \<Rightarrow> string" where
  "pad_hex 0 n = []"
| "pad_hex (Suc k) n = pad_hex k (n div 16) @ [digit_char (n mod 16)]"

text \<open>\<open>%x\<close> and \<open>%0kx\<close>, which is at least \<open>k\<close> digits wide.\<close>

fun hex_nat :: "nat \<Rightarrow> string" where
  "hex_nat n = (if n < 16 then [digit_char n] else hex_nat (n div 16) @ [digit_char (n mod 16)])"

declare hex_nat.simps [simp del]

definition hex_field :: "nat \<Rightarrow> nat \<Rightarrow> string" where
  "hex_field k n = replicate (k - length (hex_nat n)) CHR ''0'' @ hex_nat n"

lemma digit_val_char: "d < 36 \<Longrightarrow> digit_val (digit_char d) = Some d"
  by (auto simp: digit_val_def digit_char_def char_code_def Let_def)

lemma is_digit_of_char: "d < b \<Longrightarrow> b \<le> 36 \<Longrightarrow> is_digit_of b (digit_char d)"
  by (simp add: is_digit_of_def digit_val_char)

lemma length_pad_hex [simp]: "length (pad_hex k n) = k"
  by (induction k arbitrary: n) simp_all

lemma set_pad_hex: "c \<in> set (pad_hex k n) \<Longrightarrow> is_digit_of 16 c"
  by (induction k arbitrary: n) (auto simp: is_digit_of_char)

lemma set_dec_nat: "c \<in> set (dec_nat n) \<Longrightarrow> is_digit_of 10 c"
proof (induction n rule: dec_nat.induct)
  case (1 n)
  then show ?case
    by (subst (asm) (2) dec_nat.simps) (auto simp: is_digit_of_char split: if_splits)
qed

lemma dec_nat_neq_Nil [simp]: "dec_nat n \<noteq> []"
  by (subst dec_nat.simps) simp

lemma is_digit_of_10: "is_digit_of 10 c \<longleftrightarrow> c_isdigit c"
  by (auto simp: is_digit_of_def digit_val_def c_isdigit_def Let_def split: option.splits)

text \<open>A digit is no white space, no sign and no letter \<open>x\<close>.\<close>

lemma digit_not_special:
  assumes "is_digit_of 16 c"
  shows "\<not> c_isspace c" "c \<noteq> CHR ''-''" "c \<noteq> CHR ''+''" "c \<noteq> CHR ''x''" "c \<noteq> CHR ''X''"
    "c \<noteq> CHR '',''"
  using assms
  by (auto simp: is_digit_of_def digit_val_def c_isspace_def char_code_def Let_def split: if_splits)

section \<open>Parsing back what was printed\<close>

fun digits_acc :: "nat \<Rightarrow> nat \<Rightarrow> string \<Rightarrow> nat" where
  "digits_acc b a [] = a"
| "digits_acc b a (c # cs) = digits_acc b (a * b + the (digit_val c)) cs"

lemma digits_acc_append [simp]: "digits_acc b a (xs @ ys) = digits_acc b (digits_acc b a xs) ys"
  by (induction xs arbitrary: a) simp_all

lemma digits_value_append:
  assumes "\<And>c. c \<in> set xs \<Longrightarrow> is_digit_of b c"
  shows "digits_value b acc (xs @ r) = digits_value b (digits_acc b acc xs) r"
  using assms
proof (induction xs arbitrary: acc)
  case (Cons x xs)
  have "is_digit_of b x" using Cons.prems by simp
  then obtain d where "digit_val x = Some d" "d < b"
    by (auto simp: is_digit_of_def split: option.splits)
  with Cons show ?case by simp
qed simp

lemma digits_value_stop: "\<not> starts_digit b r \<Longrightarrow> digits_value b acc r = (acc, r)"
  by (cases r) (auto simp: starts_digit_def is_digit_of_def split: option.splits)

lemma digits_acc_pad_hex: "digits_acc 16 a (pad_hex k n) = a * 16 ^ k + n mod 16 ^ k"
proof (induction k arbitrary: n)
  case (Suc k)
  have "n mod 16 ^ Suc k = 16 * (n div 16 mod 16 ^ k) + n mod 16"
    by (simp add: mod_mult2_eq)
  then show ?case by (simp add: Suc digit_val_char algebra_simps)
qed simp

lemma digits_acc_dec_nat: "digits_acc 10 a (dec_nat n) = a * 10 ^ length (dec_nat n) + n"
proof (induction n arbitrary: a rule: dec_nat.induct)
  case (1 n)
  show ?case
  proof (cases "n < 10")
    case True
    then show ?thesis by (simp add: dec_nat.simps [of n] digit_val_char)
  next
    case False
    then have "digits_acc 10 a (dec_nat (n div 10)) = a * 10 ^ length (dec_nat (n div 10)) + n div 10"
      by (rule "1.IH")
    moreover have "dec_nat n = dec_nat (n div 10) @ [digit_char (n mod 10)]"
      using False by (simp add: dec_nat.simps [of n])
    ultimately show ?thesis
      by (simp add: digit_val_char algebra_simps)
  qed
qed

text \<open>What may follow a number so that it ends there: no digit, and no \<open>x\<close> that a leading zero could
  turn into a base prefix.\<close>

definition hex_stop :: "string \<Rightarrow> bool" where
  "hex_stop r \<longleftrightarrow> \<not> starts_digit 16 r \<and> take 1 r \<noteq> ''x'' \<and> take 1 r \<noteq> ''X''"

lemma hex_digits_not_prefixed:
  assumes "\<And>c. c \<in> set xs \<Longrightarrow> is_digit_of 16 c" and "hex_stop r" "xs \<noteq> []"
  shows "\<not> has_hex_prefix (xs @ r)"
proof -
  obtain z zs where z: "xs = z # zs" using \<open>xs \<noteq> []\<close> by (cases xs) auto
  show ?thesis
  proof (cases zs)
    case Nil
    then show ?thesis using z assms(2) by (auto simp: has_hex_prefix_def hex_stop_def split: list.splits)
  next
    case (Cons x ys)
    then show ?thesis
      using z assms(1) [of x] by (auto simp: has_hex_prefix_def digit_not_special split: list.splits)
  qed
qed

text \<open>A run of hexadecimal digits is read whole.\<close>

lemma strtoul_hex_run:
  assumes "\<And>c. c \<in> set xs \<Longrightarrow> is_digit_of 16 c" and "xs \<noteq> []" and "hex_stop r"
    and "digits_acc 16 0 xs \<le> ULONG_MAX"
  shows "strtoul (xs @ r) 16 = (digits_acc 16 0 xs, r)"
proof -
  obtain c cs where xs: "xs = c # cs" using \<open>xs \<noteq> []\<close> by (cases xs) auto
  have c: "is_digit_of 16 c" using assms(1) xs by simp
  have "dropWhile c_isspace (xs @ r) = xs @ r" and "take_sign (xs @ r) = (False, xs @ r)"
    using c xs by (simp_all add: digit_not_special)
  moreover have "take_base 16 (xs @ r) = (16, xs @ r)"
    using hex_digits_not_prefixed [OF assms(1) assms(3) assms(2)] by (simp add: take_base_def)
  moreover have "starts_digit 16 (xs @ r)" using c xs by (simp add: starts_digit_def)
  moreover have "digits_value 16 0 (xs @ r) = (digits_acc 16 0 xs, r)"
    using assms by (simp add: digits_value_append digits_value_stop hex_stop_def)
  ultimately show ?thesis using assms(4) by (simp add: strtoul_def scan_int_def)
qed

lemma strtoul_pad_hex:
  assumes "n < 16 ^ k" "0 < k" "k \<le> 16" "hex_stop r"
  shows "strtoul (pad_hex k n @ r) 16 = (n, r)"
proof -
  have "(16 :: nat) ^ k \<le> 16 ^ 16" using \<open>k \<le> 16\<close> by (intro power_increasing) simp_all
  with \<open>n < 16 ^ k\<close> have "n < 16 ^ 16" by simp
  then have "n \<le> ULONG_MAX" by (simp add: ULONG_MAX_def)
  moreover have "pad_hex k n \<noteq> []" using \<open>0 < k\<close> length_pad_hex [of k n] by (cases k) auto
  ultimately show ?thesis
    using assms strtoul_hex_run [of "pad_hex k n" r]
    by (simp add: digits_acc_pad_hex set_pad_hex)
qed

lemma hd_dec_nat: "n \<noteq> 0 \<Longrightarrow> hd (dec_nat n) \<noteq> CHR ''0''"
proof (induction n rule: dec_nat.induct)
  case (1 n)
  show ?case
  proof (cases "n < 10")
    case True
    with "1.prems" have "digit_val (digit_char n) \<noteq> digit_val CHR ''0''"
      by (simp add: digit_val_char) (simp add: digit_val_def char_code_def)
    with True show ?thesis by (auto simp: dec_nat.simps [of n])
  next
    case False
    then have "hd (dec_nat (n div 10)) \<noteq> CHR ''0''" by (intro "1.IH") simp_all
    with False show ?thesis by (simp add: dec_nat.simps [of n] hd_append)
  qed
qed

text \<open>A decimal number is read back with base 0, the base the parsers of this program pass.\<close>

lemma scan_int_dec_nat:
  assumes r: "\<not> starts_digit 10 r" "take 1 r \<noteq> ''x''" "take 1 r \<noteq> ''X''"
  shows "scan_int (dec_nat n @ r) 0 = Some (False, n, r)"
proof -
  obtain c cs where xs: "dec_nat n = c # cs" by (cases "dec_nat n") simp_all
  have c: "is_digit_of 10 c" using set_dec_nat [of c n] xs by simp
  then have c16: "is_digit_of 16 c" by (rule is_digit_of_mono) simp
  have ws: "dropWhile c_isspace (dec_nat n @ r) = dec_nat n @ r"
    and sg: "take_sign (dec_nat n @ r) = (False, dec_nat n @ r)"
    using c16 xs by (simp_all add: digit_not_special)
  have nx: "\<not> has_hex_prefix (dec_nat n @ r)"
  proof (cases cs)
    case Nil
    then show ?thesis using xs r(2,3) by (auto simp: has_hex_prefix_def split: list.splits)
  next
    case (Cons d ds)
    then have "is_digit_of 16 d"
      using set_dec_nat [of d n] xs by (auto intro: is_digit_of_mono)
    then show ?thesis
      using xs Cons by (auto simp: has_hex_prefix_def digit_not_special split: list.splits)
  qed
  show ?thesis
  proof (cases "n = 0")
    case True
    have "digit_char 0 = CHR ''0''" by code_simp
    with True have z: "dec_nat n = ''0''" by (simp add: dec_nat.simps)
    have "\<not> starts_digit 8 r"
      using r(1) by (auto simp: starts_digit_def intro: is_digit_of_mono split: list.splits)
    then show ?thesis
      using True z ws sg nx
      by (simp add: scan_int_def take_base_def starts_digit_def is_digit_of_def
          digit_val_def char_code_def digits_value_stop)
  next
    case False
    then have "take_base 0 (dec_nat n @ r) = (10, dec_nat n @ r)"
      using hd_dec_nat [of n] xs nx by (simp add: take_base_def)
    moreover have "starts_digit 10 (dec_nat n @ r)" using c xs by (simp add: starts_digit_def)
    moreover have "digits_value 10 0 (dec_nat n @ r) = (n, r)"
      using r(1) by (simp add: digits_value_append set_dec_nat digits_acc_dec_nat digits_value_stop)
    ultimately show ?thesis using ws sg by (simp add: scan_int_def)
  qed
qed

lemma strtoul_dec_nat:
  assumes "n \<le> ULONG_MAX" "\<not> starts_digit 10 r" "take 1 r \<noteq> ''x''" "take 1 r \<noteq> ''X''"
  shows "strtoul (dec_nat n @ r) 0 = (n, r)"
  using scan_int_dec_nat [OF assms(2-4), of n] assms(1) by (simp add: strtoul_def)

lemma strtol_dec_nat:
  assumes "n < 2 ^ 63" "\<not> starts_digit 10 r" "take 1 r \<noteq> ''x''" "take 1 r \<noteq> ''X''"
  shows "strtol (dec_nat n @ r) 0 = (int n, r)"
  using scan_int_dec_nat [OF assms(2-4), of n] assms(1) by (simp add: strtol_def)

end
