(* ===== verification/System.thy ===== *)
theory System
  imports Bitmask CString
begin

unbundle bit_operations_syntax

text \<open>
  What the library runs on and in.  The kernel, the memory and the files are not code of the
  repository: the record \<open>os\<close> is the parameter that stands for them, one field per system call or
  library service the code uses, over an arbitrary state of the world.  The record \<open>numa\<close> holds the
  library's own global variables (\<open>libnuma.c\<close> lines 46-89, \<open>distance.c\<close> lines 27-28), \<open>errno\<close>, and what
  has been printed to standard error.  The error and warning routines (lines 338-374), the allocation
  of a bitmask (224-254) and the size queries (726-846) are modelled here.
\<close>

section \<open>Error numbers and warnings\<close>

datatype errno = E0 | EPERM | ENOENT | ENOMEM | EINVAL | ERANGE | ENOSYS | EOther nat

text \<open>\<open>enum numa_warn\<close> of \<open>numaint.h\<close>.\<close>

datatype warn_kind =
    W_nosysfs | W_noproc | W_badmeminfo | W_nosysfs2 | W_cpumap | W_numcpus | W_noderunmask
  | W_distance | W_memory | W_cpuparse | W_nodeparse | W_blockdev1 | W_blockdev2 | W_blockdev3
  | W_blockdev4 | W_blockdev5 | W_netlink1 | W_netlink2 | W_netlink3 | W_net1 | W_net2 | W_class1
  | W_class2 | W_pci1 | W_pci2 | W_node_parse1 | W_node_parse2 | W_nonode | W_badchar

primrec warn_num :: "warn_kind \<Rightarrow> nat" where
  "warn_num W_nosysfs = 0" | "warn_num W_noproc = 1" | "warn_num W_badmeminfo = 2"
| "warn_num W_nosysfs2 = 3" | "warn_num W_cpumap = 4" | "warn_num W_numcpus = 5"
| "warn_num W_noderunmask = 6" | "warn_num W_distance = 7" | "warn_num W_memory = 8"
| "warn_num W_cpuparse = 9" | "warn_num W_nodeparse = 10" | "warn_num W_blockdev1 = 11"
| "warn_num W_blockdev2 = 12" | "warn_num W_blockdev3 = 13" | "warn_num W_blockdev4 = 14"
| "warn_num W_blockdev5 = 15" | "warn_num W_netlink1 = 16" | "warn_num W_netlink2 = 17"
| "warn_num W_netlink3 = 18" | "warn_num W_net1 = 19" | "warn_num W_net2 = 20"
| "warn_num W_class1 = 21" | "warn_num W_class2 = 22" | "warn_num W_pci1 = 23"
| "warn_num W_pci2 = 24" | "warn_num W_node_parse1 = 25" | "warn_num W_node_parse2 = 26"
| "warn_num W_nonode = 27" | "warn_num W_badchar = 28"

lemma warn_num_less: "warn_num w < 32"
  by (cases w) simp_all

lemma warn_num_inj: "warn_num v = warn_num w \<Longrightarrow> v = w"
  by (cases v; cases w) simp_all

section \<open>The operating system\<close>

text \<open>A system call returns \<open>Inl\<close> the error number it sets, or \<open>Inr\<close> its results and the new world.
  Buffers that a call fills are passed in with their old contents and returned.  \<open>os_file\<close> is the
  contents of a file, or the error \<open>fopen\<close> sets; \<open>os_dir\<close> the entries \<open>readdir\<close> delivers; \<open>os_mmap\<close>
  the private anonymous read-write mapping of the library; \<open>os_touch\<close> the atomic access to one byte.\<close>

record 'w os =
  os_malloc_ok :: "'w \<Rightarrow> nat \<Rightarrow> bool"
  os_get_mempolicy :: "'w \<Rightarrow> ulong list \<Rightarrow> nat \<Rightarrow> nat \<Rightarrow> uint \<Rightarrow> errno + (int \<times> ulong list)"
  os_set_mempolicy :: "'w \<Rightarrow> int \<Rightarrow> ulong list \<Rightarrow> nat \<Rightarrow> errno + 'w"
  os_mbind :: "'w \<Rightarrow> nat \<Rightarrow> nat \<Rightarrow> int \<Rightarrow> ulong list option \<Rightarrow> nat \<Rightarrow> uint \<Rightarrow> errno + 'w"
  os_home_node :: "'w \<Rightarrow> nat \<Rightarrow> nat \<Rightarrow> int \<Rightarrow> int \<Rightarrow> errno + 'w"
  os_migrate_pages :: "'w \<Rightarrow> int \<Rightarrow> nat \<Rightarrow> ulong list \<Rightarrow> ulong list \<Rightarrow> errno + (int \<times> 'w)"
  os_move_pages :: "'w \<Rightarrow> int \<Rightarrow> nat \<Rightarrow> nat list \<Rightarrow> int list option \<Rightarrow> int list \<Rightarrow> int \<Rightarrow> errno + (int \<times> int list \<times> 'w)"
  os_setaffinity :: "'w \<Rightarrow> int \<Rightarrow> nat \<Rightarrow> ulong list \<Rightarrow> errno + 'w"
  os_getaffinity :: "'w \<Rightarrow> int \<Rightarrow> nat \<Rightarrow> ulong list \<Rightarrow> errno + (int \<times> ulong list)"
  os_mmap :: "'w \<Rightarrow> nat \<Rightarrow> (nat \<times> 'w) option"
  os_mremap :: "'w \<Rightarrow> nat \<Rightarrow> nat \<Rightarrow> nat \<Rightarrow> (nat \<times> 'w) option"
  os_munmap :: "'w \<Rightarrow> nat \<Rightarrow> nat \<Rightarrow> 'w"
  os_touch :: "'w \<Rightarrow> nat \<Rightarrow> 'w"
  os_file :: "'w \<Rightarrow> string \<Rightarrow> errno + string"
  os_dir :: "'w \<Rightarrow> string \<Rightarrow> string list option"
  os_nprocs_conf :: "'w \<Rightarrow> int"
  os_pagesize :: "'w \<Rightarrow> int"

section \<open>The global variables of the library\<close>

record 'w numa =
  world :: 'w
  errno :: errno
  err_out :: "string list"
  warn_out :: "warn_kind list"
  warned :: uint
  numa_exit_on_error :: bool
  numa_exit_on_warn :: bool
  numa_fail_alloc_on_error :: bool
  numa_no_nodes :: nodemask
  numa_all_nodes :: nodemask
  numa_no_nodes_ptr :: "bitmask option"
  numa_all_nodes_ptr :: "bitmask option"
  numa_possible_nodes_ptr :: "bitmask option"
  numa_all_cpus_ptr :: "bitmask option"
  numa_possible_cpus_ptr :: "bitmask option"
  numa_nodes_ptr :: "bitmask option"
  numa_memnode_ptr :: "bitmask option"
  node_cpu_mask_v1 :: "ulong list option list"
  node_cpu_mask_v1_stale :: bool
  node_cpu_mask_v2 :: "bitmask option list option"
  node_cpu_mask_v2_stale :: bool
  bind_policy :: int
  mbind_flags :: uint
  sizes_set :: int
  maxconfigurednode :: int
  maxconfiguredcpu :: int
  numprocnode :: int
  numproccpu :: int
  nodemask_sz :: int
  cpumask_sz :: int
  has_preferred_many :: int
  has_home_node :: int
  pagesize :: int
  run_mask_size :: int
  distance_numnodes :: int
  distance_table :: "int list option"

text \<open>The initial values: what the loader finds in the data and bss segments.\<close>

definition initial_numa :: "'w \<Rightarrow> 'w numa" where
  "initial_numa w = \<lparr>
     world = w, errno = E0, err_out = [], warn_out = [], warned = 0,
     numa_exit_on_error = False, numa_exit_on_warn = False, numa_fail_alloc_on_error = False,
     numa_no_nodes = replicate (sizeof_nodemask div 8) 0,
     numa_all_nodes = replicate (sizeof_nodemask div 8) 0,
     numa_no_nodes_ptr = None, numa_all_nodes_ptr = None, numa_possible_nodes_ptr = None,
     numa_all_cpus_ptr = None, numa_possible_cpus_ptr = None, numa_nodes_ptr = None,
     numa_memnode_ptr = None,
     node_cpu_mask_v1 = replicate NUMA_NUM_NODES None, node_cpu_mask_v1_stale = True,
     node_cpu_mask_v2 = None, node_cpu_mask_v2_stale = True,
     bind_policy = 2, mbind_flags = 0, sizes_set = 0, maxconfigurednode = - 1,
     maxconfiguredcpu = - 1, numprocnode = - 1, numproccpu = - 1, nodemask_sz = 0, cpumask_sz = 0,
     has_preferred_many = - 1, has_home_node = - 1, pagesize = 0, run_mask_size = - 1, distance_numnodes = 0,
     distance_table = None \<rparr>"

section \<open>numa_error and numa_warn\<close>

text \<open>\<open>perror\<close> may change \<open>errno\<close>; it is saved before and restored after, so it keeps its value.\<close>

definition numa_error :: "string \<Rightarrow> 'w numa \<Rightarrow> 'w numa option" where
  "numa_error where s =
     (let olde = errno s;
          s = s\<lparr>err_out := where # err_out s\<rparr>
      in if numa_exit_on_error s then None else Some (s\<lparr>errno := olde\<rparr>))"

text \<open>\<open>static unsigned warned\<close> has one bit per warning that has been given.\<close>

definition numa_warn :: "warn_kind \<Rightarrow> 'w numa \<Rightarrow> 'w numa option" where
  "numa_warn num s =
     (let olde = errno s in
      if push_bit (warn_num num) 1 AND warned s \<noteq> 0 then Some s
      else
        let s = s\<lparr>warned := warned s OR push_bit (warn_num num) 1\<rparr>;
            s = s\<lparr>warn_out := num # warn_out s\<rparr>
        in if numa_exit_on_warn s then None else Some (s\<lparr>errno := olde\<rparr>))"

lemma push_and_neq_0: "push_bit k 1 AND (w :: uint) \<noteq> 0 \<longleftrightarrow> bit w k"
proof -
  have "bit (push_bit k 1 AND w) j \<longleftrightarrow> j = k \<and> bit w k" for j
    using bit_imp_le_length [of w j] by (auto simp: bit_and_iff bit_exp_iff)
  then show ?thesis by (metis bit_0_eq bit_eqI bot_apply bot_bool_def)
qed

lemma numa_warn_unfold:
  "numa_warn num s =
     (if bit (warned s) (warn_num num) then Some s
      else if numa_exit_on_warn s then None
      else Some (s\<lparr>warned := warned s OR push_bit (warn_num num) 1, warn_out := num # warn_out s\<rparr>))"
  unfolding numa_warn_def Let_def push_and_neq_0 by simp

lemma numa_error_unfold:
  "numa_error where s =
     (if numa_exit_on_error s then None else Some (s\<lparr>err_out := where # err_out s\<rparr>))"
  by (simp add: numa_error_def)

text \<open>The bookkeeping invariant of the warnings: the bit of a warning is set exactly when it has been
  printed, and no warning has been printed twice.\<close>

definition warnings_ok :: "'w numa \<Rightarrow> bool" where
  "warnings_ok s \<longleftrightarrow>
     distinct (warn_out s) \<and> (\<forall>w. bit (warned s) (warn_num w) \<longleftrightarrow> w \<in> set (warn_out s))"

lemma warnings_ok_initial: "warnings_ok (initial_numa w)"
  by (simp add: warnings_ok_def initial_numa_def)

lemma warnings_ok_step:
  assumes "warnings_ok s" "numa_warn w s = Some t"
  shows "warnings_ok t"
proof -
  have "bit (push_bit (warn_num w) (1 :: uint)) (warn_num v) \<longleftrightarrow> v = w" for v
    using warn_num_less [of w] by (auto simp: bit_exp_iff dest: warn_num_inj)
  then show ?thesis
    using assms by (auto simp: numa_warn_unfold warnings_ok_def bit_or_iff split: if_splits)
qed

section \<open>Allocation of bitmasks\<close>

text \<open>\<open>numa_bitmask_alloc\<close> ends the process when \<open>malloc\<close> or \<open>calloc\<close> fails (lines 251-253), and returns
  NULL, here \<open>None\<close>, only for a size of zero.  The argument is \<open>unsigned int\<close>.\<close>

definition numa_bitmask_alloc :: "'w os \<Rightarrow> nat \<Rightarrow> 'w numa \<Rightarrow> (bitmask option \<times> 'w numa) option" where
  "numa_bitmask_alloc K n s =
     (if n < 1 then do {
        s \<leftarrow> numa_error ''request to allocate mask for invalid number'' (s\<lparr>errno := EINVAL\<rparr>);
        Some (None, s)
      }
      else if \<not> os_malloc_ok K (world s) 16 then None
      else if \<not> os_malloc_ok K (world s) (longsperbits n * 8) then None
      else Some (Some (new_bitmask n), s))"

section \<open>Size queries\<close>

definition numa_num_configured_cpus :: "'w numa \<Rightarrow> int" where
  "numa_num_configured_cpus s = maxconfiguredcpu s + 1"

definition numa_num_possible_nodes :: "'w numa \<Rightarrow> int" where
  "numa_num_possible_nodes s = nodemask_sz s"

definition numa_num_possible_cpus :: "'w numa \<Rightarrow> int" where
  "numa_num_possible_cpus s = cpumask_sz s"

definition numa_num_task_nodes :: "'w numa \<Rightarrow> int" where
  "numa_num_task_nodes s = numprocnode s"

definition numa_num_task_cpus :: "'w numa \<Rightarrow> int" where
  "numa_num_task_cpus s = numproccpu s"

definition numa_max_node :: "'w numa \<Rightarrow> int" where
  "numa_max_node s = maxconfigurednode s"

definition numa_max_possible_node_v1 :: int where
  "numa_max_possible_node_v1 = int (sizeof_nodemask * 8) - 1"

definition numa_max_possible_node_v2 :: "'w numa \<Rightarrow> int" where
  "numa_max_possible_node_v2 s = numa_num_possible_nodes s - 1"

text \<open>The loop over the nodes with memory; \<open>numa_memnode_ptr\<close> is read in every iteration.\<close>

definition numa_num_configured_nodes :: "'w numa \<Rightarrow> int option" where
  "numa_num_configured_nodes s =
     (if maxconfigurednode s < 0 then Some 0
      else map_option
        (\<lambda>m. int (length (filter (numa_bitmask_isbitset m) [0..<nat (maxconfigurednode s + 1)])))
        (numa_memnode_ptr s))"

definition numa_allocate_cpumask :: "'w os \<Rightarrow> 'w numa \<Rightarrow> (bitmask option \<times> 'w numa) option" where
  "numa_allocate_cpumask K s = numa_bitmask_alloc K (c_uint (numa_num_possible_cpus s)) s"

definition allocate_nodemask_v1 :: "'w os \<Rightarrow> 'w numa \<Rightarrow> (bitmask option \<times> 'w numa) option" where
  "allocate_nodemask_v1 K s = numa_bitmask_alloc K (c_uint (numa_max_possible_node_v1 + 1)) s"

definition numa_allocate_nodemask :: "'w os \<Rightarrow> 'w numa \<Rightarrow> (bitmask option \<times> 'w numa) option" where
  "numa_allocate_nodemask K s = numa_bitmask_alloc K (c_uint (numa_max_possible_node_v2 s + 1)) s"

text \<open>A memory that never runs out, the assumption of the functional statements.\<close>

definition malloc_succeeds :: "'w os \<Rightarrow> bool" where
  "malloc_succeeds K \<longleftrightarrow> (\<forall>w n. os_malloc_ok K w n)"

lemma bitmask_alloc_run [run]:
  assumes "malloc_succeeds K" "0 < n"
  shows "numa_bitmask_alloc K n s = Some (Some (new_bitmask n), s)"
  using assms by (simp add: numa_bitmask_alloc_def malloc_succeeds_def)

lemma allocate_nodemask_run [run]:
  assumes "malloc_succeeds K" "0 < nodemask_sz s" "nodemask_sz s < 2 ^ 31"
  shows "numa_allocate_nodemask K s = Some (Some (new_bitmask (nat (nodemask_sz s))), s)"
  using assms
  by (simp add: numa_allocate_nodemask_def numa_max_possible_node_v2_def numa_num_possible_nodes_def
      bitmask_alloc_run c_uint_id)

lemma allocate_cpumask_run [run]:
  assumes "malloc_succeeds K" "0 < cpumask_sz s" "cpumask_sz s < 2 ^ 31"
  shows "numa_allocate_cpumask K s = Some (Some (new_bitmask (nat (cpumask_sz s))), s)"
  using assms
  by (simp add: numa_allocate_cpumask_def numa_num_possible_cpus_def bitmask_alloc_run c_uint_id)

text \<open>The shape of the state a set-up library is in: sizes that fit, and every global mask allocated
  with its size.  It is what the operations of the other theories assume and keep.\<close>

definition mask_ok :: "int \<Rightarrow> bitmask option \<Rightarrow> bool" where
  "mask_ok n m \<longleftrightarrow> (case m of None \<Rightarrow> False | Some b \<Rightarrow> bm_inv b \<and> int (bm_size b) = n)"

definition numa_wf :: "'w numa \<Rightarrow> bool" where
  "numa_wf s \<longleftrightarrow>
     0 < nodemask_sz s \<and> nodemask_sz s < 2 ^ 31 \<and> 0 < cpumask_sz s \<and> cpumask_sz s < 2 ^ 31 \<and>
     0 \<le> maxconfigurednode s \<and> maxconfigurednode s < nodemask_sz s \<and>
     0 \<le> maxconfiguredcpu s \<and> maxconfiguredcpu s < cpumask_sz s \<and>
     mask_ok (nodemask_sz s) (numa_no_nodes_ptr s) \<and> mask_ok (nodemask_sz s) (numa_all_nodes_ptr s) \<and>
     mask_ok (cpumask_sz s) (numa_possible_nodes_ptr s) \<and> mask_ok (cpumask_sz s) (numa_all_cpus_ptr s) \<and>
     mask_ok (cpumask_sz s) (numa_possible_cpus_ptr s) \<and> mask_ok (nodemask_sz s) (numa_nodes_ptr s) \<and>
     mask_ok (nodemask_sz s) (numa_memnode_ptr s)"

lemma mask_okE:
  assumes "mask_ok n m"
  obtains b where "m = Some b" "bm_inv b" "int (bm_size b) = n"
  using assms by (auto simp: mask_ok_def split: option.splits)

end
