(* ===== verification/NodeString.thy ===== *)
theory NodeString
  imports System
begin

unbundle bit_operations_syntax

text \<open>
  The parsers of node and CPU lists such as \<open>25\<close>, \<open>12-15\<close>, \<open>1,3,5-7\<close>, \<open>+6-10\<close> or \<open>!0\<close> (\<open>libnuma.c\<close> lines
  2077-2337).  The string pointer is the suffix it points at.  One iteration of the \<open>do\<close> loop ends in
  an error, in a \<open>break\<close>, or with the pointer behind the item; the loop then looks at the character
  there.  A NULL pointer for the allowed mask, which only a library that is not set up has, ends in
  \<open>None\<close>.  The resolution of a name such as \<open>netdev:eth0\<close> (\<open>affinity.c\<close>) is an argument: it returns its
  result code, the mask and the state.
\<close>

section \<open>A number\<close>

definition NO_IO_AFFINITY :: int where
  "NO_IO_AFFINITY = - 2"

text \<open>\<open>for (i = 0; nr >= 0 && i <= bmp->size; i++) if (isbitset(bmp, i)) nr--\<close>, the final \<open>i\<close>.\<close>

function nth_set_loop :: "bitmask \<Rightarrow> int \<Rightarrow> nat \<Rightarrow> nat" where
  "nth_set_loop bmp nr i =
     (if 0 \<le> nr \<and> i \<le> bm_size bmp
      then nth_set_loop bmp (if numa_bitmask_isbitset bmp i then nr - 1 else nr) (Suc i)
      else i)"
  by pat_completeness auto
termination by (relation "measure (\<lambda>(bmp, nr, i). Suc (bm_size bmp) - i)") auto

declare nth_set_loop.simps [simp del]

definition get_nr :: "string \<Rightarrow> bitmask \<Rightarrow> bool \<Rightarrow> nat \<times> string" where
  "get_nr s bmp relative =
     (if \<not> relative then strtoul s 0
      else
        let (v, end) = strtoul s 0; nr = c_long (int v)
        in if s = end then (c_ulong nr, end)
           else (c_ulong (int (nth_set_loop bmp nr 0) - 1), end))"

lemma get_nr_suffix: "suffix (snd (get_nr s b r)) s"
  using strtoul_suffix [of s 0] by (auto simp: get_nr_def Let_def split: prod.splits)

lemma get_nr_length: "get_nr s b r = (v, e) \<Longrightarrow> length e \<le> length s"
  using suffix_length_le [OF get_nr_suffix [of s b r]] by simp

section \<open>Node lists\<close>

datatype item = Item_error | Item_break bitmask | Item_next bitmask string

text \<open>The loop \<open>while (arg <= arg2)\<close>.\<close>

definition set_range :: "bitmask \<Rightarrow> nat \<Rightarrow> nat \<Rightarrow> bitmask \<Rightarrow> bitmask" where
  "set_range allowed arg arg2 m =
     fold (\<lambda>arg m. let i = c_uint (c_int (int arg)) in
             if numa_bitmask_isbitset allowed i then numa_bitmask_setbit m i else m)
       [arg..<Suc arg2] m"

definition out_of_mask :: "bitmask \<Rightarrow> nat \<Rightarrow> bool" where
  "out_of_mask allowed arg \<longleftrightarrow> bm_size allowed \<le> arg \<or> \<not> numa_bitmask_isbitset allowed (c_uint (int arg))"

definition node_numbers_item :: "bool \<Rightarrow> bitmask option \<Rightarrow> string \<Rightarrow> bitmask \<Rightarrow> 'w numa \<Rightarrow> (item \<times> 'w numa) option" where
  "node_numbers_item relative allowed s m st = do {
     allowed \<leftarrow> allowed;
     let (arg, end) = get_nr s allowed relative;
     if end = s then do { st \<leftarrow> numa_warn W_nodeparse st; Some (Item_error, st) }
     else if out_of_mask allowed arg then do { st \<leftarrow> numa_warn W_nodeparse st; Some (Item_error, st) }
     else do {
       let m = numa_bitmask_setbit m (c_uint (c_int (int arg)));
       if take 1 end = ''-'' then do {
         let s = tl end;
         let (arg2, end2) = get_nr s allowed relative;
         if end2 = s then do { st \<leftarrow> numa_warn W_nodeparse st; Some (Item_error, st) }
         else if out_of_mask allowed arg2 then do { st \<leftarrow> numa_warn W_nodeparse st; Some (Item_error, st) }
         else Some (Item_next (set_range allowed arg arg2 m) end2, st)
       }
       else Some (Item_next m end, st)
     }
   }"

type_synonym 'w resolver = "string \<Rightarrow> bitmask \<Rightarrow> 'w numa \<Rightarrow> ((int \<times> bitmask) \<times> 'w numa) option"

definition node_item :: "'w resolver \<Rightarrow> bool \<Rightarrow> bitmask option \<Rightarrow> string \<Rightarrow> bitmask \<Rightarrow> 'w numa \<Rightarrow>
    (item \<times> 'w numa) option" where
  "node_item resolve_affinity relative allowed s m st =
     (if s \<noteq> [] \<and> c_isalpha (hd s) then
        if s = ''all'' then do {
          al \<leftarrow> allowed;
          Some (Item_break (copy_bitmask_to_bitmask al m), st)
        }
        else do {
          ((n, m), st) \<leftarrow> resolve_affinity s m st;
          if n \<noteq> NO_IO_AFFINITY then
            if n < 0 then Some (Item_error, st) else Some (Item_break m, st)
          else node_numbers_item relative allowed s m st
        }
      else node_numbers_item relative allowed s m st)"

lemma node_numbers_item_shorter:
  assumes "node_numbers_item relative allowed s m st = Some (Item_next m' r, st')"
  shows "length r \<le> length s"
proof -
  obtain al where al: "allowed = Some al" using assms by (auto simp: node_numbers_item_def bind_Some_iff)
  obtain v e where e: "get_nr s al relative = (v, e)" by force
  obtain v2 e2 where e2: "get_nr (tl e) al relative = (v2, e2)" by force
  have "r = e \<or> r = e2"
    using assms by (auto simp: node_numbers_item_def al e e2 Let_def bind_Some_iff split: if_splits)
  with get_nr_length [OF e] get_nr_length [OF e2] show ?thesis by auto
qed

lemma node_item_shorter:
  "node_item f relative allowed s m st = Some (Item_next m' r, st') \<Longrightarrow> length r \<le> length s"
  by (auto simp: node_item_def dest: node_numbers_item_shorter
      split: prod.splits if_splits Option.bind_splits)

function node_loop :: "'w resolver \<Rightarrow> bool \<Rightarrow> bitmask option \<Rightarrow> string \<Rightarrow> bitmask \<Rightarrow> 'w numa \<Rightarrow>
    (bitmask option \<times> 'w numa) option" where
  "node_loop resolve_affinity relative allowed s m st =
     (case node_item resolve_affinity relative allowed s m st of
        None \<Rightarrow> None
      | Some (Item_error, st) \<Rightarrow> Some (None, st)
      | Some (Item_break m, st) \<Rightarrow> Some (Some m, st)
      | Some (Item_next m r, st) \<Rightarrow>
          (case r of
             [] \<Rightarrow> Some (Some m, st)
           | c # cs \<Rightarrow> if c = CHR '','' then node_loop resolve_affinity relative allowed cs m st
                       else Some (None, st)))"
  by pat_completeness auto
termination
  by (relation "measure (\<lambda>(f, relative, allowed, s, m, st). length s)") (auto dest: node_item_shorter)

declare node_loop.simps [simp del]

definition skip_flag :: "char \<Rightarrow> string \<Rightarrow> bool \<times> string" where
  "skip_flag c s = (if take 1 s = [c] then (True, tl s) else (False, s))"

definition invert_upto :: "int \<Rightarrow> bitmask \<Rightarrow> bitmask" where
  "invert_upto n m =
     fold (\<lambda>i m. if numa_bitmask_isbitset m i then numa_bitmask_clearbit m i else numa_bitmask_setbit m i)
       [0..<nat n] m"

definition parse_nodestring :: "'w os \<Rightarrow> 'w resolver \<Rightarrow> string \<Rightarrow> bitmask option \<Rightarrow> 'w numa \<Rightarrow>
    (bitmask option \<times> 'w numa) option" where
  "parse_nodestring K resolve_affinity s allowed st = do {
     conf_nodes \<leftarrow> numa_num_configured_nodes st;
     (m, st) \<leftarrow> numa_allocate_nodemask K st;
     case m of
       None \<Rightarrow> Some (None, st)
     | Some m \<Rightarrow>
         if s = [] then do {
           no_nodes \<leftarrow> numa_no_nodes_ptr st;
           Some (Some (copy_bitmask_to_bitmask no_nodes m), st)
         }
         else do {
           let (invert, s) = skip_flag (CHR ''!'') s;
           let (relative, s) = skip_flag (CHR ''+'') s;
           (m, st) \<leftarrow> node_loop resolve_affinity relative allowed s m st;
           case m of
             None \<Rightarrow> Some (None, st)
           | Some m \<Rightarrow> Some (Some (if invert then invert_upto conf_nodes m else m), st)
         }
   }"

definition numa_parse_nodestring :: "'w os \<Rightarrow> 'w resolver \<Rightarrow> string \<Rightarrow> 'w numa \<Rightarrow>
    (bitmask option \<times> 'w numa) option" where
  "numa_parse_nodestring K resolve_affinity s st = parse_nodestring K resolve_affinity s (numa_all_nodes_ptr st) st"

definition numa_parse_nodestring_all :: "'w os \<Rightarrow> 'w resolver \<Rightarrow> string \<Rightarrow> 'w numa \<Rightarrow>
    (bitmask option \<times> 'w numa) option" where
  "numa_parse_nodestring_all K resolve_affinity s st =
     parse_nodestring K resolve_affinity s (numa_possible_nodes_ptr st) st"

section \<open>CPU lists\<close>

definition cpu_item :: "bool \<Rightarrow> bitmask option \<Rightarrow> int \<Rightarrow> string \<Rightarrow> bitmask \<Rightarrow> 'w numa \<Rightarrow> (item \<times> 'w numa) option" where
  "cpu_item relative allowed conf_cpus s m st = do {
     al \<leftarrow> allowed;
     if s = ''all'' then Some (Item_break (copy_bitmask_to_bitmask al m), st)
     else do {
       let (arg, end) = get_nr s al relative;
       if end = s then do { st \<leftarrow> numa_warn W_cpuparse st; Some (Item_error, st) }
       else if c_ulong conf_cpus \<le> arg then do { st \<leftarrow> numa_warn W_cpuparse st; Some (Item_error, st) }
       else do {
         let m = numa_bitmask_setbit m (c_uint (c_int (int arg)));
         if take 1 end = ''-'' then do {
           let s = tl end;
           let (arg2, end2) = get_nr s al relative;
           if end2 = s then do { st \<leftarrow> numa_warn W_cpuparse st; Some (Item_error, st) }
           else if c_ulong conf_cpus \<le> arg2 then do { st \<leftarrow> numa_warn W_cpuparse st; Some (Item_error, st) }
           else Some (Item_next (set_range al arg arg2 m) end2, st)
         }
         else Some (Item_next m end, st)
       }
     }
   }"

lemma cpu_item_shorter:
  assumes "cpu_item relative allowed n s m st = Some (Item_next m' r, st')"
  shows "length r \<le> length s"
proof -
  obtain al where al: "allowed = Some al" using assms by (auto simp: cpu_item_def bind_Some_iff)
  obtain v e where e: "get_nr s al relative = (v, e)" by force
  obtain v2 e2 where e2: "get_nr (tl e) al relative = (v2, e2)" by force
  have "r = e \<or> r = e2"
    using assms by (auto simp: cpu_item_def al e e2 Let_def bind_Some_iff split: if_splits)
  with get_nr_length [OF e] get_nr_length [OF e2] show ?thesis by auto
qed

function cpu_loop :: "bool \<Rightarrow> bitmask option \<Rightarrow> int \<Rightarrow> string \<Rightarrow> bitmask \<Rightarrow> 'w numa \<Rightarrow>
    (bitmask option \<times> 'w numa) option" where
  "cpu_loop relative allowed conf_cpus s m st =
     (case cpu_item relative allowed conf_cpus s m st of
        None \<Rightarrow> None
      | Some (Item_error, st) \<Rightarrow> Some (None, st)
      | Some (Item_break m, st) \<Rightarrow> Some (Some m, st)
      | Some (Item_next m r, st) \<Rightarrow>
          (case r of
             [] \<Rightarrow> Some (Some m, st)
           | c # cs \<Rightarrow> if c = CHR '','' then cpu_loop relative allowed conf_cpus cs m st
                       else Some (None, st)))"
  by pat_completeness auto
termination
  by (relation "measure (\<lambda>(relative, allowed, n, s, m, st). length s)") (auto dest: cpu_item_shorter)

declare cpu_loop.simps [simp del]

definition parse_cpustring :: "'w os \<Rightarrow> string \<Rightarrow> bitmask option \<Rightarrow> 'w numa \<Rightarrow>
    (bitmask option \<times> 'w numa) option" where
  "parse_cpustring K s allowed st = do {
     let conf_cpus = numa_num_configured_cpus st;
     (m, st) \<leftarrow> numa_allocate_cpumask K st;
     case m of
       None \<Rightarrow> Some (None, st)
     | Some m \<Rightarrow>
         if s = [] then Some (Some m, st)
         else do {
           let (invert, s) = skip_flag (CHR ''!'') s;
           let (relative, s) = skip_flag (CHR ''+'') s;
           (m, st) \<leftarrow> cpu_loop relative allowed conf_cpus s m st;
           case m of
             None \<Rightarrow> Some (None, st)
           | Some m \<Rightarrow> Some (Some (if invert then invert_upto conf_cpus m else m), st)
         }
   }"

definition numa_parse_cpustring :: "'w os \<Rightarrow> string \<Rightarrow> 'w numa \<Rightarrow> (bitmask option \<times> 'w numa) option" where
  "numa_parse_cpustring K s st = parse_cpustring K s (numa_all_cpus_ptr st) st"

definition numa_parse_cpustring_all :: "'w os \<Rightarrow> string \<Rightarrow> 'w numa \<Rightarrow> (bitmask option \<times> 'w numa) option" where
  "numa_parse_cpustring_all K s st = parse_cpustring K s (numa_possible_cpus_ptr st) st"

end
