(* ===== verification/NodeStringFacts.thy ===== *)
theory NodeStringFacts
  imports NodeString
begin

unbundle bit_operations_syntax

text \<open>
  The list parsers against an abstract reading of the notation: a list is a sequence of numbers and
  ranges, and denotes the union of their nodes; a leading \<open>+\<close> makes the numbers count the members of
  the allowed mask; a leading exclamation mark inverts below the number of configured nodes.
\<close>

section \<open>Relative numbers\<close>

lemma nth_set_loop_run:
  assumes "i \<le> Suc (bm_size b)"
  shows "nth_set_loop b (int v) i =
    (if v < length (filter (numa_bitmask_isbitset b) [i..<bm_size b])
     then Suc (filter (numa_bitmask_isbitset b) [i..<bm_size b] ! v) else Suc (bm_size b))"
  using assms
proof (induction "Suc (bm_size b) - i" arbitrary: i v)
  case 0
  then show ?case by (simp add: nth_set_loop.simps [of b "int v" i])
next
  case (Suc k)
  then have i: "i \<le> bm_size b" by simp
  have neg: "nth_set_loop b (- 1) (Suc i) = Suc i" by (simp add: nth_set_loop.simps [of b "- 1"])
  show ?case
  proof (cases "numa_bitmask_isbitset b i")
    case False
    then have f: "filter (numa_bitmask_isbitset b) [i..<bm_size b] = filter (numa_bitmask_isbitset b) [Suc i..<bm_size b]"
      using i by (cases "i = bm_size b") (simp_all add: upt_conv_Cons)
    have "nth_set_loop b (int v) i = nth_set_loop b (int v) (Suc i)"
      using i False by (simp add: nth_set_loop.simps [of b "int v" i])
    then show ?thesis unfolding f using Suc.hyps(1) [of "Suc i" v] Suc.hyps(2) i by simp
  next
    case True
    then have lt: "i < bm_size b" by (rule bm.test_cap)
    then have f: "filter (numa_bitmask_isbitset b) [i..<bm_size b] = i # filter (numa_bitmask_isbitset b) [Suc i..<bm_size b]"
      using True by (simp add: upt_conv_Cons)
    have step: "nth_set_loop b (int v) i = nth_set_loop b (int v - 1) (Suc i)"
      using i True by (simp add: nth_set_loop.simps [of b "int v" i])
    show ?thesis
    proof (cases v)
      case 0
      then show ?thesis unfolding f step using neg by simp
    next
      case (Suc w)
      then show ?thesis unfolding f step using Suc.hyps(1) [of "Suc i" w] Suc.hyps(2) i by simp
    qed
  qed
qed

text \<open>What \<open>get_nr\<close> makes of a printed number.\<close>

definition list_stop :: "string \<Rightarrow> bool" where
  "list_stop r \<longleftrightarrow> r = [] \<or> hd r = CHR '','' \<or> hd r = CHR ''-''"

definition node_of_nr :: "bool \<Rightarrow> bitmask \<Rightarrow> nat \<Rightarrow> nat" where
  "node_of_nr relative b v =
     (if \<not> relative then v else if v < length (members b) then members b ! v else bm_size b)"

lemma get_nr_dec_nat:
  assumes "list_stop r" "v < 2 ^ 63" "bm_size b < 2 ^ 32"
  shows "get_nr (dec_nat v @ r) b relative = (node_of_nr relative b v, r)"
proof -
  have st: "strtoul (dec_nat v @ r) 0 = (v, r)"
    using assms(1,2) by (intro strtoul_dec_nat; cases r)
      (auto simp: list_stop_def ULONG_MAX_def starts_digit_def is_digit_of_def digit_val_def char_code_def)
  have len: "length (members b) \<le> bm_size b"
    using length_filter_le [of "numa_bitmask_isbitset b" "[0..<bm_size b]"] by (simp add: members_def)
  have mem: "members b ! v < bm_size b" if "v < length (members b)"
    using nth_mem [OF that] by (simp add: members_def)
  have "c_long (int v) = int v" using assms(2) by (simp add: c_long_id)
  moreover have "c_ulong (int (nth_set_loop b (int v) 0) - 1) = node_of_nr True b v"
    using nth_set_loop_run [of 0 b v] assms(3) mem
    by (auto simp: node_of_nr_def members_def [symmetric] c_ulong_id)
  ultimately show ?thesis using st by (cases relative) (simp_all add: get_nr_def node_of_nr_def)
qed

section \<open>Lists\<close>

type_synonym nr_item = "nat \<times> nat option"

fun show_item :: "nr_item \<Rightarrow> string" where
  "show_item (a, None) = dec_nat a"
| "show_item (a, Some b) = dec_nat a @ CHR ''-'' # dec_nat b"

fun show_items :: "nr_item list \<Rightarrow> string" where
  "show_items [] = []"
| "show_items [x] = show_item x"
| "show_items (x # y # xs) = show_item x @ CHR '','' # show_items (y # xs)"

fun item_numbers :: "nr_item \<Rightarrow> nat list" where
  "item_numbers (a, None) = [a]"
| "item_numbers (a, Some b) = [a, b]"

text \<open>The nodes an item denotes: the first number itself, and the allowed nodes up to the second.\<close>

fun item_nodes :: "bool \<Rightarrow> bitmask \<Rightarrow> nr_item \<Rightarrow> nat set" where
  "item_nodes relative al (a, None) = {node_of_nr relative al a}"
| "item_nodes relative al (a, Some b) = {node_of_nr relative al a} \<union>
     ({node_of_nr relative al a..node_of_nr relative al b} \<inter> bm_bits al)"

definition item_ok :: "bool \<Rightarrow> bitmask \<Rightarrow> nr_item \<Rightarrow> bool" where
  "item_ok relative al x \<longleftrightarrow>
     (\<forall>v \<in> set (item_numbers x). v < 2 ^ 63 \<and> numa_bitmask_isbitset al (node_of_nr relative al v))"

lemma index_conv: "i < 2 ^ 31 \<Longrightarrow> c_uint (c_int (int i)) = i"
  by (simp add: c_int_id c_uint_id)

lemma set_range_bits:
  assumes "bm_inv m" "b < 2 ^ 31"
  shows "bm_inv (set_range al a b m)" "bm_size (set_range al a b m) = bm_size m"
    "bm_bits (set_range al a b m) = bm_bits m \<union> ({a..b} \<inter> bm_bits al \<inter> {..<bm_size m})"
proof -
  have "set_range al a b m = fold (\<lambda>i m. if numa_bitmask_isbitset al i then numa_bitmask_setbit m i else m) [a..<Suc b] m"
    unfolding set_range_def using assms(2) by (intro fold_cong) (auto simp: index_conv)
  then show "bm_inv (set_range al a b m)" "bm_size (set_range al a b m) = bm_size m"
    "bm_bits (set_range al a b m) = bm_bits m \<union> ({a..b} \<inter> bm_bits al \<inter> {..<bm_size m})"
    using bm.put_loop_total [OF assms(1), of "numa_bitmask_isbitset al" "[a..<Suc b]"] by auto
qed

lemma dec_nat_longer: "length (dec_nat v @ r) \<noteq> length r"
  by simp

lemma not_out_of_mask: "bm_size al < 2 ^ 31 \<Longrightarrow> numa_bitmask_isbitset al i \<Longrightarrow> \<not> out_of_mask al i"
  using bm.test_cap [of al i] by (simp add: out_of_mask_def c_uint_of_nat)

text \<open>One item, followed by the end of the string or a comma.\<close>

lemma node_numbers_item_show:
  assumes al: "bm_size al < 2 ^ 31" and ok: "item_ok relative al x" and m: "bm_inv m"
    and r: "r = [] \<or> hd r = CHR '',''"
  shows "\<exists>m'. node_numbers_item relative (Some al) (show_item x @ r) m st = Some (Item_next m' r, st) \<and>
    bm_inv m' \<and> bm_size m' = bm_size m \<and>
    bm_bits m' = bm_bits m \<union> (item_nodes relative al x \<inter> {..<bm_size m})"
proof -
  obtain a ob where x: "x = (a, ob)" by force
  let ?n = "node_of_nr relative al"
  have a: "a < 2 ^ 63" "numa_bitmask_isbitset al (?n a)" using ok by (cases ob; simp add: item_ok_def x)+
  have na: "?n a < 2 ^ 31" using bm.test_cap [OF a(2)] al by simp
  let ?m = "numa_bitmask_setbit m (?n a)"
  have sz: "bm_size al < 2 ^ 32" using al by simp
  show ?thesis
  proof (cases ob)
    case None
    have "get_nr (dec_nat a @ r) al relative = (?n a, r)"
      using r a(1) sz by (intro get_nr_dec_nat) (auto simp: list_stop_def)
    moreover have "take 1 r \<noteq> ''-''" using r by (cases r) auto
    ultimately show ?thesis
      using setbit_bits [OF m, of "?n a"] not_out_of_mask [OF al a(2)] dec_nat_longer [of a r]
      by (simp add: node_numbers_item_def x None index_conv [OF na])
  next
    case (Some b)
    have b: "b < 2 ^ 63" "numa_bitmask_isbitset al (?n b)" using ok by (simp_all add: item_ok_def x Some)
    have nb: "?n b < 2 ^ 31" using bm.test_cap [OF b(2)] al by simp
    have 1: "get_nr (dec_nat a @ CHR ''-'' # dec_nat b @ r) al relative = (?n a, CHR ''-'' # dec_nat b @ r)"
      using a(1) sz by (intro get_nr_dec_nat) (auto simp: list_stop_def)
    have 2: "get_nr (dec_nat b @ r) al relative = (?n b, r)"
      using r b(1) sz by (intro get_nr_dec_nat) (auto simp: list_stop_def)
    let ?m' = "set_range al (?n a) (?n b) ?m"
    have "node_numbers_item relative (Some al) (show_item x @ r) m st = Some (Item_next ?m' r, st)"
      using 1 2 not_out_of_mask [OF al a(2)] not_out_of_mask [OF al b(2)] dec_nat_longer [of b r]
        dec_nat_longer [of a "CHR ''-'' # dec_nat b @ r"]
      by (simp add: node_numbers_item_def x Some index_conv [OF na])
    moreover have "bm_bits ?m' = bm_bits m \<union> (item_nodes relative al x \<inter> {..<bm_size m})"
      "bm_inv ?m'" "bm_size ?m' = bm_size m"
      using setbit_bits [OF m, of "?n a"] set_range_bits [of ?m "?n b" al "?n a"] nb
      by (auto simp: x Some simp del: mem_bm_bits)
    ultimately show ?thesis by blast
  qed
qed

lemma show_item_digit: "\<exists>c cs. show_item x @ r = c # cs \<and> is_digit_of 10 c"
proof -
  obtain a ob where x: "x = (a, ob)" by force
  obtain c cs where "dec_nat a = c # cs" by (cases "dec_nat a") simp_all
  moreover from this have "is_digit_of 10 c" using set_dec_nat [of c a] by simp
  ultimately show ?thesis by (cases ob) (simp_all add: x)
qed

lemma digit_not_alpha: "is_digit_of 10 c \<Longrightarrow> \<not> c_isalpha c"
  by (auto simp: is_digit_of_10 c_isdigit_def c_isalpha_def)

lemma node_item_show:
  assumes "bm_size al < 2 ^ 31" "item_ok relative al x" "bm_inv m" "r = [] \<or> hd r = CHR '',''"
  shows "\<exists>m'. node_item f relative (Some al) (show_item x @ r) m st = Some (Item_next m' r, st) \<and>
    bm_inv m' \<and> bm_size m' = bm_size m \<and>
    bm_bits m' = bm_bits m \<union> (item_nodes relative al x \<inter> {..<bm_size m})"
proof -
  obtain c cs where "show_item x @ r = c # cs" "is_digit_of 10 c" using show_item_digit by blast
  then have "\<not> (show_item x @ r \<noteq> [] \<and> c_isalpha (hd (show_item x @ r)))" using digit_not_alpha by simp
  then show ?thesis using node_numbers_item_show [OF assms] by (simp only: node_item_def if_False)
qed

lemma node_loop_show:
  assumes al: "bm_size al < 2 ^ 31" and ok: "\<forall>x \<in> set xs. item_ok relative al x" and "xs \<noteq> []" "bm_inv m"
  shows "\<exists>m'. node_loop f relative (Some al) (show_items xs) m st = Some (Some m', st) \<and>
    bm_inv m' \<and> bm_size m' = bm_size m \<and>
    bm_bits m' = bm_bits m \<union> (\<Union> (item_nodes relative al ` set xs) \<inter> {..<bm_size m})"
  using assms(2-4)
proof (induction xs arbitrary: m rule: show_items.induct)
  case (2 x)
  obtain m' where "node_item f relative (Some al) (show_item x @ []) m st = Some (Item_next m' [], st)"
    "bm_inv m'" "bm_size m' = bm_size m"
    "bm_bits m' = bm_bits m \<union> (item_nodes relative al x \<inter> {..<bm_size m})"
    using node_item_show [OF al, of relative x m "[]"] 2 by fastforce
  then show ?case by (simp add: node_loop.simps [of f relative _ "show_item x"] del: mem_bm_bits)
next
  case (3 x y xs)
  let ?r = "CHR '','' # show_items (y # xs)"
  obtain m1 where m1: "node_item f relative (Some al) (show_item x @ ?r) m st = Some (Item_next m1 ?r, st)"
    "bm_inv m1" "bm_size m1 = bm_size m"
    "bm_bits m1 = bm_bits m \<union> (item_nodes relative al x \<inter> {..<bm_size m})"
    using node_item_show [OF al _ _ disjI2 [OF list.sel(1)], of relative x m f] "3.prems"
    by (simp del: mem_bm_bits) blast
  obtain m2 where m2: "node_loop f relative (Some al) (show_items (y # xs)) m1 st = Some (Some m2, st)"
    "bm_inv m2" "bm_size m2 = bm_size m1"
    "bm_bits m2 = bm_bits m1 \<union> (\<Union> (item_nodes relative al ` set (y # xs)) \<inter> {..<bm_size m1})"
    using "3.IH" [of m1] "3.prems" m1(2) by auto
  have "node_loop f relative (Some al) (show_items (x # y # xs)) m st = Some (Some m2, st)"
    by (simp add: node_loop.simps [of f relative _ "show_item x @ ?r"] m1(1) m2(1))
  moreover have "bm_bits m2 = bm_bits m \<union> (\<Union> (item_nodes relative al ` set (x # y # xs)) \<inter> {..<bm_size m})"
    unfolding m2(4) m1(3,4) by auto
  ultimately show ?case using m2(2,3) m1(3) by auto
qed simp

lemma invert_upto_bits:
  assumes "bm_inv m" "n \<le> int (bm_size m)"
  shows "bm_inv (invert_upto n m)" "bm_size (invert_upto n m) = bm_size m"
    "bm_bits (invert_upto n m) = {i. if int i < n then i \<notin> bm_bits m else i \<in> bm_bits m}"
proof -
  have lt: "\<And>i. i \<in> set [0..<nat n] \<Longrightarrow> i < bm_size m" using assms(2) by auto
  have "int i < n \<longleftrightarrow> i < nat n" for i by linarith
  then show "bm_inv (invert_upto n m)" "bm_size (invert_upto n m) = bm_size m"
    "bm_bits (invert_upto n m) = {i. if int i < n then i \<notin> bm_bits m else i \<in> bm_bits m}"
    using bm.flip_loop [OF assms(1) distinct_upt lt] unfolding invert_upto_def by auto
qed

text \<open>A whole specification: the flags and the list.\<close>

definition show_spec :: "bool \<Rightarrow> bool \<Rightarrow> nr_item list \<Rightarrow> string" where
  "show_spec invert relative xs =
     (if invert then ''!'' else []) @ (if relative then ''+'' else []) @ show_items xs"

lemma show_items_digit: "xs \<noteq> [] \<Longrightarrow> \<exists>c cs. show_items xs = c # cs \<and> is_digit_of 10 c"
  using show_item_digit [of _ "[]"] show_item_digit by (cases xs rule: show_items.cases) fastforce+

lemma skip_flags_show:
  assumes "xs \<noteq> []"
  shows "skip_flag (CHR ''!'') (show_spec invert relative xs) = (invert, show_spec False relative xs)"
    "skip_flag (CHR ''+'') (show_spec False relative xs) = (relative, show_items xs)"
    "show_spec invert relative xs \<noteq> []"
proof -
  obtain c cs where c: "show_items xs = c # cs" "is_digit_of 10 c" using show_items_digit [OF assms] by blast
  have "c \<noteq> CHR ''!''" "c \<noteq> CHR ''+''"
    using c(2) by (auto simp: is_digit_of_def digit_val_def char_code_def)
  then show "skip_flag (CHR ''!'') (show_spec invert relative xs) = (invert, show_spec False relative xs)"
    "skip_flag (CHR ''+'') (show_spec False relative xs) = (relative, show_items xs)"
    "show_spec invert relative xs \<noteq> []"
    by (simp_all add: skip_flag_def show_spec_def c(1))
qed

definition spec_nodes :: "bool \<Rightarrow> bool \<Rightarrow> bitmask \<Rightarrow> nr_item list \<Rightarrow> nat \<Rightarrow> nat set" where
  "spec_nodes invert relative al xs n =
     (let A = \<Union> (item_nodes relative al ` set xs)
      in if invert then {i. if i < n then i \<notin> A else i \<in> A} else A)"

lemma configured_nodes_run:
  assumes "numa_wf s"
  shows "\<exists>n. numa_num_configured_nodes s = Some n \<and> 0 \<le> n \<and> n \<le> nodemask_sz s"
proof -
  obtain b where b: "numa_memnode_ptr s = Some b" using assms by (auto simp: numa_wf_def elim: mask_okE)
  let ?k = "length (filter (numa_bitmask_isbitset b) [0..<nat (maxconfigurednode s + 1)])"
  have "?k \<le> nat (maxconfigurednode s + 1)"
    using length_filter_le [of "numa_bitmask_isbitset b" "[0..<nat (maxconfigurednode s + 1)]"] by simp
  then have "int ?k \<le> nodemask_sz s" using assms by (auto simp: numa_wf_def)
  then show ?thesis using assms by (auto simp: numa_num_configured_nodes_def b numa_wf_def)
qed

lemma parse_nodestring_show:
  assumes wf: "numa_wf s" and K: "malloc_succeeds K" and al: "bm_size al \<le> nat (nodemask_sz s)"
    and ok: "\<forall>x \<in> set xs. item_ok relative al x" and xs: "xs \<noteq> []"
  shows "\<exists>m n. parse_nodestring K f (show_spec invert relative xs) (Some al) s = Some (Some m, s) \<and>
    numa_num_configured_nodes s = Some n \<and> bm_inv m \<and> int (bm_size m) = nodemask_sz s \<and>
    bm_bits m = spec_nodes invert relative al xs (nat n)"
proof -
  have sz: "0 < nodemask_sz s" "nodemask_sz s < 2 ^ 31" using wf by (simp_all add: numa_wf_def)
  let ?b = "new_bitmask (nat (nodemask_sz s))"
  obtain n where n: "numa_num_configured_nodes s = Some n" "0 \<le> n" "n \<le> nodemask_sz s"
    using configured_nodes_run [OF wf] by blast
  have "nat (nodemask_sz s) < 2 ^ 31" using sz by (simp add: nat_less_iff)
  with al have al31: "bm_size al < 2 ^ 31" by linarith
  obtain m where m: "node_loop f relative (Some al) (show_items xs) ?b s = Some (Some m, s)"
    "bm_inv m" "bm_size m = nat (nodemask_sz s)"
    "bm_bits m = bm_bits ?b \<union> (\<Union> (item_nodes relative al ` set xs) \<inter> {..<nat (nodemask_sz s)})"
    using node_loop_show [OF al31 ok xs, of ?b f s] by auto
  have "item_nodes relative al x \<subseteq> {..<bm_size al}" if "x \<in> set xs" for x
  proof -
    obtain a ob where x: "x = (a, ob)" by force
    have "numa_bitmask_isbitset al (node_of_nr relative al a)"
      using ok that by (cases ob) (auto simp: item_ok_def x)
    then show ?thesis using bm.test_cap [of al] by (cases ob) (auto simp: x)
  qed
  then have A: "bm_bits m = \<Union> (item_nodes relative al ` set xs)"
    using al unfolding m(4) bm_bits_new by fastforce
  let ?m = "if invert then invert_upto n m else m"
  have "parse_nodestring K f (show_spec invert relative xs) (Some al) s = Some (Some ?m, s)"
    using n(1) allocate_nodemask_run [OF K sz] m(1) by (simp add: parse_nodestring_def skip_flags_show [OF xs])
  moreover have "bm_inv ?m" "int (bm_size ?m) = nodemask_sz s"
    using invert_upto_bits [OF m(2), of n] m(2,3) n(3) sz by auto
  moreover have "int i < n \<longleftrightarrow> i < nat n" for i by linarith
  then have "bm_bits ?m = spec_nodes invert relative al xs (nat n)"
    using invert_upto_bits(3) [OF m(2), of n] m(3) n(3) unfolding spec_nodes_def A [symmetric] Let_def
    by auto
  ultimately show ?thesis using n(1) by blast
qed

text \<open>A number that the allowed mask does not contain ends the parse with a warning, as a number of its own or as the
  end of a range, after any valid items and whatever follows.\<close>

definition show_prefix :: "nr_item list \<Rightarrow> string" where
  "show_prefix xs = concat (map (\<lambda>x. show_item x @ '','') xs)"

definition show_start :: "nat option \<Rightarrow> string" where
  "show_start ob = (case ob of None \<Rightarrow> [] | Some a \<Rightarrow> dec_nat a @ ''-'')"

definition show_flags :: "bool \<Rightarrow> bool \<Rightarrow> string" where
  "show_flags invert relative = (if invert then ''!'' else []) @ (if relative then ''+'' else [])"

lemma outside_out_of_mask:
  assumes "bm_size al < 2 ^ 31" "\<not> numa_bitmask_isbitset al v"
  shows "out_of_mask al v"
proof (cases "v < 2 ^ 32")
  case True
  then show ?thesis using assms(2) by (simp add: out_of_mask_def c_uint_of_nat)
next
  case False
  then have "bm_size al \<le> v" using assms(1) by simp
  then show ?thesis by (simp add: out_of_mask_def)
qed

lemma node_numbers_item_reject:
  assumes al: "bm_size al < 2 ^ 31"
    and start: "\<And>a. ob = Some a \<Longrightarrow> a < 2 ^ 63 \<and> numa_bitmask_isbitset al (node_of_nr relative al a)"
    and v: "v < 2 ^ 63" "\<not> numa_bitmask_isbitset al (node_of_nr relative al v)" and r: "list_stop r"
  shows "node_numbers_item relative (Some al) (show_start ob @ dec_nat v @ r) m st =
    map_option (Pair Item_error) (numa_warn W_nodeparse st)"
proof -
  let ?n = "node_of_nr relative al"
  have sz: "bm_size al < 2 ^ 32" using al by simp
  have nv: "get_nr (dec_nat v @ r) al relative = (?n v, r)" using get_nr_dec_nat [OF r v(1) sz] .
  note out = outside_out_of_mask [OF al v(2)]
  show ?thesis
  proof (cases ob)
    case None
    then show ?thesis
      using nv out dec_nat_longer [of v r] by (cases "numa_warn W_nodeparse st") (simp_all add: node_numbers_item_def show_start_def)
  next
    case (Some a)
    have a: "a < 2 ^ 63" "numa_bitmask_isbitset al (?n a)" using start [OF Some] by simp_all
    let ?e = "CHR ''-'' # dec_nat v @ r"
    have na: "get_nr (dec_nat a @ ?e) al relative = (?n a, ?e)"
      using a(1) sz by (intro get_nr_dec_nat) (auto simp: list_stop_def)
    show ?thesis
      using na nv out not_out_of_mask [OF al a(2)] dec_nat_longer [of v r] dec_nat_longer [of a ?e]
      by (cases "numa_warn W_nodeparse st") (simp_all add: node_numbers_item_def show_start_def Some)
  qed
qed

lemma show_start_digit: "\<exists>c cs. show_start ob @ dec_nat v @ r = c # cs \<and> is_digit_of 10 c"
proof -
  have "\<exists>c cs. dec_nat a = c # cs \<and> is_digit_of 10 c" for a
  proof (cases "dec_nat a")
    case (Cons c cs)
    then show ?thesis using set_dec_nat [of c a] by simp
  qed simp
  then obtain c cs d ds where "dec_nat (the ob) = c # cs" "is_digit_of 10 c" "dec_nat v = d # ds" "is_digit_of 10 d" by metis
  then show ?thesis by (cases ob) (simp_all add: show_start_def)
qed

lemma node_loop_reject:
  assumes al: "bm_size al < 2 ^ 31" and ok: "\<forall>x \<in> set xs. item_ok relative al x" and m: "bm_inv m"
    and start: "\<And>a. ob = Some a \<Longrightarrow> a < 2 ^ 63 \<and> numa_bitmask_isbitset al (node_of_nr relative al a)"
    and v: "v < 2 ^ 63" "\<not> numa_bitmask_isbitset al (node_of_nr relative al v)" and r: "list_stop r"
  shows "node_loop f relative (Some al) (show_prefix xs @ show_start ob @ dec_nat v @ r) m st =
    map_option (Pair None) (numa_warn W_nodeparse st)"
  using ok m
proof (induction xs arbitrary: m)
  case Nil
  let ?bad = "show_start ob @ dec_nat v @ r"
  obtain c cs where "?bad = c # cs" "is_digit_of 10 c" using show_start_digit by blast
  then have "\<not> (?bad \<noteq> [] \<and> c_isalpha (hd ?bad))" using digit_not_alpha by simp
  then have "node_item f relative (Some al) ?bad m st = map_option (Pair Item_error) (numa_warn W_nodeparse st)"
    using node_numbers_item_reject [OF al start v r] by (simp only: node_item_def if_False)
  then show ?case
    by (cases "numa_warn W_nodeparse st") (simp_all add: show_prefix_def node_loop.simps [of f relative _ ?bad])
next
  case (Cons x xs)
  let ?rest = "show_prefix xs @ show_start ob @ dec_nat v @ r"
  obtain m' where m': "node_item f relative (Some al) (show_item x @ CHR '','' # ?rest) m st = Some (Item_next m' (CHR '','' # ?rest), st)"
    "bm_inv m'"
    using node_item_show [OF al, of relative x m "CHR '','' # ?rest"] Cons.prems by fastforce
  have "show_prefix (x # xs) @ show_start ob @ dec_nat v @ r = show_item x @ CHR '','' # ?rest" by (simp add: show_prefix_def)
  then show ?case
    using Cons.IH [OF _ m'(2)] Cons.prems(1) m'(1) by (simp add: node_loop.simps [of f relative _ "show_item x @ CHR '','' # ?rest"])
qed

lemma skip_flags:
  assumes "s = c # cs" "is_digit_of 10 c"
  shows "skip_flag (CHR ''!'') (show_flags invert relative @ s) = (invert, show_flags False relative @ s)"
    "skip_flag (CHR ''+'') (show_flags False relative @ s) = (relative, s)"
proof -
  have "c \<noteq> CHR ''!''" "c \<noteq> CHR ''+''" using assms(2) by (auto simp: is_digit_of_def digit_val_def char_code_def)
  then show "skip_flag (CHR ''!'') (show_flags invert relative @ s) = (invert, show_flags False relative @ s)"
    "skip_flag (CHR ''+'') (show_flags False relative @ s) = (relative, s)"
    by (simp_all add: skip_flag_def show_flags_def assms(1))
qed

lemma parse_nodestring_reject:
  assumes wf: "numa_wf s" and K: "malloc_succeeds K" and al: "bm_size al < 2 ^ 31"
    and ok: "\<forall>x \<in> set xs. item_ok relative al x"
    and start: "\<And>a. ob = Some a \<Longrightarrow> a < 2 ^ 63 \<and> numa_bitmask_isbitset al (node_of_nr relative al a)"
    and v: "v < 2 ^ 63" "\<not> numa_bitmask_isbitset al (node_of_nr relative al v)" and r: "list_stop r"
  shows "parse_nodestring K f (show_flags invert relative @ show_prefix xs @ show_start ob @ dec_nat v @ r) (Some al) s =
    map_option (Pair None) (numa_warn W_nodeparse s)"
proof -
  have sz: "0 < nodemask_sz s" "nodemask_sz s < 2 ^ 31" using wf by (simp_all add: numa_wf_def)
  let ?b = "new_bitmask (nat (nodemask_sz s))" and ?str = "show_prefix xs @ show_start ob @ dec_nat v @ r"
  obtain n where n: "numa_num_configured_nodes s = Some n" using configured_nodes_run [OF wf] by blast
  obtain c cs where c: "?str = c # cs" "is_digit_of 10 c"
    using show_start_digit [of ob v r] show_item_digit
    by (cases xs) (fastforce simp: show_prefix_def)+
  note fl = skip_flags [OF c]
  have ne: "show_flags invert relative @ ?str \<noteq> []" by (simp add: c(1))
  have "node_loop f relative (Some al) ?str ?b s = map_option (Pair None) (numa_warn W_nodeparse s)"
    by (rule node_loop_reject [OF al ok bm_inv_new start v r])
  then show ?thesis
    unfolding parse_nodestring_def using n allocate_nodemask_run [OF K sz] ne fl
    by (cases "numa_warn W_nodeparse s") simp_all
qed

end
