(* ===== verification/Syscall.thy ===== *)
theory Syscall
  imports System
begin

text \<open>
  The system call wrappers of \<open>syscall.c\<close> (lines 218-299).  Each wrapper makes its call through the
  parameter \<open>os\<close>; a failed call returns -1 and sets \<open>errno\<close>, as \<open>syscall\<close> does, and leaves the result
  buffers alone.  The address argument of \<open>get_mempolicy\<close> is 0 for NULL; a NULL node mask is the empty
  list with a \<open>maxnode\<close> of 0.
\<close>

section \<open>Memory policy\<close>

definition get_mempolicy :: "'w os \<Rightarrow> int \<Rightarrow> ulong list \<Rightarrow> nat \<Rightarrow> nat \<Rightarrow> uint \<Rightarrow> 'w numa \<Rightarrow>
    (int \<times> int \<times> ulong list) \<times> 'w numa" where
  "get_mempolicy K pol nmask maxnode addr flags s =
     (case os_get_mempolicy K (world s) nmask maxnode addr flags of
        Inl e \<Rightarrow> ((- 1, pol, nmask), s\<lparr>errno := e\<rparr>)
      | Inr (pol', nmask') \<Rightarrow> ((0, pol', nmask'), s))"

definition mbind :: "'w os \<Rightarrow> nat \<Rightarrow> nat \<Rightarrow> int \<Rightarrow> ulong list option \<Rightarrow> nat \<Rightarrow> uint \<Rightarrow> 'w numa \<Rightarrow>
    int \<times> 'w numa" where
  "mbind K start len mode nmask maxnode flags s =
     (case os_mbind K (world s) start len mode nmask maxnode flags of
        Inl e \<Rightarrow> (- 1, s\<lparr>errno := e\<rparr>)
      | Inr w \<Rightarrow> (0, s\<lparr>world := w\<rparr>))"

definition set_mempolicy :: "'w os \<Rightarrow> int \<Rightarrow> ulong list \<Rightarrow> nat \<Rightarrow> 'w numa \<Rightarrow> int \<times> 'w numa" where
  "set_mempolicy K mode nmask maxnode s =
     (case os_set_mempolicy K (world s) mode nmask maxnode of
        Inl e \<Rightarrow> (- 1, s\<lparr>errno := e\<rparr>)
      | Inr w \<Rightarrow> (0, s\<lparr>world := w\<rparr>))"

definition migrate_pages :: "'w os \<Rightarrow> int \<Rightarrow> nat \<Rightarrow> ulong list \<Rightarrow> ulong list \<Rightarrow> 'w numa \<Rightarrow>
    int \<times> 'w numa" where
  "migrate_pages K pid maxnode frommask tomask s =
     (case os_migrate_pages K (world s) pid maxnode frommask tomask of
        Inl e \<Rightarrow> (- 1, s\<lparr>errno := e\<rparr>)
      | Inr (r, w) \<Rightarrow> (r, s\<lparr>world := w\<rparr>))"

text \<open>A NULL array of nodes is \<open>None\<close>: then the call only reports where the pages are.\<close>

definition move_pages :: "'w os \<Rightarrow> int \<Rightarrow> nat \<Rightarrow> nat list \<Rightarrow> int list option \<Rightarrow> int list \<Rightarrow> int \<Rightarrow> 'w numa \<Rightarrow>
    (int \<times> int list) \<times> 'w numa" where
  "move_pages K pid count pages nodes status flags s =
     (case os_move_pages K (world s) pid count pages nodes status flags of
        Inl e \<Rightarrow> ((- 1, status), s\<lparr>errno := e\<rparr>)
      | Inr (r, status, w) \<Rightarrow> ((r, status), s\<lparr>world := w\<rparr>))"

definition set_mempolicy_home_node :: "'w os \<Rightarrow> nat \<Rightarrow> nat \<Rightarrow> int \<Rightarrow> int \<Rightarrow> 'w numa \<Rightarrow> int \<times> 'w numa" where
  "set_mempolicy_home_node K start len home_node flags s =
     (case os_home_node K (world s) start len home_node flags of
        Inl e \<Rightarrow> (- 1, s\<lparr>errno := e\<rparr>)
      | Inr w \<Rightarrow> (0, s\<lparr>world := w\<rparr>))"

section \<open>CPU affinity\<close>

definition numa_sched_setaffinity_v1 :: "'w os \<Rightarrow> int \<Rightarrow> nat \<Rightarrow> ulong list \<Rightarrow> 'w numa \<Rightarrow> int \<times> 'w numa" where
  "numa_sched_setaffinity_v1 K pid len m s =
     (case os_setaffinity K (world s) pid len m of
        Inl e \<Rightarrow> (- 1, s\<lparr>errno := e\<rparr>)
      | Inr w \<Rightarrow> (0, s\<lparr>world := w\<rparr>))"

definition numa_sched_setaffinity_v2 :: "'w os \<Rightarrow> int \<Rightarrow> bitmask \<Rightarrow> 'w numa \<Rightarrow> int \<times> 'w numa" where
  "numa_sched_setaffinity_v2 K pid m s =
     (case os_setaffinity K (world s) pid (numa_bitmask_nbytes m) (maskp m) of
        Inl e \<Rightarrow> (- 1, s\<lparr>errno := e\<rparr>)
      | Inr w \<Rightarrow> (0, s\<lparr>world := w\<rparr>))"

definition numa_sched_getaffinity_v1 :: "'w os \<Rightarrow> int \<Rightarrow> nat \<Rightarrow> ulong list \<Rightarrow> 'w numa \<Rightarrow>
    (int \<times> ulong list) \<times> 'w numa" where
  "numa_sched_getaffinity_v1 K pid len m s =
     (case os_getaffinity K (world s) pid len m of
        Inl e \<Rightarrow> ((- 1, m), s\<lparr>errno := e\<rparr>)
      | Inr (n, m') \<Rightarrow> ((n, m'), s))"

text \<open>The length is in bytes; the call returns the size of the kernel's mask.\<close>

definition numa_sched_getaffinity_v2 :: "'w os \<Rightarrow> int \<Rightarrow> bitmask \<Rightarrow> 'w numa \<Rightarrow>
    (int \<times> bitmask) \<times> 'w numa" where
  "numa_sched_getaffinity_v2 K pid m s =
     (case os_getaffinity K (world s) pid (numa_bitmask_nbytes m) (maskp m) of
        Inl e \<Rightarrow> ((- 1, m), s\<lparr>errno := e\<rparr>)
      | Inr (n, ws) \<Rightarrow> ((n, m\<lparr>maskp := ws\<rparr>), s))"

end
