(* ===== verification/Policy.thy ===== *)
theory Policy
  imports Syscall
begin

unbundle bit_operations_syntax

text \<open>
  Memory policy (\<open>libnuma.c\<close> lines 376-410, 641-672, 908-1245, 1305-1362, 1935-2060, 2335-2373): the
  process policy is set and read with \<open>set_mempolicy\<close> and \<open>get_mempolicy\<close>, the policy of a memory area
  with \<open>mbind\<close>, and the allocation functions map memory, bind it and touch it.  Addresses are numbers;
  NULL results are \<open>None\<close>.
\<close>

section \<open>Constants of numaif.h\<close>

definition MPOL_DEFAULT :: int where "MPOL_DEFAULT = 0"
definition MPOL_PREFERRED :: int where "MPOL_PREFERRED = 1"
definition MPOL_BIND :: int where "MPOL_BIND = 2"
definition MPOL_INTERLEAVE :: int where "MPOL_INTERLEAVE = 3"
definition MPOL_LOCAL :: int where "MPOL_LOCAL = 4"
definition MPOL_PREFERRED_MANY :: int where "MPOL_PREFERRED_MANY = 5"
definition MPOL_WEIGHTED_INTERLEAVE :: int where "MPOL_WEIGHTED_INTERLEAVE = 6"
definition MPOL_MAX :: int where "MPOL_MAX = 7"
definition MPOL_F_NUMA_BALANCING :: int where "MPOL_F_NUMA_BALANCING = push_bit 13 1"
definition MPOL_F_NODE :: uint where "MPOL_F_NODE = push_bit 0 1"
definition MPOL_F_ADDR :: uint where "MPOL_F_ADDR = push_bit 1 1"
definition MPOL_F_MEMS_ALLOWED :: uint where "MPOL_F_MEMS_ALLOWED = push_bit 2 1"
definition MPOL_MF_STRICT :: uint where "MPOL_MF_STRICT = push_bit 0 1"

lemmas mpol_defs =
  MPOL_DEFAULT_def MPOL_PREFERRED_def MPOL_BIND_def MPOL_INTERLEAVE_def MPOL_LOCAL_def
  MPOL_PREFERRED_MANY_def MPOL_WEIGHTED_INTERLEAVE_def MPOL_MAX_def

section \<open>The primitives\<close>

definition setpol :: "'w os \<Rightarrow> int \<Rightarrow> bitmask \<Rightarrow> 'w numa \<Rightarrow> 'w numa option" where
  "setpol K policy bmp s =
     (let (r, s) = set_mempolicy K policy (maskp bmp) (bm_size bmp) s in
      if r < 0 then numa_error ''set_mempolicy'' s else Some s)"

text \<open>Returns the policy, \<open>oldpolicy\<close> when the call fails, and the mask.\<close>

definition getpol :: "'w os \<Rightarrow> int \<Rightarrow> bitmask \<Rightarrow> 'w numa \<Rightarrow> ((int \<times> bitmask) \<times> 'w numa) option" where
  "getpol K oldpolicy bmp s = do {
     let ((r, p, ws), s) = get_mempolicy K oldpolicy (maskp bmp) (bm_size bmp) 0 0 s;
     s \<leftarrow> (if r < 0 then numa_error ''get_mempolicy'' s else Some s);
     Some ((p, bmp\<lparr>maskp := ws\<rparr>), s)
   }"

definition dombind :: "'w os \<Rightarrow> nat \<Rightarrow> nat \<Rightarrow> int \<Rightarrow> bitmask option \<Rightarrow> 'w numa \<Rightarrow> (int \<times> 'w numa) option" where
  "dombind K mem sz pol bmp s =
     (let (r, s) = mbind K mem sz pol (map_option maskp bmp)
                     (case bmp of None \<Rightarrow> 0 | Some b \<Rightarrow> bm_size b) (mbind_flags s) s in
      if r < 0 then do { s \<leftarrow> numa_error ''mbind'' s; Some (- 1, s) }
      else Some (0, s))"

definition dombind_or_free :: "'w os \<Rightarrow> nat \<Rightarrow> nat \<Rightarrow> int \<Rightarrow> bitmask option \<Rightarrow> 'w numa \<Rightarrow>
    (nat option \<times> 'w numa) option" where
  "dombind_or_free K mem sz pol bmp s = do {
     (r, s) \<leftarrow> dombind K mem sz pol bmp s;
     if r < 0 \<and> numa_fail_alloc_on_error s
     then Some (None, s\<lparr>world := os_munmap K (world s) mem sz\<rparr>)
     else Some (Some mem, s)
   }"

definition numa_pagesize :: "'w os \<Rightarrow> 'w numa \<Rightarrow> int \<times> 'w numa" where
  "numa_pagesize K s =
     (if 0 < pagesize s then (pagesize s, s)
      else let s = s\<lparr>pagesize := os_pagesize K (world s)\<rparr> in (pagesize s, s))"

definition numa_get_mems_allowed :: "'w os \<Rightarrow> 'w numa \<Rightarrow> (bitmask option \<times> 'w numa) option" where
  "numa_get_mems_allowed K s = do {
     (bmp, s) \<leftarrow> numa_allocate_nodemask K s;
     case bmp of
       None \<Rightarrow> Some (None, s)
     | Some bmp \<Rightarrow> do {
         let ((r, _, ws), s) = get_mempolicy K 0 (maskp bmp) (bm_size bmp) 0 MPOL_F_MEMS_ALLOWED s;
         s \<leftarrow> (if r < 0 then numa_error ''get_mempolicy'' s else Some s);
         Some (Some (bmp\<lparr>maskp := ws\<rparr>), s)
       }
   }"

text \<open>The test for kernel support of MPOL_PREFERRED_MANY: set it, and if that worked put the old policy
  back; the cached answer and \<open>errno\<close> are all that is left behind.\<close>

definition set_preferred_many :: "'w os \<Rightarrow> 'w numa \<Rightarrow> 'w numa option" where
  "set_preferred_many K s =
     (if 0 \<le> has_preferred_many s then Some s
      else do {
        let old_errno = errno s;
        let s = s\<lparr>has_preferred_many := 0\<rparr>;
        (bmp, s) \<leftarrow> numa_allocate_nodemask K s;
        (tmp, s) \<leftarrow> numa_get_mems_allowed K s;
        let s = (case (tmp, bmp) of
            (Some tmp, Some bmp) \<Rightarrow>
              let ((r, oldp, ws), s) = get_mempolicy K 0 (maskp bmp) (bm_size bmp) 0 0 s in
              if r < 0 then s
              else
                let (r, s) = set_mempolicy K MPOL_PREFERRED_MANY (maskp tmp) (bm_size tmp) s in
                if r = 0 then
                  let s = s\<lparr>has_preferred_many := 1\<rparr>
                  in snd (set_mempolicy K oldp ws (bm_size bmp + 1) s)
                else s
          | _ \<Rightarrow> s);
        Some (s\<lparr>errno := old_errno\<rparr>)
      })"

section \<open>The policy of a memory area\<close>

definition numa_available :: "'w os \<Rightarrow> 'w numa \<Rightarrow> int \<times> 'w numa" where
  "numa_available K s =
     (let ((r, _, _), s) = get_mempolicy K 0 [] 0 0 0 s in
      if r < 0 \<and> (errno s = ENOSYS \<or> errno s = EPERM) then (- 1, s) else (0, s))"

definition numa_interleave_memory_v1 :: "'w os \<Rightarrow> nat \<Rightarrow> nat \<Rightarrow> nodemask \<Rightarrow> 'w numa \<Rightarrow> 'w numa option" where
  "numa_interleave_memory_v1 K mem sz m s = do {
     (_, s) \<leftarrow> dombind K mem sz MPOL_INTERLEAVE (Some \<lparr>bm_size = sizeof_nodemask * 8, maskp = m\<rparr>) s;
     Some s
   }"

definition numa_interleave_memory_v2 :: "'w os \<Rightarrow> nat \<Rightarrow> nat \<Rightarrow> bitmask \<Rightarrow> 'w numa \<Rightarrow> 'w numa option" where
  "numa_interleave_memory_v2 K mem sz bmp s = do {
     (_, s) \<leftarrow> dombind K mem sz MPOL_INTERLEAVE (Some bmp) s;
     Some s
   }"

definition numa_weighted_interleave_memory :: "'w os \<Rightarrow> nat \<Rightarrow> nat \<Rightarrow> bitmask \<Rightarrow> 'w numa \<Rightarrow> 'w numa option" where
  "numa_weighted_interleave_memory K mem sz bmp s = do {
     (_, s) \<leftarrow> dombind K mem sz MPOL_WEIGHTED_INTERLEAVE (Some bmp) s;
     Some s
   }"

definition numa_tonode_memory :: "'w os \<Rightarrow> nat \<Rightarrow> nat \<Rightarrow> int \<Rightarrow> 'w numa \<Rightarrow> 'w numa option" where
  "numa_tonode_memory K mem sz node s = do {
     (nodes, s) \<leftarrow> numa_allocate_nodemask K s;
     case nodes of
       None \<Rightarrow> Some s
     | Some nodes \<Rightarrow> do {
         (_, s) \<leftarrow> dombind K mem sz (bind_policy s) (Some (numa_bitmask_setbit nodes (c_uint node))) s;
         Some s
       }
   }"

text \<open>The stack mask of the version 1 call is given \<open>sizeof(nodemask_t)\<close> as its size: bytes, where the
  field counts bits.\<close>

definition numa_tonodemask_memory_v1 :: "'w os \<Rightarrow> nat \<Rightarrow> nat \<Rightarrow> nodemask \<Rightarrow> 'w numa \<Rightarrow> 'w numa option" where
  "numa_tonodemask_memory_v1 K mem sz m s = do {
     (_, s) \<leftarrow> dombind K mem sz (bind_policy s) (Some \<lparr>bm_size = sizeof_nodemask, maskp = m\<rparr>) s;
     Some s
   }"

definition numa_tonodemask_memory_v2 :: "'w os \<Rightarrow> nat \<Rightarrow> nat \<Rightarrow> bitmask \<Rightarrow> 'w numa \<Rightarrow> 'w numa option" where
  "numa_tonodemask_memory_v2 K mem sz bmp s = do {
     (_, s) \<leftarrow> dombind K mem sz (bind_policy s) (Some bmp) s;
     Some s
   }"

definition numa_setlocal_memory :: "'w os \<Rightarrow> nat \<Rightarrow> nat \<Rightarrow> 'w numa \<Rightarrow> 'w numa option" where
  "numa_setlocal_memory K mem sz s = do {
     (_, s) \<leftarrow> dombind K mem sz MPOL_LOCAL None s;
     Some s
   }"

section \<open>Allocation\<close>

text \<open>The loop \<open>for (i = 0; i < size; i += pagesize, p += pagesize)\<close>: \<open>i\<close> is an \<open>unsigned long\<close> and
  wraps, so the loop need not end for every page size; \<open>None\<close> is a loop that does not end.\<close>

partial_function (option) police_loop :: "'w os \<Rightarrow> nat \<Rightarrow> nat \<Rightarrow> nat \<Rightarrow> nat \<Rightarrow> 'w \<Rightarrow> 'w option" where
  "police_loop K pg sz i p w =
     (if i < sz then police_loop K pg sz ((i + pg) mod 2 ^ 64) ((p + pg) mod 2 ^ 64) (os_touch K w p)
      else Some w)"

definition numa_police_memory :: "'w os \<Rightarrow> nat \<Rightarrow> nat \<Rightarrow> 'w numa \<Rightarrow> 'w numa option" where
  "numa_police_memory K mem sz s = do {
     let (pg, s) = numa_pagesize K s;
     w \<leftarrow> police_loop K (c_ulong pg) sz 0 mem (world s);
     Some (s\<lparr>world := w\<rparr>)
   }"

text \<open>The private anonymous mapping every allocation function starts with; \<open>None\<close> is \<open>(char *)-1\<close>.\<close>

definition mmap_anon :: "'w os \<Rightarrow> nat \<Rightarrow> 'w numa \<Rightarrow> nat option \<times> 'w numa" where
  "mmap_anon K sz s =
     (case os_mmap K (world s) sz of
        None \<Rightarrow> (None, s\<lparr>errno := ENOMEM\<rparr>)
      | Some (mem, w) \<Rightarrow> (Some mem, s\<lparr>world := w\<rparr>))"

definition numa_alloc :: "'w os \<Rightarrow> nat \<Rightarrow> 'w numa \<Rightarrow> (nat option \<times> 'w numa) option" where
  "numa_alloc K sz s =
     (case mmap_anon K sz s of
        (None, s) \<Rightarrow> Some (None, s)
      | (Some mem, s) \<Rightarrow> do { s \<leftarrow> numa_police_memory K mem sz s; Some (Some mem, s) })"

definition numa_realloc :: "'w os \<Rightarrow> nat \<Rightarrow> nat \<Rightarrow> nat \<Rightarrow> 'w numa \<Rightarrow> nat option \<times> 'w numa" where
  "numa_realloc K old_addr old_size new_size s =
     (case os_mremap K (world s) old_addr old_size new_size of
        None \<Rightarrow> (None, s\<lparr>errno := ENOMEM\<rparr>)
      | Some (mem, w) \<Rightarrow> (Some mem, s\<lparr>world := w\<rparr>))"

definition numa_free :: "'w os \<Rightarrow> nat \<Rightarrow> nat \<Rightarrow> 'w numa \<Rightarrow> 'w numa" where
  "numa_free K mem sz s = s\<lparr>world := os_munmap K (world s) mem sz\<rparr>"

definition numa_alloc_interleaved_subset_v1 :: "'w os \<Rightarrow> nat \<Rightarrow> nodemask \<Rightarrow> 'w numa \<Rightarrow>
    (nat option \<times> 'w numa) option" where
  "numa_alloc_interleaved_subset_v1 K sz m s =
     (case mmap_anon K sz s of
        (None, s) \<Rightarrow> Some (None, s)
      | (Some mem, s) \<Rightarrow>
          dombind_or_free K mem sz MPOL_INTERLEAVE (Some \<lparr>bm_size = sizeof_nodemask, maskp = m\<rparr>) s)"

definition numa_alloc_interleaved_subset_v2 :: "'w os \<Rightarrow> nat \<Rightarrow> bitmask option \<Rightarrow> 'w numa \<Rightarrow>
    (nat option \<times> 'w numa) option" where
  "numa_alloc_interleaved_subset_v2 K sz bmp s =
     (case mmap_anon K sz s of
        (None, s) \<Rightarrow> Some (None, s)
      | (Some mem, s) \<Rightarrow> dombind_or_free K mem sz MPOL_INTERLEAVE bmp s)"

definition numa_alloc_interleaved :: "'w os \<Rightarrow> nat \<Rightarrow> 'w numa \<Rightarrow> (nat option \<times> 'w numa) option" where
  "numa_alloc_interleaved K sz s = numa_alloc_interleaved_subset_v2 K sz (numa_all_nodes_ptr s) s"

definition numa_alloc_weighted_interleaved_subset :: "'w os \<Rightarrow> nat \<Rightarrow> bitmask option \<Rightarrow> 'w numa \<Rightarrow>
    (nat option \<times> 'w numa) option" where
  "numa_alloc_weighted_interleaved_subset K sz bmp s =
     (case mmap_anon K sz s of
        (None, s) \<Rightarrow> Some (None, s)
      | (Some mem, s) \<Rightarrow> dombind_or_free K mem sz MPOL_WEIGHTED_INTERLEAVE bmp s)"

definition numa_alloc_weighted_interleaved :: "'w os \<Rightarrow> nat \<Rightarrow> 'w numa \<Rightarrow> (nat option \<times> 'w numa) option" where
  "numa_alloc_weighted_interleaved K sz s =
     numa_alloc_weighted_interleaved_subset K sz (numa_all_nodes_ptr s) s"

definition numa_alloc_onnode :: "'w os \<Rightarrow> nat \<Rightarrow> int \<Rightarrow> 'w numa \<Rightarrow> (nat option \<times> 'w numa) option" where
  "numa_alloc_onnode K sz node s = do {
     (bmp, s) \<leftarrow> numa_allocate_nodemask K s;
     case bmp of
       None \<Rightarrow> Some (None, s)
     | Some bmp \<Rightarrow>
         let bmp = numa_bitmask_setbit bmp (c_uint node) in
         (case mmap_anon K sz s of
            (None, s) \<Rightarrow> Some (None, s)
          | (Some mem, s) \<Rightarrow> dombind_or_free K mem sz (bind_policy s) (Some bmp) s)
   }"

definition numa_alloc_local :: "'w os \<Rightarrow> nat \<Rightarrow> 'w numa \<Rightarrow> (nat option \<times> 'w numa) option" where
  "numa_alloc_local K sz s =
     (case mmap_anon K sz s of
        (None, s) \<Rightarrow> Some (None, s)
      | (Some mem, s) \<Rightarrow> dombind_or_free K mem sz MPOL_LOCAL None s)"

section \<open>The policy of the process\<close>

text \<open>The mask that stands for "no nodes" is a global pointer; comparing with NULL crashes.\<close>

definition numa_set_interleave_mask_v1 :: "'w os \<Rightarrow> nodemask \<Rightarrow> 'w numa \<Rightarrow> 'w numa option" where
  "numa_set_interleave_mask_v1 K m s = do {
     (bmp, s) \<leftarrow> numa_bitmask_alloc K (c_uint (numa_max_possible_node_v1 + 1)) s;
     bmp \<leftarrow> bmp;
     let bmp = copy_nodemask_to_bitmask m bmp;
     no_nodes \<leftarrow> numa_no_nodes_ptr s;
     if numa_bitmask_equal bmp no_nodes then setpol K MPOL_DEFAULT bmp s
     else setpol K MPOL_INTERLEAVE bmp s
   }"

definition numa_set_interleave_mask_v2 :: "'w os \<Rightarrow> bitmask \<Rightarrow> 'w numa \<Rightarrow> 'w numa option" where
  "numa_set_interleave_mask_v2 K bmp s = do {
     no_nodes \<leftarrow> numa_no_nodes_ptr s;
     if numa_bitmask_equal bmp no_nodes then setpol K MPOL_DEFAULT bmp s
     else setpol K MPOL_INTERLEAVE bmp s
   }"

definition numa_set_weighted_interleave_mask :: "'w os \<Rightarrow> bitmask \<Rightarrow> 'w numa \<Rightarrow> 'w numa option" where
  "numa_set_weighted_interleave_mask K bmp s = do {
     no_nodes \<leftarrow> numa_no_nodes_ptr s;
     if numa_bitmask_equal bmp no_nodes then setpol K MPOL_DEFAULT bmp s
     else setpol K MPOL_WEIGHTED_INTERLEAVE bmp s
   }"

definition numa_get_interleave_mask_v1 :: "'w os \<Rightarrow> 'w numa \<Rightarrow> (nodemask \<times> 'w numa) option" where
  "numa_get_interleave_mask_v1 K s = do {
     (bmp, s) \<leftarrow> allocate_nodemask_v1 K s;
     case bmp of
       None \<Rightarrow> Some (numa_no_nodes s, s)
     | Some bmp \<Rightarrow> do {
         ((oldpolicy, bmp), s) \<leftarrow> getpol K 0 bmp s;
         if oldpolicy = MPOL_INTERLEAVE then Some (copy_bitmask_to_nodemask bmp, s)
         else do {
           no_nodes \<leftarrow> numa_no_nodes_ptr s;
           Some (copy_bitmask_to_nodemask no_nodes, s)
         }
       }
   }"

definition numa_get_interleave_mask_v2 :: "'w os \<Rightarrow> 'w numa \<Rightarrow> (bitmask option \<times> 'w numa) option" where
  "numa_get_interleave_mask_v2 K s = do {
     (bmp, s) \<leftarrow> numa_allocate_nodemask K s;
     case bmp of
       None \<Rightarrow> Some (None, s)
     | Some bmp \<Rightarrow> do {
         ((oldpolicy, bmp), s) \<leftarrow> getpol K 0 bmp s;
         if oldpolicy \<noteq> MPOL_INTERLEAVE then do {
           no_nodes \<leftarrow> numa_no_nodes_ptr s;
           Some (Some (copy_bitmask_to_bitmask no_nodes bmp), s)
         }
         else Some (Some bmp, s)
       }
   }"

definition numa_get_weighted_interleave_mask :: "'w os \<Rightarrow> 'w numa \<Rightarrow> (bitmask option \<times> 'w numa) option" where
  "numa_get_weighted_interleave_mask K s = do {
     (bmp, s) \<leftarrow> numa_allocate_nodemask K s;
     case bmp of
       None \<Rightarrow> Some (None, s)
     | Some bmp \<Rightarrow> do {
         ((oldpolicy, bmp), s) \<leftarrow> getpol K 0 bmp s;
         if oldpolicy \<noteq> MPOL_WEIGHTED_INTERLEAVE then do {
           no_nodes \<leftarrow> numa_no_nodes_ptr s;
           Some (Some (copy_bitmask_to_bitmask no_nodes bmp), s)
         }
         else Some (Some bmp, s)
       }
   }"

definition numa_get_interleave_node :: "'w os \<Rightarrow> 'w numa \<Rightarrow> int \<times> 'w numa" where
  "numa_get_interleave_node K s =
     (let ((r, nd, _), s) = get_mempolicy K 0 [] 0 0 MPOL_F_NODE s in
      if r = 0 then (nd, s) else (0, s))"

definition numa_set_bind_policy :: "'w os \<Rightarrow> bool \<Rightarrow> 'w numa \<Rightarrow> 'w numa option" where
  "numa_set_bind_policy K strict s = do {
     s \<leftarrow> set_preferred_many K s;
     Some (if strict then s\<lparr>bind_policy := MPOL_BIND\<rparr>
           else if has_preferred_many s \<noteq> 0 then s\<lparr>bind_policy := MPOL_PREFERRED_MANY\<rparr>
           else s\<lparr>bind_policy := MPOL_PREFERRED\<rparr>)
   }"

definition numa_set_membind_v1 :: "'w os \<Rightarrow> nodemask \<Rightarrow> 'w numa \<Rightarrow> 'w numa option" where
  "numa_set_membind_v1 K m s = setpol K MPOL_BIND \<lparr>bm_size = sizeof_nodemask, maskp = m\<rparr> s"

definition numa_set_membind_v2 :: "'w os \<Rightarrow> bitmask \<Rightarrow> 'w numa \<Rightarrow> 'w numa option" where
  "numa_set_membind_v2 K bmp s = setpol K MPOL_BIND bmp s"

text \<open>Balancing is asked for first, and given up silently where the kernel does not know it.\<close>

definition numa_set_membind_balancing :: "'w os \<Rightarrow> bitmask \<Rightarrow> 'w numa \<Rightarrow> 'w numa option" where
  "numa_set_membind_balancing K bmp s =
     (let (r, s) = set_mempolicy K (MPOL_BIND OR MPOL_F_NUMA_BALANCING) (maskp bmp) (bm_size bmp + 1) s in
      if r < 0 then
        if errno s = EINVAL then numa_set_membind_v2 K bmp (s\<lparr>errno := E0\<rparr>)
        else numa_error ''set_mempolicy'' s
      else Some s)"

text \<open>The version 1 call answers every policy other than MPOL_BIND by copying the mask it got from the
  kernel over the global \<open>numa_all_nodes\<close>.\<close>

definition numa_get_membind_v1 :: "'w os \<Rightarrow> 'w numa \<Rightarrow> (nodemask \<times> 'w numa) option" where
  "numa_get_membind_v1 K s = do {
     (bmp, s) \<leftarrow> allocate_nodemask_v1 K s;
     case bmp of
       None \<Rightarrow> Some (numa_no_nodes s, s)
     | Some bmp \<Rightarrow> do {
         ((oldpolicy, bmp), s) \<leftarrow> getpol K 0 bmp s;
         if oldpolicy = MPOL_BIND then Some (copy_bitmask_to_nodemask bmp, s)
         else
           let s = s\<lparr>numa_all_nodes := copy_bitmask_to_nodemask bmp\<rparr>
           in Some (numa_all_nodes s, s)
       }
   }"

definition numa_get_membind_v2 :: "'w os \<Rightarrow> 'w numa \<Rightarrow> (bitmask option \<times> 'w numa) option" where
  "numa_get_membind_v2 K s = do {
     (bmp, s) \<leftarrow> numa_allocate_nodemask K s;
     case bmp of
       None \<Rightarrow> Some (None, s)
     | Some bmp \<Rightarrow> do {
         ((oldpolicy, bmp), s) \<leftarrow> getpol K 0 bmp s;
         if oldpolicy \<noteq> MPOL_BIND then do {
           all_nodes \<leftarrow> numa_all_nodes_ptr s;
           Some (Some (copy_bitmask_to_bitmask all_nodes bmp), s)
         }
         else Some (Some bmp, s)
       }
   }"

definition numa_preferred_mask :: "'w os \<Rightarrow> 'w numa \<Rightarrow> (bitmask option \<times> 'w numa) option" where
  "numa_preferred_mask K s = do {
     (bmp, s) \<leftarrow> numa_allocate_nodemask K s;
     case bmp of
       None \<Rightarrow> Some (None, s)
     | Some bmp \<Rightarrow> do {
         ((policy, bmp), s) \<leftarrow> getpol K 0 (numa_bitmask_clearall bmp) s;
         if policy \<noteq> MPOL_PREFERRED \<and> policy \<noteq> MPOL_PREFERRED_MANY \<and> policy \<noteq> MPOL_BIND
         then Some (Some bmp, s)
         else do {
           s \<leftarrow> (if policy = MPOL_PREFERRED \<and> 1 < numa_bitmask_weight bmp
                 then numa_error ''libnuma.c'' (s\<lparr>errno := EINVAL\<rparr>) else Some s);
           Some (Some bmp, s)
         }
       }
   }"

definition numa_preferred_err :: "'w os \<Rightarrow> 'w numa \<Rightarrow> (int \<times> 'w numa) option" where
  "numa_preferred_err K s = do {
     (bmp, s) \<leftarrow> numa_preferred_mask K s;
     bmp \<leftarrow> bmp;
     Some (numa_find_first bmp, s)
   }"

definition numa_preferred :: "'w os \<Rightarrow> 'w numa \<Rightarrow> (int \<times> 'w numa) option" where
  "numa_preferred K s = do {
     (first_node, s) \<leftarrow> numa_preferred_err K s;
     Some (if 0 \<le> first_node then first_node else 0, s)
   }"

definition numa_preferred_many :: "'w os \<Rightarrow> 'w numa \<Rightarrow> (bitmask option \<times> 'w numa) option" where
  "numa_preferred_many K s = numa_preferred_mask K s"

definition set_preferred_mask :: "'w os \<Rightarrow> bitmask \<Rightarrow> 'w numa \<Rightarrow> 'w numa option" where
  "set_preferred_mask K bmp s = do {
     let nodes = numa_bitmask_weight bmp;
     s \<leftarrow> (if 1 < nodes then numa_error ''libnuma.c'' (s\<lparr>errno := EINVAL\<rparr>) else Some s);
     setpol K (if nodes \<noteq> 0 then MPOL_PREFERRED else MPOL_LOCAL) bmp s
   }"

definition numa_set_preferred :: "'w os \<Rightarrow> int \<Rightarrow> 'w numa \<Rightarrow> 'w numa option" where
  "numa_set_preferred K node s = do {
     (bmp, s) \<leftarrow> numa_allocate_nodemask K s;
     case bmp of
       None \<Rightarrow> Some s
     | Some bmp \<Rightarrow> set_preferred_mask K (numa_bitmask_setbit bmp (c_uint node)) s
   }"

definition numa_has_preferred_many :: "'w os \<Rightarrow> 'w numa \<Rightarrow> (int \<times> 'w numa) option" where
  "numa_has_preferred_many K s = do {
     s \<leftarrow> set_preferred_many K s;
     Some (has_preferred_many s, s)
   }"

definition numa_set_preferred_many :: "'w os \<Rightarrow> bitmask \<Rightarrow> 'w numa \<Rightarrow> 'w numa option" where
  "numa_set_preferred_many K bmp s = do {
     s \<leftarrow> set_preferred_many K s;
     if has_preferred_many s = 0 then do {
       s \<leftarrow> numa_warn W_nodeparse s;
       let first_node = numa_find_first bmp;
       numa_set_preferred K first_node s
     }
     else setpol K MPOL_PREFERRED_MANY bmp s
   }"

definition numa_set_localalloc :: "'w os \<Rightarrow> 'w numa \<Rightarrow> 'w numa option" where
  "numa_set_localalloc K s = do {
     no_nodes \<leftarrow> numa_no_nodes_ptr s;
     setpol K MPOL_LOCAL no_nodes s
   }"

definition numa_set_strict :: "int \<Rightarrow> 'w numa \<Rightarrow> 'w numa" where
  "numa_set_strict flag s =
     (if flag \<noteq> 0 then s\<lparr>mbind_flags := mbind_flags s OR MPOL_MF_STRICT\<rparr>
      else s\<lparr>mbind_flags := mbind_flags s AND NOT MPOL_MF_STRICT\<rparr>)"

section \<open>Home nodes and migration\<close>

definition numa_has_home_node :: "'w os \<Rightarrow> 'w numa \<Rightarrow> (int \<times> 'w numa) option" where
  "numa_has_home_node K s = do {
     let (page_size, s) = numa_pagesize K s;
     (tmp, s) \<leftarrow> numa_get_mems_allowed K s;
     if 0 \<le> has_home_node s then Some (has_home_node s, s)
     else do {
       let s = s\<lparr>has_home_node := 0\<rparr>;
       s \<leftarrow> (case mmap_anon K (c_ulong page_size) s of
               (None, s) \<Rightarrow> Some s
             | (Some mem, s) \<Rightarrow> do {
                 (_, s) \<leftarrow> dombind K mem (c_ulong page_size) MPOL_BIND tmp s;
                 tmp \<leftarrow> tmp;
                 let (r, s) = set_mempolicy_home_node K mem (c_ulong page_size) (numa_find_first tmp) 0 s;
                 let s = (if r = 0 then s\<lparr>has_home_node := 1\<rparr> else s);
                 Some (numa_free K mem (c_ulong page_size) s)
               });
       Some (has_home_node s, s)
     }
   }"

definition numa_set_mempolicy_home_node :: "'w os \<Rightarrow> nat \<Rightarrow> nat \<Rightarrow> int \<Rightarrow> int \<Rightarrow> 'w numa \<Rightarrow>
    (int \<times> 'w numa) option" where
  "numa_set_mempolicy_home_node K start len home_node flags s =
     (let (r, s) = set_mempolicy_home_node K start len home_node flags s in
      if r \<noteq> 0 then do {
        s \<leftarrow> numa_error ''set_mempolicy_home_node'' s;
        Some (- 1, s)
      }
      else Some (0, s))"

definition numa_migrate_pages :: "'w os \<Rightarrow> int \<Rightarrow> bitmask \<Rightarrow> bitmask \<Rightarrow> 'w numa \<Rightarrow> int \<times> 'w numa" where
  "numa_migrate_pages K pid fromnodes tonodes s =
     migrate_pages K pid (c_ulong (numa_num_possible_nodes s + 1)) (maskp fromnodes) (maskp tonodes) s"

definition numa_move_pages :: "'w os \<Rightarrow> int \<Rightarrow> nat \<Rightarrow> nat list \<Rightarrow> int list option \<Rightarrow> int list \<Rightarrow> int \<Rightarrow> 'w numa \<Rightarrow>
    (int \<times> int list) \<times> 'w numa" where
  "numa_move_pages K pid count pages nodes status flags s = move_pages K pid count pages nodes status flags s"

end
