(* ===== verification/Setup.thy ===== *)
theory Setup
  imports Syscall
begin

unbundle bit_operations_syntax

text \<open>
  What the library does when it is loaded (\<open>libnuma.c\<close> lines 91-129, 412-471, 473-693): it finds the
  size of the kernel's node mask and of its CPU mask, the nodes listed in \<open>/sys\<close>, the configured CPUs,
  and the CPUs and nodes the calling task may use, read from \<open>/proc/self/status\<close>.
\<close>

section \<open>Lines of a file\<close>

text \<open>\<open>getline\<close> delivers a file line by line, each with its newline, the last one possibly without.\<close>

fun split_lines :: "string \<Rightarrow> string \<Rightarrow> string list" where
  "split_lines acc [] = (if acc = [] then [] else [rev acc])"
| "split_lines acc (c # cs) =
     (if c = CHR 0x0A then rev (c # acc) # split_lines [] cs else split_lines (c # acc) cs)"

definition file_lines :: "string \<Rightarrow> string list" where
  "file_lines s = split_lines [] s"

lemma concat_split_lines: "concat (split_lines acc s) = rev acc @ s"
  by (induction acc s rule: split_lines.induct) auto

definition strprefix :: "string \<Rightarrow> string \<Rightarrow> bool" where
  "strprefix s pre \<longleftrightarrow> take (length pre) s = pre"

text \<open>\<open>strrchr(s, c) + 1\<close>: what follows the last occurrence; \<open>None\<close> when there is none, where the C
  computes the address \<open>NULL + 1\<close>.\<close>

definition after_last :: "char \<Rightarrow> string \<Rightarrow> string option" where
  "after_last c s = (if c \<in> set s then Some (rev (takeWhile (\<lambda>x. x \<noteq> c) (rev s))) else None)"

section \<open>The size of the node mask\<close>

definition is_digit :: "char \<Rightarrow> bool" where
  "is_digit c \<longleftrightarrow> c_isdigit c \<or> (97 \<le> char_code c \<and> char_code c \<le> 102) \<or>
     (65 \<le> char_code c \<and> char_code c \<le> 70)"

text \<open>\<open>Mems_allowed:\<close> and a tab.\<close>

definition nodemask_prefix :: string where
  "nodemask_prefix = ''Mems_allowed:'' @ [CHR 0x09]"

definition mask_size_file :: string where
  "mask_size_file = ''/proc/self/status''"

text \<open>The digits of one line, up to its newline; the count runs on over the lines of the file.\<close>

definition line_digits :: "string \<Rightarrow> nat" where
  "line_digits buf =
     length (filter is_digit (takeWhile (\<lambda>c. c \<noteq> CHR 0x0A) (drop (length nodemask_prefix) buf)))"

fun scan_nodemask_size :: "string list \<Rightarrow> nat \<Rightarrow> int \<Rightarrow> int" where
  "scan_nodemask_size [] digit_len sz = sz"
| "scan_nodemask_size (buf # bufs) digit_len sz =
     (if strprefix buf nodemask_prefix
      then let d = digit_len + line_digits buf in scan_nodemask_size bufs d (int (d * 4))
      else scan_nodemask_size bufs digit_len sz)"

text \<open>The fallback: ask the kernel with masks of 32, 64, ... bits until it accepts one.  The size of
  iteration \<open>k\<close> is \<open>32 * 2^k\<close>; \<open>realloc\<close> may fail, and the buffer it leaves is not read.\<close>

lemma probe_bound: "(32 :: nat) * 2 ^ k < 32768 \<longleftrightarrow> k < 10"
proof -
  have "(32 :: nat) * 2 ^ k < 32768 \<longleftrightarrow> (2 :: nat) ^ k < 2 ^ 10" by simp
  also have "\<dots> \<longleftrightarrow> k < 10" by (simp only: power_strict_increasing_iff one_less_numeral_iff semiring_norm)
  finally show ?thesis .
qed

function probe_nodemask_size :: "'w os \<Rightarrow> nat \<Rightarrow> 'w numa \<Rightarrow> 'w numa" where
  "probe_nodemask_size K k s =
     (let sz = 32 * 2 ^ k; s = s\<lparr>nodemask_sz := int sz\<rparr> in
      if \<not> os_malloc_ok K (world s) (sz div 8 + 8) then s
      else
        let ((r, _), s) = get_mempolicy K 0 (replicate (sz div 64 + 1) 0) sz 0 0 s in
        if r < 0 \<and> errno s = EINVAL \<and> sz < 4096 * 8 then probe_nodemask_size K (Suc k) s else s)"
  by pat_completeness auto
termination
  by (relation "measure (\<lambda>(K, k, s). 10 - k)") (auto simp: probe_bound diff_less_mono2)

declare probe_nodemask_size.simps [simp del]

definition set_nodemask_size :: "'w os \<Rightarrow> 'w numa \<Rightarrow> 'w numa" where
  "set_nodemask_size K s =
     (let s = (case os_file K (world s) mask_size_file of
                 Inl e \<Rightarrow> s\<lparr>errno := e\<rparr>
               | Inr t \<Rightarrow> s\<lparr>nodemask_sz := scan_nodemask_size (file_lines t) 0 (nodemask_sz s)\<rparr>)
      in if nodemask_sz s = 0 then probe_nodemask_size K 0 s else s)"

section \<open>The configured nodes\<close>

text \<open>One directory entry: names that do not start with \<open>node\<close> are skipped, the number behind it is
  converted to \<open>int\<close>, and set in both masks.\<close>

definition node_entry :: "string \<Rightarrow> 'w numa \<Rightarrow> 'w numa option" where
  "node_entry name s =
     (if take 4 name \<noteq> ''node'' then Some s
      else do {
        nodes \<leftarrow> numa_nodes_ptr s;
        memnode \<leftarrow> numa_memnode_ptr s;
        let nd = c_int (int (fst (strtoul (drop 4 name) 0)));
        let s = s\<lparr>numa_nodes_ptr := Some (numa_bitmask_setbit nodes (c_uint nd)),
                  numa_memnode_ptr := Some (numa_bitmask_setbit memnode (c_uint nd))\<rparr>;
        Some (if maxconfigurednode s < nd then s\<lparr>maxconfigurednode := nd\<rparr> else s)
      })"

definition set_configured_nodes :: "'w os \<Rightarrow> 'w numa \<Rightarrow> 'w numa option" where
  "set_configured_nodes K s = do {
     (m, s) \<leftarrow> numa_allocate_nodemask K s;
     let s = s\<lparr>numa_memnode_ptr := m\<rparr>;
     (n, s) \<leftarrow> numa_allocate_nodemask K s;
     let s = s\<lparr>numa_nodes_ptr := n\<rparr>;
     if numa_memnode_ptr s = None \<or> numa_nodes_ptr s = None then Some s
     else
       case os_dir K (world s) ''/sys/devices/system/node'' of
         None \<Rightarrow> Some (s\<lparr>maxconfigurednode := 0\<rparr>)
       | Some names \<Rightarrow> foldM node_entry names s
   }"

section \<open>The CPU mask\<close>

text \<open>\<open>set_numa_max_cpu\<close>: the length of iteration \<open>k\<close> is \<open>4096 * 2^k\<close>.  When the kernel still answers
  EINVAL at 1024*1024 the loop is left with \<open>n = -1\<close>.  \<open>sizeof(cpu_set_t)\<close> is 128.\<close>

lemma max_cpu_bound: "(2 :: nat) ^ k < 256 \<longleftrightarrow> k < 8"
proof -
  have "(2 :: nat) ^ k < 2 ^ 8 \<longleftrightarrow> k < 8"
    by (simp only: power_strict_increasing_iff one_less_numeral_iff semiring_norm)
  then show ?thesis by simp
qed

function max_cpu_loop :: "'w os \<Rightarrow> nat \<Rightarrow> 'w numa \<Rightarrow> (int option \<times> 'w numa) option" where
  "max_cpu_loop K k s = do {
     let len = 4096 * 2 ^ k;
     (buffer, s) \<leftarrow> numa_bitmask_alloc K len s;
     case buffer of
       None \<Rightarrow> Some (None, s)
     | Some buffer \<Rightarrow>
         let ((n, _), s) = numa_sched_getaffinity_v2 K 0 buffer s in
         if n < 0 then
           if errno s = EINVAL then
             if 1024 * 1024 \<le> len then Some (Some n, s)
             else max_cpu_loop K (Suc k) s
           else do {
             s \<leftarrow> numa_warn W_numcpus s;
             Some (Some 128, s)
           }
         else Some (Some n, s)
   }"
  by pat_completeness auto
termination
  by (relation "measure (\<lambda>(K, k, s). 8 - k)") (auto simp: not_le max_cpu_bound diff_less_mono2)

declare max_cpu_loop.simps [simp del]

definition set_numa_max_cpu :: "'w os \<Rightarrow> 'w numa \<Rightarrow> 'w numa option" where
  "set_numa_max_cpu K s = do {
     let olde = errno s;
     (n, s) \<leftarrow> max_cpu_loop K 0 s;
     case n of
       None \<Rightarrow> Some s
     | Some n \<Rightarrow> Some (s\<lparr>errno := olde, cpumask_sz := n * 8\<rparr>)
   }"

definition set_configured_cpus :: "'w os \<Rightarrow> 'w numa \<Rightarrow> 'w numa option" where
  "set_configured_cpus K s =
     (let s = s\<lparr>maxconfiguredcpu := c_int (os_nprocs_conf K (world s) - 1)\<rparr> in
      if maxconfiguredcpu s = - 1 then numa_error ''sysconf(NPROCESSORS_CONF) failed'' s
      else Some s)"

section \<open>Reading a mask\<close>

text \<open>\<open>read_mask\<close> reads comma-separated hexadecimal numbers, the highest 32 bits first.  The local
  \<open>unsigned int i\<close> truncates what \<open>strtoul\<close> returns.\<close>

definition hex_uint :: "string \<Rightarrow> nat \<times> string" where
  "hex_uint s = (let (v, end) = strtoul s 16 in (v mod 2 ^ 32, end))"

lemma hex_uint_suffix: "hex_uint s = (v, r) \<Longrightarrow> length r \<le> length s"
  using strtoul_suffix [of s 16] by (auto simp: hex_uint_def dest: suffix_length_le split: prod.splits)

function skip_zeros :: "nat \<Rightarrow> string \<Rightarrow> nat \<times> string" where
  "skip_zeros i end =
     (if i = 0 \<and> take 1 end = '','' then (let (i, end) = hex_uint (tl end) in skip_zeros i end)
      else (i, end))"
  by pat_completeness auto
termination
proof (relation "measure (\<lambda>(i, end). length end)", simp)
  fix i :: nat and e :: string and p v r
  assume "i = 0 \<and> take 1 e = '',''" "p = hex_uint (tl e)" "(v, r) = p"
  moreover have "length r \<le> length (tl e)" using hex_uint_suffix [of "tl e" v r] calculation by simp
  ultimately show "((v, r), i, e) \<in> measure (\<lambda>(i, end). length end)"
    by (cases e) (auto split: prod.splits)
qed

declare skip_zeros.simps [simp del]

text \<open>The numbers that follow, into an array of \<open>tmplen\<close> entries; \<open>None\<close> is the buffer overflow check.\<close>

function read_ints :: "nat \<Rightarrow> nat list \<Rightarrow> string \<Rightarrow> nat list option" where
  "read_ints tmplen start end =
     (if take 1 end = '','' then
        (let (i, end) = hex_uint (tl end) in
         if tmplen \<le> length start then None else read_ints tmplen (start @ [i]) end)
      else Some start)"
  by pat_completeness auto
termination
proof (relation "measure (\<lambda>(n, start, end). length end)", simp)
  fix n :: nat and st :: "nat list" and e :: string and p v r
  assume "take 1 e = '',''" "p = hex_uint (tl e)" "(v, r) = p"
  moreover have "length r \<le> length (tl e)" using hex_uint_suffix [of "tl e" v r] calculation by simp
  ultimately show "((n, st @ [v], r), n, st, e) \<in> measure (\<lambda>(n, start, end). length end)"
    by (cases e) (auto split: prod.splits)
qed

declare read_ints.simps [simp del]

text \<open>The inversion: words are put together from the end of the array, two ints to a long.\<close>

fun ints_to_longs :: "nat list \<Rightarrow> ulong list" where
  "ints_to_longs [] = []"
| "ints_to_longs [a] = [of_nat a]"
| "ints_to_longs (a # b # xs) = (of_nat a OR push_bit 32 (of_nat b)) # ints_to_longs xs"

text \<open>\<open>bmp->maskp[m++] = x\<close> for each word in turn.\<close>

definition store_longs :: "ulong list \<Rightarrow> ulong list \<Rightarrow> ulong list" where
  "store_longs ws xs = xs @ drop (length xs) ws"

definition read_mask :: "string \<Rightarrow> bitmask \<Rightarrow> int \<times> bitmask" where
  "read_mask s bmp =
     (let tmplen = (bm_size bmp + 32 - 1) div 32;
          (i, end) = hex_uint s;
          (i, end) = skip_zeros i end
      in if i = 0 then (- 1, bmp)
         else if tmplen \<le> 0 then (- 1, bmp)
         else case read_ints tmplen [i] end of
                None \<Rightarrow> (- 1, bmp)
              | Some start \<Rightarrow>
                  let bmp = bmp\<lparr>maskp := store_longs (maskp bmp) (ints_to_longs (rev start))\<rparr>
                  in (int (numa_bitmask_weight bmp), bmp))"

text \<open>No input makes \<open>read_mask\<close> write beyond the words of the mask: the array of ints holds at most as
  many as the mask has room for.\<close>

lemma read_ints_length: "read_ints n st e = Some r \<Longrightarrow> length st \<le> n \<Longrightarrow> length r \<le> n"
proof (induction n st e rule: read_ints.induct)
  case (1 n st e)
  show ?case
  proof (cases "take 1 e = '','' \<and> \<not> n \<le> length st")
    case True
    obtain v r' where v: "hex_uint (tl e) = (v, r')" by force
    from True v "1.prems"(1) have "read_ints n (st @ [v]) r' = Some r"
      by (simp add: read_ints.simps [of n st e])
    then show ?thesis using True v by (intro "1.IH" [of "hex_uint (tl e)" v r']) simp_all
  next
    case False
    then show ?thesis
      using "1.prems" by (auto simp: read_ints.simps [of n st e] split: if_splits prod.splits)
  qed
qed

lemma length_ints_to_longs: "length (ints_to_longs xs) = (length xs + 1) div 2"
  by (induction xs rule: ints_to_longs.induct) simp_all

lemma ints_fit_longs: "k \<le> (n + 32 - 1) div 32 \<Longrightarrow> (k + 1) div 2 \<le> longsperbits n"
  unfolding longsperbits_def by arith

lemma read_mask_inv:
  assumes "bm_inv b"
  shows "bm_inv (snd (read_mask s b))" "bm_size (snd (read_mask s b)) = bm_size b"
proof -
  obtain i e where ie: "hex_uint s = (i, e)" by force
  obtain j e' where je: "skip_zeros i e = (j, e')" by force
  have fit: "length (ints_to_longs (rev r)) \<le> length (maskp b)"
    if "read_ints ((bm_size b + 32 - 1) div 32) [j] e' = Some r" "0 < (bm_size b + 32 - 1) div 32" for r
    using that read_ints_length [OF that(1)] assms ints_fit_longs [of "length r" "bm_size b"]
    by (simp add: length_ints_to_longs bm_inv_def)
  show "bm_inv (snd (read_mask s b))" "bm_size (snd (read_mask s b)) = bm_size b"
    using assms fit
    by (auto simp: read_mask_def ie je Let_def bm_inv_def store_longs_def split: option.splits)
qed

section \<open>Reading back a printed mask\<close>

text \<open>The form in which the kernel prints a mask: 32-bit chunks in hexadecimal, the highest first, all
  but the first with eight digits.  The chunks stand for the set \<open>chunk_bits\<close>.\<close>

fun hex_chunks :: "nat list \<Rightarrow> string" where
  "hex_chunks [] = []"
| "hex_chunks (x # xs) = CHR '','' # pad_hex 8 x @ hex_chunks xs"

definition print_mask :: "nat \<Rightarrow> nat list \<Rightarrow> string" where
  "print_mask k xs = pad_hex k (hd xs) @ hex_chunks (tl xs) @ [CHR 0x0A]"

definition chunk_bits :: "nat list \<Rightarrow> nat set" where
  "chunk_bits xs = {i. i div 32 < length xs \<and> bit (rev xs ! (i div 32)) (i mod 32)}"

lemma hex_stop_chunks: "hex_stop (hex_chunks xs @ [CHR 0x0A])"
  by (cases xs) (simp_all add: hex_stop_def starts_digit_def is_digit_of_def digit_val_def char_code_def)

lemma hex_uint_chunk:
  assumes "x < 16 ^ k" "0 < k" "k \<le> 8"
  shows "hex_uint (pad_hex k x @ hex_chunks xs @ [CHR 0x0A]) = (x, hex_chunks xs @ [CHR 0x0A])"
proof -
  have "(16 :: nat) ^ k \<le> 16 ^ 8" using \<open>k \<le> 8\<close> by (intro power_increasing) simp_all
  with assms(1) have "x < 2 ^ 32" by simp
  moreover have "strtoul (pad_hex k x @ hex_chunks xs @ [CHR 0x0A]) 16 = (x, hex_chunks xs @ [CHR 0x0A])"
    using assms by (intro strtoul_pad_hex hex_stop_chunks) simp_all
  ultimately show ?thesis by (simp add: hex_uint_def)
qed

lemma skip_zeros_chunks:
  assumes "\<forall>x \<in> set xs. x < 2 ^ 32"
  shows "skip_zeros i (hex_chunks xs @ [CHR 0x0A]) =
    (case dropWhile (\<lambda>x. x = 0) (i # xs) of [] \<Rightarrow> (0, [CHR 0x0A])
     | y # ys \<Rightarrow> (y, hex_chunks ys @ [CHR 0x0A]))"
  using assms
proof (induction xs arbitrary: i)
  case Nil
  then show ?case by (simp add: skip_zeros.simps [of i])
next
  case (Cons x xs)
  have "hex_uint (pad_hex 8 x @ hex_chunks xs @ [CHR 0x0A]) = (x, hex_chunks xs @ [CHR 0x0A])"
    using Cons.prems by (intro hex_uint_chunk) simp_all
  then show ?case
    using Cons by (simp add: skip_zeros.simps [of i])
qed

lemma read_ints_chunks:
  assumes "\<forall>x \<in> set xs. x < 2 ^ 32" "length st + length xs \<le> n"
  shows "read_ints n st (hex_chunks xs @ [CHR 0x0A]) = Some (st @ xs)"
  using assms
proof (induction xs arbitrary: st)
  case Nil
  then show ?case by (simp add: read_ints.simps [of n])
next
  case (Cons x xs)
  have "hex_uint (pad_hex 8 x @ hex_chunks xs @ [CHR 0x0A]) = (x, hex_chunks xs @ [CHR 0x0A])"
    using Cons.prems by (intro hex_uint_chunk) simp_all
  then show ?case
    using Cons by (simp add: read_ints.simps [of n])
qed

lemma bit_of_nat_chunk: "x < 2 ^ 32 \<Longrightarrow> bit (of_nat x :: ulong) j \<longleftrightarrow> bit x j"
proof -
  assume "x < 2 ^ 32"
  then have "take_bit 64 x = x" by (simp add: take_bit_nat_eq_self_iff)
  then have "bit x j \<longleftrightarrow> j < 64 \<and> bit x j" by (metis bit_take_bit_iff)
  then show ?thesis by (auto simp: bit_of_nat_iff)
qed

lemma bit_chunk_less: "(x :: nat) < 2 ^ 32 \<Longrightarrow> bit x j \<Longrightarrow> j < 32"
  by (metis bit_take_bit_iff take_bit_nat_eq_self_iff)

lemma wbit_ints_to_longs:
  assumes "\<forall>x \<in> set xs. x < 2 ^ 32"
  shows "wbit (ints_to_longs xs) i \<longleftrightarrow> i div 32 < length xs \<and> bit (xs ! (i div 32)) (i mod 32)"
  using assms
proof (induction xs arbitrary: i rule: ints_to_longs.induct)
  case 1
  then show ?case by (simp add: wbit_def)
next
  case (2 a)
  have "i div 64 < 1 \<longleftrightarrow> i < 64" "i div 32 < 1 \<longleftrightarrow> i < 32" by auto
  moreover have "bit (of_nat a :: ulong) i \<longleftrightarrow> bit a i" "bit a i \<Longrightarrow> i < 32"
    using 2 by (simp_all add: bit_of_nat_chunk bit_chunk_less)
  ultimately show ?case by (auto simp: wbit_def)
next
  case (3 a b xs)
  have ab: "bit (of_nat a :: ulong) j \<longleftrightarrow> bit a j" "bit a j \<Longrightarrow> j < 32"
    "bit (of_nat b :: ulong) j \<longleftrightarrow> bit b j" "bit b j \<Longrightarrow> j < 32" for j
    using 3 bit_chunk_less [of a j] bit_chunk_less [of b j] by (simp_all add: bit_of_nat_chunk)
  show ?case
  proof (cases "i < 64")
    case True
    then have d: "i div 64 = 0" "i mod 64 = i" by simp_all
    have "wbit (ints_to_longs (a # b # xs)) i \<longleftrightarrow> bit a i \<or> 32 \<le> i \<and> bit b (i - 32)"
      using ab True by (auto simp: wbit_def d bit_or_iff bit_push_bit_iff)
    moreover have "i div 32 = (if i < 32 then 0 else 1)" "i mod 32 = (if i < 32 then i else i - 32)"
      using True by (auto simp: le_mod_geq le_div_geq)
    ultimately show ?thesis using ab(2) by auto
  next
    case False
    then obtain k where k: "i = k + 64" by (metis add.commute le_Suc_ex not_less)
    have "(k + 64) div 64 = k div 64 + 1" "(k + 64) mod 64 = k mod 64"
      by (simp_all add: div_add_self2)
    then have "wbit (ints_to_longs (a # b # xs)) i \<longleftrightarrow> wbit (ints_to_longs xs) k"
      by (simp add: wbit_def k)
    also have "\<dots> \<longleftrightarrow> k div 32 < length xs \<and> bit (xs ! (k div 32)) (k mod 32)"
      using 3 by simp
    moreover have "(k + 64) div 32 = k div 32 + 2" "(k + 64) mod 32 = k mod 32"
      using div_mult_self1 [of 32 k 2] mod_mult_self1 [of k 2 32] by simp_all
    ultimately show ?thesis using k by simp
  qed
qed

lemma chunk_bits_dropWhile: "chunk_bits (dropWhile (\<lambda>x. x = 0) xs) = chunk_bits xs"
proof (induction xs)
  case (Cons x xs)
  show ?case
  proof (cases "x = 0")
    case True
    have "chunk_bits (0 # xs) = chunk_bits xs"
      by (auto simp: chunk_bits_def nth_append less_Suc_eq)
    then show ?thesis using True Cons by simp
  qed simp
qed simp

lemma read_mask_print:
  assumes lens: "0 < k" "k \<le> 8" and hd: "hd xs < 16 ^ k" and xs: "xs \<noteq> []" "\<forall>x \<in> set xs. x < 2 ^ 32"
    and nz: "dropWhile (\<lambda>x. x = 0) xs \<noteq> []"
    and fits: "length (dropWhile (\<lambda>x. x = 0) xs) \<le> (bm_size b + 31) div 32"
    and b: "bm_inv b" "bm_bits b = {}" "\<forall>i. \<not> wbit (maskp b) i"
  shows "\<exists>b'. read_mask (print_mask k xs) b = (int (card (bm_bits b')), b') \<and> bm_inv b' \<and>
    bm_size b' = bm_size b \<and> bm_bits b' = chunk_bits xs \<inter> {..<bm_size b}"
proof -
  obtain y ys where ys: "dropWhile (\<lambda>x. x = 0) xs = y # ys" using nz by (cases "dropWhile (\<lambda>x. x = 0) xs") auto
  have sub: "set (y # ys) \<subseteq> set xs" unfolding ys [symmetric] by (rule set_dropWhileD [THEN subsetI])
  have y0: "y \<noteq> 0" using hd_dropWhile [OF nz] ys by simp
  let ?ws = "ints_to_longs (rev (y # ys))"
  define b' where "b' = b\<lparr>maskp := store_longs (maskp b) ?ws\<rparr>"
  obtain x0 xr where x: "xs = x0 # xr" using xs(1) by (cases xs) auto
  have h: "hex_uint (print_mask k xs) = (x0, hex_chunks xr @ [CHR 0x0A])"
    using hex_uint_chunk [of x0 k xr] lens hd by (simp add: print_mask_def x)
  have sk: "skip_zeros x0 (hex_chunks xr @ [CHR 0x0A]) = (y, hex_chunks ys @ [CHR 0x0A])"
    using skip_zeros_chunks [of xr x0] xs(2) ys x by simp
  have len: "1 + length ys \<le> (bm_size b + 31) div 32" using fits ys by simp
  have "\<forall>x \<in> set ys. x < 2 ^ 32" using sub xs(2) by auto
  from read_ints_chunks [OF this, of "[y]" "(bm_size b + 31) div 32"] len
  have rd: "read_ints ((bm_size b + 31) div 32) [y] (hex_chunks ys @ [CHR 0x0A]) = Some (y # ys)"
    by simp
  then have run: "read_mask (print_mask k xs) b = (int (numa_bitmask_weight b'), b')"
    using h sk y0 len rd by (simp add: read_mask_def b'_def Let_def add.commute)
  have inv: "bm_inv b'" and size: "bm_size b' = bm_size b"
    using read_mask_inv [OF b(1), of "print_mask k xs"] by (simp_all add: run)
  have words: "length ?ws \<le> length (maskp b)"
    using len ints_fit_longs [of "1 + length ys" "bm_size b"] b(1)
    by (simp add: length_ints_to_longs bm_inv_def)
  have chunk: "wbit ?ws i \<longleftrightarrow> i \<in> chunk_bits xs" for i
    using wbit_ints_to_longs [of "rev (y # ys)" i] sub xs(2) chunk_bits_dropWhile [of xs]
    by (auto simp: ys chunk_bits_def)
  have bits: "wbit (maskp b') i \<longleftrightarrow> i \<in> chunk_bits xs" for i
  proof (cases "i < 64 * length ?ws")
    case True
    then show ?thesis using chunk by (simp add: b'_def store_longs_def wbit_append)
  next
    case False
    then have "\<not> wbit ?ws i" using wbit_less by blast
    moreover have "\<not> wbit (drop (length ?ws) (maskp b)) (i - 64 * length ?ws)"
      by (simp add: wbit_drop b(3))
    ultimately show ?thesis using chunk False by (simp add: b'_def store_longs_def wbit_append)
  qed
  have "bm_bits b' = chunk_bits xs \<inter> {..<bm_size b}"
    by (rule set_eqI) (simp only: mem_bm_bits isbitset_wbit [OF inv] bits size Int_iff lessThan_iff conj_commute)
  with run inv size show ?thesis by (metis weight_bits)
qed

section \<open>The constraints of the task\<close>

text \<open>One line of \<open>/proc/self/status\<close>; the mask starts after the last tab.  Without a tab the pointer is
  \<open>NULL + 1\<close>, and reading a mask through it ends the process.\<close>

definition status_line :: "string \<Rightarrow> 'w numa \<Rightarrow> 'w numa option" where
  "status_line buffer s = do {
     let msk = after_last (CHR 0x09) buffer;
     s \<leftarrow> (if take 13 buffer = ''Cpus_allowed:'' then do {
              m \<leftarrow> msk;
              cpus \<leftarrow> numa_all_cpus_ptr s;
              let (n, cpus) = read_mask m cpus;
              Some (s\<lparr>numproccpu := n, numa_all_cpus_ptr := Some cpus\<rparr>)
            } else Some s);
     if take 13 buffer = ''Mems_allowed:'' then do {
       m \<leftarrow> msk;
       nodes \<leftarrow> numa_all_nodes_ptr s;
       let (n, nodes) = read_mask m nodes;
       Some (s\<lparr>numprocnode := n, numa_all_nodes_ptr := Some nodes\<rparr>)
     } else Some s
   }"

text \<open>\<open>for (i = a; i <= b; i++) numa_bitmask_setbit(m, i)\<close>, with \<open>int\<close> bounds.\<close>

definition set_upto :: "int \<Rightarrow> bitmask \<Rightarrow> bitmask" where
  "set_upto b m = fold (\<lambda>i m. numa_bitmask_setbit m i) [0..<nat (b + 1)] m"

definition task_defaults :: "int \<Rightarrow> 'w numa \<Rightarrow> 'w numa option" where
  "task_defaults hicpu s = do {
     pc \<leftarrow> numa_possible_cpus_ptr s;
     let s = s\<lparr>numa_possible_cpus_ptr := Some (set_upto hicpu pc)\<rparr>;
     pn \<leftarrow> numa_possible_nodes_ptr s;
     let s = s\<lparr>numa_possible_nodes_ptr := Some (set_upto (maxconfigurednode s) pn)\<rparr>;
     ac \<leftarrow> numa_all_cpus_ptr s;
     let s = (if numproccpu s \<le> 0
              then s\<lparr>numa_all_cpus_ptr := Some (set_upto hicpu ac), numproccpu := hicpu + 1\<rparr> else s);
     ac \<leftarrow> numa_all_cpus_ptr s;
     let s = (if hicpu + 1 < numproccpu s
              then s\<lparr>numproccpu := hicpu + 1,
                     numa_all_cpus_ptr := Some (fold (\<lambda>i m. numa_bitmask_clearbit m i)
                       [nat (hicpu + 1)..<bm_size ac] ac)\<rparr> else s);
     an \<leftarrow> numa_all_nodes_ptr s;
     Some (if numprocnode s \<le> 0
           then s\<lparr>numa_all_nodes_ptr := Some (set_upto (maxconfigurednode s) an),
                  numprocnode := maxconfigurednode s + 1\<rparr> else s)
   }"

definition set_task_constraints :: "'w os \<Rightarrow> 'w numa \<Rightarrow> 'w numa option" where
  "set_task_constraints K s = do {
     let hicpu = maxconfiguredcpu s;
     (m, s) \<leftarrow> numa_allocate_cpumask K s;
     let s = s\<lparr>numa_all_cpus_ptr := m\<rparr>;
     (m, s) \<leftarrow> numa_allocate_cpumask K s;
     let s = s\<lparr>numa_possible_cpus_ptr := m\<rparr>;
     (m, s) \<leftarrow> numa_allocate_nodemask K s;
     let s = s\<lparr>numa_all_nodes_ptr := m\<rparr>;
     (m, s) \<leftarrow> numa_allocate_cpumask K s;
     let s = s\<lparr>numa_possible_nodes_ptr := m\<rparr>;
     (m, s) \<leftarrow> numa_allocate_nodemask K s;
     let s = s\<lparr>numa_no_nodes_ptr := m\<rparr>;
     if numa_all_cpus_ptr s = None \<or> numa_possible_cpus_ptr s = None \<or> numa_all_nodes_ptr s = None \<or>
        numa_possible_nodes_ptr s = None \<or> numa_no_nodes_ptr s = None then Some s
     else
       case os_file K (world s) mask_size_file of
         Inl e \<Rightarrow> Some (s\<lparr>errno := e\<rparr>)
       | Inr t \<Rightarrow> do {
           s \<leftarrow> foldM status_line (file_lines t) s;
           task_defaults hicpu s
         }
   }"

section \<open>Loading and unloading\<close>

definition set_sizes :: "'w os \<Rightarrow> 'w numa \<Rightarrow> 'w numa option" where
  "set_sizes K s = do {
     let s = s\<lparr>sizes_set := sizes_set s + 1\<rparr>;
     let s = set_nodemask_size K s;
     s \<leftarrow> set_configured_nodes K s;
     s \<leftarrow> set_numa_max_cpu K s;
     s \<leftarrow> set_configured_cpus K s;
     set_task_constraints K s
   }"

definition numa_init :: "'w os \<Rightarrow> 'w numa \<Rightarrow> 'w numa option" where
  "numa_init K s =
     (if sizes_set s \<noteq> 0 then Some s
      else do {
        s \<leftarrow> set_sizes K s;
        n \<leftarrow> numa_num_configured_nodes s;
        let s = s\<lparr>numa_all_nodes :=
                   fold (\<lambda>i m. nodemask_set_compat m i) [0..<nat n] (numa_all_nodes s)\<rparr>;
        let s = s\<lparr>numa_no_nodes := replicate (sizeof_nodemask div 8) 0\<rparr>;
        Some (s\<lparr>errno := E0\<rparr>)
      })"

text \<open>The destructor frees every global and leaves NULL pointers behind.\<close>

definition cleanup_node_cpu_mask_v2 :: "'w numa \<Rightarrow> 'w numa" where
  "cleanup_node_cpu_mask_v2 s = s\<lparr>node_cpu_mask_v2 := None\<rparr>"

definition numa_distance_cleanup :: "'w numa \<Rightarrow> 'w numa" where
  "numa_distance_cleanup s = s\<lparr>distance_table := None, distance_numnodes := 0\<rparr>"

definition numa_fini :: "'w numa \<Rightarrow> 'w numa" where
  "numa_fini s = numa_distance_cleanup (cleanup_node_cpu_mask_v2
     (s\<lparr>numa_all_cpus_ptr := None, numa_possible_cpus_ptr := None, numa_all_nodes_ptr := None,
        numa_possible_nodes_ptr := None, numa_no_nodes_ptr := None, numa_memnode_ptr := None,
        numa_nodes_ptr := None\<rparr>))"

section \<open>What the setup establishes\<close>

text \<open>The node numbers a directory listing names.\<close>

definition node_numbers :: "string list \<Rightarrow> int list" where
  "node_numbers names =
     map (\<lambda>name. c_int (int (fst (strtoul (drop 4 name) 0)))) (filter (\<lambda>name. take 4 name = ''node'') names)"

lemma node_entries_run:
  assumes "numa_nodes_ptr s = Some b" "numa_memnode_ptr s = Some m"
  shows "foldM node_entry names s = Some (s\<lparr>
    numa_nodes_ptr := Some (fold (\<lambda>i m. setbit m i 1) (map c_uint (node_numbers names)) b),
    numa_memnode_ptr := Some (fold (\<lambda>i m. setbit m i 1) (map c_uint (node_numbers names)) m),
    maxconfigurednode := fold max (node_numbers names) (maxconfigurednode s)\<rparr>)"
  using assms
proof (induction names arbitrary: s b m)
  case Nil
  then show ?case by (simp add: node_numbers_def)
next
  case (Cons name names)
  show ?case
  proof (cases "take 4 name = ''node''")
    case True
    define nd where "nd = c_int (int (fst (strtoul (drop 4 name) 0)))"
    define s' where "s' = s\<lparr>numa_nodes_ptr := Some (setbit b (c_uint nd) 1),
      numa_memnode_ptr := Some (setbit m (c_uint nd) 1), maxconfigurednode := max nd (maxconfigurednode s)\<rparr>"
    have "node_entry name s = Some s'"
      using True Cons.prems
      by (simp add: node_entry_def s'_def numa_bitmask_setbit_def max_def not_less nd_def [symmetric])
    moreover have "node_numbers (name # names) = nd # node_numbers names"
      using True by (simp add: node_numbers_def nd_def)
    moreover have "foldM node_entry names s' = Some (s'\<lparr>
      numa_nodes_ptr := Some (fold (\<lambda>i m. setbit m i 1) (map c_uint (node_numbers names)) (setbit b (c_uint nd) 1)),
      numa_memnode_ptr := Some (fold (\<lambda>i m. setbit m i 1) (map c_uint (node_numbers names)) (setbit m (c_uint nd) 1)),
      maxconfigurednode := fold max (node_numbers names) (maxconfigurednode s')\<rparr>)"
      by (rule Cons.IH) (simp_all add: s'_def)
    ultimately show ?thesis by (simp add: s'_def)
  next
    case False
    then have "node_entry name s = Some s" "node_numbers (name # names) = node_numbers names"
      by (simp_all add: node_entry_def node_numbers_def)
    then show ?thesis using Cons by simp
  qed
qed

lemma fold_max_Max: "fold max xs (m :: int) = Max (insert m (set xs))"
proof (induction xs arbitrary: m)
  case (Cons x xs)
  have "Max (insert (max x m) (set xs)) = Max (insert m (insert x (set xs)))"
    by (cases "set xs = {}") (simp_all add: max.assoc max.left_commute max.commute)
  then show ?case using Cons by simp
qed simp

text \<open>\<open>set_configured_nodes\<close> collects the listed nodes in both masks and their maximum.\<close>

lemma set_configured_nodes_run:
  assumes "malloc_succeeds K" "0 < nodemask_sz s" "nodemask_sz s < 2 ^ 31"
    and "os_dir K (world s) ''/sys/devices/system/node'' = Some names"
    and nums: "\<forall>n \<in> set (node_numbers names). 0 \<le> n \<and> n < nodemask_sz s"
  shows "\<exists>b. set_configured_nodes K s = Some (s\<lparr>numa_memnode_ptr := Some b, numa_nodes_ptr := Some b,
      maxconfigurednode := fold max (node_numbers names) (maxconfigurednode s)\<rparr>) \<and>
    mask_ok (nodemask_sz s) (Some b) \<and> bm_bits b = nat ` set (node_numbers names)"
proof -
  define n where "n = nat (nodemask_sz s)"
  define b where "b = fold (\<lambda>i m. setbit m i 1) (map c_uint (node_numbers names)) (new_bitmask n)"
  have c: "\<forall>i \<in> set (node_numbers names). c_uint i = nat i \<and> nat i < n"
    using nums assms(3) by (auto simp: c_uint_id n_def)
  then have "set (map c_uint (node_numbers names)) \<inter> {..<n} = nat ` set (node_numbers names)"
    by force
  then have "bm_inv b" "bm_size b = n" "bm_bits b = nat ` set (node_numbers names)"
    using setbits_loop [of "new_bitmask n" 1 "map c_uint (node_numbers names)"]
    by (simp_all add: b_def del: mem_bm_bits set_map)
  moreover have "set_configured_nodes K s = Some (s\<lparr>numa_memnode_ptr := Some b, numa_nodes_ptr := Some b,
      maxconfigurednode := fold max (node_numbers names) (maxconfigurednode s)\<rparr>)"
    using assms by (simp add: set_configured_nodes_def allocate_nodemask_run node_entries_run
        n_def [symmetric] b_def)
  ultimately show ?thesis using assms(2) by (auto simp: mask_ok_def n_def)
qed

lemma set_upto_inv:
  assumes "bm_inv m"
  shows "bm_inv (set_upto b m)" "bm_size (set_upto b m) = bm_size m"
    "bm_bits (set_upto b m) = bm_bits m \<union> {i. int i \<le> b \<and> i < bm_size m}"
proof -
  have "set [0..<nat (b + 1)] \<inter> {..<bm_size m} = {i. int i \<le> b \<and> i < bm_size m}" by auto
  then show "bm_inv (set_upto b m)" "bm_size (set_upto b m) = bm_size m"
    "bm_bits (set_upto b m) = bm_bits m \<union> {i. int i \<le> b \<and> i < bm_size m}"
    using setbits_loop [OF assms, of 1 "[0..<nat (b + 1)]"]
    by (simp_all add: set_upto_def numa_bitmask_setbit_def [abs_def] del: mem_bm_bits set_upt)
qed

text \<open>The lines of the status file change only the two masks of the task and their counts, and keep
  the masks well formed; every line with a mask has a tab.\<close>

definition status_ok :: "string \<Rightarrow> bool" where
  "status_ok t \<longleftrightarrow> (\<forall>l \<in> set (file_lines t).
     take 13 l = ''Cpus_allowed:'' \<or> take 13 l = ''Mems_allowed:'' \<longrightarrow> CHR 0x09 \<in> set l)"

definition task_frame :: "'w numa \<Rightarrow> 'w numa \<Rightarrow> bool" where
  "task_frame s0 s \<longleftrightarrow>
     (\<exists>ac an pc pn. s = s0\<lparr>numa_all_cpus_ptr := Some ac, numa_all_nodes_ptr := Some an,
                        numproccpu := pc, numprocnode := pn\<rparr> \<and>
        mask_ok (cpumask_sz s0) (Some ac) \<and> mask_ok (nodemask_sz s0) (Some an))"

lemma mask_ok_read:
  assumes "mask_ok n (Some b)" "read_mask m b = (k, b')"
  shows "mask_ok n (Some b')"
  using assms read_mask_inv [of b m] by (simp add: mask_ok_def)

lemma status_line_frame:
  assumes "task_frame s0 s"
    and "take 13 l = ''Cpus_allowed:'' \<or> take 13 l = ''Mems_allowed:'' \<longrightarrow> CHR 0x09 \<in> set l"
  shows "\<exists>s'. status_line l s = Some s' \<and> task_frame s0 s'"
proof -
  obtain ac an pc pn where s: "s = s0\<lparr>numa_all_cpus_ptr := Some ac, numa_all_nodes_ptr := Some an,
      numproccpu := pc, numprocnode := pn\<rparr>"
    and m: "mask_ok (cpumask_sz s0) (Some ac)" "mask_ok (nodemask_sz s0) (Some an)"
    using assms(1) by (auto simp: task_frame_def)
  consider "take 13 l = ''Cpus_allowed:''" | "take 13 l = ''Mems_allowed:''"
    | "take 13 l \<noteq> ''Cpus_allowed:''" "take 13 l \<noteq> ''Mems_allowed:''" by blast
  then show ?thesis
  proof cases
    case 1
    then obtain t where t: "after_last (CHR 0x09) l = Some t" using assms(2) by (simp add: after_last_def)
    obtain k ac' where r: "read_mask t ac = (k, ac')" by force
    have "status_line l s = Some (s\<lparr>numproccpu := k, numa_all_cpus_ptr := Some ac'\<rparr>)"
      using 1 t r by (simp add: status_line_def s)
    moreover have "task_frame s0 (s\<lparr>numproccpu := k, numa_all_cpus_ptr := Some ac'\<rparr>)"
      using m mask_ok_read [OF m(1) r] unfolding task_frame_def s
      by (intro exI [of _ ac'] exI [of _ an] exI [of _ k] exI [of _ pn]) simp
    ultimately show ?thesis by blast
  next
    case 2
    then obtain t where t: "after_last (CHR 0x09) l = Some t" using assms(2) by (simp add: after_last_def)
    obtain k an' where r: "read_mask t an = (k, an')" by force
    have "status_line l s = Some (s\<lparr>numprocnode := k, numa_all_nodes_ptr := Some an'\<rparr>)"
      using 2 t r by (simp add: status_line_def s)
    moreover have "task_frame s0 (s\<lparr>numprocnode := k, numa_all_nodes_ptr := Some an'\<rparr>)"
      using m mask_ok_read [OF m(2) r] unfolding task_frame_def s
      by (intro exI [of _ ac] exI [of _ an'] exI [of _ pc] exI [of _ k]) simp
    ultimately show ?thesis by blast
  next
    case 3
    then have "status_line l s = Some s" by (simp add: status_line_def)
    then show ?thesis using assms(1) by blast
  qed
qed

text \<open>\<open>task_defaults\<close> on masks of the right shape: it returns, fills in the possible sets, and leaves
  counts between one and the configured number.\<close>

lemma clear_from_inv:
  assumes "bm_inv m"
  shows "bm_inv (fold (\<lambda>i m. numa_bitmask_clearbit m i) xs m)"
    "bm_size (fold (\<lambda>i m. numa_bitmask_clearbit m i) xs m) = bm_size m"
  using setbits_loop [OF assms, of 0 xs] by (simp_all add: numa_bitmask_clearbit_def [abs_def])

lemma task_defaults_run:
  assumes "mask_ok (cpumask_sz s) (numa_possible_cpus_ptr s)" "mask_ok (cpumask_sz s) (numa_possible_nodes_ptr s)"
    and "mask_ok (cpumask_sz s) (numa_all_cpus_ptr s)" "mask_ok (nodemask_sz s) (numa_all_nodes_ptr s)"
    and "0 \<le> hicpu" "0 \<le> maxconfigurednode s"
  shows "\<exists>pc pn ac an c n. task_defaults hicpu s = Some (s\<lparr>numa_possible_cpus_ptr := Some pc,
      numa_possible_nodes_ptr := Some pn, numa_all_cpus_ptr := Some ac, numa_all_nodes_ptr := Some an,
      numproccpu := c, numprocnode := n\<rparr>) \<and>
    mask_ok (cpumask_sz s) (Some pc) \<and> mask_ok (cpumask_sz s) (Some pn) \<and>
    mask_ok (cpumask_sz s) (Some ac) \<and> mask_ok (nodemask_sz s) (Some an) \<and>
    1 \<le> c \<and> c \<le> hicpu + 1 \<and> 1 \<le> n"
proof -
  from assms(1-4) obtain pc0 pn0 ac0 an0 where
    ptrs: "numa_possible_cpus_ptr s = Some pc0" "numa_possible_nodes_ptr s = Some pn0"
      "numa_all_cpus_ptr s = Some ac0" "numa_all_nodes_ptr s = Some an0"
    and ok: "bm_inv pc0" "bm_inv pn0" "bm_inv ac0" "bm_inv an0"
      "int (bm_size pc0) = cpumask_sz s" "int (bm_size pn0) = cpumask_sz s"
      "int (bm_size ac0) = cpumask_sz s" "int (bm_size an0) = nodemask_sz s"
    by (metis mask_okE)
  define pc where "pc = set_upto hicpu pc0"
  define pn where "pn = set_upto (maxconfigurednode s) pn0"
  define ac1 where "ac1 = (if numproccpu s \<le> 0 then set_upto hicpu ac0 else ac0)"
  define c1 where "c1 = (if numproccpu s \<le> 0 then hicpu + 1 else numproccpu s)"
  define ac where "ac = (if hicpu + 1 < c1
    then fold (\<lambda>i m. numa_bitmask_clearbit m i) [nat (hicpu + 1)..<bm_size ac1] ac1 else ac1)"
  define c where "c = (if hicpu + 1 < c1 then hicpu + 1 else c1)"
  define an where "an = (if numprocnode s \<le> 0 then set_upto (maxconfigurednode s) an0 else an0)"
  define n where "n = (if numprocnode s \<le> 0 then maxconfigurednode s + 1 else numprocnode s)"
  have "task_defaults hicpu s = Some (s\<lparr>numa_possible_cpus_ptr := Some pc,
      numa_possible_nodes_ptr := Some pn, numa_all_cpus_ptr := Some ac, numa_all_nodes_ptr := Some an,
      numproccpu := c, numprocnode := n\<rparr>)"
    using ptrs by (cases s) (simp add: task_defaults_def pc_def pn_def ac_def ac1_def an_def c_def c1_def n_def)
  moreover have "mask_ok (cpumask_sz s) (Some pc)" "mask_ok (cpumask_sz s) (Some pn)"
    "mask_ok (cpumask_sz s) (Some ac)" "mask_ok (nodemask_sz s) (Some an)"
    using ok by (simp_all add: mask_ok_def pc_def pn_def ac_def ac1_def an_def set_upto_inv clear_from_inv)
  moreover have "1 \<le> c" "c \<le> hicpu + 1" "1 \<le> n"
    using assms(5,6) by (simp_all add: c_def c1_def n_def)
  ultimately show ?thesis by blast
qed

lemma set_nodemask_size_run:
  assumes "os_file K (world s) mask_size_file = Inr t" "0 < scan_nodemask_size (file_lines t) 0 (nodemask_sz s)"
  shows "set_nodemask_size K s = s\<lparr>nodemask_sz := scan_nodemask_size (file_lines t) 0 (nodemask_sz s)\<rparr>"
  using assms by (simp add: set_nodemask_size_def)

lemma set_numa_max_cpu_run:
  assumes "malloc_succeeds K" "os_getaffinity K (world s) 0 512 (replicate 64 0) = Inr (n, ws)" "0 \<le> n"
  shows "set_numa_max_cpu K s = Some (s\<lparr>cpumask_sz := n * 8\<rparr>)"
proof -
  have "max_cpu_loop K 0 s = Some (Some n, s)"
    using assms
    by (simp add: max_cpu_loop.simps [of K 0] bitmask_alloc_run numa_sched_getaffinity_v2_def
        numa_bitmask_nbytes_def new_bitmask_def longsperbits_def not_less)
  then show ?thesis by (simp add: set_numa_max_cpu_def)
qed

text \<open>When the kernel refuses every length with EINVAL, the loop leaves with \<open>n = -1\<close>.\<close>

lemma max_cpu_loop_refused:
  assumes "malloc_succeeds K" "\<And>len ws. os_getaffinity K (world s) 0 len ws = Inl EINVAL" "k \<le> 8"
  shows "\<exists>s'. max_cpu_loop K k s = Some (Some (- 1), s')"
  using assms(2,3)
proof (induction "8 - k" arbitrary: k s)
  case 0
  then have "k = 8" by simp
  then show ?case
    using "0.prems" assms(1)
    by (simp add: max_cpu_loop.simps [of K 8] bitmask_alloc_run numa_sched_getaffinity_v2_def)
next
  case (Suc d)
  then have "k < 8" by simp
  then have "4096 * 2 ^ k < (1048576 :: nat)" using max_cpu_bound [of k] by simp
  then have step: "max_cpu_loop K k s = max_cpu_loop K (Suc k) (s\<lparr>errno := EINVAL\<rparr>)"
    using Suc.prems assms(1)
    by (simp add: max_cpu_loop.simps [of K k] bitmask_alloc_run numa_sched_getaffinity_v2_def)
  have "\<exists>s'. max_cpu_loop K (Suc k) (s\<lparr>errno := EINVAL\<rparr>) = Some (Some (- 1), s')"
    using Suc by (intro Suc.hyps(1)) simp_all
  then show ?case using step by simp
qed

text \<open>The system the setup is stated for: the files have the documented form, the node numbers lie
  within the node mask, and the CPUs within the CPU mask.\<close>

definition sane_system :: "'w os \<Rightarrow> 'w \<Rightarrow> string \<Rightarrow> string list \<Rightarrow> int \<Rightarrow> bool" where
  "sane_system K w t names n \<longleftrightarrow>
     malloc_succeeds K \<and> os_file K w mask_size_file = Inr t \<and> status_ok t \<and>
     0 < scan_nodemask_size (file_lines t) 0 0 \<and> scan_nodemask_size (file_lines t) 0 0 < 2 ^ 31 \<and>
     os_dir K w ''/sys/devices/system/node'' = Some names \<and> node_numbers names \<noteq> [] \<and>
     (\<forall>i \<in> set (node_numbers names). 0 \<le> i \<and> i < scan_nodemask_size (file_lines t) 0 0) \<and>
     (\<exists>ws. os_getaffinity K w 0 512 (replicate 64 0) = Inr (n, ws)) \<and> 0 < n \<and> n * 8 < 2 ^ 31 \<and>
     1 \<le> os_nprocs_conf K w \<and> os_nprocs_conf K w \<le> n * 8"

text \<open>The task's masks and counts, from the status file.\<close>

lemma set_task_constraints_run:
  assumes "malloc_succeeds K" "0 < nodemask_sz s" "nodemask_sz s < 2 ^ 31" "0 < cpumask_sz s"
    "cpumask_sz s < 2 ^ 31" "0 \<le> maxconfiguredcpu s" "0 \<le> maxconfigurednode s"
    and "os_file K (world s) mask_size_file = Inr t" "status_ok t"
  shows "\<exists>pc pn ac an nn c n. set_task_constraints K s = Some (s\<lparr>numa_possible_cpus_ptr := Some pc,
      numa_possible_nodes_ptr := Some pn, numa_all_cpus_ptr := Some ac, numa_all_nodes_ptr := Some an,
      numa_no_nodes_ptr := Some nn, numproccpu := c, numprocnode := n\<rparr>) \<and>
    mask_ok (cpumask_sz s) (Some pc) \<and> mask_ok (cpumask_sz s) (Some pn) \<and>
    mask_ok (cpumask_sz s) (Some ac) \<and> mask_ok (nodemask_sz s) (Some an) \<and>
    mask_ok (nodemask_sz s) (Some nn) \<and> 1 \<le> c \<and> c \<le> maxconfiguredcpu s + 1 \<and> 1 \<le> n"
proof -
  define nb where "nb = new_bitmask (nat (nodemask_sz s))"
  define cb where "cb = new_bitmask (nat (cpumask_sz s))"
  have okm: "mask_ok (nodemask_sz s) (Some nb)" "mask_ok (cpumask_sz s) (Some cb)"
    using assms by (simp_all add: mask_ok_def nb_def cb_def)
  define s4 where "s4 = s\<lparr>numa_all_cpus_ptr := Some cb, numa_possible_cpus_ptr := Some cb,
    numa_all_nodes_ptr := Some nb, numa_possible_nodes_ptr := Some cb, numa_no_nodes_ptr := Some nb\<rparr>"
  have run: "set_task_constraints K s =
      do { s \<leftarrow> foldM status_line (file_lines t) s4; task_defaults (maxconfiguredcpu s4) s }"
    using assms by (simp add: set_task_constraints_def allocate_cpumask_run allocate_nodemask_run
        nb_def [symmetric] cb_def [symmetric] s4_def)
  have "task_frame s4 s4"
    unfolding task_frame_def using okm
    by (intro exI [of _ cb] exI [of _ nb] exI [of _ "numproccpu s4"] exI [of _ "numprocnode s4"])
       (simp add: s4_def)
  then obtain s5 where r6: "foldM status_line (file_lines t) s4 = Some s5" "task_frame s4 s5"
    using foldM_ex [of "task_frame s4" s4 "file_lines t" status_line] status_line_frame assms(9)
    unfolding status_ok_def by blast
  then obtain ac an pc pn where s5: "s5 = s4\<lparr>numa_all_cpus_ptr := Some ac, numa_all_nodes_ptr := Some an,
      numproccpu := pc, numprocnode := pn\<rparr>" "mask_ok (cpumask_sz s) (Some ac)" "mask_ok (nodemask_sz s) (Some an)"
    by (auto simp: task_frame_def s4_def)
  have f5: "cpumask_sz s5 = cpumask_sz s" "nodemask_sz s5 = nodemask_sz s"
    "maxconfigurednode s5 = maxconfigurednode s" "maxconfiguredcpu s4 = maxconfiguredcpu s"
    "numa_possible_cpus_ptr s5 = Some cb" "numa_possible_nodes_ptr s5 = Some cb"
    "numa_all_cpus_ptr s5 = Some ac" "numa_all_nodes_ptr s5 = Some an"
    by (simp_all add: s5(1) s4_def)
  from task_defaults_run [of s5 "maxconfiguredcpu s"] okm s5(2,3) assms(6,7)
  obtain pc' pn' ac' an' c n where td: "task_defaults (maxconfiguredcpu s) s5 = Some (s5\<lparr>numa_possible_cpus_ptr := Some pc',
      numa_possible_nodes_ptr := Some pn', numa_all_cpus_ptr := Some ac', numa_all_nodes_ptr := Some an',
      numproccpu := c, numprocnode := n\<rparr>)"
    and ok: "mask_ok (cpumask_sz s) (Some pc')" "mask_ok (cpumask_sz s) (Some pn')"
      "mask_ok (cpumask_sz s) (Some ac')" "mask_ok (nodemask_sz s) (Some an')"
      "1 \<le> c" "c \<le> maxconfiguredcpu s + 1" "1 \<le> n"
    unfolding f5 by blast
  have "set_task_constraints K s = Some (s\<lparr>numa_possible_cpus_ptr := Some pc',
      numa_possible_nodes_ptr := Some pn', numa_all_cpus_ptr := Some ac', numa_all_nodes_ptr := Some an',
      numa_no_nodes_ptr := Some nb, numproccpu := c, numprocnode := n\<rparr>)"
    unfolding run r6(1) f5(4) by (simp add: td) (simp add: s5(1) s4_def)
  then show ?thesis using ok okm(1) by blast
qed

text \<open>The sizes, nodes and CPUs, before the task's constraints are read.\<close>

lemma discovery_run:
  assumes "sane_system K w t names n"
  defines "nsz \<equiv> scan_nodemask_size (file_lines t) 0 0" and "nums \<equiv> node_numbers names"
  shows "\<exists>b. do {
      let s = set_nodemask_size K ((initial_numa w)\<lparr>sizes_set := 1\<rparr>);
      s \<leftarrow> set_configured_nodes K s;
      s \<leftarrow> set_numa_max_cpu K s;
      set_configured_cpus K s
    } = Some ((initial_numa w)\<lparr>sizes_set := 1, nodemask_sz := nsz, numa_memnode_ptr := Some b,
      numa_nodes_ptr := Some b, maxconfigurednode := Max (set nums), cpumask_sz := n * 8,
      maxconfiguredcpu := os_nprocs_conf K w - 1\<rparr>) \<and>
    mask_ok nsz (Some b) \<and> bm_bits b = nat ` set nums \<and> 0 \<le> Max (set nums) \<and> Max (set nums) < nsz"
proof -
  have A: "malloc_succeeds K" "os_file K w mask_size_file = Inr t" "0 < nsz" "nsz < 2 ^ 31"
    "os_dir K w ''/sys/devices/system/node'' = Some names" "nums \<noteq> []"
    "\<forall>i \<in> set nums. 0 \<le> i \<and> i < nsz" "\<exists>ws. os_getaffinity K w 0 512 (replicate 64 0) = Inr (n, ws)"
    "0 < n" "n * 8 < 2 ^ 31" "1 \<le> os_nprocs_conf K w" "os_nprocs_conf K w \<le> n * 8"
    using assms(1) unfolding sane_system_def nsz_def nums_def by blast+
  define s1 where "s1 = (initial_numa w)\<lparr>sizes_set := 1, nodemask_sz := nsz\<rparr>"
  have r1: "set_nodemask_size K ((initial_numa w)\<lparr>sizes_set := 1\<rparr>) = s1"
    using A set_nodemask_size_run [of K "(initial_numa w)\<lparr>sizes_set := 1\<rparr>" t]
    by (simp add: initial_numa_def s1_def nsz_def)
  have w1: "world s1 = w" "nodemask_sz s1 = nsz" "maxconfigurednode s1 = - 1"
    by (simp_all add: s1_def initial_numa_def)
  from A have "Max (set nums) \<in> set nums" by simp
  with A have mx: "0 \<le> Max (set nums)" "Max (set nums) < nsz" by auto
  have "Max (insert (- 1) (set nums)) = max (- 1) (Max (set nums))" using A(6) by simp
  with mx(1) have fm: "fold max nums (- 1) = Max (set nums)" unfolding fold_max_Max by simp
  obtain b where r2: "set_configured_nodes K s1 = Some (s1\<lparr>numa_memnode_ptr := Some b,
      numa_nodes_ptr := Some b, maxconfigurednode := Max (set nums)\<rparr>)"
    and b: "mask_ok nsz (Some b)" "bm_bits b = nat ` set nums"
    using set_configured_nodes_run [of K s1 names, folded nums_def] A w1 fm by auto
  define s2 where "s2 = s1\<lparr>numa_memnode_ptr := Some b, numa_nodes_ptr := Some b,
      maxconfigurednode := Max (set nums)\<rparr>"
  have w2: "world s2 = w" by (simp add: s2_def w1)
  have r3: "set_numa_max_cpu K s2 = Some (s2\<lparr>cpumask_sz := n * 8\<rparr>)"
    using A set_numa_max_cpu_run [of K s2 n] w2 by auto
  have r4: "set_configured_cpus K (s2\<lparr>cpumask_sz := n * 8\<rparr>) =
      Some (s2\<lparr>cpumask_sz := n * 8, maxconfiguredcpu := os_nprocs_conf K w - 1\<rparr>)"
    using A w2 by (simp add: set_configured_cpus_def c_int_id)
  show ?thesis
    using r1 r2 r3 r4 b mx by (intro exI [of _ b]) (simp add: s2_def s1_def)
qed

lemma set_sizes_run:
  assumes "sane_system K w t names n"
  shows "\<exists>s. set_sizes K (initial_numa w) = Some s \<and> numa_wf s \<and> world s = w \<and> numa_all_nodes s = numa_all_nodes (initial_numa w) \<and>
    nodemask_sz s = scan_nodemask_size (file_lines t) 0 0 \<and> cpumask_sz s = n * 8 \<and>
    maxconfigurednode s = Max (set (node_numbers names)) \<and>
    bm_bits (the (numa_nodes_ptr s)) = nat ` set (node_numbers names) \<and>
    bm_bits (the (numa_memnode_ptr s)) = nat ` set (node_numbers names) \<and>
    1 \<le> numproccpu s \<and> numproccpu s \<le> numa_num_configured_cpus s \<and> 1 \<le> numprocnode s"
proof -
  have A: "malloc_succeeds K" "os_file K w mask_size_file = Inr t" "status_ok t"
    "0 < scan_nodemask_size (file_lines t) 0 0" "scan_nodemask_size (file_lines t) 0 0 < 2 ^ 31"
    "0 < n" "n * 8 < 2 ^ 31" "1 \<le> os_nprocs_conf K w" "os_nprocs_conf K w \<le> n * 8"
    using assms unfolding sane_system_def by blast+
  obtain b where b: "mask_ok (scan_nodemask_size (file_lines t) 0 0) (Some b)"
    "bm_bits b = nat ` set (node_numbers names)" "0 \<le> Max (set (node_numbers names))"
    "Max (set (node_numbers names)) < scan_nodemask_size (file_lines t) 0 0"
    and r: "do {
      let s = set_nodemask_size K ((initial_numa w)\<lparr>sizes_set := 1\<rparr>);
      s \<leftarrow> set_configured_nodes K s;
      s \<leftarrow> set_numa_max_cpu K s;
      set_configured_cpus K s
    } = Some ((initial_numa w)\<lparr>sizes_set := 1, nodemask_sz := scan_nodemask_size (file_lines t) 0 0,
      numa_memnode_ptr := Some b, numa_nodes_ptr := Some b,
      maxconfigurednode := Max (set (node_numbers names)), cpumask_sz := n * 8,
      maxconfiguredcpu := os_nprocs_conf K w - 1\<rparr>)" (is "_ = Some ?s3")
    using discovery_run [OF assms] by blast
  have i: "sizes_set (initial_numa w) = 0" "world ?s3 = w" by (simp_all add: initial_numa_def)
  then have "set_sizes K (initial_numa w) = set_task_constraints K ?s3"
    using r by (auto simp: set_sizes_def Let_def bind_eq_Some_conv)
  moreover have "\<exists>pc pn ac an nn c k. set_task_constraints K ?s3 = Some (?s3\<lparr>numa_possible_cpus_ptr := Some pc,
      numa_possible_nodes_ptr := Some pn, numa_all_cpus_ptr := Some ac, numa_all_nodes_ptr := Some an,
      numa_no_nodes_ptr := Some nn, numproccpu := c, numprocnode := k\<rparr>) \<and>
    mask_ok (cpumask_sz ?s3) (Some pc) \<and> mask_ok (cpumask_sz ?s3) (Some pn) \<and>
    mask_ok (cpumask_sz ?s3) (Some ac) \<and> mask_ok (nodemask_sz ?s3) (Some an) \<and>
    mask_ok (nodemask_sz ?s3) (Some nn) \<and> 1 \<le> c \<and> c \<le> maxconfiguredcpu ?s3 + 1 \<and> 1 \<le> k"
    using A b i by (intro set_task_constraints_run) simp_all
  ultimately show ?thesis
    using A b i by (auto simp: numa_wf_def numa_num_configured_cpus_def)
qed

lemma count_members:
  assumes "bm_bits b \<subseteq> {..<n}"
  shows "length (filter (numa_bitmask_isbitset b) [0..<n]) = card (bm_bits b)"
proof -
  have "{i. i < n \<and> numa_bitmask_isbitset b i} = bm_bits b" using assms by auto
  then show ?thesis by (simp add: length_filter_upt)
qed

text \<open>The constructor: a library that is set up, and the version 1 mask of all nodes with one bit per
  configured node, counted from 0.\<close>

lemma numa_init_run:
  assumes sys: "sane_system K w t names n" and few: "card (set (node_numbers names)) \<le> NUMA_NUM_NODES"
  shows "\<exists>s. numa_init K (initial_numa w) = Some s \<and> numa_wf s \<and> world s = w \<and> errno s = E0 \<and>
    nodemask_sz s = scan_nodemask_size (file_lines t) 0 0 \<and> cpumask_sz s = n * 8 \<and>
    maxconfigurednode s = Max (set (node_numbers names)) \<and>
    bm_bits (the (numa_nodes_ptr s)) = nat ` set (node_numbers names) \<and>
    (\<forall>i. nodemask_isset_compat (numa_all_nodes s) i \<longleftrightarrow> i < card (set (node_numbers names)))"
proof -
  let ?nums = "set (node_numbers names)"
  obtain s where s: "set_sizes K (initial_numa w) = Some s" "numa_wf s" "world s = w"
    "numa_all_nodes s = numa_all_nodes (initial_numa w)"
    "nodemask_sz s = scan_nodemask_size (file_lines t) 0 0" "cpumask_sz s = n * 8"
    "maxconfigurednode s = Max ?nums" "bm_bits (the (numa_nodes_ptr s)) = nat ` ?nums"
    "bm_bits (the (numa_memnode_ptr s)) = nat ` ?nums"
    using set_sizes_run [OF sys] by blast
  obtain b where b: "numa_memnode_ptr s = Some b" using s(2) by (auto simp: numa_wf_def elim: mask_okE)
  have pos: "\<forall>i \<in> ?nums. 0 \<le> i" using sys unfolding sane_system_def by blast
  have mx: "0 \<le> maxconfigurednode s" using s(2) by (simp add: numa_wf_def)
  have e: "bm_bits b = nat ` ?nums" using s(9) b by simp
  have "bm_bits b \<subseteq> {..<nat (maxconfigurednode s + 1)}"
  proof
    fix i assume "i \<in> bm_bits b"
    then obtain k where "k \<in> ?nums" "i = nat k" unfolding e by blast
    moreover from this have "k \<le> maxconfigurednode s" using s(7) by simp
    ultimately show "i \<in> {..<nat (maxconfigurednode s + 1)}" using mx pos by auto
  qed
  moreover have "card (bm_bits b) = card ?nums"
    unfolding e using pos by (intro card_image inj_onI) (metis int_nat_eq)
  ultimately have cnt: "numa_num_configured_nodes s = Some (int (card ?nums))"
    using mx b by (simp add: numa_num_configured_nodes_def count_members)
  let ?all = "fold (\<lambda>i m. nodemask_set_compat m i) [0..<card ?nums] (numa_all_nodes s)"
  have z: "numa_all_nodes s = replicate (sizeof_nodemask div 8) 0" using s(4) by (simp add: initial_numa_def)
  have bits: "nodemask_isset_compat ?all i \<longleftrightarrow> i < card ?nums" for i
    using nm.put_loop [OF nm_inv_zero, of "[0..<card ?nums]" "\<lambda>_. True"] few by (auto simp: z)
  let ?s = "s\<lparr>numa_all_nodes := ?all, numa_no_nodes := replicate (sizeof_nodemask div 8) 0, errno := E0\<rparr>"
  have "numa_init K (initial_numa w) = Some ?s"
    using s(1) cnt by (simp add: numa_init_def) (simp add: initial_numa_def)
  moreover have "numa_wf ?s" using s(2) by (simp add: numa_wf_def)
  ultimately show ?thesis using s(3,5-8) bits by (intro exI [of _ ?s]) simp
qed

end
