(* ===== verification/CpuMap.thy ===== *)
theory CpuMap
  imports Policy Setup
begin

unbundle bit_operations_syntax

text \<open>
  The map from nodes to their CPUs (\<open>libnuma.c\<close> lines 1367-1930, 2373-2395): parsing of the \<open>cpumap\<close>
  files of sysfs, the caches of parsed maps with their stale flags, the search for the node of a CPU,
  and the functions that run a process on the CPUs of a set of nodes.  A \<open>char *\<close> into the line buffer
  that moves backwards is an index; a buffer the caller owns is passed in and returned.
\<close>

section \<open>Parsing a cpumap line\<close>

text \<open>\<open>while (p > line && *p != ',') --p\<close>.\<close>

fun scan_comma :: "string \<Rightarrow> nat \<Rightarrow> nat" where
  "scan_comma line 0 = 0"
| "scan_comma line (Suc p) = (if line ! Suc p \<noteq> CHR '','' then scan_comma line p else Suc p)"

lemma scan_comma_le: "scan_comma line p \<le> p"
  by (induction line p rule: scan_comma.induct) auto

lemma scan_comma_less: "0 < p \<Longrightarrow> line ! p \<noteq> CHR '','' \<Longrightarrow> scan_comma line p < p"
  using scan_comma_le by (cases p) (auto simp: le_imp_less_Suc)

text \<open>\<open>memmove(p, p + 1, n)\<close>.\<close>

definition memmove_down :: "string \<Rightarrow> nat \<Rightarrow> nat \<Rightarrow> string" where
  "memmove_down line p n = take p line @ take n (drop (p + 1) line) @ drop (p + n) line"

definition char_at :: "string \<Rightarrow> nat \<Rightarrow> char" where
  "char_at line p = (if p < length line then line ! p else CHR 0x00)"

text \<open>The search for the group that ends before the delimiter at \<open>p\<close>.  When the group is not the first
  of the line, the comma between its two 32-bit fields is moved out.  Returns the start of the group,
  the line, and \<open>oldp\<close>, where the delimiter is now.\<close>

definition find_group :: "nat \<Rightarrow> string \<Rightarrow> nat \<times> string \<times> nat" where
  "find_group p line =
     (let oldp = p;
          p = (if line ! p = CHR '','' then p - 1 else p);
          p = scan_comma line p;
          (line, oldp, p) =
            (if 0 < p
             then let oldp = oldp - 1; line = memmove_down line p (oldp - p + 1)
                  in (line, oldp, scan_comma line p)
             else (line, oldp, p))
      in (if char_at line p = CHR '','' then p + 1 else p, line, oldp))"

lemma find_group_less:
  assumes "find_group p line = (p', line', oldp)" "0 < p"
  shows "p' - 1 < p"
proof -
  define q where "q = scan_comma line (if line ! p = CHR '','' then p - 1 else p)"
  have "q < p"
    using scan_comma_less [of p line] scan_comma_le [of line "p - 1"] assms(2)
    by (auto simp: q_def)
  moreover have "p' \<le> q + 1"
    using assms(1) scan_comma_le [of _ q] unfolding find_group_def Let_def q_def [symmetric]
    by (auto split: if_splits intro: le_SucI)
  ultimately show ?thesis using assms(2) by linarith
qed

text \<open>The loop over the 64-bit groups, from the right end of the line: \<open>p\<close> is at the delimiter behind
  the group.  The words are stored as they are read, also before an error is found.\<close>

function parse_bitmap_loop :: "nat \<Rightarrow> nat \<Rightarrow> nat \<Rightarrow> string \<Rightarrow> ulong list \<Rightarrow> int \<times> ulong list" where
  "parse_bitmap_loop longs i p line ws =
     (if p = 0 then (0, ws)
      else
        let (p', line', oldp) = find_group p line in
        if longs \<le> i then (- 1, ws)
        else
          let (v, end) = strtoul (drop p' line') 16;
              ws = ws[i := of_nat v]
          in if length line' - length end \<noteq> oldp then (- 1, ws)
             else parse_bitmap_loop longs (Suc i) (p' - 1) line' ws)"
  by pat_completeness auto
termination
  by (relation "measure (\<lambda>(longs, i, p, line, ws). p)") (auto dest: find_group_less [OF sym])

declare parse_bitmap_loop.simps [simp del]

lemma parse_bitmap_loop_0 [simp]: "parse_bitmap_loop longs i 0 line ws = (0, ws)"
  by (subst parse_bitmap_loop.simps) simp

definition numa_parse_bitmap_v1 :: "string \<Rightarrow> ulong list \<Rightarrow> int \<Rightarrow> int \<times> ulong list" where
  "numa_parse_bitmap_v1 line m ncpus =
     (if CHR 0x0A \<notin> set line then (- 1, m)
      else parse_bitmap_loop (CPU_LONGS (c_ulong ncpus)) 0
             (length (takeWhile (\<lambda>c. c \<noteq> CHR 0x0A) line)) line m)"

definition numa_parse_bitmap_v2 :: "string \<Rightarrow> bitmask \<Rightarrow> int \<times> bitmask" where
  "numa_parse_bitmap_v2 line m =
     (if CHR 0x0A \<notin> set line then (- 1, m)
      else
        let ncpus = c_int (int (bm_size m));
            (r, ws) = parse_bitmap_loop (CPU_LONGS (c_ulong ncpus)) 0
                        (length (takeWhile (\<lambda>c. c \<noteq> CHR 0x0A) line)) line (maskp m)
        in (r, m\<lparr>maskp := ws\<rparr>))"

section \<open>The CPUs of a node\<close>

text \<open>The line \<open>getdelim\<close> delivers from a file, with its newline; \<open>None\<close> when the file cannot be opened
  (the buffer pointer stays NULL).  At end of file the buffer holds the empty string.\<close>

definition cpumap_file :: "int \<Rightarrow> string" where
  "cpumap_file node = ''/sys/devices/system/node/node'' @ dec_int node @ ''/cpumap''"

definition first_line :: "string \<Rightarrow> string" where
  "first_line t = (case file_lines t of [] \<Rightarrow> [] | l # _ \<Rightarrow> l)"

text \<open>\<open>memset(buffer, 0, bytes)\<close> on an array of longs, little endian.\<close>

definition memset_bytes :: "ulong list \<Rightarrow> nat \<Rightarrow> ulong list" where
  "memset_bytes ws bytes =
     map (\<lambda>(k, w). if k < bytes div 8 then 0
                   else if k = bytes div 8 then w AND NOT (mask (8 * (bytes mod 8))) else w)
       (List.enumerate 0 ws)"

definition bitmask_fill :: "ulong list \<Rightarrow> nat \<Rightarrow> ulong list" where
  "bitmask_fill ws bytes = maskp (numa_bitmask_setall \<lparr>bm_size = bytes * 8, maskp = ws\<rparr>)"

text \<open>Both warnings of an unreadable file have the number \<open>W_nosysfs2\<close>, so the second one is never
  printed.\<close>

definition warn_nosysfs2 :: "int \<Rightarrow> 'w numa \<Rightarrow> 'w numa option" where
  "warn_nosysfs2 node s = do {
     nodes \<leftarrow> numa_nodes_ptr s;
     if numa_bitmask_isbitset nodes (c_uint node) then do {
       s \<leftarrow> numa_warn W_nosysfs2 s;
       numa_warn W_nosysfs2 s
     }
     else Some s
   }"

text \<open>Version 1: the caller's buffer is an array of longs of \<open>bufferlen\<close> bytes.  A node beyond the array
  of cached masks is undefined behaviour.  When \<open>malloc\<close> fails the cache takes over the caller's
  buffer; the model stores the value the buffer has then.\<close>

definition numa_node_to_cpus_v1 :: "'w os \<Rightarrow> int \<Rightarrow> ulong list \<Rightarrow> int \<Rightarrow> 'w numa \<Rightarrow>
    ((int \<times> ulong list) \<times> 'w numa) option" where
  "numa_node_to_cpus_v1 K node buffer bufferlen s = do {
     let ncpus = numa_num_possible_cpus s;
     let maxnode = numa_max_node s;
     let needed = CPU_BYTES (c_ulong ncpus);
     let buflen_needed = c_int (int needed);
     if c_uint maxnode < c_uint node \<or> bufferlen < buflen_needed
     then Some ((- 1, buffer), s\<lparr>errno := ERANGE\<rparr>)
     else do {
       let buffer = (if buflen_needed < bufferlen then memset_bytes buffer (nat bufferlen) else buffer);
       let update = node_cpu_mask_v1_stale s;
       let s = s\<lparr>node_cpu_mask_v1_stale := False\<rparr>;
       if length (node_cpu_mask_v1 s) \<le> nat node then None
       else case (node_cpu_mask_v1 s ! nat node, update) of
         (Some c, False) \<Rightarrow> Some ((0, memcpy_longs buffer c needed), s)
       | (cached, _) \<Rightarrow> do {
           let m = (if os_malloc_ok K (world s) needed then replicate (needed div 8) 0
                    else memzero_longs buffer 0 needed);
           let file = os_file K (world s) (cpumap_file node);
           let s = (case file of Inl e \<Rightarrow> s\<lparr>errno := e\<rparr> | Inr _ \<Rightarrow> s);
           let line = (case file of Inl _ \<Rightarrow> None | Inr t \<Rightarrow> Some (first_line t));
           let unread = (line = None \<or> line = Some []);
           s \<leftarrow> (if unread then warn_nosysfs2 node s else Some s);
           let m = (if unread then bitmask_fill m needed else m);
           let err = (if unread then - 1 else 0);
           let (r, m) = (case line of None \<Rightarrow> (0, m) | Some l \<Rightarrow> numa_parse_bitmap_v1 l m ncpus);
           s \<leftarrow> (if r < 0 then numa_warn W_cpumap s else Some s);
           let m = (if r < 0 then bitmask_fill m needed else m);
           let err = (if r < 0 then - 1 else err);
           let buffer = memcpy_longs buffer m needed;
           let s = (case cached of
                      Some c \<Rightarrow> s\<lparr>node_cpu_mask_v1 := (node_cpu_mask_v1 s)[nat node := Some (memcpy_longs c m needed)]\<rparr>
                    | None \<Rightarrow> s\<lparr>node_cpu_mask_v1 := (node_cpu_mask_v1 s)[nat node := Some m]\<rparr>);
           Some ((err, buffer), s)
         }
     }
   }"

definition init_node_cpu_mask_v2 :: "'w os \<Rightarrow> 'w numa \<Rightarrow> 'w numa" where
  "init_node_cpu_mask_v2 K s =
     (let nnodes = c_ulong (numa_max_possible_node_v2 s + 1) in
      if os_malloc_ok K (world s) (nnodes * 8)
      then s\<lparr>node_cpu_mask_v2 := Some (replicate nnodes None)\<rparr>
      else s)"

text \<open>The part of \<open>numa_node_to_cpus_v2\<close> that reads and parses the file: the error code, the mask and
  the state with the warnings given.\<close>

definition read_cpumap :: "'w os \<Rightarrow> int \<Rightarrow> bitmask \<Rightarrow> 'w numa \<Rightarrow> ((int \<times> bitmask) \<times> 'w numa) option" where
  "read_cpumap K node m s = do {
     let file = os_file K (world s) (cpumap_file node);
     let s = (case file of Inl e \<Rightarrow> s\<lparr>errno := e\<rparr> | Inr _ \<Rightarrow> s);
     let line = (case file of Inl _ \<Rightarrow> None | Inr t \<Rightarrow> Some (first_line t));
     let unread = (line = None \<or> line = Some []);
     s \<leftarrow> (if unread then warn_nosysfs2 node s else Some s);
     let m = (if unread then numa_bitmask_setall m else m);
     let err = (if unread then - 1 else 0);
     let (r, m) = (case line of None \<Rightarrow> (0, m) | Some l \<Rightarrow> numa_parse_bitmap_v2 l m);
     s \<leftarrow> (if r < 0 then numa_warn W_cpumap s else Some s);
     Some ((if r < 0 then - 1 else err, if r < 0 then numa_bitmask_setall m else m), s)
   }"

definition numa_node_to_cpus_v2 :: "'w os \<Rightarrow> int \<Rightarrow> bitmask \<Rightarrow> 'w numa \<Rightarrow>
    ((int \<times> bitmask) \<times> 'w numa) option" where
  "numa_node_to_cpus_v2 K node buffer s = do {
     let nnodes = numa_max_node s;
     let s = (if node_cpu_mask_v2 s = None then init_node_cpu_mask_v2 K s else s);
     if node < 0 \<or> nnodes < node then Some ((- 1, buffer), s\<lparr>errno := ERANGE\<rparr>)
     else do {
       let buffer = numa_bitmask_clearall buffer;
       let update = node_cpu_mask_v2_stale s;
       let s = s\<lparr>node_cpu_mask_v2_stale := False\<rparr>;
       cache \<leftarrow> node_cpu_mask_v2 s;
       if length cache \<le> nat node then None
       else case (cache ! nat node, update) of
         (Some c, False) \<Rightarrow>
           if bm_size buffer < bm_size c then do {
             s \<leftarrow> numa_error ''map size mismatch'' (s\<lparr>errno := EINVAL\<rparr>);
             Some ((- 1, buffer), s)
           }
           else Some ((0, copy_bitmask_to_bitmask c buffer), s)
       | (cached, _) \<Rightarrow> do {
           (m, s) \<leftarrow> numa_allocate_cpumask K s;
           case m of
             None \<Rightarrow> Some ((- 1, buffer), s)
           | Some m \<Rightarrow> do {
               ((err, m), s) \<leftarrow> read_cpumap K node m s;
               let buffer = copy_bitmask_to_bitmask m buffer;
               let s = (case cached of
                          Some c \<Rightarrow> s\<lparr>node_cpu_mask_v2 := Some (cache[nat node := Some (copy_bitmask_to_bitmask m c)])\<rparr>
                        | None \<Rightarrow> if err = 0 then s\<lparr>node_cpu_mask_v2 := Some (cache[nat node := Some m])\<rparr> else s);
               Some ((err, buffer), s)
             }
         }
     }
   }"

definition numa_node_to_cpu_update :: "'w numa \<Rightarrow> 'w numa" where
  "numa_node_to_cpu_update s = s\<lparr>node_cpu_mask_v1_stale := True, node_cpu_mask_v2_stale := True\<rparr>"

section \<open>The node of a CPU\<close>

text \<open>The search loop; \<open>None\<close> in the result is the loop that ran to its end.\<close>

fun node_of_cpu_loop :: "'w os \<Rightarrow> int \<Rightarrow> int list \<Rightarrow> bitmask option \<Rightarrow> 'w numa \<Rightarrow>
    (int option \<times> 'w numa) option" where
  "node_of_cpu_loop K cpu [] bmp s = Some (None, s)"
| "node_of_cpu_loop K cpu (node # nodes) bmp s = do {
     b \<leftarrow> bmp;
     ((r, b), s) \<leftarrow> numa_node_to_cpus_v2 K node b s;
     if r < 0 then node_of_cpu_loop K cpu nodes (Some b) s
     else if numa_bitmask_isbitset b (c_uint cpu) then Some (Some node, s)
     else node_of_cpu_loop K cpu nodes (Some b) s
   }"

definition numa_node_of_cpu :: "'w os \<Rightarrow> int \<Rightarrow> 'w numa \<Rightarrow> (int \<times> 'w numa) option" where
  "numa_node_of_cpu K cpu s = do {
     let ncpus = numa_num_possible_cpus s;
     if ncpus < cpu then Some (- 1, s\<lparr>errno := EINVAL\<rparr>)
     else do {
       (bmp, s) \<leftarrow> numa_bitmask_alloc K (c_uint ncpus) s;
       let nnodes = numa_max_node s;
       (ret, s) \<leftarrow> node_of_cpu_loop K cpu [0..nnodes] bmp s;
       case ret of
         Some node \<Rightarrow> Some (node, s)
       | None \<Rightarrow> Some (- 1, s\<lparr>errno := EINVAL\<rparr>)
     }
   }"

definition numa_is_cpuless_node :: "'w os \<Rightarrow> int \<Rightarrow> 'w numa \<Rightarrow> (int \<times> 'w numa) option" where
  "numa_is_cpuless_node K node_id s =
     (if node_id < 0 \<or> numa_max_node s < node_id then Some (- 1, s\<lparr>errno := ERANGE\<rparr>)
      else do {
        (cpumask, s) \<leftarrow> numa_allocate_cpumask K s;
        case cpumask of
          None \<Rightarrow> Some (- 1, s)
        | Some cpumask \<Rightarrow> do {
            ((_, cpumask), s) \<leftarrow> numa_node_to_cpus_v2 K node_id cpumask s;
            Some (if numa_bitmask_weight cpumask = 0 then 1 else 0, s)
          }
      })"

section \<open>The parser reads back what the kernel prints\<close>

text \<open>The fields of a line from right to left, the text of the first fields, and the words they make.\<close>

fun rtext :: "string list \<Rightarrow> string" where
  "rtext [] = []"
| "rtext [g] = g"
| "rtext (g # h # gs) = rtext (h # gs) @ CHR '','' # g"

fun field_words :: "string list \<Rightarrow> ulong list" where
  "field_words [] = []"
| "field_words [a] = [of_nat (digits_acc 16 0 a)]"
| "field_words (a # b # gs) = of_nat (digits_acc 16 0 (b @ a)) # field_words gs"

definition field_ok :: "string \<Rightarrow> bool" where
  "field_ok g \<longleftrightarrow> g \<noteq> [] \<and> length g \<le> 8 \<and> (\<forall>c \<in> set g. is_digit_of 16 c)"

lemma scan_comma_run:
  assumes "\<And>j. q < j \<Longrightarrow> j \<le> p \<Longrightarrow> line ! j \<noteq> CHR '',''" "q \<le> p" "q = 0 \<or> line ! q = CHR '',''"
  shows "scan_comma line p = q"
  using assms
proof (induction p)
  case (Suc p)
  show ?case
  proof (cases "q = Suc p")
    case False
    then have "line ! Suc p \<noteq> CHR '',''" using Suc.prems(1) [of "Suc p"] Suc.prems(2) by simp
    then show ?thesis using Suc False by simp
  qed (use Suc.prems(3) in simp)
qed simp

lemma field_no_comma: "field_ok g \<Longrightarrow> j < length g \<Longrightarrow> g ! j \<noteq> CHR '',''"
  using digit_not_special by (auto simp: field_ok_def)

lemma digits_acc_less:
  assumes "\<forall>c \<in> set g. is_digit_of 16 c"
  shows "digits_acc 16 a g < (a + 1) * 16 ^ length g"
  using assms
proof (induction g arbitrary: a)
  case (Cons c g)
  then obtain d where d: "digit_val c = Some d" "d < 16"
    by (auto simp: is_digit_of_def split: option.splits)
  have "digits_acc 16 (a * 16 + d) g < (a * 16 + d + 1) * 16 ^ length g" using Cons by simp
  also have "\<dots> \<le> ((a + 1) * 16) * 16 ^ length g" using d(2) by (intro mult_le_mono1) simp
  finally show ?case using d by (simp add: algebra_simps)
qed simp

lemma digits_acc_bound:
  assumes "\<forall>c \<in> set g. is_digit_of 16 c" "length g \<le> 16"
  shows "digits_acc 16 0 g \<le> ULONG_MAX"
proof -
  have "digits_acc 16 0 g < 16 ^ length g" using digits_acc_less [OF assms(1), of 0] by simp
  also have "(16 :: nat) ^ length g \<le> 16 ^ 16" using assms(2) by (intro power_increasing) simp_all
  finally show ?thesis by (simp add: ULONG_MAX_def)
qed

lemma field_run:
  assumes "\<forall>c \<in> set g. is_digit_of 16 c" "g \<noteq> []" "length g \<le> 16" "d = CHR '','' \<or> d = CHR 0x0A"
  shows "strtoul (g @ d # post) 16 = (digits_acc 16 0 g, d # post)"
proof (rule strtoul_hex_run)
  show "hex_stop (d # post)"
    using assms(4) by (auto simp: hex_stop_def starts_digit_def is_digit_of_def digit_val_def char_code_def)
qed (use assms digits_acc_bound in auto)

lemma rtext_neq_Nil: "\<forall>g \<in> set gs. field_ok g \<Longrightarrow> gs \<noteq> [] \<Longrightarrow> rtext gs \<noteq> []"
  by (induction gs rule: rtext.induct) (auto simp: field_ok_def)

text \<open>One field alone, the first of the line.\<close>

lemma find_group_last:
  assumes "field_ok g" "d = CHR '','' \<or> d = CHR 0x0A"
  shows "find_group (length g) (g @ d # post) = (0, g @ d # post, length g)"
proof -
  let ?line = "g @ d # post"
  have g: "g \<noteq> []" using assms(1) by (auto simp: field_ok_def)
  have lg: "0 < length g" using g by simp
  have nc: "?line ! j \<noteq> CHR '',''" if "j < length g" for j
    using field_no_comma [OF assms(1) that] that by (simp add: nth_append)
  have "scan_comma ?line (if d = CHR '','' then length g - 1 else length g) = 0"
  proof (rule scan_comma_run)
    fix j assume j: "j \<le> (if d = CHR '','' then length g - 1 else length g)"
    have "j < length g \<or> j = length g \<and> d \<noteq> CHR '',''"
    proof (cases "d = CHR '',''")
      case True
      with j have "j \<le> length g - 1" by simp
      with lg show ?thesis by linarith
    next
      case False
      with j show ?thesis by auto
    qed
    then show "?line ! j \<noteq> CHR '',''" using nc [of j] by fastforce
  qed auto
  moreover have "char_at ?line 0 \<noteq> CHR '',''" using nc [of 0] g by (simp add: char_at_def)
  ultimately show ?thesis by (simp add: find_group_def)
qed

lemma loop_last_field:
  assumes "field_ok g" "d = CHR '','' \<or> d = CHR 0x0A" "i < longs"
  shows "parse_bitmap_loop longs i (length g) (g @ d # post) ws = (0, ws[i := of_nat (digits_acc 16 0 g)])"
proof -
  have g: "g \<noteq> []" "\<forall>c \<in> set g. is_digit_of 16 c" "length g \<le> 16" using assms(1) by (auto simp: field_ok_def)
  have "strtoul (g @ d # post) 16 = (digits_acc 16 0 g, d # post)"
    using g assms(2) by (intro field_run) auto
  then show ?thesis
    using g assms(3) by (subst parse_bitmap_loop.simps) (simp add: find_group_last [OF assms(1,2)])
qed

text \<open>Two fields: the comma between them is moved out, and they are read as one number.\<close>

definition lead :: "string list \<Rightarrow> string" where
  "lead gs = (if gs = [] then [] else rtext gs @ [CHR '',''])"

lemma rtext_two: "rtext (a # b # gs) = (lead gs @ b) @ CHR '','' # a"
  by (cases gs) (simp_all add: lead_def)

lemma find_group_two:
  assumes ok: "field_ok a" "field_ok b" and d: "d = CHR '','' \<or> d = CHR 0x0A"
  shows "find_group (length (rtext (a # b # gs))) (rtext (a # b # gs) @ d # post) =
    (length (lead gs), lead gs @ b @ a @ d # d # post, length (lead gs @ b @ a))"
proof -
  define x where "x = lead gs @ b"
  let ?line = "x @ CHR '','' # a @ d # post"
  let ?line' = "x @ a @ d # d # post"
  have ab: "a \<noteq> []" "b \<noteq> []" using ok by (auto simp: field_ok_def)
  have x0: "0 < length x" using ab(2) by (simp add: x_def)
  have s1: "scan_comma ?line (if d = CHR '','' then length x + length a else length x + length a + 1) = length x"
  proof (rule scan_comma_run)
    fix j assume j: "length x < j" "j \<le> (if d = CHR '','' then length x + length a else length x + length a + 1)"
    define k where "k = j - length x - 1"
    have k: "j = length x + Suc k" using j(1) by (simp add: k_def)
    have at: "?line ! j = (a @ d # post) ! k" by (simp add: k nth_append)
    have "k < length a \<or> k = length a \<and> d \<noteq> CHR '',''" using j(2) by (auto simp: k split: if_splits)
    then show "?line ! j \<noteq> CHR '',''"
    proof
      assume "k < length a"
      then show ?thesis unfolding at using field_no_comma [OF ok(1)] by (simp add: nth_append)
    next
      assume "k = length a \<and> d \<noteq> CHR '',''"
      then show ?thesis unfolding at by (simp add: nth_append)
    qed
  qed auto
  have atd: "?line ! (length x + length a + 1) = d" by (simp add: nth_append)
  have mv: "memmove_down ?line (length x) (length a + 1) = ?line'"
    by (simp add: memmove_down_def)
  have nb: "?line' ! j \<noteq> CHR '',''" if "length (lead gs) \<le> j" "j \<le> length x" for j
  proof (cases "j < length x")
    case True
    then have "j - length (lead gs) < length b" using that by (auto simp: x_def)
    then show ?thesis
      using field_no_comma [OF ok(2)] that True by (simp add: nth_append x_def)
  next
    case False
    then have "j = length x" using that by simp
    then show ?thesis using field_no_comma [OF ok(1), of 0] ab(1) by (simp add: nth_append)
  qed
  have s2: "scan_comma ?line' (length x) = length (lead gs) - 1"
  proof (rule scan_comma_run)
    fix j assume "length (lead gs) - 1 < j" "j \<le> length x"
    then show "?line' ! j \<noteq> CHR '',''" by (intro nb) auto
  qed (auto simp: lead_def x_def nth_append)
  have c3: "(if char_at ?line' (length (lead gs) - 1) = CHR '','' then length (lead gs) - 1 + 1
      else length (lead gs) - 1) = length (lead gs)"
  proof (cases "gs = []")
    case True
    then show ?thesis using nb [of 0] x0 by (simp add: lead_def char_at_def)
  next
    case False
    then show ?thesis by (simp add: lead_def char_at_def x_def nth_append)
  qed
  have len: "length (rtext (a # b # gs)) = length x + length a + 1"
    unfolding rtext_two by (simp add: x_def)
  have line: "rtext (a # b # gs) @ d # post = ?line" unfolding rtext_two by (simp add: x_def)
  have s1': "scan_comma ?line (if ?line ! (length x + length a + 1) = CHR '','' then length x + length a + 1 - 1
      else length x + length a + 1) = length x"
    by (simp only: atd add_diff_cancel_right' s1)
  have n: "length x + length a + 1 - 1 - length x + 1 = length a + 1" by simp
  show ?thesis
    unfolding len line find_group_def Let_def s1' n mv s2 if_P [OF x0] prod.case c3
    by (simp add: x_def)
qed

lemma loop_two_fields:
  assumes ok: "field_ok a" "field_ok b" and d: "d = CHR '','' \<or> d = CHR 0x0A" and i: "i < longs"
  shows "parse_bitmap_loop longs i (length (rtext (a # b # gs))) (rtext (a # b # gs) @ d # post) ws =
    parse_bitmap_loop longs (Suc i) (length (lead gs) - 1) (lead gs @ b @ a @ d # d # post)
      (ws[i := of_nat (digits_acc 16 0 (b @ a))])"
proof -
  have "strtoul ((b @ a) @ d # d # post) 16 = (digits_acc 16 0 (b @ a), d # d # post)"
    using ok d by (intro field_run) (auto simp: field_ok_def)
  moreover have "length (rtext (a # b # gs)) \<noteq> 0" unfolding rtext_two by simp
  ultimately show ?thesis
    using i by (subst parse_bitmap_loop.simps) (simp add: find_group_two [OF ok d] del: rtext.simps)
qed

text \<open>The whole line.\<close>

lemma list_update_take_drop:
  "i < length ws \<Longrightarrow> take (Suc i) (ws[i := v]) @ xs @ ys = take i ws @ v # xs @ ys"
  by (simp add: take_Suc_conv_app_nth)

lemma loop_fields:
  assumes "\<forall>g \<in> set gs. field_ok g" "gs \<noteq> []" "d = CHR '','' \<or> d = CHR 0x0A"
    and "i + length (field_words gs) \<le> longs" "longs \<le> length ws"
  shows "parse_bitmap_loop longs i (length (rtext gs)) (rtext gs @ d # post) ws =
    (0, take i ws @ field_words gs @ drop (i + length (field_words gs)) ws)"
  using assms
proof (induction gs arbitrary: i ws d post rule: field_words.induct)
  case (2 a)
  then show ?case by (simp add: loop_last_field upd_conv_take_nth_drop)
next
  case (3 a b gs)
  let ?v = "of_nat (digits_acc 16 0 (b @ a)) :: ulong"
  have step: "parse_bitmap_loop longs i (length (rtext (a # b # gs))) (rtext (a # b # gs) @ d # post) ws =
    parse_bitmap_loop longs (Suc i) (length (lead gs) - 1) (lead gs @ b @ a @ d # d # post) (ws[i := ?v])"
    using "3.prems" by (intro loop_two_fields) auto
  have i: "i < length ws" using "3.prems" by simp
  show ?case
  proof (cases "gs = []")
    case True
    then show ?thesis unfolding step using i by (simp add: lead_def upd_conv_take_nth_drop)
  next
    case False
    have "parse_bitmap_loop longs (Suc i) (length (rtext gs)) (rtext gs @ CHR '','' # (b @ a @ d # d # post))
        (ws[i := ?v]) = (0, take (Suc i) (ws[i := ?v]) @ field_words gs @
          drop (Suc i + length (field_words gs)) (ws[i := ?v]))"
      using "3.prems" False by (intro "3.IH") auto
    then show ?thesis
      unfolding step using False i by (simp add: lead_def take_Suc_conv_app_nth)
  qed
qed simp

lemma rtext_snoc: "gs \<noteq> [] \<Longrightarrow> rtext (gs @ [h]) = h @ CHR '','' # rtext gs"
  by (induction gs rule: rtext.induct) simp_all

lemma rtext_chunks: "rtext (rev (map (pad_hex 8) ys) @ [h]) = h @ hex_chunks ys"
proof (induction ys arbitrary: h)
  case (Cons y ys)
  then show ?case using rtext_snoc [of "rev (map (pad_hex 8) ys) @ [pad_hex 8 y]" h] by simp
qed simp

lemma digits_acc_shift: "digits_acc 16 acc a = acc * 16 ^ length a + digits_acc 16 0 a"
proof (induction a arbitrary: acc)
  case (Cons c a)
  show ?case
    using Cons [of "acc * 16 + the (digit_val c)"] Cons [of "the (digit_val c)"] by (simp add: algebra_simps)
qed simp

lemma word_of_fields:
  assumes "a < 2 ^ 32" "b < 2 ^ 32"
  shows "(of_nat (b * 2 ^ 32 + a) :: ulong) = of_nat a OR push_bit 32 (of_nat b)"
proof -
  have la: "bit a j \<Longrightarrow> j < 32" for j using assms(1) bit_chunk_less by blast
  have "(of_nat (b * 2 ^ 32 + a) :: ulong) = of_nat a + push_bit 32 (of_nat b)"
    by (simp add: push_bit_eq_mult)
  also have "\<dots> = of_nat a OR push_bit 32 (of_nat b)"
    by (intro disjunctive_add) (auto simp: bit_push_bit_iff bit_of_nat_chunk [OF assms(1)] dest: la)
  finally show ?thesis .
qed

lemma field_words_longs:
  assumes "\<forall>g \<in> set gs. field_ok g" "\<forall>g \<in> set (butlast gs). length g = 8"
  shows "field_words gs = ints_to_longs (map (digits_acc 16 0) gs)"
  using assms
proof (induction gs rule: field_words.induct)
  case (3 a b gs)
  have lt: "digits_acc 16 0 g < 2 ^ 32" if "field_ok g" for g
  proof -
    have "(16 :: nat) ^ length g \<le> 16 ^ 8" using that by (intro power_increasing) (auto simp: field_ok_def)
    then show ?thesis using digits_acc_less [of g 0] that by (simp add: field_ok_def)
  qed
  have "length a = 8" using "3.prems" by simp
  then have "digits_acc 16 0 (b @ a) = digits_acc 16 0 b * 2 ^ 32 + digits_acc 16 0 a"
    using digits_acc_shift [of "digits_acc 16 0 b" a] by simp
  moreover have "\<forall>g \<in> set (butlast gs). length g = 8" using "3.prems" by (auto split: if_splits)
  ultimately show ?case
    using "3.IH" "3.prems"(1) word_of_fields [OF lt lt, of a b] by simp
qed simp_all

lemma pad_hex_neq_Nil: "0 < k \<Longrightarrow> pad_hex k n \<noteq> []"
  by (cases k) simp_all

lemma parse_bitmap_print:
  assumes k: "0 < k" "k \<le> 8" and hd: "hd xs < 16 ^ k" and xs: "xs \<noteq> []" "\<forall>x \<in> set xs. x < 2 ^ 32"
    and fits: "(length xs + 1) div 2 \<le> longsperbits (bm_size b)"
    and b: "bm_inv b" "bm_size b < 2 ^ 31" "\<forall>i. \<not> wbit (maskp b) i"
  shows "\<exists>b'. numa_parse_bitmap_v2 (print_mask k xs) b = (0, b') \<and> bm_inv b' \<and> bm_size b' = bm_size b \<and>
    (\<forall>i. wbit (maskp b') i \<longleftrightarrow> i \<in> chunk_bits xs)"
proof -
  obtain x ys where x: "xs = x # ys" using xs(1) by (cases xs) auto
  define gs where "gs = rev (map (pad_hex 8) ys) @ [pad_hex k x]"
  have line: "print_mask k xs = rtext gs @ CHR 0x0A # []"
    by (simp add: print_mask_def x gs_def rtext_chunks)
  have ok: "\<forall>g \<in> set gs. field_ok g"
    using k set_pad_hex pad_hex_neq_Nil by (auto simp: gs_def field_ok_def)
  have vals: "map (digits_acc 16 0) gs = rev xs"
    using xs(2) hd by (simp add: gs_def x digits_acc_pad_hex rev_map [symmetric] map_idI)
  let ?ws = "ints_to_longs (rev xs)"
  have words: "field_words gs = ?ws"
    using field_words_longs [OF ok] by (simp add: vals) (simp add: gs_def)
  have nl: "CHR 0x0A \<notin> set (rtext gs)"
  proof -
    have "CHR 0x0A \<noteq> c" if "is_digit_of 16 c" for c :: char
      using that by (auto simp: is_digit_of_def digit_val_def char_code_def)
    then have "CHR 0x0A \<notin> set (rtext gs)" if "\<forall>g \<in> set gs. field_ok g" for gs
      using that by (induction gs rule: rtext.induct) (auto simp: field_ok_def)
    with ok show ?thesis by blast
  qed
  have at: "length (takeWhile (\<lambda>c. c \<noteq> CHR 0x0A) (rtext gs @ CHR 0x0A # [])) = length (rtext gs)"
    using nl by (subst takeWhile_append2) auto
  have longs: "CPU_LONGS (c_ulong (c_int (int (bm_size b)))) = length (maskp b)"
    using b(1,2) by (simp add: c_int_id c_ulong_id CPU_LONGS_longsperbits bm_inv_def)
  have len: "length ?ws \<le> length (maskp b)" using fits b(1) by (simp add: length_ints_to_longs bm_inv_def)
  define b' where "b' = b\<lparr>maskp := ?ws @ drop (length ?ws) (maskp b)\<rparr>"
  have "parse_bitmap_loop (length (maskp b)) 0 (length (rtext gs)) (rtext gs @ CHR 0x0A # []) (maskp b) =
    (0, ?ws @ drop (length ?ws) (maskp b))"
    using loop_fields [OF ok, of "CHR 0x0A" 0 "length (maskp b)" "maskp b" "[]"] len
    by (simp add: words) (simp add: gs_def)
  then have run: "numa_parse_bitmap_v2 (print_mask k xs) b = (0, b')"
    unfolding numa_parse_bitmap_v2_def line at longs Let_def by (simp add: b'_def)
  have "wbit (maskp b') i \<longleftrightarrow> i \<in> chunk_bits xs" for i
  proof (cases "i < 64 * length ?ws")
    case True
    then show ?thesis
      using wbit_ints_to_longs [of "rev xs" i] xs(2) by (auto simp: b'_def wbit_append chunk_bits_def)
  next
    case False
    then have "\<not> wbit ?ws i" using wbit_less by blast
    then have "i \<notin> chunk_bits xs"
      using wbit_ints_to_longs [of "rev xs" i] xs(2) by (auto simp: chunk_bits_def)
    with False show ?thesis by (simp add: b'_def wbit_append wbit_drop b(3))
  qed
  moreover have "bm_inv b'" "bm_size b' = bm_size b" using b(1) len by (simp_all add: b'_def bm_inv_def)
  ultimately show ?thesis using run by blast
qed

end
