(* ===== verification/CpuCache.thy ===== *)
theory CpuCache
  imports CpuMap
begin

unbundle bit_operations_syntax

text \<open>
  Correctness of the node-to-CPU map: whatever the files hold, the masks keep their shape; a cache whose
  entries agree with the files is transparent, so a lookup gives what reading the file would give; and
  what happens to the cache when a refresh fails or covers one node only.
\<close>

section \<open>Frames\<close>

text \<open>The state without the fields that a lookup may change.\<close>

definition lookup_base :: "'w numa \<Rightarrow> 'w numa" where
  "lookup_base s = s\<lparr>errno := E0, warned := 0, warn_out := [], node_cpu_mask_v2 := None,
     node_cpu_mask_v2_stale := True\<rparr>"

lemma lookup_base_simps [simp]:
  "lookup_base (s\<lparr>errno := e\<rparr>) = lookup_base s"
  "lookup_base (s\<lparr>warned := wd\<rparr>) = lookup_base s"
  "lookup_base (s\<lparr>warn_out := wo\<rparr>) = lookup_base s"
  "lookup_base (s\<lparr>node_cpu_mask_v2 := c\<rparr>) = lookup_base s"
  "lookup_base (s\<lparr>node_cpu_mask_v2_stale := b\<rparr>) = lookup_base s"
  by (simp_all add: lookup_base_def)

lemma lookup_base_fields:
  assumes "lookup_base t = lookup_base s"
  shows "world t = world s" "nodemask_sz t = nodemask_sz s" "cpumask_sz t = cpumask_sz s"
    "maxconfigurednode t = maxconfigurednode s" "numa_nodes_ptr t = numa_nodes_ptr s"
    "numa_all_nodes_ptr t = numa_all_nodes_ptr s" "numa_exit_on_warn t = numa_exit_on_warn s"
    "numa_possible_nodes_ptr t = numa_possible_nodes_ptr s" "maxconfiguredcpu t = maxconfiguredcpu s"
    "numa_wf t = numa_wf s"
proof -
  show "world t = world s" "nodemask_sz t = nodemask_sz s" "cpumask_sz t = cpumask_sz s"
    "maxconfigurednode t = maxconfigurednode s" "numa_nodes_ptr t = numa_nodes_ptr s"
    "numa_all_nodes_ptr t = numa_all_nodes_ptr s" "numa_exit_on_warn t = numa_exit_on_warn s"
    "numa_possible_nodes_ptr t = numa_possible_nodes_ptr s" "maxconfiguredcpu t = maxconfiguredcpu s"
    "numa_wf t = numa_wf s"
    using assms [THEN arg_cong, of world] assms [THEN arg_cong, of nodemask_sz]
      assms [THEN arg_cong, of cpumask_sz] assms [THEN arg_cong, of maxconfigurednode]
      assms [THEN arg_cong, of numa_nodes_ptr] assms [THEN arg_cong, of numa_all_nodes_ptr]
      assms [THEN arg_cong, of numa_exit_on_warn] assms [THEN arg_cong, of numa_possible_nodes_ptr]
      assms [THEN arg_cong, of maxconfiguredcpu] assms [THEN arg_cong, of numa_wf]
    by (simp_all add: lookup_base_def numa_wf_def)
qed

text \<open>Nor does anything but the lookup itself touch the cache.\<close>

definition same_cache :: "'w numa \<Rightarrow> 'w numa \<Rightarrow> bool" where
  "same_cache t s \<longleftrightarrow> node_cpu_mask_v2 t = node_cpu_mask_v2 s \<and>
     node_cpu_mask_v2_stale t = node_cpu_mask_v2_stale s"

lemma same_cache_simps [simp]:
  "same_cache s s" "same_cache (s\<lparr>errno := e\<rparr>) t = same_cache s t" "same_cache t (s\<lparr>errno := e\<rparr>) = same_cache t s"
  by (simp_all add: same_cache_def)

lemma same_cache_trans: "same_cache t s \<Longrightarrow> same_cache u t \<Longrightarrow> same_cache u s"
  by (simp add: same_cache_def)

lemma warn_base: "numa_warn w s = Some t \<Longrightarrow> lookup_base t = lookup_base s \<and>
    same_cache t s"
  by (auto simp: numa_warn_unfold same_cache_def split: if_splits)

lemma warn_runs: "\<not> numa_exit_on_warn s \<Longrightarrow> \<exists>t. numa_warn w s = Some t"
  by (simp add: numa_warn_unfold)

section \<open>The masks keep their shape\<close>

lemma parse_loop_length: "length (snd (parse_bitmap_loop longs i p line ws)) = length ws"
proof (induction longs i p line ws rule: parse_bitmap_loop.induct)
  case (1 longs i p line ws)
  obtain p' line' oldp where f: "find_group p line = (p', line', oldp)" by (metis prod_cases3)
  obtain v e where v: "strtoul (drop p' line') 16 = (v, e)" by force
  show ?case
  proof (cases "p = 0 \<or> longs \<le> i \<or> length line' - length e \<noteq> oldp")
    case True
    then show ?thesis by (subst parse_bitmap_loop.simps) (auto simp: f v Let_def)
  next
    case False
    then show ?thesis
      using "1.IH" [OF _ f [symmetric] refl refl _ v [symmetric] refl refl]
      by (subst parse_bitmap_loop.simps) (simp add: f v)
  qed
qed

lemma parse_bitmap_inv:
  assumes "bm_inv m"
  shows "bm_inv (snd (numa_parse_bitmap_v2 line m))" "bm_size (snd (numa_parse_bitmap_v2 line m)) = bm_size m"
  using assms parse_loop_length
  by (simp_all add: numa_parse_bitmap_v2_def bm_inv_def Let_def split: prod.splits) (metis snd_conv)+

text \<open>Reading a file: it cannot fail unless warnings end the process, and the error code decides whether
  the mask is what the file holds or all CPUs.\<close>

definition cpumap_of :: "'w os \<Rightarrow> 'w \<Rightarrow> nat \<Rightarrow> int \<Rightarrow> bitmask option" where
  "cpumap_of K w n node =
     (case os_file K w (cpumap_file node) of
        Inl _ \<Rightarrow> None
      | Inr t \<Rightarrow>
          (if first_line t = [] then None
           else let (r, m) = numa_parse_bitmap_v2 (first_line t) (new_bitmask n) in
                if r < 0 then None else Some m))"

lemma cpumap_of_inv: "cpumap_of K w n node = Some m \<Longrightarrow> bm_inv m \<and> bm_size m = n"
  using parse_bitmap_inv [of "new_bitmask n"]
  by (auto simp: cpumap_of_def split: sum.splits if_splits prod.splits) (metis bm_inv_new bm_size_new snd_conv)+

lemma warn_nosysfs2_runs:
  assumes "\<not> numa_exit_on_warn s" "numa_nodes_ptr s \<noteq> None"
  shows "\<exists>t. warn_nosysfs2 node s = Some t \<and> lookup_base t = lookup_base s \<and>
    same_cache t s"
proof -
  obtain nodes where n: "numa_nodes_ptr s = Some nodes" using assms(2) by blast
  show ?thesis
  proof (cases "numa_bitmask_isbitset nodes (c_uint node)")
    case True
    obtain t where t: "numa_warn W_nosysfs2 s = Some t" using warn_runs [OF assms(1)] by blast
    have "\<not> numa_exit_on_warn t" using assms(1) warn_base [OF t] lookup_base_fields(7) by metis
    then obtain u where u: "numa_warn W_nosysfs2 t = Some u" using warn_runs by blast
    show ?thesis using True n t u warn_base [OF t] warn_base [OF u] same_cache_trans [of t s u] by (simp add: warn_nosysfs2_def)
  qed (simp add: warn_nosysfs2_def n)
qed

lemma read_cpumap_runs:
  assumes "\<not> numa_exit_on_warn s" "numa_nodes_ptr s \<noteq> None"
  shows "\<exists>r m t. read_cpumap K node (new_bitmask n) s = Some ((r, m), t) \<and>
    lookup_base t = lookup_base s \<and> same_cache t s \<and> bm_inv m \<and> bm_size m = n \<and>
    (case cpumap_of K (world s) n node of
       Some m' \<Rightarrow> r = 0 \<and> m = m'
     | None \<Rightarrow> r = - 1 \<and> bm_bits m = {..<n})"
proof -
  let ?b = "new_bitmask n"
  have setall: "bm_inv (numa_bitmask_setall m)" "bm_size (numa_bitmask_setall m) = bm_size m"
    "bm_bits (numa_bitmask_setall m) = {..<bm_size m}" if "bm_inv m" for m
    using setall_bits [OF that] by blast+
  have W: "\<exists>t. numa_warn w s' = Some t \<and> lookup_base t = lookup_base s \<and> same_cache t s"
    if "lookup_base s' = lookup_base s" "same_cache s' s" for s' w
    using that warn_runs [of s' w] warn_base assms(1) lookup_base_fields(7) [OF that(1)] same_cache_trans by metis
  have N: "\<exists>t. warn_nosysfs2 node s' = Some t \<and> lookup_base t = lookup_base s \<and> same_cache t s"
    if "lookup_base s' = lookup_base s" "same_cache s' s" for s'
    using that warn_nosysfs2_runs [of s' node] assms lookup_base_fields [OF that(1)] same_cache_trans by metis
  show ?thesis
  proof (cases "os_file K (world s) (cpumap_file node)")
    case (Inl e)
    obtain t where "warn_nosysfs2 node (s\<lparr>errno := e\<rparr>) = Some t" "lookup_base t = lookup_base s"
      "same_cache t s" using N [of "s\<lparr>errno := e\<rparr>"] by auto
    then show ?thesis
      using setall [of ?b] by (simp add: read_cpumap_def cpumap_of_def Inl)
  next
    case (Inr f)
    obtain r m where p: "numa_parse_bitmap_v2 (first_line f) ?b = (r, m)" by force
    have m: "bm_inv m" "bm_size m = n" using parse_bitmap_inv [of ?b "first_line f"] by (simp_all add: p)
    obtain t where t: "warn_nosysfs2 node s = Some t" "lookup_base t = lookup_base s"
      "same_cache t s" using N [of s] by auto
    obtain u where u: "numa_warn W_cpumap t = Some u" "lookup_base u = lookup_base s"
      "same_cache u s" using W [OF t(2,3)] by blast
    obtain v where v: "numa_warn W_cpumap s = Some v" "lookup_base v = lookup_base s"
      "same_cache v s" using W [of s] by auto
    show ?thesis
    proof (cases "first_line f = []")
      case True
      then have "numa_parse_bitmap_v2 (first_line f) (numa_bitmask_setall ?b) = (- 1, numa_bitmask_setall ?b)"
        by (simp add: numa_parse_bitmap_v2_def)
      then show ?thesis
        using True t u setall [of ?b] setall [of "numa_bitmask_setall ?b"]
        by (simp add: read_cpumap_def cpumap_of_def Inr)
    next
      case False
      then show ?thesis
        using p m v setall [of m] by (cases "r < 0") (simp_all add: read_cpumap_def cpumap_of_def Inr)
    qed
  qed
qed

section \<open>A coherent cache is transparent\<close>

definition cpu_cache_ok :: "'w numa \<Rightarrow> bool" where
  "cpu_cache_ok s \<longleftrightarrow>
     (case node_cpu_mask_v2 s of
        None \<Rightarrow> True
      | Some cache \<Rightarrow> int (length cache) = nodemask_sz s \<and>
          (\<forall>c. Some c \<in> set cache \<longrightarrow> mask_ok (cpumask_sz s) (Some c)))"

definition cache_coherent :: "'w os \<Rightarrow> 'w numa \<Rightarrow> bool" where
  "cache_coherent K s \<longleftrightarrow>
     (case node_cpu_mask_v2 s of
        None \<Rightarrow> True
      | Some cache \<Rightarrow> int (length cache) = nodemask_sz s \<and>
          (\<forall>i c. i < length cache \<and> cache ! i = Some c \<longrightarrow>
             cpumap_of K (world s) (nat (cpumask_sz s)) (int i) = Some c))"

text \<open>The answer a lookup has to give.\<close>

definition lookup_result :: "bitmask option \<Rightarrow> nat \<Rightarrow> int \<times> bitmask \<Rightarrow> bool" where
  "lookup_result c n r \<longleftrightarrow>
     (case c of
        Some m \<Rightarrow> r = (0, m)
      | None \<Rightarrow> fst r = - 1 \<and> bm_inv (snd r) \<and> bm_size (snd r) = n \<and> bm_bits (snd r) = {..<n})"

lemma cache_coherentD:
  "cache_coherent K s \<Longrightarrow> node_cpu_mask_v2 s = Some cache \<Longrightarrow> i < length cache \<Longrightarrow> cache ! i = Some c \<Longrightarrow>
    cpumap_of K (world s) (nat (cpumask_sz s)) (int i) = Some c"
  by (simp add: cache_coherent_def)

lemma cache_coherent_base:
  assumes "lookup_base t = lookup_base s" "node_cpu_mask_v2 t = node_cpu_mask_v2 s"
  shows "cache_coherent K t = cache_coherent K s"
  unfolding cache_coherent_def assms(2) lookup_base_fields(1-3) [OF assms(1)] by (rule refl)

lemma cache_coherent_update:
  assumes "cache_coherent K s" "node_cpu_mask_v2 s = Some cache" "lookup_base t = lookup_base s"
    and "cpumap_of K (world s) (nat (cpumask_sz s)) node = Some m" "0 \<le> node"
  shows "cache_coherent K (t\<lparr>node_cpu_mask_v2 := Some (cache[nat node := Some m])\<rparr>)"
proof -
  have "cpumap_of K (world s) (nat (cpumask_sz s)) (int i) = Some c"
    if i: "i < length cache" and c: "cache[nat node := Some m] ! i = Some c" for i c
  proof (cases "i = nat node")
    case True
    then show ?thesis using i c assms(4,5) by simp
  next
    case False
    then show ?thesis using i c cache_coherentD [OF assms(1,2)] by simp
  qed
  then show ?thesis
    using assms(1,2) lookup_base_fields(1-3) [OF assms(3)] by (simp add: cache_coherent_def)
qed

text \<open>A lookup that reads the file: no mask is cached, or the cache is marked stale.\<close>

lemma miss_lookup:
  assumes wf: "numa_wf s" and K: "malloc_succeeds K" and ex: "\<not> numa_exit_on_warn s"
    and c: "node_cpu_mask_v2 s = Some cache" "int (length cache) = nodemask_sz s"
    and node: "0 \<le> node" "node \<le> maxconfigurednode s"
    and b: "bm_inv b" "int (bm_size b) = cpumask_sz s"
    and miss: "cache ! nat node = None \<or> node_cpu_mask_v2_stale s"
    and ce: "\<And>c. cache ! nat node = Some c \<Longrightarrow> bm_inv c \<and> bm_size c = bm_size b"
  shows "\<exists>r m t. numa_node_to_cpus_v2 K node b s = Some ((r, m), t) \<and> lookup_base t = lookup_base s \<and>
    bm_inv m \<and> bm_size m = bm_size b \<and>
    lookup_result (cpumap_of K (world s) (bm_size b) node) (bm_size b) (r, m) \<and> \<not> node_cpu_mask_v2_stale t \<and>
    node_cpu_mask_v2 t = Some (if cache ! nat node = None \<and> r \<noteq> 0 then cache else cache[nat node := Some m])"
proof -
  have sz: "maxconfigurednode s < nodemask_sz s" "0 < cpumask_sz s" "cpumask_sz s < 2 ^ 31"
    using wf by (simp_all add: numa_wf_def)
  define n where "n = bm_size b"
  have n: "nat (cpumask_sz s) = n" "n < 2 ^ 32" "0 < n" using b(2) sz by (auto simp: n_def)
  have len: "nat node < length cache" using node sz(1) c(2) by linarith
  define s1 where "s1 = s\<lparr>node_cpu_mask_v2_stale := False\<rparr>"
  have base1: "lookup_base s1 = lookup_base s" and c1: "node_cpu_mask_v2 s1 = Some cache"
    using c(1) by (simp_all add: s1_def)
  note F1 = lookup_base_fields [OF base1]
  have clr: "bm_inv (numa_bitmask_clearall b)" "bm_size (numa_bitmask_clearall b) = n"
    using clearall_bits [OF b(1)] by (simp_all add: n_def)
  have alloc: "numa_allocate_cpumask K s1 = Some (Some (new_bitmask n), s1)"
    using allocate_cpumask_run [OF K, of s1] F1(3) sz n(1) by simp
  obtain r m t where rd: "read_cpumap K node (new_bitmask n) s1 = Some ((r, m), t)"
    "lookup_base t = lookup_base s" "same_cache t s1" "bm_inv m" "bm_size m = n"
    "case cpumap_of K (world s) n node of Some m' \<Rightarrow> r = 0 \<and> m = m' | None \<Rightarrow> r = - 1 \<and> bm_bits m = {..<n}"
    using read_cpumap_runs [of s1 K node n] ex wf F1 base1
    by (auto simp: numa_wf_def mask_ok_def split: option.splits) (metis+)?
  have t: "node_cpu_mask_v2 t = Some cache" "\<not> node_cpu_mask_v2_stale t"
    using rd(3) c1 by (simp_all add: same_cache_def) (simp add: s1_def)
  have res: "lookup_result (cpumap_of K (world s) n node) n (r, m)"
    using rd(4-6) by (auto simp: lookup_result_def split: option.splits)
  have keep: "copy_bitmask_to_bitmask m (numa_bitmask_clearall b) = m"
    using copy_same [OF rd(4) clr(1)] rd(5) clr(2) n(2) by simp
  define u where "u = t\<lparr>node_cpu_mask_v2 := Some (if cache ! nat node = None \<and> r \<noteq> 0 then cache else cache[nat node := Some m])\<rparr>"
  have "numa_node_to_cpus_v2 K node b s = Some ((r, m), u)"
  proof (cases "cache ! nat node")
    case None
    then have "u = (if r = 0 then t\<lparr>node_cpu_mask_v2 := Some (cache[nat node := Some m])\<rparr> else t)"
      using t(1) by (simp add: u_def)
    then show ?thesis
      using node len alloc rd(1) keep None
      by (cases "node_cpu_mask_v2_stale s")
        (simp_all add: numa_node_to_cpus_v2_def numa_max_node_def s1_def [symmetric] c c1)
  next
    case (Some e)
    have "copy_bitmask_to_bitmask m e = m"
      using copy_same [OF rd(4), of e] ce [OF Some] rd(5) n by (simp add: n_def)
    then show ?thesis
      using node len alloc rd(1) keep Some miss
      by (simp add: numa_node_to_cpus_v2_def numa_max_node_def s1_def [symmetric] c c1 u_def)
  qed
  moreover have "lookup_base u = lookup_base s" "\<not> node_cpu_mask_v2_stale u"
    using rd(2) t(2) by (simp_all add: u_def)
  ultimately show ?thesis using res rd(4,5) by (auto simp: n_def u_def)
qed

text \<open>A lookup that finds the mask of the node in a cache that is not stale.\<close>

lemma hit_lookup:
  assumes wf: "numa_wf s" and c: "node_cpu_mask_v2 s = Some cache" "int (length cache) = nodemask_sz s"
    and node: "0 \<le> node" "node \<le> maxconfigurednode s"
    and b: "bm_inv b" "int (bm_size b) = cpumask_sz s"
    and hit: "cache ! nat node = Some e" "\<not> node_cpu_mask_v2_stale s" "bm_inv e" "bm_size e = bm_size b"
  shows "numa_node_to_cpus_v2 K node b s = Some ((0, e), s)"
proof -
  have sz: "maxconfigurednode s < nodemask_sz s" "cpumask_sz s < 2 ^ 31" using wf by (simp_all add: numa_wf_def)
  have len: "nat node < length cache" using node sz(1) c(2) by linarith
  have "copy_bitmask_to_bitmask e (numa_bitmask_clearall b) = e"
    using copy_same [OF hit(3), of "numa_bitmask_clearall b"] clearall_bits [OF b(1)] hit(4) b(2) sz(2) by simp
  moreover have "bm_size (numa_bitmask_clearall b) = bm_size e" using clearall_bits [OF b(1)] hit(4) by simp
  moreover have "s\<lparr>node_cpu_mask_v2_stale := False\<rparr> = s" using hit(2) by simp
  ultimately show ?thesis
    using node len hit(1,2) by (simp add: numa_node_to_cpus_v2_def numa_max_node_def c)
qed

lemma node_to_cpus_coherent:
  assumes wf: "numa_wf s" and K: "malloc_succeeds K" and ex: "\<not> numa_exit_on_warn s"
    and co: "cache_coherent K s" and node: "0 \<le> node" "node \<le> maxconfigurednode s"
    and b: "bm_inv b" "int (bm_size b) = cpumask_sz s"
  shows "\<exists>r t. numa_node_to_cpus_v2 K node b s = Some (r, t) \<and> lookup_base t = lookup_base s \<and>
    cache_coherent K t \<and> lookup_result (cpumap_of K (world s) (bm_size b) node) (bm_size b) r"
proof -
  have sz: "0 < nodemask_sz s" "nodemask_sz s < 2 ^ 31" "maxconfigurednode s < nodemask_sz s"
    using wf by (simp_all add: numa_wf_def)
  define n where "n = bm_size b"
  have n: "nat (cpumask_sz s) = n" using b(2) by (auto simp: n_def)
  define s0 where "s0 = (if node_cpu_mask_v2 s = None then init_node_cpu_mask_v2 K s else s)"
  have init: "init_node_cpu_mask_v2 K s = s\<lparr>node_cpu_mask_v2 := Some (replicate (nat (nodemask_sz s)) None)\<rparr>"
    using K sz by (simp add: init_node_cpu_mask_v2_def malloc_succeeds_def numa_max_possible_node_v2_def
        numa_num_possible_nodes_def c_ulong_id)
  obtain cache where c: "node_cpu_mask_v2 s0 = Some cache" "int (length cache) = nodemask_sz s"
    using co sz by (cases "node_cpu_mask_v2 s") (auto simp: s0_def init cache_coherent_def)
  have same: "numa_node_to_cpus_v2 K node b s = numa_node_to_cpus_v2 K node b s0"
    using c(1) by (auto simp: numa_node_to_cpus_v2_def s0_def init numa_max_node_def)
  have base: "lookup_base s0 = lookup_base s" by (simp add: s0_def init)
  have co0: "cache_coherent K s0"
    using co sz(1) by (cases "node_cpu_mask_v2 s") (auto simp: s0_def init cache_coherent_def)
  have len: "nat node < length cache" using node sz(3) c(2) by linarith
  note F = lookup_base_fields [OF base]
  have ce: "cpumap_of K (world s) n node = Some e \<and> bm_inv e \<and> bm_size e = n" if "cache ! nat node = Some e" for e
  proof -
    have "cpumap_of K (world s) n node = Some e"
      using cache_coherentD [OF co0 c(1) len that] F(1,3) n node(1) by simp
    then show ?thesis using cpumap_of_inv [of K "world s" n node e] by simp
  qed
  note pre = wf [unfolded F(10) [symmetric]] c(1) c(2) [unfolded F(2) [symmetric]] node(1)
    node(2) [unfolded F(4) [symmetric]] b(1) b(2) [unfolded F(3) [symmetric]]
  show ?thesis
  proof (cases "cache ! nat node = None \<or> node_cpu_mask_v2_stale s0")
    case True
    have ex0: "\<not> numa_exit_on_warn s0" using ex F(7) by simp
    have ce0: "\<And>c. cache ! nat node = Some c \<Longrightarrow> bm_inv c \<and> bm_size c = bm_size b"
      using ce by (simp add: n_def)
    obtain r m t where run: "numa_node_to_cpus_v2 K node b s0 = Some ((r, m), t)" "lookup_base t = lookup_base s"
      "lookup_result (cpumap_of K (world s) n node) n (r, m)"
      "node_cpu_mask_v2 t = Some (if cache ! nat node = None \<and> r \<noteq> 0 then cache else cache[nat node := Some m])"
      using miss_lookup [OF pre(1) K ex0 pre(2-7) True ce0] unfolding F(1) base n_def [symmetric] by blast
    have st: "lookup_base t = lookup_base s0" using run(2) base by simp
    have "cache_coherent K t"
    proof (cases "cpumap_of K (world s) n node")
      case None
      then have "cache ! nat node = None" using ce by (cases "cache ! nat node") auto
      moreover have "r \<noteq> 0" using run(3) None by (simp add: lookup_result_def)
      ultimately have "same_cache (t\<lparr>node_cpu_mask_v2_stale := node_cpu_mask_v2_stale s0\<rparr>) s0"
        using run(4) c(1) by (simp add: same_cache_def)
      then show ?thesis using co0 cache_coherent_base [OF st] by (simp add: same_cache_def)
    next
      case (Some m')
      then have r: "m' = m" "r = 0" using run(3) by (simp_all add: lookup_result_def)
      then have v: "node_cpu_mask_v2 t = Some (cache[nat node := Some m])" using run(4) by simp
      have "cpumap_of K (world s0) (nat (cpumask_sz s0)) node = Some m" using Some r(1) F(1,3) n by simp
      from cache_coherent_update [OF co0 c(1) st this node(1)]
      show ?thesis unfolding v [symmetric] by simp
    qed
    then show ?thesis using run same by (auto simp: n_def)
  next
    case False
    then obtain e where e: "cache ! nat node = Some e" "\<not> node_cpu_mask_v2_stale s0" by auto
    have "numa_node_to_cpus_v2 K node b s0 = Some ((0, e), s0)"
      using hit_lookup [OF pre e] ce [OF e(1)] by (simp add: n_def)
    then show ?thesis using same base co0 ce [OF e(1)] by (auto simp: lookup_result_def n_def)
  qed
qed

text \<open>A node number out of range.\<close>

lemma range_lookup:
  assumes wf: "numa_wf s" and K: "malloc_succeeds K" and co: "cache_coherent K s"
    and node: "node < 0 \<or> maxconfigurednode s < node"
  shows "\<exists>t. numa_node_to_cpus_v2 K node b s = Some ((- 1, b), t) \<and> errno t = ERANGE \<and>
    lookup_base t = lookup_base s \<and> cache_coherent K t"
proof -
  have sz: "0 < nodemask_sz s" "nodemask_sz s < 2 ^ 31" using wf by (simp_all add: numa_wf_def)
  define s0 where "s0 = (if node_cpu_mask_v2 s = None then init_node_cpu_mask_v2 K s else s)"
  have init: "init_node_cpu_mask_v2 K s = s\<lparr>node_cpu_mask_v2 := Some (replicate (nat (nodemask_sz s)) None)\<rparr>"
    using K sz by (simp add: init_node_cpu_mask_v2_def malloc_succeeds_def numa_max_possible_node_v2_def
        numa_num_possible_nodes_def c_ulong_id)
  have "cache_coherent K s0"
    using co sz(1) by (cases "node_cpu_mask_v2 s") (auto simp: s0_def init cache_coherent_def)
  then have "cache_coherent K (s0\<lparr>errno := ERANGE\<rparr>)"
    using cache_coherent_base [of "s0\<lparr>errno := ERANGE\<rparr>" s0] by simp
  moreover have "lookup_base s0 = lookup_base s" by (simp add: s0_def init)
  ultimately show ?thesis
    using node by (simp add: numa_node_to_cpus_v2_def numa_max_node_def s0_def [symmetric])
qed

end
