(* ===== verification/RunNode.thy ===== *)
theory RunNode
  imports CpuCache
begin

unbundle bit_operations_syntax

text \<open>
  Running on the CPUs of a set of nodes (\<open>libnuma.c\<close> lines 1654-1965, 2040-2062): a node mask is turned
  into the union of the CPU masks of its nodes, which becomes the affinity of the process, and back.
  The warnings inside the loops and the error exits are those of the source; the word-wise tests and
  unions run over the first \<open>CPU_LONGS(ncpus)\<close> words.
\<close>

section \<open>Setting the affinity\<close>

definition CPU_BUFFER_SIZE :: nat where
  "CPU_BUFFER_SIZE = 4096"

definition or_words :: "nat \<Rightarrow> ulong list \<Rightarrow> ulong list \<Rightarrow> ulong list" where
  "or_words n ws vs = fold (\<lambda>k ws. ws[k := ws ! k OR vs ! k]) [0..<n] ws"

text \<open>The search of version 1 for the size the kernel wants: double the length while it answers EINVAL.
  \<open>run_mask_size\<close> is the function's static variable.  \<open>None\<close> is a loop that does not end (a size of 0).\<close>

partial_function (option) affinity_loop_v1 :: "'w os \<Rightarrow> ulong list \<Rightarrow> int \<Rightarrow> 'w numa \<Rightarrow> (int \<times> 'w numa) option" where
  "affinity_loop_v1 K bigbuf err s =
     (if run_mask_size s \<le> int CPU_BUFFER_SIZE then
        (let (err, s) = numa_sched_setaffinity_v1 K 0 (nat (run_mask_size s)) bigbuf s in
         if err = 0 \<or> errno s \<noteq> EINVAL then Some (err, s)
         else affinity_loop_v1 K bigbuf err (s\<lparr>run_mask_size := run_mask_size s * 2\<rparr>))
      else Some (err, s))"

definition run_mask_step_v1 :: "'w os \<Rightarrow> nodemask \<Rightarrow> int \<Rightarrow> nat \<Rightarrow> (ulong list \<times> ulong list) \<times> 'w numa \<Rightarrow>
    ((ulong list \<times> ulong list) \<times> 'w numa) option" where
  "run_mask_step_v1 K m ncpus i = (\<lambda>((cpus, nodecpus), s).
     if m ! (i div 64) = 0 then Some ((cpus, nodecpus), s)
     else if nodemask_isset_compat m i then do {
       ((r, nodecpus), s) \<leftarrow> numa_node_to_cpus_v1 K (int i) nodecpus (c_int (int (CPU_BYTES (c_ulong ncpus)))) s;
       if r < 0 then do {
         s \<leftarrow> numa_warn W_noderunmask s;
         Some ((cpus, nodecpus), s)
       }
       else Some ((or_words (CPU_LONGS (c_ulong ncpus)) cpus nodecpus, nodecpus), s)
     }
     else Some ((cpus, nodecpus), s))"

text \<open>The array \<open>nodecpus\<close> is only read after a call that has filled it; it starts as zeros here.  A mask
  larger than the retry buffer overflows it, and is undefined behaviour.\<close>

definition numa_run_on_node_mask_v1 :: "'w os \<Rightarrow> nodemask \<Rightarrow> 'w numa \<Rightarrow> (int \<times> 'w numa) option" where
  "numa_run_on_node_mask_v1 K m s = do {
     let ncpus = numa_num_possible_cpus s;
     let bytes = CPU_BYTES (c_ulong ncpus);
     let cpus = replicate (CPU_LONGS (c_ulong ncpus)) 0;
     ((cpus, _), s) \<leftarrow> foldM (run_mask_step_v1 K m ncpus) [0..<NUMA_NUM_NODES] ((cpus, cpus), s);
     let (err, s) = numa_sched_setaffinity_v1 K 0 bytes cpus s;
     if err < 0 \<and> errno s = EINVAL then do {
       let savederrno = errno s;
       let s = (if run_mask_size s = - 1 then s\<lparr>run_mask_size := c_int (int (bytes * 2))\<rparr> else s);
       if \<not> os_malloc_ok K (world s) CPU_BUFFER_SIZE then Some (- 1, s\<lparr>errno := ENOMEM\<rparr>)
       else do {
         let s = s\<lparr>errno := savederrno\<rparr>;
         if CPU_BUFFER_SIZE < bytes \<and> run_mask_size s \<le> int CPU_BUFFER_SIZE then None
         else affinity_loop_v1 K (cpus @ replicate ((CPU_BUFFER_SIZE - bytes) div 8) 0) err s
       }
     }
     else Some (err, s)
   }"

text \<open>The loop of the two version 2 functions, which differ in the mask of the nodes they accept.\<close>

definition run_mask_step :: "'w os \<Rightarrow> ('w numa \<Rightarrow> bitmask option) \<Rightarrow> bitmask \<Rightarrow> nat \<Rightarrow> nat \<Rightarrow>
    (bitmask \<times> bitmask) \<times> 'w numa \<Rightarrow> ((bitmask \<times> bitmask) \<times> 'w numa) option" where
  "run_mask_step K allowed bmp ncpus i = (\<lambda>((cpus, nodecpus), s).
     if maskp bmp ! (i div 64) = 0 then Some ((cpus, nodecpus), s)
     else if numa_bitmask_isbitset bmp i then do {
       ok \<leftarrow> allowed s;
       if \<not> numa_bitmask_isbitset ok i then do {
         s \<leftarrow> numa_warn W_noderunmask s;
         Some ((cpus, nodecpus), s)
       }
       else do {
         ((r, nodecpus), s) \<leftarrow> numa_node_to_cpus_v2 K (int i) nodecpus s;
         if r < 0 then do {
           s \<leftarrow> numa_warn W_noderunmask s;
           Some ((cpus, nodecpus), s)
         }
         else Some ((cpus\<lparr>maskp := or_words (CPU_LONGS ncpus) (maskp cpus) (maskp nodecpus)\<rparr>, nodecpus), s)
       }
     }
     else Some ((cpus, nodecpus), s))"

definition run_on_mask :: "'w os \<Rightarrow> ('w numa \<Rightarrow> bitmask option) \<Rightarrow> bitmask \<Rightarrow> 'w numa \<Rightarrow> (int \<times> 'w numa) option" where
  "run_on_mask K allowed bmp s = do {
     (cpus, s) \<leftarrow> numa_allocate_cpumask K s;
     cpus \<leftarrow> cpus;
     let ncpus = bm_size cpus;
     (nodecpus, s) \<leftarrow> numa_allocate_cpumask K s;
     nodecpus \<leftarrow> nodecpus;
     ((cpus, _), s) \<leftarrow> foldM (run_mask_step K allowed bmp ncpus) [0..<bm_size bmp] ((cpus, nodecpus), s);
     let (err, s) = numa_sched_setaffinity_v2 K 0 cpus s;
     s \<leftarrow> (if err < 0 then numa_error ''numa_sched_setaffinity_v2_int() failed'' s else Some s);
     Some (err, s)
   }"

definition numa_run_on_node_mask_v2 :: "'w os \<Rightarrow> bitmask \<Rightarrow> 'w numa \<Rightarrow> (int \<times> 'w numa) option" where
  "numa_run_on_node_mask_v2 K bmp s = run_on_mask K numa_all_nodes_ptr bmp s"

definition numa_run_on_node_mask_all :: "'w os \<Rightarrow> bitmask \<Rightarrow> 'w numa \<Rightarrow> (int \<times> 'w numa) option" where
  "numa_run_on_node_mask_all K bmp s = run_on_mask K numa_possible_nodes_ptr bmp s"

definition numa_run_on_node :: "'w os \<Rightarrow> int \<Rightarrow> 'w numa \<Rightarrow> (int \<times> 'w numa) option" where
  "numa_run_on_node K node s = do {
     let numa_num_nodes = numa_num_possible_nodes s;
     if node < - 1 \<or> numa_num_nodes \<le> node then Some (- 1, s\<lparr>errno := EINVAL\<rparr>)
     else do {
       (cpus, s) \<leftarrow> numa_allocate_cpumask K s;
       case cpus of
         None \<Rightarrow> Some (- 1, s)
       | Some cpus \<Rightarrow>
           if node = - 1 then Some (numa_sched_setaffinity_v2 K 0 (numa_bitmask_setall cpus) s)
           else do {
             ((r, cpus), s) \<leftarrow> numa_node_to_cpus_v2 K node cpus s;
             if r < 0 then do {
               s \<leftarrow> numa_warn W_noderunmask s;
               Some (- 1, s)
             }
             else Some (numa_sched_setaffinity_v2 K 0 cpus s)
           }
     }
   }"

section \<open>Reading the affinity back\<close>

text \<open>\<open>for (k ...) if (nodecpus->maskp[k] & cpus->maskp[k]) numa_bitmask_setbit(bmp, i)\<close>.\<close>

definition mark_node :: "nat \<Rightarrow> bitmask \<Rightarrow> bitmask \<Rightarrow> nat \<Rightarrow> bitmask \<Rightarrow> bitmask" where
  "mark_node longs nodecpus cpus i bmp =
     fold (\<lambda>k b. if maskp nodecpus ! k AND maskp cpus ! k \<noteq> 0 then numa_bitmask_setbit b i else b)
       [0..<longs] bmp"

definition get_run_step :: "'w os \<Rightarrow> bool \<Rightarrow> nat \<Rightarrow> bitmask \<Rightarrow> nat \<Rightarrow>
    (bitmask \<times> bitmask option) \<times> 'w numa \<Rightarrow> ((bitmask \<times> bitmask option) \<times> 'w numa) option" where
  "get_run_step K allowed_only longs cpus i = (\<lambda>((bmp, nodecpus), s). do {
     skip \<leftarrow> (if allowed_only then map_option (\<lambda>m. \<not> numa_bitmask_isbitset m i) (numa_all_nodes_ptr s)
              else Some False);
     if skip then Some ((bmp, nodecpus), s)
     else do {
       nc \<leftarrow> nodecpus;
       ((r, nc), s) \<leftarrow> numa_node_to_cpus_v2 K (int i) nc s;
       if r < 0 then Some ((bmp, Some nc), s)
       else Some ((mark_node longs nc cpus i bmp, Some nc), s)
     }
   })"

definition numa_get_run_node_mask_v1 :: "'w os \<Rightarrow> 'w numa \<Rightarrow> (nodemask \<times> 'w numa) option" where
  "numa_get_run_node_mask_v1 K s = do {
     let ncpus = numa_num_configured_cpus s;
     let max = numa_max_node s;
     (cpus, s) \<leftarrow> numa_allocate_cpumask K s;
     case cpus of
       None \<Rightarrow> Some (numa_no_nodes s, s)
     | Some cpus \<Rightarrow> do {
         let ((r, cpus), s) = numa_sched_getaffinity_v2 K 0 cpus s;
         if r < 0 then Some (numa_no_nodes s, s)
         else do {
           (nodecpus, s) \<leftarrow> numa_allocate_cpumask K s;
           if nodecpus = None then Some (numa_no_nodes s, s)
           else do {
             (bmp, s) \<leftarrow> allocate_nodemask_v1 K s;
             case bmp of
               None \<Rightarrow> Some (numa_no_nodes s, s)
             | Some bmp \<Rightarrow> do {
                 ((bmp, _), s) \<leftarrow> foldM (get_run_step K False (CPU_LONGS (c_ulong ncpus)) cpus)
                                    [0..<nat (max + 1)] ((bmp, nodecpus), s);
                 Some (copy_bitmask_to_nodemask bmp, s)
               }
           }
         }
       }
   }"

text \<open>Version 2 allocates the node mask it returns with the size of a CPU mask.\<close>

definition numa_get_run_node_mask_v2 :: "'w os \<Rightarrow> 'w numa \<Rightarrow> (bitmask option \<times> 'w numa) option" where
  "numa_get_run_node_mask_v2 K s = do {
     let ncpus = numa_num_configured_cpus s;
     let max = numa_max_node s;
     (bmp, s) \<leftarrow> numa_allocate_cpumask K s;
     (cpus, s) \<leftarrow> numa_allocate_cpumask K s;
     case (bmp, cpus) of
       (Some bmp, Some cpus) \<Rightarrow> do {
         let ((r, cpus), s) = numa_sched_getaffinity_v2 K 0 cpus s;
         if r < 0 then do {
           no_nodes \<leftarrow> numa_no_nodes_ptr s;
           Some (Some (copy_bitmask_to_bitmask no_nodes bmp), s)
         }
         else do {
           (nodecpus, s) \<leftarrow> numa_allocate_cpumask K s;
           ((bmp, _), s) \<leftarrow> foldM (get_run_step K True (CPU_LONGS (c_ulong ncpus)) cpus)
                              [0..<nat (max + 1)] ((bmp, nodecpus), s);
           Some (Some bmp, s)
         }
       }
     | _ \<Rightarrow> Some (None, s)
   }"

section \<open>Binding CPUs and memory\<close>

definition numa_bind_v1 :: "'w os \<Rightarrow> nodemask \<Rightarrow> 'w numa \<Rightarrow> 'w numa option" where
  "numa_bind_v1 K nodemask s = do {
     let bmp = \<lparr>bm_size = sizeof_nodemask, maskp = nodemask\<rparr>;
     (_, s) \<leftarrow> numa_run_on_node_mask_v2 K bmp s;
     numa_set_membind_v2 K bmp s
   }"

definition numa_bind_v2 :: "'w os \<Rightarrow> bitmask \<Rightarrow> 'w numa \<Rightarrow> 'w numa option" where
  "numa_bind_v2 K bmp s = do {
     (_, s) \<leftarrow> numa_run_on_node_mask_v2 K bmp s;
     numa_set_membind_v2 K bmp s
   }"

section \<open>What the affinity becomes\<close>

lemma or_words_Suc: "or_words (Suc n) ws vs = (let us = or_words n ws vs in us[n := us ! n OR vs ! n])"
  by (simp add: or_words_def Let_def)

lemma or_words_nth:
  assumes "n \<le> length ws"
  shows "length (or_words n ws vs) = length ws \<and>
    (\<forall>k < length ws. or_words n ws vs ! k = (if k < n then ws ! k OR vs ! k else ws ! k))"
  using assms
proof (induction n)
  case 0
  then show ?case by (simp add: or_words_def)
next
  case (Suc n)
  then show ?case by (auto simp: or_words_Suc Let_def nth_list_update less_Suc_eq)
qed

lemma or_words_wbit:
  assumes "length ws = n" "length vs = n"
  shows "length (or_words n ws vs) = n" "wbit (or_words n ws vs) j \<longleftrightarrow> wbit ws j \<or> wbit vs j"
  using or_words_nth [of n ws vs] assms by (auto simp: wbit_def bit_or_iff)

text \<open>The CPUs of the nodes in a list that the mask names, that are allowed and that can be read.\<close>

definition nodes_cpus :: "'w os \<Rightarrow> 'w numa \<Rightarrow> bitmask \<Rightarrow> bitmask \<Rightarrow> nat set \<Rightarrow> nat set" where
  "nodes_cpus K s al bmp I = {j. \<exists>i m. i \<in> I \<and> i \<in> bm_bits bmp \<and> i \<in> bm_bits al \<and>
     int i \<le> maxconfigurednode s \<and>
     cpumap_of K (world s) (nat (cpumask_sz s)) (int i) = Some m \<and> wbit (maskp m) j}"

lemma nodes_cpus_insert:
  "nodes_cpus K s al bmp (insert i I) = nodes_cpus K s al bmp I \<union>
    (if i \<in> bm_bits bmp \<and> i \<in> bm_bits al \<and> int i \<le> maxconfigurednode s
     then (case cpumap_of K (world s) (nat (cpumask_sz s)) (int i) of
             None \<Rightarrow> {} | Some m \<Rightarrow> {j. wbit (maskp m) j})
     else {})"
  by (auto simp: nodes_cpus_def split: option.splits)

definition run_inv :: "'w os \<Rightarrow> 'w numa \<Rightarrow> bitmask \<Rightarrow> bitmask \<Rightarrow> nat set \<Rightarrow> (bitmask \<times> bitmask) \<times> 'w numa \<Rightarrow> bool" where
  "run_inv K s al bmp I = (\<lambda>((cpus, nodecpus), t).
     lookup_base t = lookup_base s \<and> cache_coherent K t \<and>
     bm_inv cpus \<and> int (bm_size cpus) = cpumask_sz s \<and>
     bm_inv nodecpus \<and> int (bm_size nodecpus) = cpumask_sz s \<and>
     (\<forall>j. wbit (maskp cpus) j \<longleftrightarrow> j \<in> nodes_cpus K s al bmp I))"

lemma run_mask_step_inv:
  assumes wf: "numa_wf s" and K: "malloc_succeeds K" and ex: "\<not> numa_exit_on_warn s"
    and al: "\<And>t. lookup_base t = lookup_base s \<Longrightarrow> allowed t = Some al"
    and n: "n = nat (cpumask_sz s)"
    and inv: "run_inv K s al bmp I st"
  shows "\<exists>st'. run_mask_step K allowed bmp n i st = Some st' \<and> run_inv K s al bmp (insert i I) st'"
proof -
  obtain cpus nodecpus t where st: "st = ((cpus, nodecpus), t)" by (metis surj_pair)
  have t: "lookup_base t = lookup_base s" "cache_coherent K t" "bm_inv cpus" "int (bm_size cpus) = cpumask_sz s"
    "bm_inv nodecpus" "int (bm_size nodecpus) = cpumask_sz s"
    "\<And>j. wbit (maskp cpus) j \<longleftrightarrow> j \<in> nodes_cpus K s al bmp I"
    using inv by (simp_all add: run_inv_def st)
  note F = lookup_base_fields [OF t(1)]
  have skip: "run_inv K s al bmp (insert i I) ((cpus, nodecpus'), u)"
    if "lookup_base u = lookup_base s" "cache_coherent K u" "bm_inv nodecpus'" "int (bm_size nodecpus') = cpumask_sz s"
      "nodes_cpus K s al bmp (insert i I) = nodes_cpus K s al bmp I" for u nodecpus'
    using that t by (simp add: run_inv_def)
  have W: "\<exists>v. numa_warn W_noderunmask u = Some v \<and> lookup_base v = lookup_base s \<and> cache_coherent K v"
    if u: "lookup_base u = lookup_base s" "cache_coherent K u" for u
  proof -
    obtain v where v: "numa_warn W_noderunmask u = Some v"
      using warn_runs [of u] lookup_base_fields(7) [OF u(1)] ex by metis
    then have "lookup_base v = lookup_base u" "node_cpu_mask_v2 v = node_cpu_mask_v2 u"
      using warn_base [OF v] by (simp_all add: same_cache_def)
    with v u cache_coherent_base [of v u K] show ?thesis by simp
  qed
  show ?thesis
  proof (cases "numa_bitmask_isbitset bmp i")
    case False
    then have "nodes_cpus K s al bmp (insert i I) = nodes_cpus K s al bmp I"
      by (simp add: nodes_cpus_insert)
    then show ?thesis using False skip [OF t(1,2,5,6)] by (simp add: run_mask_step_def st)
  next
    case isset: True
    then have w: "maskp bmp ! (i div 64) \<noteq> 0" by (auto simp: isbitset_bit)
    show ?thesis
    proof (cases "numa_bitmask_isbitset al i")
      case False
      obtain v where "numa_warn W_noderunmask t = Some v" "lookup_base v = lookup_base s" "cache_coherent K v"
        using W [OF t(1,2)] by blast
      moreover have "nodes_cpus K s al bmp (insert i I) = nodes_cpus K s al bmp I"
        using False by (simp add: nodes_cpus_insert)
      ultimately show ?thesis
        using isset False w al [OF t(1)] skip [OF _ _ t(5,6)] by (simp add: run_mask_step_def st)
    next
      case al_i: True
      show ?thesis
      proof (cases "int i \<le> maxconfigurednode s")
        case True
        have wft: "numa_wf t" "\<not> numa_exit_on_warn t" "int i \<le> maxconfigurednode t"
          using wf ex True F by simp_all
        obtain r m u where lk: "numa_node_to_cpus_v2 K (int i) nodecpus t = Some ((r, m), u)"
          "lookup_base u = lookup_base t" "cache_coherent K u"
          "lookup_result (cpumap_of K (world t) (bm_size nodecpus) (int i)) (bm_size nodecpus) (r, m)"
          using node_to_cpus_coherent [OF wft(1) K wft(2) t(2) _ wft(3) t(5)] t(6) F(3) by fastforce
        have u: "lookup_base u = lookup_base s" using lk(2) t(1) by simp
        have sz: "bm_size nodecpus = nat (cpumask_sz s)" using t(6) by simp
        note res = lk(4) [unfolded F(1) sz]
        show ?thesis
        proof (cases "cpumap_of K (world s) (nat (cpumask_sz s)) (int i)")
          case None
          then have r: "r < 0" "bm_inv m" "int (bm_size m) = cpumask_sz s"
            using res t(6) by (auto simp: lookup_result_def)
          obtain v where "numa_warn W_noderunmask u = Some v" "lookup_base v = lookup_base s" "cache_coherent K v"
            using W [OF u lk(3)] by blast
          moreover have "nodes_cpus K s al bmp (insert i I) = nodes_cpus K s al bmp I"
            using None by (simp add: nodes_cpus_insert)
          ultimately show ?thesis
            using isset w al_i al [OF t(1)] lk(1) r skip [OF _ _ r(2,3)] by (simp add: run_mask_step_def st)
        next
          case (Some m')
          then have m: "r = 0" "m = m'" using res by (simp_all add: lookup_result_def)
          have mi: "bm_inv m" "bm_size m = nat (cpumask_sz s)" using cpumap_of_inv [OF Some] m by simp_all
          have "cpumask_sz s < 2 ^ 31" using wf by (simp add: numa_wf_def)
          then have nl: "CPU_LONGS n = longsperbits n" by (intro CPU_LONGS_longsperbits) (simp add: n)
          have cn: "bm_size cpus = n" using t(4) n by simp
          then have len: "length (maskp cpus) = longsperbits n" "length (maskp m) = longsperbits n"
            using t(3) mi n by (auto simp: bm_inv_def)
          let ?c = "cpus\<lparr>maskp := or_words (CPU_LONGS n) (maskp cpus) (maskp m)\<rparr>"
          have c: "bm_inv ?c" "\<And>j. wbit (maskp ?c) j \<longleftrightarrow> wbit (maskp cpus) j \<or> wbit (maskp m) j"
            unfolding nl using or_words_wbit [OF len] by (simp_all add: bm_inv_def cn)
          have "nodes_cpus K s al bmp (insert i I) = nodes_cpus K s al bmp I \<union> {j. wbit (maskp m) j}"
            using isset al_i True Some m by (simp add: nodes_cpus_insert)
          then have "run_inv K s al bmp (insert i I) ((?c, m), u)"
            using u lk(3) c t(4,7) mi sz t(6) by (simp add: run_inv_def)
          then show ?thesis
            using isset w al_i al [OF t(1)] lk(1) m(1) by (simp add: run_mask_step_def st)
        qed
      next
        case False
        have "numa_wf t" "int i < 0 \<or> maxconfigurednode t < int i" using wf F(4,10) False by simp_all
        then obtain u where lk: "numa_node_to_cpus_v2 K (int i) nodecpus t = Some ((- 1, nodecpus), u)"
          "lookup_base u = lookup_base t" "cache_coherent K u"
          using range_lookup [OF _ K t(2)] by blast
        have u: "lookup_base u = lookup_base s" using lk(2) t(1) by simp
        obtain v where "numa_warn W_noderunmask u = Some v" "lookup_base v = lookup_base s" "cache_coherent K v"
          using W [OF u lk(3)] by blast
        moreover have "nodes_cpus K s al bmp (insert i I) = nodes_cpus K s al bmp I"
          using False by (simp add: nodes_cpus_insert)
        ultimately show ?thesis
          using isset w al_i al [OF t(1)] lk(1) skip [OF _ _ t(5,6)] by (simp add: run_mask_step_def st)
      qed
    qed
  qed
qed

lemma run_mask_loop:
  assumes "numa_wf s" "malloc_succeeds K" "\<not> numa_exit_on_warn s"
    and "\<And>t. lookup_base t = lookup_base s \<Longrightarrow> allowed t = Some al"
    and "n = nat (cpumask_sz s)" and "run_inv K s al bmp I st"
  shows "\<exists>st'. foldM (run_mask_step K allowed bmp n) xs st = Some st' \<and> run_inv K s al bmp (set xs \<union> I) st'"
  using assms(6)
proof (induction xs arbitrary: I st)
  case (Cons x xs)
  obtain st1 where "run_mask_step K allowed bmp n x st = Some st1" "run_inv K s al bmp (insert x I) st1"
    using run_mask_step_inv [OF assms(1-3) _ assms(5) Cons.prems, where allowed = allowed and i = x] assms(4) by blast
  with Cons.IH [of "insert x I" st1] show ?case by auto
qed simp

text \<open>The mask that \<open>numa_run_on_node_mask_v2\<close> and \<open>_all\<close> pass to the kernel.\<close>

lemma run_on_mask_affinity:
  assumes wf: "numa_wf s" and K: "malloc_succeeds K" and ex: "\<not> numa_exit_on_warn s"
    and co: "cache_coherent K s"
    and al: "\<And>t. lookup_base t = lookup_base s \<Longrightarrow> allowed t = Some al"
  shows "\<exists>cpus t. lookup_base t = lookup_base s \<and> cache_coherent K t \<and> bm_inv cpus \<and>
    int (bm_size cpus) = cpumask_sz s \<and>
    (\<forall>j. wbit (maskp cpus) j \<longleftrightarrow> j \<in> nodes_cpus K s al bmp {..<bm_size bmp}) \<and>
    run_on_mask K allowed bmp s = do {
      let (err, t) = numa_sched_setaffinity_v2 K 0 cpus t;
      t \<leftarrow> (if err < 0 then numa_error ''numa_sched_setaffinity_v2_int() failed'' t else Some t);
      Some (err, t)
    }"
proof -
  have sz: "0 < cpumask_sz s" "cpumask_sz s < 2 ^ 31" using wf by (simp_all add: numa_wf_def)
  define n where "n = nat (cpumask_sz s)"
  have alloc: "numa_allocate_cpumask K s = Some (Some (new_bitmask n), s)"
    using allocate_cpumask_run [OF K sz] by (simp add: n_def)
  have "\<not> wbit (maskp (new_bitmask n)) j" for j by (simp add: new_bitmask_def)
  then have "run_inv K s al bmp {} ((new_bitmask n, new_bitmask n), s)"
    using co sz by (simp add: run_inv_def n_def nodes_cpus_def)
  from run_mask_loop [where allowed = allowed and xs = "[0..<bm_size bmp]", OF wf K ex al n_def this]
  obtain cpus nc t where run: "foldM (run_mask_step K allowed bmp n) [0..<bm_size bmp]
      ((new_bitmask n, new_bitmask n), s) = Some ((cpus, nc), t)"
    and inv: "run_inv K s al bmp {..<bm_size bmp} ((cpus, nc), t)"
    by (auto simp: atLeast0LessThan)
  have "run_on_mask K allowed bmp s = do {
      let (err, t) = numa_sched_setaffinity_v2 K 0 cpus t;
      t \<leftarrow> (if err < 0 then numa_error ''numa_sched_setaffinity_v2_int() failed'' t else Some t);
      Some (err, t)
    }"
    by (simp add: run_on_mask_def alloc run)
  with inv show ?thesis unfolding run_inv_def prod.case by blast
qed

end
