(* ===== verification/PolicyFacts.thy ===== *)
theory PolicyFacts
  imports Policy
begin

unbundle bit_operations_syntax

text \<open>
  What the policy functions achieve on a kernel that keeps policies as documented: reading a policy back
  after setting it, the probe for MPOL_PREFERRED_MANY, failed bindings, and the loop that touches the
  pages of an area.
\<close>

section \<open>The kernel side\<close>

text \<open>What the manual pages \<open>set_mempolicy(2)\<close> and \<open>get_mempolicy(2)\<close> and the kernel's description of memory policies
  promise, as far as the library relies on it.

  The kernel uses the bits of a mask \<open>up to maxnode\<close>; the manual leaves open whether the last one counts (Linux leaves
  it out), so \<open>u\<close> may be either reading.  Of these it takes the nodes that the cpuset of the task allows and that have
  memory, the set \<open>allowed\<close>; \<open>N\<close> is the number of node IDs that the system supports.

  \<open>get_mempolicy\<close> returns the mode and the nodes to a caller whose mask has room for \<open>N\<close> nodes, and is not required to
  answer to a smaller one.  What it returns can be used to restore the policy, so the mode has its flag, and for
  the modes that take no nodes the mask is empty.  A preferred policy has one node, one of the given nodes; without
  a node it is the same as local allocation and may be reported as either.\<close>

definition reads :: "'w os \<Rightarrow> nat \<Rightarrow> 'w \<Rightarrow> int \<Rightarrow> nat set \<Rightarrow> bool" where
  "reads K N w mode S \<longleftrightarrow>
     (\<forall>k m. N \<le> m \<longrightarrow> m \<le> 64 * k \<longrightarrow>
        (\<exists>ws. os_get_mempolicy K w (replicate k 0) m 0 0 = Inr (mode, ws) \<and> length ws = k \<and> (\<forall>i. wbit ws i \<longleftrightarrow> i \<in> S)))"

definition mask_modes :: "int set" where
  "mask_modes = {MPOL_BIND, MPOL_BIND OR MPOL_F_NUMA_BALANCING, MPOL_INTERLEAVE, MPOL_PREFERRED_MANY, MPOL_WEIGHTED_INTERLEAVE}"

text \<open>A policy set with \<open>mode\<close> and the nodes \<open>E\<close> is read as \<open>mode'\<close> and \<open>S\<close>.\<close>

definition read_as :: "int \<Rightarrow> nat set \<Rightarrow> int \<Rightarrow> nat set \<Rightarrow> bool" where
  "read_as mode E mode' S \<longleftrightarrow>
     (if mode = MPOL_DEFAULT then mode' = MPOL_DEFAULT \<and> S = {}
      else if mode = MPOL_LOCAL \<or> mode = MPOL_PREFERRED \<and> E = {} then (mode' = MPOL_LOCAL \<or> mode' = MPOL_PREFERRED) \<and> S = {}
      else if mode = MPOL_PREFERRED then mode' = MPOL_PREFERRED \<and> (\<exists>i \<in> E. S = {i})
      else mode \<in> mask_modes \<longrightarrow> mode' = mode \<and> S = E)"

definition policy_kernel :: "'w os \<Rightarrow> (nat \<Rightarrow> nat) \<Rightarrow> ('w \<Rightarrow> nat set) \<Rightarrow> nat \<Rightarrow> bool" where
  "policy_kernel K u allowed N \<longleftrightarrow>
     (\<forall>n. n - 1 \<le> u n \<and> u n \<le> n) \<and> (\<forall>w. allowed w \<subseteq> {..<N}) \<and>
     (\<forall>w w' mode ws n. os_set_mempolicy K w mode ws n = Inr w' \<longrightarrow>
        (\<exists>mode' S. read_as mode {i. wbit ws i \<and> i < u n \<and> i \<in> allowed w} mode' S \<and> reads K N w' mode' S))"

lemma policy_kernel_set:
  assumes "policy_kernel K u allowed N" "os_set_mempolicy K w mode ws n = Inr w'"
  obtains mode' S where "read_as mode {i. wbit ws i \<and> i < u n \<and> i \<in> allowed w} mode' S" "reads K N w' mode' S"
  using assms unfolding policy_kernel_def by blast

lemma policy_kernel_bounds:
  assumes "policy_kernel K u allowed N"
  shows "n - 1 \<le> u n" "u n \<le> n" "allowed w \<subseteq> {..<N}"
  using assms unfolding policy_kernel_def by blast+

lemma read_as_mask: "mode \<in> mask_modes \<Longrightarrow> read_as mode E mode' S \<longleftrightarrow> mode' = mode \<and> S = E"
  by (auto simp: read_as_def mask_modes_def mpol_defs MPOL_F_NUMA_BALANCING_def)

text \<open>An accepted call of \<open>setpol\<close>: no error is reported.\<close>

lemma setpol_accepted:
  assumes "setpol K p b s = Some t" "err_out t = err_out s"
  shows "\<exists>w. os_set_mempolicy K (world s) p (maskp b) (bm_size b) = Inr w \<and> t = s\<lparr>world := w\<rparr>"
  using assms
  by (auto simp: setpol_def set_mempolicy_def numa_error_unfold split: sum.splits if_splits)

lemma getpol_ok:
  assumes "os_get_mempolicy K (world s) (maskp b) (bm_size b) 0 0 = Inr (p, ws)"
  shows "getpol K old b s = Some ((p, b\<lparr>maskp := ws\<rparr>), s)"
  using assms by (simp add: getpol_def get_mempolicy_def)

text \<open>A fresh mask of the size of the node masks, filled by the kernel.\<close>

lemma new_mask_words: "length (maskp (new_bitmask n)) = longsperbits n" "n \<le> 64 * length (maskp (new_bitmask n))"
  using size_le_words [of n] by (simp_all add: new_bitmask_def)

lemma filled_bits:
  assumes "length ws = longsperbits n" "\<forall>i. wbit ws i \<longleftrightarrow> i \<in> A" "\<forall>i \<in> A. i < n"
  shows "bm_inv \<lparr>bm_size = n, maskp = ws\<rparr>" "bm_bits \<lparr>bm_size = n, maskp = ws\<rparr> = A"
proof -
  show inv: "bm_inv \<lparr>bm_size = n, maskp = ws\<rparr>" using assms(1) by (simp add: bm_inv_def)
  show "bm_bits \<lparr>bm_size = n, maskp = ws\<rparr> = A"
    using assms(2,3) by (auto simp: isbitset_wbit [OF inv])
qed

lemma clearall_new: "numa_bitmask_clearall (new_bitmask n) = new_bitmask n"
proof -
  have "setbit (new_bitmask n) i 0 = new_bitmask n" for i
  proof -
    have "(replicate m (0 :: ulong))[k := 0] = replicate m 0" for m k
      by (cases "k < m") (metis list_update_id nth_replicate, simp add: list_update_beyond)
    then show ?thesis using word_index [of i n] by (simp add: setbit_def new_bitmask_def)
  qed
  then have "fold (\<lambda>i b. setbit b i 0) xs (new_bitmask n) = new_bitmask n" for xs
    by (induction xs) simp_all
  then show ?thesis by (simp add: numa_bitmask_clearall_def)
qed

section \<open>Round trips\<close>

text \<open>Reading the policy into a new mask of the library's size.\<close>

lemma reads_getpol:
  assumes "reads K N (world s) mode S" "N \<le> n"
  obtains b where "\<forall>old. getpol K old (new_bitmask n) s = Some ((mode, b), s)" "bm_inv b" "bm_size b = n"
    "bm_bits b = S \<inter> {..<n}"
proof -
  have m: "maskp (new_bitmask n) = replicate (longsperbits n) 0" by (simp add: new_bitmask_def)
  obtain ws where ws: "os_get_mempolicy K (world s) (maskp (new_bitmask n)) n 0 0 = Inr (mode, ws)"
    "length ws = longsperbits n" "\<forall>i. wbit ws i \<longleftrightarrow> i \<in> S"
    using assms size_le_words [of n] unfolding reads_def m by blast
  let ?b = "\<lparr>bm_size = n, maskp = ws\<rparr>"
  have "(new_bitmask n)\<lparr>maskp := ws\<rparr> = ?b" by (simp add: new_bitmask_def)
  then have "\<forall>old. getpol K old (new_bitmask n) s = Some ((mode, ?b), s)"
    using getpol_ok [of K s "new_bitmask n" mode ws] ws(1) by simp
  moreover have inv: "bm_inv ?b" using ws(2) by (simp add: bm_inv_def)
  moreover have "i \<in> bm_bits ?b \<longleftrightarrow> i \<in> S \<inter> {..<n}" for i
    unfolding mem_bm_bits isbitset_wbit [OF inv] using ws(3) by simp blast
  then have "bm_bits ?b = S \<inter> {..<n}" by blast
  ultimately show thesis using that by simp
qed

text \<open>What an accepted call has put in force.\<close>

lemma setpol_reads:
  assumes K: "policy_kernel K u allowed N" and b: "bm_inv b" and set: "setpol K p b s = Some t" "err_out t = err_out s"
  obtains w mode S where "t = s\<lparr>world := w\<rparr>" "reads K N w mode S"
    "read_as p {i \<in> bm_bits b. i < u (bm_size b) \<and> i \<in> allowed (world s)} mode S"
proof -
  obtain w where w: "os_set_mempolicy K (world s) p (maskp b) (bm_size b) = Inr w" "t = s\<lparr>world := w\<rparr>"
    using setpol_accepted [OF set] by blast
  have E: "{i. wbit (maskp b) i \<and> i < u (bm_size b) \<and> i \<in> allowed (world s)} =
      {i \<in> bm_bits b. i < u (bm_size b) \<and> i \<in> allowed (world s)}"
    using policy_kernel_bounds(2) [OF K, of "bm_size b"] unfolding mem_bm_bits isbitset_wbit [OF b] by (blast intro: less_le_trans)
  obtain mode S where "read_as p {i. wbit (maskp b) i \<and> i < u (bm_size b) \<and> i \<in> allowed (world s)} mode S" "reads K N w mode S"
    by (rule policy_kernel_set [OF K w(1)])
  then show thesis unfolding E using that [OF w(2)] by blast
qed

lemma policy_read_back:
  assumes K: "policy_kernel K u allowed N" "malloc_succeeds K" and wf: "numa_wf s" "int N \<le> nodemask_sz s"
    and b: "bm_inv b" "int (bm_size b) = nodemask_sz s"
    and set: "setpol K p b s = Some t" "err_out t = err_out s" and p: "p \<in> mask_modes"
  shows "\<exists>b'. numa_allocate_nodemask K t = Some (Some (new_bitmask (bm_size b)), t) \<and>
    (\<forall>old. getpol K old (new_bitmask (bm_size b)) t = Some ((p, b'), t)) \<and> bm_inv b' \<and> bm_size b' = bm_size b \<and>
    bm_bits b' = {i \<in> bm_bits b. i < u (bm_size b) \<and> i \<in> allowed (world s)}"
proof -
  let ?n = "bm_size b" and ?E = "{i \<in> bm_bits b. i < u (bm_size b) \<and> i \<in> allowed (world s)}"
  have sz: "0 < nodemask_sz s" "nodemask_sz s < 2 ^ 31" "nat (nodemask_sz s) = ?n" "N \<le> ?n"
    using wf b(2) by (auto simp: numa_wf_def)
  obtain w mode S where t: "t = s\<lparr>world := w\<rparr>" and r: "reads K N w mode S" "read_as p ?E mode S"
    using setpol_reads [OF K(1) b(1) set] .
  then have r: "reads K N (world t) p ?E" using p by (simp add: read_as_mask)
  obtain b' where b': "\<forall>old. getpol K old (new_bitmask ?n) t = Some ((p, b'), t)" "bm_inv b'" "bm_size b' = ?n"
    "bm_bits b' = ?E \<inter> {..<?n}"
    using reads_getpol [OF r sz(4)] .
  have "?E \<inter> {..<?n} = ?E" using bm_bits_below [of b] by blast
  moreover have "numa_allocate_nodemask K t = Some (Some (new_bitmask ?n), t)"
    using allocate_nodemask_run [OF K(2), of t] sz t by simp
  ultimately show ?thesis using b' by simp
qed

lemma membind_read_back:
  assumes "policy_kernel K u allowed N" "malloc_succeeds K" "numa_wf s" "int N \<le> nodemask_sz s"
    and "bm_inv b" "int (bm_size b) = nodemask_sz s"
    and "numa_set_membind_v2 K b s = Some t" "err_out t = err_out s"
  shows "\<exists>b'. numa_get_membind_v2 K t = Some (Some b', t) \<and>
    bm_bits b' = {i \<in> bm_bits b. i < u (bm_size b) \<and> i \<in> allowed (world s)}"
proof -
  have "setpol K MPOL_BIND b s = Some t" using assms(7) by (simp add: numa_set_membind_v2_def)
  from policy_read_back [OF assms(1-6) this assms(8)]
  obtain b' where "numa_allocate_nodemask K t = Some (Some (new_bitmask (bm_size b)), t)"
    "\<forall>old. getpol K old (new_bitmask (bm_size b)) t = Some ((MPOL_BIND, b'), t)"
    "bm_bits b' = {i \<in> bm_bits b. i < u (bm_size b) \<and> i \<in> allowed (world s)}"
    by (auto simp: mask_modes_def)
  then show ?thesis by (auto simp: numa_get_membind_v2_def)
qed

lemma interleave_read_back:
  assumes K: "policy_kernel K u allowed N" "malloc_succeeds K" and wf: "numa_wf s" "int N \<le> nodemask_sz s"
    and nn: "\<And>b. numa_no_nodes_ptr s = Some b \<Longrightarrow> bm_bits b = {}"
    and b: "bm_inv b" "int (bm_size b) = nodemask_sz s"
    and set: "numa_set_interleave_mask_v2 K b s = Some t" "err_out t = err_out s"
  shows "\<exists>b'. numa_get_interleave_mask_v2 K t = Some (Some b', t) \<and>
    bm_bits b' = {i \<in> bm_bits b. i < u (bm_size b) \<and> i \<in> allowed (world s)}"
proof -
  obtain no where no: "numa_no_nodes_ptr s = Some no" "bm_inv no" "bm_size no = bm_size b" "bm_bits no = {}"
    using wf nn b(2) by (auto simp: numa_wf_def elim!: mask_okE)
  have sz: "0 < nodemask_sz s" "nodemask_sz s < 2 ^ 31" "nat (nodemask_sz s) = bm_size b" "N \<le> bm_size b"
    using wf b(2) by (auto simp: numa_wf_def)
  show ?thesis
  proof (cases "bm_bits b = {}")
    case True
    then have "setpol K MPOL_DEFAULT b s = Some t"
      using set(1) no by (simp add: numa_set_interleave_mask_v2_def equal_bits)
    then obtain w where t: "t = s\<lparr>world := w\<rparr>" and r: "reads K N w MPOL_DEFAULT {}"
      using setpol_reads [OF K(1) b(1) _ set(2), of MPOL_DEFAULT] by (auto simp: read_as_def)
    then have r: "reads K N (world t) MPOL_DEFAULT {}" by simp
    obtain b' where b': "\<forall>old. getpol K old (new_bitmask (bm_size b)) t = Some ((MPOL_DEFAULT, b'), t)" "bm_inv b'"
      "bm_size b' = bm_size b" "bm_bits b' = {} \<inter> {..<bm_size b}"
      by (rule reads_getpol [OF r sz(4)])
    have "copy_bitmask_to_bitmask no b' = no" using b'(2,3) no(2,3) sz by (intro copy_same) auto
    moreover have "numa_allocate_nodemask K t = Some (Some (new_bitmask (bm_size b)), t)"
      using allocate_nodemask_run [OF K(2), of t] sz t by simp
    ultimately show ?thesis
      using b'(1) no(1,4) t True by (simp add: numa_get_interleave_mask_v2_def mpol_defs)
  next
    case False
    then have "setpol K MPOL_INTERLEAVE b s = Some t"
      using set(1) no by (simp add: numa_set_interleave_mask_v2_def equal_bits)
    from policy_read_back [OF K wf b this set(2)]
    obtain b' where "numa_allocate_nodemask K t = Some (Some (new_bitmask (bm_size b)), t)"
      "\<forall>old. getpol K old (new_bitmask (bm_size b)) t = Some ((MPOL_INTERLEAVE, b'), t)"
      "bm_bits b' = {i \<in> bm_bits b. i < u (bm_size b) \<and> i \<in> allowed (world s)}"
      by (auto simp: mask_modes_def)
    then show ?thesis by (auto simp: numa_get_interleave_mask_v2_def)
  qed
qed

text \<open>The preferred node.\<close>

lemma set_preferred_run:
  assumes "malloc_succeeds K" "numa_wf s" "n = nat (nodemask_sz s)"
  shows "numa_set_preferred K node s =
    (if c_uint node < n then setpol K MPOL_PREFERRED (numa_bitmask_setbit (new_bitmask n) (c_uint node)) s
     else setpol K MPOL_LOCAL (numa_bitmask_setbit (new_bitmask n) (c_uint node)) s)"
proof -
  have sz: "0 < nodemask_sz s" "nodemask_sz s < 2 ^ 31" using assms(2) by (simp_all add: numa_wf_def)
  have "numa_bitmask_weight (numa_bitmask_setbit (new_bitmask n) (c_uint node)) = (if c_uint node < n then 1 else 0)"
    by (simp add: weight_bits setbit_bits(1))
  then show ?thesis
    using allocate_nodemask_run [OF assms(1) sz] assms(3)
    by (simp add: numa_set_preferred_def set_preferred_mask_def)
qed

lemma preferred_read_back:
  assumes K: "policy_kernel K u allowed N" "malloc_succeeds K" and wf: "numa_wf s" "int N \<le> nodemask_sz s"
    and node: "0 \<le> node" "node + 1 < nodemask_sz s" "nat node \<in> allowed (world s)"
    and set: "numa_set_preferred K node s = Some t" "err_out t = err_out s"
  shows "numa_preferred K t = Some (node, t)"
proof -
  define n where "n = nat (nodemask_sz s)"
  have sz: "0 < nodemask_sz s" "nodemask_sz s < 2 ^ 31" "N \<le> n" using wf by (simp_all add: numa_wf_def n_def)
  have cu: "c_uint node = nat node" using node sz by (simp add: c_uint_id)
  define b where "b = numa_bitmask_setbit (new_bitmask n) (nat node)"
  have lt: "nat node + 1 < n" using node by (auto simp: n_def)
  then have b: "bm_inv b" "bm_size b = n" "bm_bits b = {nat node}"
    using setbit_bits [of "new_bitmask n" "nat node"] by (auto simp: b_def)
  have in_u: "nat node < u n" using policy_kernel_bounds(1) [OF K(1), of n] lt by linarith
  have "setpol K MPOL_PREFERRED b s = Some t"
    using set(1) lt by (simp add: set_preferred_run [OF K(2) wf(1) n_def] cu b_def)
  then obtain w mode S where t: "t = s\<lparr>world := w\<rparr>" and r: "reads K N w mode S"
    "read_as MPOL_PREFERRED {i \<in> bm_bits b. i < u (bm_size b) \<and> i \<in> allowed (world s)} mode S"
    by (rule setpol_reads [OF K(1) b(1) _ set(2)])
  have "{i \<in> bm_bits b. i < u (bm_size b) \<and> i \<in> allowed (world s)} = {nat node}"
    unfolding b(2,3) using in_u node(3) by auto
  from r(2) [unfolded this] have "mode = MPOL_PREFERRED" "S = {nat node}" by (auto simp: read_as_def mpol_defs)
  then have r: "reads K N (world t) MPOL_PREFERRED {nat node}" using r(1) t by simp
  obtain b' where b': "\<forall>old. getpol K old (new_bitmask n) t = Some ((MPOL_PREFERRED, b'), t)" "bm_inv b'" "bm_size b' = n"
    "bm_bits b' = {nat node} \<inter> {..<n}"
    by (rule reads_getpol [OF r sz(3)])
  have bits: "bm_bits b' = {nat node}" unfolding b'(4) using lt by auto
  have "numa_allocate_nodemask K t = Some (Some (new_bitmask n), t)"
    using allocate_nodemask_run [OF K(2), of t] sz t by (simp add: n_def)
  then show ?thesis
    using b'(1) bits node(1) clearall_new [of n]
    by (simp add: numa_preferred_def numa_preferred_err_def numa_preferred_mask_def weight_bits find_first_bits)
qed

section \<open>The version 1 masks\<close>

text \<open>A node mask handed to the kernel with its size in bytes loses the nodes from 15 on.\<close>

lemma allocate_v1_run:
  assumes "malloc_succeeds K"
  shows "allocate_nodemask_v1 K s = Some (Some (new_bitmask 128), s)"
proof -
  have "c_uint (numa_max_possible_node_v1 + 1) = 128"
    by (simp add: numa_max_possible_node_v1_def sizeof_nodemask_bits NUMA_NUM_NODES_def c_uint_def
        sizeof_nodemask_def)
  then show ?thesis using assms by (simp add: allocate_nodemask_v1_def bitmask_alloc_run)
qed

lemma membind_v1_read_back:
  assumes K: "policy_kernel K u allowed N" "malloc_succeeds K" "N \<le> 128" and nm: "nm_inv nm"
    and set: "numa_set_membind_v1 K nm s = Some t" "err_out t = err_out s"
  shows "\<exists>nm'. numa_get_membind_v1 K t = Some (nm', t) \<and>
    (\<forall>i. nodemask_isset_compat nm' i \<longleftrightarrow> nodemask_isset_compat nm i \<and> i < u 16 \<and> i \<in> allowed (world s))"
proof -
  let ?b = "\<lparr>bm_size = sizeof_nodemask, maskp = nm\<rparr>"
  have "setpol K MPOL_BIND ?b s = Some t" using set(1) by (simp add: numa_set_membind_v1_def)
  from setpol_accepted [OF this set(2)]
  obtain w where w: "os_set_mempolicy K (world s) MPOL_BIND nm 16 = Inr w" "t = s\<lparr>world := w\<rparr>"
    by (auto simp: sizeof_nodemask_def NUMA_NUM_NODES_def)
  let ?E = "{i. wbit nm i \<and> i < u 16 \<and> i \<in> allowed (world s)}"
  have r: "reads K N (world t) MPOL_BIND ?E"
    using policy_kernel_set [OF K(1) w(1)] w(2) by (auto simp: read_as_mask mask_modes_def)
  obtain b' where b': "\<forall>old. getpol K old (new_bitmask 128) t = Some ((MPOL_BIND, b'), t)" "bm_inv b'" "bm_size b' = 128"
    "bm_bits b' = ?E \<inter> {..<128}"
    by (rule reads_getpol [OF r K(3)])
  have "numa_get_membind_v1 K t = Some (copy_bitmask_to_nodemask b', t)"
    unfolding numa_get_membind_v1_def allocate_v1_run [OF K(2), of t] using b'(1) by (simp del: mem_bm_bits)
  moreover have "nodemask_isset_compat (copy_bitmask_to_nodemask b') i \<longleftrightarrow>
      nodemask_isset_compat nm i \<and> i < u 16 \<and> i \<in> allowed (world s)" for i
  proof -
    have "i < NUMA_NUM_NODES \<and> wbit nm i \<longleftrightarrow> nodemask_isset_compat nm i"
      using nm_index [OF nm, of i] by (auto simp: nodemask_isset_bit wbit_def)
    moreover have "numa_bitmask_isbitset b' i \<longleftrightarrow> i \<in> ?E \<inter> {..<128}" unfolding b'(4) [symmetric] by simp
    ultimately show ?thesis unfolding copy_to_nodemask(2) by (simp add: NUMA_NUM_NODES_def) blast
  qed
  ultimately show ?thesis by blast
qed

lemma membind_v1_clobbers:
  assumes "malloc_succeeds K" and "os_get_mempolicy K (world s) (maskp (new_bitmask 128)) 128 0 0 = Inr (p, ws)"
    and "p \<noteq> MPOL_BIND" "length ws = 2"
  shows "\<exists>nm. numa_get_membind_v1 K s = Some (nm, s\<lparr>numa_all_nodes := nm\<rparr>) \<and>
    (\<forall>i. nodemask_isset_compat nm i \<longleftrightarrow> i < NUMA_NUM_NODES \<and> wbit ws i)"
proof -
  let ?b = "(new_bitmask 128)\<lparr>maskp := ws\<rparr>"
  have "getpol K 0 (new_bitmask 128) s = Some ((p, ?b), s)"
    using getpol_ok [of K s "new_bitmask 128" p ws 0] assms(2) by simp
  then have "numa_get_membind_v1 K s =
      Some (copy_bitmask_to_nodemask ?b, s\<lparr>numa_all_nodes := copy_bitmask_to_nodemask ?b\<rparr>)"
    using allocate_v1_run [OF assms(1), of s] assms(3) by (simp add: numa_get_membind_v1_def)
  moreover have "bm_inv ?b" using assms(4) by (simp add: bm_inv_def longsperbits_def)
  then have "nodemask_isset_compat (copy_bitmask_to_nodemask ?b) i \<longleftrightarrow> i < NUMA_NUM_NODES \<and> wbit ws i" for i
    by (auto simp: copy_to_nodemask(2) isbitset_wbit NUMA_NUM_NODES_def)
  ultimately show ?thesis by blast
qed

section \<open>The probe for MPOL_PREFERRED_MANY\<close>

lemma mems_allowed_errno:
  assumes "numa_get_mems_allowed K s = Some (m, t)"
  shows "has_preferred_many t = has_preferred_many s" "world t = world s" "bind_policy t = bind_policy s"
  using assms
  by (auto simp: numa_get_mems_allowed_def numa_allocate_nodemask_def numa_bitmask_alloc_def
      numa_error_unfold get_mempolicy_def bind_Some_iff Let_def split: if_splits sum.splits option.splits)

text \<open>Whatever the kernel answers, the probe leaves \<open>errno\<close> alone and stores an answer.\<close>

lemma set_preferred_many_errno:
  assumes "set_preferred_many K s = Some t"
  shows "errno t = errno s" "has_preferred_many s < 0 \<Longrightarrow> has_preferred_many t = 0 \<or> has_preferred_many t = 1"
    "0 \<le> has_preferred_many s \<Longrightarrow> t = s"
proof -
  show "0 \<le> has_preferred_many s \<Longrightarrow> t = s" using assms by (simp add: set_preferred_many_def)
  have A: "has_preferred_many s2 = has_preferred_many s1"
    if "numa_allocate_nodemask K s1 = Some (b, s2)" for s1 s2 and b
    using that by (auto simp: numa_allocate_nodemask_def numa_bitmask_alloc_def numa_error_unfold
        bind_Some_iff split: if_splits)
  show "errno t = errno s"
    using assms by (auto simp: set_preferred_many_def bind_Some_iff Let_def split: if_splits)
  assume neg: "has_preferred_many s < 0"
  obtain b s1 tmp s2 where run: "numa_allocate_nodemask K (s\<lparr>has_preferred_many := 0\<rparr>) = Some (b, s1)"
    "numa_get_mems_allowed K s1 = Some (tmp, s2)"
    using assms neg by (auto simp: set_preferred_many_def bind_Some_iff Let_def)
  have "has_preferred_many s2 = 0" using A [OF run(1)] mems_allowed_errno(1) [OF run(2)] by simp
  then show "has_preferred_many t = 0 \<or> has_preferred_many t = 1"
    using assms neg run
    by (auto simp: set_preferred_many_def get_mempolicy_def set_mempolicy_def Let_def
        split: option.splits sum.splits if_splits)
qed

section \<open>Failed bindings\<close>

lemma dombind_or_free_cases:
  "dombind_or_free K mem sz p b s =
    (case os_mbind K (world s) mem sz p (map_option maskp b) (case b of None \<Rightarrow> 0 | Some b \<Rightarrow> bm_size b) (mbind_flags s) of
       Inr w \<Rightarrow> Some (Some mem, s\<lparr>world := w\<rparr>)
     | Inl e \<Rightarrow>
         if numa_exit_on_error s then None
         else let t = s\<lparr>errno := e, err_out := ''mbind'' # err_out s\<rparr> in
           if numa_fail_alloc_on_error s then Some (None, t\<lparr>world := os_munmap K (world s) mem sz\<rparr>)
           else Some (Some mem, t))"
  by (simp add: dombind_or_free_def dombind_def mbind_def numa_error_unfold Let_def split: sum.splits)

section \<open>Touching pages\<close>

text \<open>The addresses the loop touches: one per page, from the start of the area.\<close>

definition touched :: "nat \<Rightarrow> nat \<Rightarrow> nat \<Rightarrow> nat list" where
  "touched pg mem k = map (\<lambda>j. (mem + j * pg) mod 2 ^ 64) [0..<k]"

lemma police_loop_run:
  assumes "0 < pg" "sz + pg \<le> 2 ^ 64" "i < 2 ^ 64" "p < 2 ^ 64" "k = (sz - i + pg - 1) div pg"
  shows "police_loop K pg sz i p w = Some (fold (\<lambda>a w. os_touch K w a) (touched pg p k) w)"
  using assms(3-5)
proof (induction k arbitrary: i p w)
  case 0
  then have "(sz - i + pg - 1) div pg = 0" by simp
  then have "sz - i + pg - 1 < pg" using assms(1) by (simp add: div_eq_0_iff)
  then have "\<not> i < sz" by linarith
  then show ?case by (simp add: police_loop.simps [of K pg sz i] touched_def)
next
  case (Suc k)
  have i: "i < sz"
  proof (rule ccontr)
    assume "\<not> i < sz"
    then have "(sz - i + pg - 1) div pg = 0" using assms(1) by simp
    then show False using Suc.prems(3) by simp
  qed
  have k: "k = (sz - (i + pg) + pg - 1) div pg"
  proof (cases "i + pg \<le> sz")
    case True
    define d where "d = sz - (i + pg) + pg - 1"
    have d: "sz - i + pg - 1 = d + pg" using True assms(1) unfolding d_def by linarith
    have "(d + pg) div pg = d div pg + 1" using assms(1) by (simp add: div_add_self2)
    then have "Suc k = d div pg + 1" using Suc.prems(3) unfolding d by simp
    then show ?thesis unfolding d_def [symmetric] by simp
  next
    case False
    then have "sz - i + pg - 1 < 2 * pg" using i by linarith
    then have "(sz - i + pg - 1) div pg < 2" by (rule less_mult_imp_div_less)
    then have "k = 0" using Suc.prems(3) by simp
    moreover have "sz - (i + pg) = 0" using False by simp
    ultimately show ?thesis using assms(1) by simp
  qed
  have bound: "i + pg < 2 ^ 64" using i assms(2) by linarith
  let ?p = "(p + pg) mod 2 ^ 64"
  have "police_loop K pg sz i p w = police_loop K pg sz (i + pg) ?p (os_touch K w p)"
    using i bound by (simp add: police_loop.simps [of K pg sz i])
  also have "\<dots> = Some (fold (\<lambda>a w. os_touch K w a) (touched pg ?p k) (os_touch K w p))"
    using Suc.IH [of "i + pg" ?p] bound k by simp
  also have "touched pg p (Suc k) = p # touched pg ?p k"
  proof -
    have "(?p + j * pg) mod 2 ^ 64 = (p + Suc j * pg) mod 2 ^ 64" for j
      by (simp only: mod_add_left_eq mult_Suc add.assoc)
    then have "touched pg ?p k = map (\<lambda>j. (p + Suc j * pg) mod 2 ^ 64) [0..<k]" by (simp add: touched_def)
    moreover have "touched pg p (Suc k) = (p mod 2 ^ 64) # map (\<lambda>j. (p + Suc j * pg) mod 2 ^ 64) [0..<k]"
      by (simp only: touched_def upt_conv_Cons zero_less_Suc list.map map_Suc_upt [symmetric] map_map o_def) simp
    ultimately show ?thesis using Suc.prems(2) by simp
  qed
  then have "fold (\<lambda>a w. os_touch K w a) (touched pg ?p k) (os_touch K w p) =
      fold (\<lambda>a w. os_touch K w a) (touched pg p (Suc k)) w" by simp
  finally show ?case .
qed

lemma police_memory_run:
  assumes "0 < pagesize s" "pagesize s < 2 ^ 31" "int sz + pagesize s \<le> 2 ^ 64" "mem < 2 ^ 64"
  shows "numa_police_memory K mem sz s = Some (s\<lparr>world := fold (\<lambda>a w. os_touch K w a)
    (touched (nat (pagesize s)) mem ((sz + nat (pagesize s) - 1) div nat (pagesize s))) (world s)\<rparr>)"
proof -
  have pg: "c_ulong (pagesize s) = nat (pagesize s)" "0 < nat (pagesize s)" "sz + nat (pagesize s) \<le> 2 ^ 64"
    using assms by (simp_all add: c_ulong_id nat_le_iff le_nat_iff zless_nat_eq_int_zless)
  have "numa_pagesize K s = (pagesize s, s)" using assms(1) by (simp add: numa_pagesize_def)
  then show ?thesis
    using police_loop_run [OF pg(2,3), of 0 mem _ K "world s"] assms(4) pg(1)
    by (simp add: numa_police_memory_def)
qed

text \<open>Every page of the area is touched.\<close>

lemma touched_pages:
  assumes "0 < pg" "a < sz"
  shows "(mem + a div pg * pg) mod 2 ^ 64 \<in> set (touched pg mem ((sz + pg - 1) div pg))"
proof -
  have "a div pg * pg \<le> a" by simp
  then have "a div pg * pg + pg \<le> sz + pg - 1" using assms by linarith
  then have "(a div pg + 1) * pg \<le> sz + pg - 1" by (simp add: algebra_simps)
  then have "a div pg + 1 \<le> (sz + pg - 1) div pg" using assms(1) by (simp add: less_eq_div_iff_mult_less_eq)
  then show ?thesis by (auto simp: touched_def)
qed

text \<open>The index wraps for an area that ends in the last page of the address space: the loop goes on for
  ever.\<close>

lemma police_loop_diverges:
  assumes "pg dvd 2 ^ 64" "2 ^ 64 < sz + pg" "pg dvd i" "i < 2 ^ 64"
  shows "police_loop K pg sz i p w = None"
proof (rule ccontr)
  assume "police_loop K pg sz i p w \<noteq> None"
  then obtain y where y: "police_loop K pg sz i p w = Some y" by auto
  let ?P = "\<lambda>K pg sz i p w (y :: 'a). \<not> (pg dvd 2 ^ 64 \<and> 2 ^ 64 < sz + pg \<and> pg dvd i \<and> i < (2 :: nat) ^ 64)"
  have "?P K pg sz i p w y"
  proof (rule police_loop.raw_induct [of ?P, OF _ y])
    fix f :: "'a os \<Rightarrow> nat \<Rightarrow> nat \<Rightarrow> nat \<Rightarrow> nat \<Rightarrow> 'a \<Rightarrow> 'a option" and K pg sz i p w y
    assume IH: "\<And>K pg sz i p w y. f K pg sz i p w = Some y \<Longrightarrow> ?P K pg sz i p w y"
      and body: "(if i < sz then f K pg sz ((i + pg) mod 2 ^ 64) ((p + pg) mod 2 ^ 64) (os_touch K w p)
        else Some w) = Some y"
    show "?P K pg sz i p w y"
    proof
      assume a: "pg dvd 2 ^ 64 \<and> 2 ^ 64 < sz + pg \<and> pg dvd i \<and> i < 2 ^ 64"
      then have "pg dvd 2 ^ 64 - i" by (simp add: dvd_diff_nat)
      then have "pg \<le> 2 ^ 64 - i" using a by (intro dvd_imp_le) simp_all
      then have "i < sz" using a by linarith
      moreover have "pg dvd (i + pg) mod 2 ^ 64" using a by (simp add: dvd_mod)
      ultimately show False using IH [of K pg sz "(i + pg) mod 2 ^ 64"] body a by simp
    qed
  qed
  with assms show False by blast
qed

end
