(* ===== verification/Distance.thy ===== *)
theory Distance
  imports Setup
begin

text \<open>
  Node distances (\<open>distance.c\<close>).  The table is a flat array of \<open>maxnode * maxnode\<close> entries, filled row by row
  from the \<open>distance\<close> files of sysfs: the numbers of a line belong to the existing nodes in order, and the
  entries of missing nodes stay 0.  A store behind the end of the array is undefined behaviour and gives
  \<open>None\<close>, and so does a search for files that does not end.
\<close>

section \<open>Reading a line\<close>

text \<open>\<open>while (j <= maxnode && !numa_bitmask_isbitset(numa_nodes_ptr, j)) j++\<close>.\<close>

function skip_absent :: "bitmask \<Rightarrow> int \<Rightarrow> nat \<Rightarrow> nat" where
  "skip_absent nodes maxnode j =
     (if int j \<le> maxnode \<and> \<not> numa_bitmask_isbitset nodes j then skip_absent nodes maxnode (Suc j) else j)"
  by pat_completeness auto
termination by (relation "measure (\<lambda>(nodes, maxnode, j). nat (maxnode + 1) - j)") auto

declare skip_absent.simps [simp del]

text \<open>The loop of \<open>parse_numbers\<close>; the first argument counts its remaining iterations, \<open>row\<close> is the offset
  of the row in the table.\<close>

fun parse_numbers :: "nat \<Rightarrow> bitmask \<Rightarrow> int \<Rightarrow> nat \<Rightarrow> string \<Rightarrow> nat \<Rightarrow> int list \<Rightarrow> int list option" where
  "parse_numbers 0 nodes maxnode row s j table = Some table"
| "parse_numbers (Suc k) nodes maxnode row s j table =
     (let (d, end) = strtoul s 0;
          j = skip_absent nodes maxnode j
      in if end = s then Some table
         else if row + j < length table
         then parse_numbers k nodes maxnode row end (Suc j) (table[row + j := c_int (int d)])
         else None)"

section \<open>Reading the table\<close>

definition distance_file :: "nat \<Rightarrow> string" where
  "distance_file nd = ''/sys/devices/system/node/node'' @ dec_nat nd @ ''/distance''"

definition distance_line :: "string \<Rightarrow> string" where
  "distance_line t = (case file_lines t of [] \<Rightarrow> [] | l # _ \<Rightarrow> l)"

partial_function (option) distance_loop :: "'w os \<Rightarrow> nat \<Rightarrow> int \<Rightarrow> int list option \<Rightarrow> 'w numa \<Rightarrow>
    ((int \<times> int list option) \<times> 'w numa) option" where
  "distance_loop K nd err table s =
     (let maxnode = numa_max_node s + 1 in
      case os_file K (world s) (distance_file nd) of
        Inl e \<Rightarrow>
          (let s = s\<lparr>errno := e\<rparr>; err = (if e = ENOENT then 0 else err) in
           if err = 0 \<and> int nd < maxnode then distance_loop K (Suc nd) err table s
           else Some ((err, table), s))
      | Inr t \<Rightarrow>
          if distance_line t = [] then Some ((err, table), s)
          else
            let len = c_ulong (c_int (maxnode * maxnode)) in
            if table = None \<and> \<not> os_malloc_ok K (world s) (len * 4)
            then Some ((err, None), s\<lparr>errno := ENOMEM\<rparr>)
            else
              let tb = (case table of None \<Rightarrow> replicate len 0 | Some tb \<Rightarrow> tb) in
              Option.bind (numa_nodes_ptr s) (\<lambda>nodes.
              Option.bind (parse_numbers (nat maxnode) nodes (maxnode - 1) (nat (int nd * maxnode)) (distance_line t) 0 tb)
                (\<lambda>tb. distance_loop K (Suc nd) err (Some tb) s)))"

definition read_distance_table :: "'w os \<Rightarrow> 'w numa \<Rightarrow> (int \<times> 'w numa) option" where
  "read_distance_table K s = do {
     let maxnode = numa_max_node s + 1;
     ((err, table), s) \<leftarrow> distance_loop K 0 (- 1) None s;
     if err \<noteq> 0 then do {
       s \<leftarrow> numa_warn W_distance s;
       Some (err, s)
     }
     else if distance_table s \<noteq> None then Some (0, s)
     else Some (0, s\<lparr>distance_numnodes := maxnode, distance_table := table\<rparr>)
   }"

definition numa_distance :: "'w os \<Rightarrow> int \<Rightarrow> int \<Rightarrow> 'w numa \<Rightarrow> (int \<times> 'w numa) option" where
  "numa_distance K a b s = do {
     (err, s) \<leftarrow> (if distance_table s = None then read_distance_table K s else Some (0, s));
     case distance_table s of
       None \<Rightarrow> Some (0, s)
     | Some table \<Rightarrow>
         if err < 0 then Some (0, s)
         else if c_uint (distance_numnodes s) \<le> c_uint a \<or> c_uint (distance_numnodes s) \<le> c_uint b then Some (0, s)
         else Some (table ! nat (a * distance_numnodes s + b), s)
   }"

section \<open>The table holds what the files say\<close>

text \<open>The line of a node with the distances \<open>ds\<close>, as the kernel prints it.\<close>

fun show_row :: "nat list \<Rightarrow> string" where
  "show_row [] = [CHR 0x0A]"
| "show_row (d # ds) = dec_nat d @ concat (map (\<lambda>d. CHR '' '' # dec_nat d) ds) @ [CHR 0x0A]"

definition row_rest :: "nat list \<Rightarrow> string" where
  "row_rest ds = concat (map (\<lambda>d. CHR '' '' # dec_nat d) ds) @ [CHR 0x0A]"

lemma strtoul_number:
  assumes "d < 2 ^ 31"
  shows "strtoul (dec_nat d @ row_rest ds) 0 = (d, row_rest ds)"
    "strtoul (CHR '' '' # dec_nat d @ row_rest ds) 0 = (d, row_rest ds)"
proof -
  show 1: "strtoul (dec_nat d @ row_rest ds) 0 = (d, row_rest ds)"
    using assms by (intro strtoul_dec_nat; cases ds)
      (auto simp: row_rest_def ULONG_MAX_def starts_digit_def is_digit_of_def digit_val_def char_code_def)
  obtain c cs where c: "dec_nat d = c # cs" by (cases "dec_nat d") simp_all
  then have "is_digit_of 10 c" using set_dec_nat [of c d] by simp
  then have "scan_int (dec_nat d @ row_rest ds) 0 \<noteq> None"
    using 1 c by (auto simp: strtoul_def row_rest_def split: option.splits)
  moreover have "scan_int (CHR '' '' # s) 0 = scan_int s 0" for s
    by (simp add: scan_int_def c_isspace_def char_code_def)
  ultimately show "strtoul (CHR '' '' # dec_nat d @ row_rest ds) 0 = (d, row_rest ds)"
    using 1 by (auto simp: strtoul_def split: option.splits)
qed

lemma row_rest_Cons: "row_rest (d # ds) = CHR '' '' # dec_nat d @ row_rest ds"
  by (simp add: row_rest_def)

lemma skip_absent_next:
  assumes "filter (numa_bitmask_isbitset nodes) [j..<N] = p # ps"
  shows "skip_absent nodes (int N - 1) j = p \<and> p < N \<and> j \<le> p \<and> numa_bitmask_isbitset nodes p \<and>
    filter (numa_bitmask_isbitset nodes) [Suc p..<N] = ps \<and> (\<forall>i. j \<le> i \<and> i < p \<longrightarrow> \<not> numa_bitmask_isbitset nodes i)"
  using assms
proof (induction "N - j" arbitrary: j)
  case 0
  then show ?case by simp
next
  case (Suc n)
  then have j: "j < N" "[j..<N] = j # [Suc j..<N]" by (simp_all add: upt_conv_Cons)
  show ?case
  proof (cases "numa_bitmask_isbitset nodes j")
    case True
    then have "skip_absent nodes (int N - 1) j = j" by (simp add: skip_absent.simps)
    then show ?thesis using Suc.prems j True by auto
  next
    case False
    then have "filter (numa_bitmask_isbitset nodes) [Suc j..<N] = p # ps" using Suc.prems j(2) by simp
    from Suc.hyps(1) [OF _ this] Suc.hyps(2)
    have IH: "skip_absent nodes (int N - 1) (Suc j) = p \<and> p < N \<and> Suc j \<le> p \<and> numa_bitmask_isbitset nodes p \<and>
      filter (numa_bitmask_isbitset nodes) [Suc p..<N] = ps \<and>
      (\<forall>i. Suc j \<le> i \<and> i < p \<longrightarrow> \<not> numa_bitmask_isbitset nodes i)" by simp
    moreover have "skip_absent nodes (int N - 1) j = skip_absent nodes (int N - 1) (Suc j)"
      using False j(1) by (simp add: skip_absent.simps [of nodes _ j])
    moreover have "\<not> numa_bitmask_isbitset nodes i" if "j \<le> i" "i < p" for i
      using IH False that by (cases "i = j") auto
    ultimately show ?thesis by simp
  qed
qed

lemma parse_numbers_row:
  assumes "ps = filter (numa_bitmask_isbitset nodes) [j..<N]" "length ps \<le> k" "row + N \<le> length table"
    and D: "\<forall>p. D p < 2 ^ 31"
  shows "\<exists>t. parse_numbers k nodes (int N - 1) row (row_rest (map D ps)) j table = Some t \<and>
    length t = length table \<and>
    (\<forall>x < length table. t ! x =
       (if row + j \<le> x \<and> x < row + N \<and> numa_bitmask_isbitset nodes (x - row) then int (D (x - row)) else table ! x))"
  using assms(1-3)
proof (induction ps arbitrary: k j table)
  case Nil
  have "\<not> numa_bitmask_isbitset nodes (x - row)" if "row + j \<le> x" "x < row + N" for x
  proof -
    have "x - row \<in> set [j..<N]" using that by auto
    then show ?thesis using Nil(1) by (metis filter_empty_conv)
  qed
  moreover have "strtoul [CHR 0x0A] 0 = (0, [CHR 0x0A])"
    by (simp add: strtoul_def scan_int_def c_isspace_def char_code_def take_base_def starts_digit_def
        has_hex_prefix_def)
  then have "parse_numbers k nodes (int N - 1) row [CHR 0x0A] j table = Some table"
    by (cases k) simp_all
  ultimately show ?case by (auto simp: row_rest_def)
next
  case (Cons p ps)
  obtain k' where k: "k = Suc k'" using Cons.prems(2) by (cases k) auto
  note p = skip_absent_next [OF Cons.prems(1) [symmetric]]
  let ?table = "table[row + p := int (D p)]"
  have lt: "row + p < length table" using p Cons.prems(3) by simp
  have ps: "ps = filter (numa_bitmask_isbitset nodes) [Suc p..<N]" using p by blast
  have pre: "length ps \<le> k'" "row + N \<le> length ?table" using Cons.prems(2,3) k by simp_all
  obtain t where t: "parse_numbers k' nodes (int N - 1) row (row_rest (map D ps)) (Suc p) ?table = Some t"
    "length t = length table"
    "\<forall>x < length table. t ! x =
       (if row + Suc p \<le> x \<and> x < row + N \<and> numa_bitmask_isbitset nodes (x - row) then int (D (x - row)) else ?table ! x)"
    using Cons.IH [OF ps pre] unfolding length_list_update by blast
  have st: "strtoul (row_rest (map D (p # ps))) 0 = (D p, row_rest (map D ps))"
    using strtoul_number(2) [of "D p" "map D ps"] D by (simp add: row_rest_Cons)
  have ne: "row_rest (map D ps) \<noteq> row_rest (map D (p # ps))"
    using arg_cong [of "row_rest (map D ps)" "row_rest (map D (p # ps))" length] by (auto simp: row_rest_Cons)
  have ci: "c_int (int (D p)) = int (D p)" using D by (simp add: c_int_id)
  have run: "parse_numbers k nodes (int N - 1) row (row_rest (map D (p # ps))) j table = Some t"
    using st ne p lt t(1) by (simp add: k ci)
  have "t ! x = (if row + j \<le> x \<and> x < row + N \<and> numa_bitmask_isbitset nodes (x - row) then int (D (x - row)) else table ! x)"
    if x: "x < length table" for x
  proof -
    consider "x < row + p" | "x = row + p" | "row + Suc p \<le> x" by linarith
    then show ?thesis
    proof cases
      case 1
      have "\<not> numa_bitmask_isbitset nodes (x - row)" if "row + j \<le> x"
      proof -
        have "j \<le> x - row" "x - row < p" using that 1 by linarith+
        then show ?thesis using p by blast
      qed
      then have "\<not> (row + j \<le> x \<and> numa_bitmask_isbitset nodes (x - row))" by blast
      then show ?thesis using 1 t(3) x by auto
    next
      case 2
      then show ?thesis using t(3) x p by simp
    next
      case 3
      then show ?thesis using t(3) x p by auto
    qed
  qed
  with run t(2) show ?case by auto
qed

lemma split_lines_one: "CHR 0x0A \<notin> set u \<Longrightarrow> split_lines acc (u @ [CHR 0x0A]) = [rev acc @ u @ [CHR 0x0A]]"
  by (induction u arbitrary: acc) auto

lemma row_line: "distance_line (show_row ds) = show_row ds"
proof (cases ds)
  case Nil
  then show ?thesis using split_lines_one [of "[]" "[]"] by (simp add: distance_line_def file_lines_def)
next
  case (Cons d ds')
  have nl: "CHR 0x0A \<notin> set (dec_nat d)" for d
    using set_dec_nat [of "CHR 0x0A" d] by (auto simp: is_digit_of_def digit_val_def char_code_def)
  let ?u = "dec_nat d @ concat (map (\<lambda>d. CHR '' '' # dec_nat d) ds')"
  have "CHR 0x0A \<notin> set ?u" using nl by auto
  from split_lines_one [OF this, of "[]"] show ?thesis
    by (simp add: Cons distance_line_def file_lines_def)
qed

text \<open>The first number of a line has no blank before it.\<close>

lemma parse_numbers_first:
  assumes "d < 2 ^ 31"
  shows "parse_numbers k nodes m row (show_row (d # ds)) j table = parse_numbers k nodes m row (row_rest (d # ds)) j table"
proof (cases k)
  case (Suc k')
  have ne: "row_rest ds \<noteq> dec_nat d @ row_rest ds" "row_rest ds \<noteq> CHR '' '' # dec_nat d @ row_rest ds"
    using arg_cong [of "row_rest ds" "CHR '' '' # dec_nat d @ row_rest ds" length] by auto
  show ?thesis
    using strtoul_number [OF assms, of ds] ne
    by (simp add: Suc row_rest_Cons) (simp add: row_rest_def [symmetric])
qed simp

text \<open>The system the table describes: the existing nodes have a file with their distances to the
  existing nodes, the others have none.\<close>

definition distance_files :: "'w os \<Rightarrow> 'w \<Rightarrow> bitmask \<Rightarrow> nat \<Rightarrow> (nat \<Rightarrow> nat \<Rightarrow> nat) \<Rightarrow> bool" where
  "distance_files K w nodes N D \<longleftrightarrow>
     (\<forall>nd \<le> N. os_file K w (distance_file nd) =
        (if numa_bitmask_isbitset nodes nd
         then Inr (show_row (map (D nd) (filter (numa_bitmask_isbitset nodes) [0..<N]))) else Inl ENOENT)) \<and>
     bm_bits nodes \<subseteq> {..<N} \<and> (\<forall>a b. D a b < 2 ^ 31)"

text \<open>The table when the rows before \<open>k\<close> have been read.\<close>

definition rows_upto :: "bitmask \<Rightarrow> nat \<Rightarrow> (nat \<Rightarrow> nat \<Rightarrow> nat) \<Rightarrow> nat \<Rightarrow> int list" where
  "rows_upto nodes N D k =
     map (\<lambda>x. if x div N < k \<and> numa_bitmask_isbitset nodes (x div N) \<and> numa_bitmask_isbitset nodes (x mod N)
              then int (D (x div N) (x mod N)) else 0) [0..<N * N]"

lemma rows_upto_0: "rows_upto nodes N D 0 = replicate (N * N) 0"
  by (simp add: rows_upto_def map_replicate_trivial)

lemma rows_upto_Suc:
  assumes "k < N"
  shows "x < N * N \<Longrightarrow> rows_upto nodes N D (Suc k) ! x =
    (if k * N \<le> x \<and> x < k * N + N \<and> numa_bitmask_isbitset nodes k \<and> numa_bitmask_isbitset nodes (x - k * N)
     then int (D k (x - k * N)) else rows_upto nodes N D k ! x)"
proof -
  assume x: "x < N * N"
  show ?thesis
  proof (cases "k * N \<le> x \<and> x < k * N + N")
    case True
    then obtain b where b: "x = k * N + b" "b < N" by (metis add_diff_inverse_nat nat_add_left_cancel_less not_less)
    then have "x div N = k" "x mod N = b" by simp_all
    then show ?thesis using True b x by (simp add: rows_upto_def)
  next
    case False
    have "x div N \<noteq> k"
    proof
      assume "x div N = k"
      then have "x = k * N + x mod N" by (metis div_mult_mod_eq)
      moreover have "x mod N < N" using assms by simp
      ultimately show False using False by linarith
    qed
    then show ?thesis using False x by (auto simp: rows_upto_def less_Suc_eq)
  qed
qed

lemma distance_loop_run:
  assumes K: "malloc_succeeds K" and nodes: "numa_nodes_ptr s = Some nodes"
    and N: "numa_max_node s + 1 = int N" "0 < N" "N * N < 2 ^ 31"
    and files: "distance_files K (world s) nodes N D" and k: "k \<le> N"
    and table: "case table of None \<Rightarrow> rows_upto nodes N D k = rows_upto nodes N D 0 | Some t \<Rightarrow> t = rows_upto nodes N D k"
    and some: "table = None \<Longrightarrow> \<exists>i. k \<le> i \<and> numa_bitmask_isbitset nodes i"
  shows "\<exists>s'. distance_loop K k err table s = Some ((0, Some (rows_upto nodes N D N)), s') \<and> s' = s\<lparr>errno := ENOENT\<rparr>"
  using k table some nodes N(1) files
proof (induction "N - k" arbitrary: k table err s)
  case 0
  then have k: "k = N" by simp
  have no: "\<not> numa_bitmask_isbitset nodes i" if "N \<le> i" for i
    using 0 that unfolding distance_files_def by (metis lessThan_iff mem_bm_bits not_less subsetD)
  then have "table = Some (rows_upto nodes N D N)" using 0 k by (cases table) auto
  moreover have "os_file K (world s) (distance_file N) = Inl ENOENT"
    using 0 no [of N] by (simp add: distance_files_def)
  ultimately show ?case
    using 0 k by (subst distance_loop.simps) (simp add: Let_def)
next
  case (Suc n)
  then have kN: "k < N" by simp
  let ?p = "numa_bitmask_isbitset nodes k"
  have len: "length (rows_upto nodes N D j) = N * N" for j by (simp add: rows_upto_def)
  show ?case
  proof (cases ?p)
    case False
    have same: "rows_upto nodes N D (Suc k) = rows_upto nodes N D k"
      by (rule nth_equalityI) (simp_all add: len rows_upto_Suc [OF kN] False)
    have fl: "os_file K (world s) (distance_file k) = Inl ENOENT"
      using Suc.prems(6) kN False by (simp add: distance_files_def)
    have "distance_loop K k err table s = distance_loop K (Suc k) 0 table (s\<lparr>errno := ENOENT\<rparr>)"
      using fl Suc.prems(5) kN by (subst distance_loop.simps) (simp add: Let_def numa_max_node_def)
    moreover have "\<exists>s'. distance_loop K (Suc k) 0 table (s\<lparr>errno := ENOENT\<rparr>) =
        Some ((0, Some (rows_upto nodes N D N)), s') \<and> s' = s\<lparr>errno := ENOENT\<rparr>\<lparr>errno := ENOENT\<rparr>"
    proof (rule Suc.hyps(1))
      show "table = None \<Longrightarrow> \<exists>i\<ge>Suc k. numa_bitmask_isbitset nodes i"
        using Suc.prems(3) False by (metis le_eq_less_or_eq Suc_leI)
      show "case table of None \<Rightarrow> rows_upto nodes N D (Suc k) = rows_upto nodes N D 0
          | Some t \<Rightarrow> t = rows_upto nodes N D (Suc k)"
        using Suc.prems(2) by (cases table) (simp_all add: same)
    qed (use Suc kN in \<open>simp_all add: numa_max_node_def\<close>)
    ultimately show ?thesis by simp
  next
    case True
    let ?ps = "filter (numa_bitmask_isbitset nodes) [0..<N]"
    have "k \<in> set ?ps" using True kN by simp
    then obtain p ps where ps: "?ps = p # ps" by (cases ?ps) auto
    have D: "\<forall>q. D k q < 2 ^ 31" using Suc.prems(6) by (simp add: distance_files_def)
    have fl: "os_file K (world s) (distance_file k) = Inr (show_row (map (D k) ?ps))"
      using Suc.prems(6) kN True by (simp add: distance_files_def)
    have line: "distance_line (show_row (map (D k) ?ps)) = show_row (map (D k) ?ps)" by (rule row_line)
    have ne: "show_row (map (D k) ?ps) \<noteq> []" by (simp add: ps)
    let ?t = "case table of None \<Rightarrow> replicate (N * N) 0 | Some t \<Rightarrow> t"
    have t: "?t = rows_upto nodes N D k" using Suc.prems(2) by (cases table) (simp_all add: rows_upto_0)
    have "(k + 1) * N \<le> N * N" using kN by (intro mult_le_mono1) simp
    then have fits: "k * N + N \<le> length (rows_upto nodes N D k)" by (simp add: len)
    have lenps: "length ?ps \<le> N" using length_filter_le [of "numa_bitmask_isbitset nodes" "[0..<N]"] by simp
    obtain t' where t': "parse_numbers N nodes (int N - 1) (k * N) (row_rest (map (D k) ?ps)) 0 (rows_upto nodes N D k) = Some t'"
      "length t' = N * N"
      "\<forall>x < N * N. t' ! x = (if k * N + 0 \<le> x \<and> x < k * N + N \<and> numa_bitmask_isbitset nodes (x - k * N)
         then int (D k (x - k * N)) else rows_upto nodes N D k ! x)"
      using parse_numbers_row [OF refl lenps fits D] unfolding len by blast
    have "t' = rows_upto nodes N D (Suc k)"
      by (rule nth_equalityI) (simp_all add: t'(2,3) len rows_upto_Suc [OF kN] True)
    then have parse: "parse_numbers N nodes (int N - 1) (k * N) (show_row (map (D k) ?ps)) 0 ?t = Some (rows_upto nodes N D (Suc k))"
      using t'(1) parse_numbers_first [of "D k p" N nodes "int N - 1" "k * N" "map (D k) ps" 0] D
      unfolding t ps by simp
    have L: "c_ulong (c_int (int N * int N)) = N * N"
      using N(3) by (simp add: c_int_id c_ulong_id flip: of_nat_mult)
    have off: "nat (int k * int N) = k * N" by (metis nat_int of_nat_mult)
    have c: "(case table of None \<Rightarrow> replicate (c_ulong (c_int (int N * int N))) 0 | Some tb \<Rightarrow> tb) = ?t"
      unfolding L by (rule refl)
    have "distance_loop K k err table s = distance_loop K (Suc k) err (Some (rows_upto nodes N D (Suc k))) s"
      using fl line ne Suc.prems(4,5) K parse N(1)
      by (subst distance_loop.simps) (simp add: Let_def c malloc_succeeds_def off)
    moreover have "\<exists>s'. distance_loop K (Suc k) err (Some (rows_upto nodes N D (Suc k))) s =
        Some ((0, Some (rows_upto nodes N D N)), s') \<and> s' = s\<lparr>errno := ENOENT\<rparr>"
      by (rule Suc.hyps(1)) (use Suc kN in simp_all)
    ultimately show ?thesis by simp
  qed
qed

lemma numa_distance_run:
  assumes K: "malloc_succeeds K" and nodes: "numa_nodes_ptr s = Some nodes" "distance_table s = None"
    and N: "numa_max_node s + 1 = int N" "0 < N" "N * N < 2 ^ 31"
    and files: "distance_files K (world s) nodes N D" and ne: "bm_bits nodes \<noteq> {}"
    and ab: "a < N" "b < N"
  shows "\<exists>t. numa_distance K (int a) (int b) s =
    Some (if numa_bitmask_isbitset nodes a \<and> numa_bitmask_isbitset nodes b then int (D a b) else 0, t) \<and>
    distance_table t = Some (rows_upto nodes N D N) \<and> distance_numnodes t = int N \<and> world t = world s"
proof -
  obtain i where "numa_bitmask_isbitset nodes i" using ne by auto
  then have "\<exists>i. 0 \<le> i \<and> numa_bitmask_isbitset nodes i" by blast
  with distance_loop_run [OF K nodes(1) N files, where k = 0 and table = None and err = "- 1"]
  have "distance_loop K 0 (- 1) None s = Some ((0, Some (rows_upto nodes N D N)), s\<lparr>errno := ENOENT\<rparr>)"
    by simp
  then have rd: "read_distance_table K s = Some (0, s\<lparr>errno := ENOENT, distance_numnodes := int N,
      distance_table := Some (rows_upto nodes N D N)\<rparr>)"
    using nodes(2) N(1) by (simp add: read_distance_table_def)
  have "N \<le> N * N" using N(2) by simp
  then have "N < 2 ^ 31" using N(3) by linarith
  then have u: "c_uint (int N) = N" "c_uint (int a) = a" "c_uint (int b) = b"
    using ab by (simp_all add: c_uint_of_nat)
  have "(a + 1) * N \<le> N * N" using ab(1) by (intro mult_le_mono1) simp
  then have lt: "a * N + b < N * N" using ab(2) by (simp add: algebra_simps)
  have "(a * N + b) div N = a" "(a * N + b) mod N = b" using ab(2) by simp_all
  then have "rows_upto nodes N D N ! (a * N + b) =
      (if numa_bitmask_isbitset nodes a \<and> numa_bitmask_isbitset nodes b then int (D a b) else 0)"
    using lt ab by (simp add: rows_upto_def)
  moreover have "nat (int a * int N + int b) = a * N + b" by (metis nat_int of_nat_add of_nat_mult)
  ultimately show ?thesis using nodes(2) ab by (simp add: numa_distance_def rd u)
qed

end
