(* ===== verification/Sample.thy ===== *)
theory Sample
  imports NodeStringFacts RunNode PolicyFacts Distance
begin

unbundle bit_operations_syntax

text \<open>
  A concrete system for the witnesses: a machine with two nodes of two CPUs, a kernel that keeps the
  memory policy and the affinity of the process in its world, and the files of sysfs and procfs that
  the library reads.  It is an instance of the parameter \<open>os\<close>, not a model of any kernel.
\<close>

record toy =
  toy_mode :: int
  toy_words :: "ulong list"
  toy_affinity :: "ulong list"
  toy_touched :: "nat list"

text \<open>The first \<open>n\<close> bits of a mask, and a mask in a buffer.\<close>

definition cut_words :: "nat \<Rightarrow> ulong list \<Rightarrow> ulong list" where
  "cut_words n ws = map (\<lambda>k. take_bit (n - 64 * k) (ws ! k)) [0..<length ws]"

definition fit_words :: "ulong list \<Rightarrow> ulong list \<Rightarrow> ulong list" where
  "fit_words buf ws = take (length buf) (ws @ replicate (length buf) 0)"

lemma wbit_cut_words: "wbit (cut_words n ws) i \<longleftrightarrow> i < n \<and> wbit ws i"
proof (cases "i div 64 < length ws")
  case True
  have "i mod 64 < n - 64 * (i div 64) \<longleftrightarrow> i < n" by (metis less_diff_conv mod_mult_div_eq)
  then show ?thesis using True by (auto simp: wbit_def cut_words_def bit_take_bit_iff)
qed (simp add: wbit_def cut_words_def)

lemma fit_words_bits:
  "length (fit_words buf ws) = length buf"
  "wbit (fit_words buf ws) i \<longleftrightarrow> i < 64 * length buf \<and> wbit ws i"
  by (simp_all add: fit_words_def wbit_take wbit_append_zeros del: take_append)

text \<open>The files.  The first argument selects whether the map of node 1 can be read.\<close>

definition toy_status :: string where
  "toy_status = ''Name:'' @ [CHR 0x09] @ ''numactl'' @ [CHR 0x0A] @
     ''Cpus_allowed:'' @ [CHR 0x09] @ ''0000000f'' @ [CHR 0x0A] @
     ''Mems_allowed:'' @ [CHR 0x09] @ ''00000000,00000003'' @ [CHR 0x0A]"

definition toy_files :: "bool \<Rightarrow> (string \<times> string) list" where
  "toy_files readable =
     [(mask_size_file, toy_status),
      (cpumap_file 0, ''00000003'' @ [CHR 0x0A]),
      (distance_file 0, show_row [10, 21]),
      (distance_file 1, show_row [22, 11])] @
     (if readable then [(cpumap_file 1, ''0000000c'' @ [CHR 0x0A])] else [])"

definition toy_names :: "string list" where
  "toy_names = [''.'', ''node1'', ''has_cpu'', ''node0'']"

definition toy_os :: "bool \<Rightarrow> toy os" where
  "toy_os readable = \<lparr>
     os_malloc_ok = (\<lambda>w n. True),
     os_get_mempolicy = (\<lambda>w buf m addr flags.
       if flags = MPOL_F_MEMS_ALLOWED then Inr (0, fit_words buf [3]) else Inr (toy_mode w, fit_words buf (toy_words w))),
     os_set_mempolicy = (\<lambda>w mode ws n.
       let ws = cut_words (min (n - 1) 64) ws in
       if mode < 0 \<or> 7 \<le> mode \<or> mode = MPOL_PREFERRED \<and> 1 < length (filter (wbit ws) [0..<64]) then Inl EINVAL
       else Inr (w\<lparr>toy_mode := mode, toy_words := if mode = MPOL_DEFAULT \<or> mode = MPOL_LOCAL then [] else ws\<rparr>)),
     os_mbind = (\<lambda>w start len mode ws n flags. if len = 0 then Inl EINVAL else Inr w),
     os_home_node = (\<lambda>w start len node flags. Inl ENOSYS),
     os_migrate_pages = (\<lambda>w pid n from to. Inr (0, w)),
     os_move_pages = (\<lambda>w pid count pages nodes status flags. Inr (0, status, w)),
     os_setaffinity = (\<lambda>w pid len ws. Inr (w\<lparr>toy_affinity := ws\<rparr>)),
     os_getaffinity = (\<lambda>w pid len ws. Inr (8, fit_words ws (toy_affinity w))),
     os_mmap = (\<lambda>w len. Some (4096, w)),
     os_mremap = (\<lambda>w a old new. Some (a, w)),
     os_munmap = (\<lambda>w a len. w),
     os_touch = (\<lambda>w a. w\<lparr>toy_touched := a # toy_touched w\<rparr>),
     os_file = (\<lambda>w fn. case map_of (toy_files readable) fn of None \<Rightarrow> Inl ENOENT | Some t \<Rightarrow> Inr t),
     os_dir = (\<lambda>w fn. if fn = ''/sys/devices/system/node'' then Some toy_names else None),
     os_nprocs_conf = (\<lambda>w. 4),
     os_pagesize = (\<lambda>w. 4096) \<rparr>"

definition toy_world :: toy where
  "toy_world = \<lparr>toy_mode = 0, toy_words = [], toy_affinity = [15], toy_touched = []\<rparr>"

lemma toy_malloc [simp]: "malloc_succeeds (toy_os r)"
  by (simp add: malloc_succeeds_def toy_os_def)

lemma toy_set_mempolicy:
  "0 \<le> mode \<Longrightarrow> mode < 7 \<Longrightarrow> mode \<noteq> MPOL_PREFERRED \<Longrightarrow> os_set_mempolicy (toy_os r) w mode ws n =
    Inr (w\<lparr>toy_mode := mode, toy_words := if mode = MPOL_DEFAULT \<or> mode = MPOL_LOCAL then [] else cut_words (min (n - 1) 64) ws\<rparr>)"
  by (simp add: toy_os_def Let_def)

lemma toy_reads:
  assumes "S = {i. wbit (toy_words w) i}" "S \<subseteq> {..<64}"
  shows "reads (toy_os r) 64 w (toy_mode w) S"
  unfolding reads_def
proof (intro allI impI)
  fix k m :: nat assume k: "64 \<le> m" "m \<le> 64 * k"
  let ?ws = "fit_words (replicate k 0) (toy_words w)"
  have get: "os_get_mempolicy (toy_os r) w (replicate k 0) m 0 0 = Inr (toy_mode w, ?ws)"
    by (simp add: toy_os_def MPOL_F_MEMS_ALLOWED_def)
  have "i < 64 * k" if "i \<in> S" for i using that assms(2) k by (auto intro: less_le_trans)
  then have "\<forall>i. wbit ?ws i \<longleftrightarrow> i \<in> S" unfolding fit_words_bits(2) using assms(1) by auto
  then show "\<exists>ws. os_get_mempolicy (toy_os r) w (replicate k 0) m 0 0 = Inr (toy_mode w, ws) \<and> length ws = k \<and> (\<forall>i. wbit ws i \<longleftrightarrow> i \<in> S)"
    using get fit_words_bits(1) [of "replicate k 0" "toy_words w"] by auto
qed

lemma toy_policy_kernel: "policy_kernel (toy_os r) (\<lambda>n. n - 1) (\<lambda>_. {..<64}) 64"
  unfolding policy_kernel_def
proof (intro conjI allI impI)
  fix w w' mode ws n
  assume a: "os_set_mempolicy (toy_os r) w mode ws n = Inr w'"
  let ?ws = "cut_words (min (n - 1) 64) ws" and ?E = "{i. wbit ws i \<and> i < n - 1 \<and> i \<in> {..<64 :: nat}}"
  have E: "{i. wbit ?ws i} = ?E" unfolding wbit_cut_words by auto
  have w': "toy_mode w' = mode" "toy_words w' = (if mode = MPOL_DEFAULT \<or> mode = MPOL_LOCAL then [] else ?ws)"
    and one: "mode = MPOL_PREFERRED \<Longrightarrow> length (filter (wbit ?ws) [0..<64]) \<le> 1"
    using a by (auto simp: toy_os_def Let_def split: if_splits)
  let ?S = "{i. wbit (toy_words w') i}"
  have S: "?S = (if mode = MPOL_DEFAULT \<or> mode = MPOL_LOCAL then {} else ?E)"
    using E by (simp add: w'(2) wbit_def [of "[]"])
  have "?S \<subseteq> {..<64}" unfolding S by auto
  then have "reads (toy_os r) 64 w' mode ?S" using toy_reads [OF refl, of w' r] w'(1) by simp
  moreover have "read_as mode ?E mode ?S"
  proof (cases "mode = MPOL_PREFERRED")
    case True
    have e: "set (filter (wbit ?ws) [0..<64]) = ?E" using E by auto
    have "card ?E \<le> length (filter (wbit ?ws) [0..<64])" unfolding e [symmetric] by (rule card_length)
    then have "card ?E \<le> 1" using one [OF True] by linarith
    then have "\<forall>a \<in> ?E. \<forall>b \<in> ?E. a = b" using card_le_Suc0_iff_eq [of ?E] by simp
    then have "?E = {} \<or> (\<exists>i. ?E = {i})" by blast
    then show ?thesis using True unfolding S read_as_def by (auto simp: mpol_defs)
  next
    case False
    then show ?thesis unfolding S read_as_def by auto
  qed
  ultimately show "\<exists>mode' S. read_as mode ?E mode' S \<and> reads (toy_os r) 64 w' mode' S" by blast
qed auto

section \<open>A library that is set up on it\<close>

definition toy_mask :: "nat \<Rightarrow> nat list \<Rightarrow> bitmask" where
  "toy_mask n xs = fold (\<lambda>i b. numa_bitmask_setbit b i) xs (new_bitmask n)"

lemma fold_setbit_bits:
  assumes "bm_inv b"
  shows "bm_inv (fold (\<lambda>i b. numa_bitmask_setbit b i) xs b) \<and>
    bm_size (fold (\<lambda>i b. numa_bitmask_setbit b i) xs b) = bm_size b \<and>
    bm_bits (fold (\<lambda>i b. numa_bitmask_setbit b i) xs b) = bm_bits b \<union> {i \<in> set xs. i < bm_size b}"
  using assms
proof (induction xs arbitrary: b)
  case (Cons x xs)
  note sb = setbit_bits [OF Cons.prems, of x]
  have "bm_bits b \<union> {x} \<inter> {..<bm_size b} \<union> {i \<in> set xs. i < bm_size b} =
      bm_bits b \<union> {i \<in> set (x # xs). i < bm_size b}" by (auto simp del: mem_bm_bits)
  then show ?case using Cons.IH [OF sb(2)] unfolding fold_Cons o_apply sb(1,3) by simp
qed simp

lemma toy_mask_bits:
  "bm_inv (toy_mask n xs)" "bm_size (toy_mask n xs) = n" "bm_bits (toy_mask n xs) = {i \<in> set xs. i < n}"
  unfolding toy_mask_def using fold_setbit_bits [OF bm_inv_new [of n], of xs]
  by (simp_all only: bm_size_new bm_bits_new Un_empty_left)

definition toy_numa :: "toy numa" where
  "toy_numa = (initial_numa toy_world)\<lparr>
     sizes_set := 1, nodemask_sz := 64, cpumask_sz := 64, maxconfigurednode := 1, maxconfiguredcpu := 3,
     numprocnode := 2, numproccpu := 4, numa_no_nodes_ptr := Some (toy_mask 64 []),
     numa_all_nodes_ptr := Some (toy_mask 64 [0, 1]), numa_possible_nodes_ptr := Some (toy_mask 64 [0, 1]),
     numa_all_cpus_ptr := Some (toy_mask 64 [0, 1, 2, 3]), numa_possible_cpus_ptr := Some (toy_mask 64 [0, 1, 2, 3]),
     numa_nodes_ptr := Some (toy_mask 64 [0, 1]), numa_memnode_ptr := Some (toy_mask 64 [0, 1])\<rparr>"

lemma initial_fields [simp]:
  "world (initial_numa w) = w" "err_out (initial_numa w) = []" "numa_exit_on_warn (initial_numa w) = False"
  "numa_exit_on_error (initial_numa w) = False" "node_cpu_mask_v2 (initial_numa w) = None"
  "has_preferred_many (initial_numa w) = - 1" "pagesize (initial_numa w) = 0"
  "distance_table (initial_numa w) = None" "warned (initial_numa w) = 0" "warn_out (initial_numa w) = []"
  by (simp_all add: initial_numa_def)

lemma toy_numa_fields [simp]:
  "nodemask_sz toy_numa = 64" "cpumask_sz toy_numa = 64" "maxconfigurednode toy_numa = 1"
  "maxconfiguredcpu toy_numa = 3" "world toy_numa = toy_world" "err_out toy_numa = []"
  "numa_exit_on_warn toy_numa = False" "numa_exit_on_error toy_numa = False"
  "node_cpu_mask_v2 toy_numa = None" "has_preferred_many toy_numa = - 1" "pagesize toy_numa = 0"
  "numa_no_nodes_ptr toy_numa = Some (toy_mask 64 [])"
  "numa_all_nodes_ptr toy_numa = Some (toy_mask 64 [0, 1])"
  "numa_nodes_ptr toy_numa = Some (toy_mask 64 [0, 1])"
  "numa_possible_nodes_ptr toy_numa = Some (toy_mask 64 [0, 1])"
  "numa_all_cpus_ptr toy_numa = Some (toy_mask 64 [0, 1, 2, 3])"
  "numa_possible_cpus_ptr toy_numa = Some (toy_mask 64 [0, 1, 2, 3])"
  "numa_memnode_ptr toy_numa = Some (toy_mask 64 [0, 1])"
  "distance_table toy_numa = None" "warned toy_numa = 0" "warn_out toy_numa = []"
  by (simp_all add: toy_numa_def)

lemma toy_wf [simp]: "numa_wf toy_numa"
  unfolding numa_wf_def toy_numa_fields mask_ok_def option.case by (simp add: toy_mask_bits)

lemma toy_coherent [simp]: "cache_coherent K toy_numa"
  by (simp add: cache_coherent_def)

text \<open>The sample system is one on which the library can be set up.\<close>

lemma toy_names_numbers: "node_numbers toy_names = [1, 0]"
  by (simp add: node_numbers_def toy_names_def strtoul_eval c_int_def)

lemma toy_status_size: "scan_nodemask_size (file_lines toy_status) 0 0 = 64"
  by (simp add: toy_status_def file_lines_def strprefix_def nodemask_prefix_def
      line_digits_def is_digit_def c_isdigit_def char_code_def)

lemma toy_sane: "sane_system (toy_os True) toy_world toy_status toy_names 8"
proof -
  have st: "os_file (toy_os True) toy_world mask_size_file = Inr toy_status"
    by (simp add: toy_os_def toy_files_def)
  have ok: "status_ok toy_status"
    by (simp add: status_ok_def toy_status_def file_lines_def)
  have k: "os_dir (toy_os True) toy_world ''/sys/devices/system/node'' = Some toy_names"
    "os_getaffinity (toy_os True) toy_world 0 512 (replicate 64 0) = Inr (8, fit_words (replicate 64 0) [15])"
    "os_nprocs_conf (toy_os True) toy_world = 4"
    by (simp_all add: toy_os_def toy_world_def)
  show ?thesis unfolding sane_system_def using st ok toy_status_size toy_names_numbers k by auto
qed

lemma dec_nat_digits: "dec_nat 0 = ''0''" "dec_nat (Suc 0) = ''1''"
  by code_simp+

text \<open>Its distances.\<close>

definition toy_distance :: "nat \<Rightarrow> nat \<Rightarrow> nat" where
  "toy_distance a b = (if a = 0 then (if b = 0 then 10 else 21) else (if b = 0 then 22 else 11))"

lemma toy_distances:
  assumes "bm_bits nodes = {0, 1}"
  shows "distance_files (toy_os True) w nodes 2 toy_distance"
proof -
  have n: "numa_bitmask_isbitset nodes i \<longleftrightarrow> i = 0 \<or> i = 1" for i
    using assms mem_bm_bits [of i nodes] by auto
  have d: "dec_nat 2 = ''2''" by code_simp
  have files: "os_file (toy_os True) w (distance_file 0) = Inr (show_row [10, 21])"
    "os_file (toy_os True) w (distance_file 1) = Inr (show_row [22, 11])"
    "os_file (toy_os True) w (distance_file 2) = Inl ENOENT" for w
    by (simp_all add: toy_os_def toy_files_def cpumap_file_def d dec_nat_digits mask_size_file_def distance_file_def)
  have "os_file (toy_os True) w (distance_file nd) =
      (if numa_bitmask_isbitset nodes nd
       then Inr (show_row (map (toy_distance nd) (filter (numa_bitmask_isbitset nodes) [0..<2]))) else Inl ENOENT)"
    if "nd \<le> 2" for nd w
    using that files by (auto simp: le_Suc_eq numeral_2_eq_2 n upt_rec toy_distance_def)
  moreover have "bm_bits nodes \<subseteq> {..<2}" "toy_distance a b < 2 ^ 31" for a b
    using assms by (auto simp: toy_distance_def)
  ultimately show ?thesis unfolding distance_files_def by blast
qed

end
