(* ===== verification/PropsCore.thy ===== *)
theory PropsCore
  imports Sample
begin

unbundle bit_operations_syntax

text \<open>
  Properties of the masks, of the warnings and of the setup of the library, each with a witness on
  concrete masks or on the sample system.
\<close>

section \<open>Masks\<close>

text \<open>The effect on the words.\<close>

lemma setbit_wbit:
  assumes "bm_inv b"
  shows "wbit (maskp (setbit b i v)) j \<longleftrightarrow> (if j = i \<and> i < bm_size b then v \<noteq> 0 else wbit (maskp b) j)"
proof (cases "i < bm_size b")
  case True
  then have len: "i div 64 < length (maskp b)" using assms word_index by (simp add: bm_inv_def)
  show ?thesis
  proof (cases "j div 64 = i div 64")
    case same: True
    have "j mod 64 = i mod 64 \<longleftrightarrow> j = i" using same div_mod_eq_iff by blast
    moreover have "j mod 64 < 64" by simp
    ultimately show ?thesis
      using True len same by (auto simp: wbit_def setbit_def Let_def bit_or_iff bit_and_iff bit_not_iff)
  next
    case False
    then have "j \<noteq> i" by auto
    with False True show ?thesis by (simp add: wbit_def setbit_def Let_def)
  qed
qed (simp add: setbit_def)

lemma setbits_wbit:
  assumes "bm_inv b"
  shows "wbit (maskp (fold (\<lambda>i b. setbit b i v) xs b)) j \<longleftrightarrow>
    (if j \<in> set xs \<and> j < bm_size b then v \<noteq> 0 else wbit (maskp b) j)"
  using assms
proof (induction xs arbitrary: b)
  case (Cons x xs)
  have inv: "bm_inv (setbit b x v)" using Cons.prems by (simp add: bm_inv_def)
  show ?case using Cons.IH [OF inv] setbit_wbit [OF Cons.prems, of x v j] by auto
qed simp

text \<open>C22: \<open>struct bitmask\<close> implements sets of numbers below its size: setting, clearing, and setting and clearing all bits
  act on the set of members as union, difference, the full and the empty set, and the size and the number of words stay.
  In the array they change these bits and no others: out of range nothing changes, and a bit of the last word
  that lies beyond the size is never touched.\<close>

theorem bitmask_set_operations:
  assumes "bm_inv b"
  shows "bm_bits (numa_bitmask_setbit b i) = bm_bits b \<union> ({i} \<inter> {..<bm_size b}) \<and>
    bm_bits (numa_bitmask_clearbit b i) = bm_bits b - {i} \<and>
    bm_bits (numa_bitmask_setall b) = {..<bm_size b} \<and>
    bm_bits (numa_bitmask_clearall b) = {} \<and>
    (\<forall>c \<in> {numa_bitmask_setbit b i, numa_bitmask_clearbit b i, numa_bitmask_setall b, numa_bitmask_clearall b}.
       bm_inv c \<and> bm_size c = bm_size b) \<and>
    (bm_size b \<le> i \<longrightarrow> numa_bitmask_setbit b i = b \<and> numa_bitmask_clearbit b i = b) \<and>
    (\<forall>j. wbit (maskp (numa_bitmask_setbit b i)) j \<longleftrightarrow> wbit (maskp b) j \<or> j = i \<and> i < bm_size b) \<and>
    (\<forall>j. wbit (maskp (numa_bitmask_clearbit b i)) j \<longleftrightarrow> wbit (maskp b) j \<and> \<not> (j = i \<and> i < bm_size b)) \<and>
    (\<forall>j. wbit (maskp (numa_bitmask_setall b)) j \<longleftrightarrow> wbit (maskp b) j \<or> j < bm_size b) \<and>
    (\<forall>j. wbit (maskp (numa_bitmask_clearall b)) j \<longleftrightarrow> wbit (maskp b) j \<and> bm_size b \<le> j)"
proof (intro conjI)
  show "bm_bits (numa_bitmask_setbit b i) = bm_bits b \<union> ({i} \<inter> {..<bm_size b})" by (rule setbit_bits(1) [OF assms])
  show "bm_bits (numa_bitmask_clearbit b i) = bm_bits b - {i}" by (rule clearbit_bits(1) [OF assms])
  show "bm_bits (numa_bitmask_setall b) = {..<bm_size b}" by (rule setall_bits(3) [OF assms])
  show "bm_bits (numa_bitmask_clearall b) = {}" by (rule clearall_bits(3) [OF assms])
  show "\<forall>c \<in> {numa_bitmask_setbit b i, numa_bitmask_clearbit b i, numa_bitmask_setall b, numa_bitmask_clearall b}.
       bm_inv c \<and> bm_size c = bm_size b"
    using setbit_bits [OF assms] clearbit_bits [OF assms] setall_bits [OF assms] clearall_bits [OF assms] by blast
  show "bm_size b \<le> i \<longrightarrow> numa_bitmask_setbit b i = b \<and> numa_bitmask_clearbit b i = b"
    by (simp add: numa_bitmask_setbit_def numa_bitmask_clearbit_def setbit_def)
  show "\<forall>j. wbit (maskp (numa_bitmask_setbit b i)) j \<longleftrightarrow> wbit (maskp b) j \<or> j = i \<and> i < bm_size b"
    using setbit_wbit [OF assms] by (auto simp: numa_bitmask_setbit_def)
  show "\<forall>j. wbit (maskp (numa_bitmask_clearbit b i)) j \<longleftrightarrow> wbit (maskp b) j \<and> \<not> (j = i \<and> i < bm_size b)"
    using setbit_wbit [OF assms] by (auto simp: numa_bitmask_clearbit_def)
  show "\<forall>j. wbit (maskp (numa_bitmask_setall b)) j \<longleftrightarrow> wbit (maskp b) j \<or> j < bm_size b"
    using setbits_wbit [OF assms, of 1 "[0..<bm_size b]"] by (auto simp: numa_bitmask_setall_def)
  show "\<forall>j. wbit (maskp (numa_bitmask_clearall b)) j \<longleftrightarrow> wbit (maskp b) j \<and> bm_size b \<le> j"
    using setbits_wbit [OF assms, of 0 "[0..<bm_size b]"] by (auto simp: numa_bitmask_clearall_def)
qed

theorem bitmask_set_operations_witness:
  "bm_bits (numa_bitmask_setbit (new_bitmask 70) 65) = {65} \<and> bm_bits (numa_bitmask_setall (new_bitmask 3)) = {..<3} \<and>
    numa_bitmask_setbit (new_bitmask 70) 71 = new_bitmask 70"
proof -
  have "bm_bits (numa_bitmask_setbit (new_bitmask 70) 65) = bm_bits (new_bitmask 70) \<union> ({65} \<inter> {..<bm_size (new_bitmask 70)})"
    by (rule bitmask_set_operations [OF bm_inv_new, THEN conjunct1])
  moreover have "bm_bits (numa_bitmask_setall (new_bitmask 3)) = {..<bm_size (new_bitmask 3)}"
    by (rule bitmask_set_operations [OF bm_inv_new, THEN conjunct2, THEN conjunct2, THEN conjunct1])
  moreover have "numa_bitmask_setbit (new_bitmask 70) 71 = new_bitmask 70"
    using bitmask_set_operations [OF bm_inv_new, of 70 71, THEN conjunct2, THEN conjunct2, THEN conjunct2, THEN conjunct2,
        THEN conjunct2, THEN conjunct1] by simp
  ultimately show ?thesis unfolding bm_bits_new bm_size_new by simp
qed

text \<open>Two masks compare equal exactly when they have the same members, whatever their sizes.\<close>

theorem bitmask_equal_iff_same_members:
  "numa_bitmask_equal b1 b2 \<longleftrightarrow> bm_bits b1 = bm_bits b2"
  by (rule equal_bits)

text \<open>The weight is the number of members, and \<open>numa_find_first\<close> is the least member, or -1 for the
  empty mask.\<close>

theorem weight_and_first:
  "numa_bitmask_weight b = card (bm_bits b) \<and>
   numa_find_first b = (if bm_bits b = {} then - 1 else int (Min (bm_bits b)))"
  using weight_bits find_first_bits by blast

text \<open>Copying a mask into another of any size, word by word, keeps exactly the members that fit,
  provided the source has no stray bits in the padding of its last word.\<close>

theorem copy_bitmask_members:
  assumes "bm_clean a" "bm_inv b" "bm_size a < 2 ^ 32" "bm_size b < 2 ^ 32"
  shows "bm_bits (copy_bitmask_to_bitmask a b) = bm_bits a \<inter> {..<bm_size b} \<and>
    bm_inv (copy_bitmask_to_bitmask a b) \<and> bm_size (copy_bitmask_to_bitmask a b) = bm_size b"
proof -
  have "bm_inv a" using assms(1) by (simp add: bm_clean_def)
  from copy_bits [OF assms] copy_words(1,2) [OF this assms(2-4)] show ?thesis by blast
qed

theorem copy_bitmask_members_witness:
  "bm_bits (copy_bitmask_to_bitmask (new_bitmask 100) (numa_bitmask_setall (new_bitmask 3))) = {}"
proof -
  have "\<not> wbit (maskp (new_bitmask 100)) i" for i by (simp add: new_bitmask_def)
  then have "bm_clean (new_bitmask 100)" by (simp add: bm_clean_def)
  moreover have "bm_inv (numa_bitmask_setall (new_bitmask 3))" "bm_size (numa_bitmask_setall (new_bitmask 3)) = 3"
    using setall_bits [of "new_bitmask 3"] by simp_all
  ultimately show ?thesis
    using copy_bitmask_members [of "new_bitmask 100" "numa_bitmask_setall (new_bitmask 3)"]
    unfolding bm_size_new bm_bits_new by simp
qed

text \<open>A \<open>nodemask_t\<close> copied into a bitmask of at least 128 bits and back is the same mask.\<close>

theorem nodemask_round_trip:
  assumes "nm_inv nm" "bm_inv b" "NUMA_NUM_NODES \<le> bm_size b"
  shows "copy_bitmask_to_nodemask (copy_nodemask_to_bitmask nm b) = nm"
proof (rule nodemask_ext [OF copy_to_nodemask(1) assms(1)])
  fix i
  show "nodemask_isset_compat (copy_bitmask_to_nodemask (copy_nodemask_to_bitmask nm b)) i = nodemask_isset_compat nm i"
    unfolding copy_to_nodemask(2) copy_from_nodemask(3) [OF assms(2), of nm i]
    using assms(3) nm.test_cap [of nm i] by auto
qed

theorem nodemask_round_trip_witness:
  "copy_bitmask_to_nodemask (copy_nodemask_to_bitmask [5, 7] (new_bitmask 200)) = [5, 7]"
  by (rule nodemask_round_trip) (simp_all add: nm_inv_def NUMA_NUM_NODES_def)

text \<open>The rounding macros \<open>CPU_BYTES\<close> and \<open>CPU_LONGS\<close>, computed on wrapping 64-bit words, agree with the
  exact number of words \<open>longsperbits\<close> for every size of 32 bits, so the copies and the affinity loops
  that are bounded by them stay inside the arrays that were allocated with \<open>longsperbits\<close>.\<close>

theorem cpu_longs_exact:
  assumes "n < 2 ^ 32"
  shows "CPU_LONGS n = longsperbits n \<and> CPU_BYTES n = 8 * longsperbits n \<and> n \<le> 64 * longsperbits n"
  using CPU_LONGS_longsperbits [OF assms] size_le_words by blast

theorem cpu_longs_exact_witness: "CPU_LONGS 65 = 2 \<and> CPU_BYTES 65 = 16"
  using cpu_longs_exact [of 65] by (simp add: longsperbits_def)

section \<open>Warnings\<close>

lemma warn_out_step:
  assumes "numa_warn w s = Some t" "warnings_ok s"
  shows "set (warn_out t) = insert w (set (warn_out s))"
proof (cases "bit (warned s) (warn_num w)")
  case True
  then have "w \<in> set (warn_out s)" using assms(2) by (simp add: warnings_ok_def)
  with True assms(1) show ?thesis by (auto simp: numa_warn_unfold)
next
  case False
  with assms(1) show ?thesis by (auto simp: numa_warn_unfold split: if_splits)
qed

lemma warn_run:
  assumes "foldM numa_warn ws s = Some t" "warnings_ok s"
  shows "warnings_ok t \<and> set (warn_out t) = set (warn_out s) \<union> set ws"
  using assms
proof (induction ws arbitrary: s)
  case (Cons w ws)
  then obtain u where u: "numa_warn w s = Some u" "foldM numa_warn ws u = Some t" by (auto simp: bind_Some_iff)
  show ?case
    using Cons.IH [OF u(2) warnings_ok_step [OF Cons.prems(2) u(1)]] warn_out_step [OF u(1) Cons.prems(2)] by auto
qed simp

text \<open>From the start of the program, whatever warnings are given and however often, each one that is
  asked for is printed once: the printed warnings are distinct and are exactly those asked for.\<close>

theorem warnings_given_once:
  assumes "foldM numa_warn ws (initial_numa w) = Some t"
  shows "distinct (warn_out t) \<and> set (warn_out t) = set ws"
  using warn_run [OF assms warnings_ok_initial] by (simp add: warnings_ok_def)

theorem warnings_given_once_witness:
  "\<exists>t. foldM numa_warn [W_cpumap, W_nonode, W_cpumap] (initial_numa toy_world) = Some t \<and>
    distinct (warn_out t) \<and> set (warn_out t) = {W_cpumap, W_nonode}"
proof -
  obtain t where "foldM numa_warn [W_cpumap, W_nonode, W_cpumap] (initial_numa toy_world) = Some t"
    by (simp add: numa_warn_unfold)
  with warnings_given_once [OF this] show ?thesis by auto
qed

section \<open>Setup\<close>

text \<open>C10: on a system whose files have the documented form, the constructor succeeds and leaves a library
  that is well formed: masks of the kernel's node mask size and CPU mask size, all allocated; the highest
  node and the set of nodes are those of the directory entries; the version 1 mask of all nodes has one bit
  for each of the first nodes; and \<open>errno\<close> is 0.\<close>

theorem numa_init_establishes_wf:
  assumes "sane_system K w t names n" and "card (set (node_numbers names)) \<le> NUMA_NUM_NODES"
  shows "\<exists>s. numa_init K (initial_numa w) = Some s \<and> numa_wf s \<and> errno s = E0 \<and>
    nodemask_sz s = scan_nodemask_size (file_lines t) 0 0 \<and> cpumask_sz s = n * 8 \<and>
    maxconfigurednode s = Max (set (node_numbers names)) \<and>
    bm_bits (the (numa_nodes_ptr s)) = nat ` set (node_numbers names) \<and>
    (\<forall>i. nodemask_isset_compat (numa_all_nodes s) i \<longleftrightarrow> i < card (set (node_numbers names)))"
  using numa_init_run [OF assms] by blast

theorem numa_init_establishes_wf_witness:
  "\<exists>s. numa_init (toy_os True) (initial_numa toy_world) = Some s \<and> numa_wf s \<and> nodemask_sz s = 64 \<and>
    maxconfigurednode s = 1"
  using numa_init_establishes_wf [OF toy_sane]
  by (simp add: toy_names_numbers toy_status_size NUMA_NUM_NODES_def) blast

text \<open>When the kernel refuses every affinity mask up to a million bits with EINVAL, the search for the
  size of the CPU mask ends with the error value, and the size of the CPU mask becomes -8.\<close>

theorem max_cpu_search_failure:
  assumes "malloc_succeeds K" "\<forall>w len ws. os_getaffinity K w 0 len ws = Inl EINVAL"
  shows "\<exists>t. set_numa_max_cpu K s = Some t \<and> cpumask_sz t = - 8"
proof -
  obtain t where "max_cpu_loop K 0 s = Some (Some (- 1), t)"
    using max_cpu_loop_refused [OF assms(1), of s 0] assms(2) by auto
  then show ?thesis by (simp add: set_numa_max_cpu_def)
qed

theorem max_cpu_search_failure_witness:
  "\<exists>t. set_numa_max_cpu ((toy_os True)\<lparr>os_getaffinity := \<lambda>w pid len ws. Inl EINVAL\<rparr>) toy_numa = Some t \<and>
    cpumask_sz t = - 8"
  by (rule max_cpu_search_failure) (simp_all add: malloc_succeeds_def toy_os_def)

section \<open>Masks in text form\<close>

text \<open>C18: \<open>read_mask\<close> reads back the text the kernel prints for a mask that is not empty: 32-bit fields in
  hexadecimal, separated by commas, the most significant first, with the leading zero fields dropped.  The
  bits become the members of the mask, and the result is their number.\<close>

theorem read_mask_reads_back:
  assumes "0 < k" "k \<le> 8" "hd xs < 16 ^ k" "xs \<noteq> []" "\<forall>x \<in> set xs. x < 2 ^ 32"
    and "dropWhile (\<lambda>x. x = 0) xs \<noteq> []" "length (dropWhile (\<lambda>x. x = 0) xs) \<le> (n + 31) div 32"
  shows "\<exists>b. read_mask (print_mask k xs) (new_bitmask n) = (int (card (bm_bits b)), b) \<and>
    bm_bits b = chunk_bits xs \<inter> {..<n} \<and> bm_inv b \<and> bm_size b = n"
proof -
  have "\<forall>i. \<not> wbit (maskp (new_bitmask n)) i" by (simp add: new_bitmask_def)
  from read_mask_print [OF assms(1-6) _ bm_inv_new bm_bits_new this] assms(7)
  show ?thesis unfolding bm_size_new by blast
qed

theorem read_mask_reads_back_witness:
  "\<exists>b. read_mask (print_mask 8 [0, 0, 5]) (new_bitmask 40) = (int (card (bm_bits b)), b) \<and>
    bm_bits b = chunk_bits [0, 0, 5] \<inter> {..<40} \<and> bm_inv b \<and> bm_size b = 40"
  by (rule read_mask_reads_back) simp_all

text \<open>Whatever text \<open>read_mask\<close> is given, it stays inside the words of the mask: the number of words
  and the size are unchanged.\<close>

theorem read_mask_in_bounds:
  assumes "bm_inv b"
  shows "bm_inv (snd (read_mask s b)) \<and> bm_size (snd (read_mask s b)) = bm_size b"
  using read_mask_inv [OF assms] by blast

theorem read_mask_in_bounds_witness: "bm_inv (snd (read_mask ''f,ffffffff,,x'' (new_bitmask 33)))"
  using read_mask_in_bounds [of "new_bitmask 33"] by simp

end
