(* ===== verification/Rtnetlink.thy ===== *)
theory Rtnetlink
  imports System
begin

text \<open>
  The small netlink library (\<open>rtnetlink.c\<close>) and the look-up of the interface that a route to an address uses
  (\<open>affinity.c\<close> lines 192-256).  A message is the array of its bytes, in the byte order of the platform (little
  endian); a pointer into it is an offset, and NULL is \<open>None\<close>.  An access outside the array is undefined: the
  whole operation is \<open>None\<close> then.  The constants and the layout of the structures are those of the kernel's
  headers \<open>linux/netlink.h\<close> and \<open>linux/rtnetlink.h\<close>; the sockets are the parameter \<open>route_os\<close>.
\<close>

type_synonym byte = "8 word"

section \<open>Numbers in messages\<close>

primrec bytes_of :: "nat \<Rightarrow> nat \<Rightarrow> byte list" where
  "bytes_of 0 v = []"
| "bytes_of (Suc n) v = word_of_nat v # bytes_of n (v div 256)"

definition nat_of_bytes :: "byte list \<Rightarrow> nat" where
  "nat_of_bytes bs = foldr (\<lambda>b v. unat b + 256 * v) bs 0"

definition peek :: "byte list \<Rightarrow> nat \<Rightarrow> nat \<Rightarrow> nat option" where
  "peek m p n = (if p + n \<le> length m then Some (nat_of_bytes (take n (drop p m))) else None)"

definition poke :: "byte list \<Rightarrow> nat \<Rightarrow> byte list \<Rightarrow> byte list option" where
  "poke m p bs = (if p + length bs \<le> length m then Some (take p m @ bs @ drop (p + length bs) m) else None)"

section \<open>The kernel's headers\<close>

text \<open>\<open>NLMSG_ALIGN\<close> on an unsigned length; \<open>RTA_ALIGN\<close> is the same rounding.\<close>

definition NLMSG_ALIGN :: "nat \<Rightarrow> nat" where
  "NLMSG_ALIGN n = (n + 3) mod 2 ^ 32 div 4 * 4"

definition NLMSG_HDRLEN :: nat where "NLMSG_HDRLEN = 16"
definition NLMSG_ERROR :: nat where "NLMSG_ERROR = 2"
definition NLM_F_REQUEST :: nat where "NLM_F_REQUEST = 1"
definition RTM_GETROUTE :: nat where "RTM_GETROUTE = 26"
definition RTA_DST :: nat where "RTA_DST = 1"
definition RTA_OIF :: nat where "RTA_OIF = 4"
definition AF_INET :: nat where "AF_INET = 2"
definition AF_INET6 :: nat where "AF_INET6 = 10"
definition sizeof_rtmsg :: nat where "sizeof_rtmsg = 12"
definition sizeof_rtattr :: nat where "sizeof_rtattr = 4"

lemmas netlink_consts = NLMSG_HDRLEN_def NLMSG_ERROR_def NLM_F_REQUEST_def RTM_GETROUTE_def RTA_DST_def RTA_OIF_def
  AF_INET_def AF_INET6_def sizeof_rtmsg_def sizeof_rtattr_def

text \<open>A socket address: the family, and the address of the two families that are looked at.\<close>

record sockaddr =
  sa_family :: nat
  sin_addr :: "byte list"
  sin6_addr :: "byte list"

text \<open>What the source asks of the system: \<open>getaddrinfo\<close> (its first answer), the socket calls on a netlink socket,
  where the answer depends on the message that has been sent, and the \<open>ioctl\<close> for the name of an interface.\<close>

record 'w route_os =
  ro_getaddrinfo :: "'w \<Rightarrow> string \<Rightarrow> sockaddr option"
  ro_socket :: "'w \<Rightarrow> errno option"
  ro_sendto :: "'w \<Rightarrow> byte list \<Rightarrow> errno option"
  ro_recvfrom :: "'w \<Rightarrow> byte list \<Rightarrow> nat \<Rightarrow> errno + byte list"
  ro_ifname :: "'w \<Rightarrow> int \<Rightarrow> errno + string"

section \<open>Attributes\<close>

definition rta_put :: "byte list \<Rightarrow> nat \<Rightarrow> nat \<Rightarrow> (nat \<times> byte list) option" where
  "rta_put m type len = do {
     l \<leftarrow> peek m 0 4;
     let rta = NLMSG_ALIGN l;
     let rtalen = sizeof_rtattr + len;
     m \<leftarrow> poke m (rta + 2) (bytes_of 2 type);
     m \<leftarrow> poke m rta (bytes_of 2 rtalen);
     m \<leftarrow> poke m 0 (bytes_of 4 (NLMSG_ALIGN l + NLMSG_ALIGN rtalen));
     Some (rta + sizeof_rtattr, m)
   }"

text \<open>\<open>RTA_OK(rta, len)\<close>.  \<open>RTA_NEXT(p, len)\<close> also subtracts the aligned length of the attribute from its second
  argument, which here is the length field of the message.\<close>

definition rta_ok :: "byte list \<Rightarrow> nat \<Rightarrow> nat \<Rightarrow> bool option" where
  "rta_ok m rta len =
     (if len < sizeof_rtattr then Some False
      else do {
        l \<leftarrow> peek m rta 2;
        Some (sizeof_rtattr \<le> l \<and> l \<le> len)
      })"

definition rta_next :: "byte list \<Rightarrow> nat \<Rightarrow> (nat \<times> byte list) option" where
  "rta_next m p = do {
     l \<leftarrow> peek m p 2;
     len \<leftarrow> peek m 0 4;
     m \<leftarrow> poke m 0 (bytes_of 4 (c_uint (int len - int (NLMSG_ALIGN l))));
     Some (p + NLMSG_ALIGN l, m)
   }"

definition rta_get :: "byte list \<Rightarrow> nat option \<Rightarrow> nat \<Rightarrow> (nat option \<times> byte list) option" where
  "rta_get m p offset =
     (case p of
        Some p \<Rightarrow> do {
          (rta, m) \<leftarrow> rta_next m p;
          len \<leftarrow> peek m 0 4;
          okay \<leftarrow> rta_ok m rta len;
          Some (if okay then Some rta else None, m)
        }
      | None \<Rightarrow> Some (Some (NLMSG_ALIGN offset), m))"

definition rta_put_address :: "byte list \<Rightarrow> nat \<Rightarrow> sockaddr \<Rightarrow> (int \<times> byte list) option" where
  "rta_put_address m type adr =
     (if sa_family adr = AF_INET then do {
        (i, m) \<leftarrow> rta_put m type 4;
        m \<leftarrow> poke m i (take 4 (sin_addr adr));
        Some (0, m)
      }
      else if sa_family adr = AF_INET6 then do {
        (i6, m) \<leftarrow> rta_put m type 16;
        m \<leftarrow> poke m i6 (take 16 (sin6_addr adr));
        Some (0, m)
      }
      else Some (- 1, m))"

section \<open>Requests\<close>

text \<open>The error number in an error message, as \<open>errno\<close>.\<close>

definition errno_of :: "nat \<Rightarrow> errno" where
  "errno_of n =
     (if n = 0 then E0 else if n = 1 then EPERM else if n = 2 then ENOENT else if n = 12 then ENOMEM
      else if n = 22 then EINVAL else if n = 34 then ERANGE else if n = 38 then ENOSYS else EOther n)"

definition rtnetlink_request :: "'w route_os \<Rightarrow> byte list \<Rightarrow> nat \<Rightarrow> 'w numa \<Rightarrow> ((int \<times> byte list) \<times> 'w numa) option" where
  "rtnetlink_request R msg buflen s =
     (case ro_socket R (world s) of
        Some e \<Rightarrow> Some ((- 1, msg), s\<lparr>errno := e\<rparr>)
      | None \<Rightarrow> do {
          len \<leftarrow> peek msg 0 4;
          sent \<leftarrow> (if len \<le> length msg then Some (take len msg) else None);
          case ro_sendto R (world s) sent of
            Some e \<Rightarrow> Some ((- 1, msg), s\<lparr>errno := e\<rparr>)
          | None \<Rightarrow>
              case ro_recvfrom R (world s) sent buflen of
                Inl e \<Rightarrow> Some ((- 1, msg), s\<lparr>errno := e\<rparr>)
              | Inr reply \<Rightarrow> do {
                  msg \<leftarrow> poke msg 0 (take buflen reply);
                  type \<leftarrow> peek msg 4 2;
                  if type = NLMSG_ERROR then do {
                    error \<leftarrow> peek msg NLMSG_HDRLEN 4;
                    Some ((- 1, msg), s\<lparr>errno := errno_of (c_uint (- int error))\<rparr>)
                  }
                  else Some ((0, msg), s)
                }
        })"

section \<open>Looking up a route\<close>

definition hdrlen :: nat where
  "hdrlen = NLMSG_HDRLEN + sizeof_rtmsg"

definition route_request :: "nat \<Rightarrow> byte list" where
  "route_request family =
     bytes_of 4 hdrlen @ bytes_of 2 RTM_GETROUTE @ bytes_of 2 NLM_F_REQUEST @ replicate 8 0 @
     word_of_nat family # replicate 11 0 @ replicate 256 0"

text \<open>The loop over the attributes ends, whatever the message holds: an attribute that is accepted has a length, so
  the next one is further on in the array.\<close>

lemma length_bytes_of [simp]: "length (bytes_of n v) = n"
  by (induction n arbitrary: v) simp_all

lemma nat_of_bytes_simps [simp]:
  "nat_of_bytes [] = 0" "nat_of_bytes (b # bs) = unat b + 256 * nat_of_bytes bs"
  by (simp_all add: nat_of_bytes_def)

lemma unat_byte_less: "unat (b :: byte) < 256"
  using unsigned_less [of b, where ?'a = nat] by simp

lemma word_of_bytes: "(word_of_nat (unat b + 256 * v) :: byte) = b"
proof -
  have "unat (word_of_nat (unat b + 256 * v) :: byte) = unat b"
    using unat_byte_less [of b] by (subst unat_of_nat) simp
  then show ?thesis by (simp only: word_unat_eq_iff)
qed

lemma bytes_of_nat_of_bytes: "bytes_of (length bs) (nat_of_bytes bs) = bs"
proof (induction bs)
  case (Cons b bs)
  show ?case using Cons unat_byte_less [of b] word_of_bytes [of b] by simp
qed simp

lemma nat_of_bytes_of: "nat_of_bytes (bytes_of n v) = v mod 256 ^ n"
proof (induction n arbitrary: v)
  case (Suc n)
  have "unat (word_of_nat v :: byte) = v mod 256" by (simp add: unat_of_nat)
  then show ?case using Suc [of "v div 256"] mod_mult2_eq [of v 256 "256 ^ n"] by simp
qed simp

lemma nat_of_bytes_less: "nat_of_bytes bs < 256 ^ length bs"
  using nat_of_bytes_of [of "length bs" "nat_of_bytes bs"] unfolding bytes_of_nat_of_bytes
  by (metis mod_less_divisor zero_less_numeral zero_less_power)

lemma poke_same:
  assumes "peek m p n = Some v"
  shows "poke m p (bytes_of n v) = Some m"
proof -
  have le: "p + n \<le> length m" and v: "v = nat_of_bytes (take n (drop p m))"
    using assms by (auto simp: peek_def split: if_splits)
  have "bytes_of n v = take n (drop p m)"
    using bytes_of_nat_of_bytes [of "take n (drop p m)"] le v by simp
  moreover have "take p m @ take n (drop p m) @ drop (p + n) m = m"
    by (metis add.commute append_take_drop_id drop_drop)
  ultimately show ?thesis using le by (simp add: poke_def)
qed

lemma length_poke: "poke m p bs = Some m' \<Longrightarrow> length m' = length m"
  by (auto simp: poke_def split: if_splits)

lemma NLMSG_ALIGN_small: "n + 3 < 2 ^ 32 \<Longrightarrow> NLMSG_ALIGN n = (n + 3) div 4 * 4"
  by (simp add: NLMSG_ALIGN_def)

lemma rta_get_forward:
  assumes "rta_get m (Some p) k = Some (Some q, m')"
  shows "p < q \<and> q + 2 \<le> length m \<and> length m' = length m"
proof -
  obtain l len m1 okay len' where l: "peek m p 2 = Some l" and len: "peek m 0 4 = Some len"
    and m1: "poke m 0 (bytes_of 4 (c_uint (int len - int (NLMSG_ALIGN l)))) = Some m1"
    and len': "peek m1 0 4 = Some len'" and okay: "rta_ok m1 (p + NLMSG_ALIGN l) len' = Some okay"
    and q: "okay" "q = p + NLMSG_ALIGN l" "m' = m1"
    using assms by (auto simp: rta_get_def rta_next_def bind_Some_iff split: if_splits prod.splits)
  obtain l' where l': "peek m1 q 2 = Some l'" "sizeof_rtattr \<le> l'"
    using okay q by (auto simp: rta_ok_def bind_Some_iff split: if_splits)
  have len1: "length m1 = length m" by (rule length_poke [OF m1])
  have "l < 256 ^ 2" using l nat_of_bytes_less [of "take 2 (drop p m)"] by (auto simp: peek_def split: if_splits)
  then have al: "NLMSG_ALIGN l = (l + 3) div 4 * 4" by (intro NLMSG_ALIGN_small) simp
  have "l \<noteq> 0"
  proof
    assume "l = 0"
    then have "NLMSG_ALIGN l = 0" using al by simp
    moreover have "len < 256 ^ 4" using len nat_of_bytes_less [of "take 4 (drop 0 m)"] by (auto simp: peek_def split: if_splits)
    ultimately have "m1 = m" "q = p" using m1 poke_same [OF len] q by (simp_all add: c_uint_of_nat)
    then show False using l l' \<open>l = 0\<close> by (simp add: sizeof_rtattr_def)
  qed
  then have "4 \<le> NLMSG_ALIGN l" using al by simp
  then show ?thesis using l' len1 q by (auto simp: peek_def split: if_splits)
qed

text \<open>\<open>while ((rta = rta_get(&req.msg, rta, hdrlen)) != NULL)\<close>: the value of the first \<open>RTA_OIF\<close> attribute.\<close>

function route_loop :: "byte list \<Rightarrow> nat option \<Rightarrow> int option option" where
  "route_loop m p =
     (case rta_get m p hdrlen of
        None \<Rightarrow> None
      | Some (None, m) \<Rightarrow> Some None
      | Some (Some rta, m) \<Rightarrow>
          (case peek m (rta + 2) 2 of
             None \<Rightarrow> None
           | Some type \<Rightarrow>
               if type = RTA_OIF then map_option (\<lambda>v. Some (c_int (int v))) (peek m (rta + sizeof_rtattr) 4)
               else route_loop m (Some rta)))"
  by pat_completeness auto
termination
proof (relation "measure (\<lambda>(m, p). case p of None \<Rightarrow> Suc (length m) | Some p \<Rightarrow> length m - p)", goal_cases)
  case (2 m p r r' m' rta type)
  then show ?case
    using rta_get_forward [of m "the p" hdrlen rta m']
    by (cases p) (auto simp: rta_get_def hdrlen_def netlink_consts NLMSG_ALIGN_def)
qed simp

declare route_loop.simps [simp del]

definition find_route :: "'w route_os \<Rightarrow> sockaddr \<Rightarrow> 'w numa \<Rightarrow> (int option \<times> 'w numa) option" where
  "find_route R dst s = do {
     let req = route_request (sa_family dst);
     (r, req) \<leftarrow> rta_put_address req RTA_DST dst;
     if r < 0 then do {
       s \<leftarrow> numa_warn W_netlink1 s;
       Some (None, s)
     }
     else do {
       ((r, req), s) \<leftarrow> rtnetlink_request R req (length req) s;
       if r < 0 then do {
         s \<leftarrow> numa_warn W_netlink2 s;
         Some (None, s)
       }
       else do {
         iif \<leftarrow> route_loop req None;
         case iif of
           Some iif \<Rightarrow> Some (Some iif, s)
         | None \<Rightarrow> do {
             s \<leftarrow> numa_warn W_netlink3 s;
             Some (None, s)
           }
       }
     }
   }"

definition iif_to_name :: "'w route_os \<Rightarrow> int \<Rightarrow> 'w numa \<Rightarrow> string option \<times> 'w numa" where
  "iif_to_name R iif s =
     (case ro_ifname R (world s) iif of
        Inl e \<Rightarrow> (None, s\<lparr>errno := e\<rparr>)
      | Inr name \<Rightarrow> (Some name, s))"

end
