(* ===== verification/Affinity.thy ===== *)
theory Affinity
  imports NodeString Rtnetlink
begin

unbundle bit_operations_syntax

text \<open>
  The nodes of I/O devices (\<open>affinity.c\<close>, \<open>sysfs.c\<close>): names such as \<open>netdev:eth0\<close>, \<open>block:sda\<close>, \<open>file:/x\<close>
  or \<open>pci:0:1f.2\<close> are resolved to a \<open>numa_node\<close> file of sysfs, whose numbers are set in the mask.  The
  results have the form of the \<open>resolver\<close> that the node list parser takes.  What is asked of the system
  beyond files and directories is in a second parameter: symbolic links, \<open>stat\<close>, what the stack holds behind
  a link that \<open>readlink\<close> does not terminate, and the look-up of addresses, routes and interfaces.
\<close>

datatype file_kind = S_CHR | S_BLK | S_other

record 'w dev =
  dev_readlink :: "'w \<Rightarrow> string \<Rightarrow> string option"
  dev_stack :: "'w \<Rightarrow> string"
  dev_stat :: "'w \<Rightarrow> string \<Rightarrow> errno + (file_kind \<times> (nat \<times> nat) \<times> (nat \<times> nat))"
  dev_route :: "'w route_os"

section \<open>sysfs.c\<close>

definition SYSFS_BLOCK :: nat where
  "SYSFS_BLOCK = 4096"

text \<open>The result of \<open>open\<close> is not tested: \<open>read\<close> on -1 fails with EBADF.\<close>

definition sysfs_read :: "'w os \<Rightarrow> string \<Rightarrow> 'w numa \<Rightarrow> string option \<times> 'w numa" where
  "sysfs_read K name s =
     (if \<not> os_malloc_ok K (world s) SYSFS_BLOCK then (None, s\<lparr>errno := ENOMEM\<rparr>)
      else case os_file K (world s) name of
        Inl e \<Rightarrow> (None, s\<lparr>errno := EOther 9\<rparr>)
      | Inr t \<Rightarrow> (if t = [] then None else Some (take (SYSFS_BLOCK - 1) t), s))"

function sysfs_node_loop :: "int \<Rightarrow> string \<Rightarrow> bitmask \<Rightarrow> int \<times> bitmask" where
  "sysfs_node_loop task_nodes m msk =
     (let (num, end) = strtol m 0; num = c_int num in
      if end = m then (- 1, msk)
      else if num < 0 then (- 2, msk)
      else if task_nodes \<le> num then (- 1, msk)
      else
        let msk = numa_bitmask_setbit msk (c_uint num);
            m = dropWhile (\<lambda>c. c_isspace c \<or> c = CHR '','') end
        in if m \<noteq> [] \<and> c_isdigit (hd m) then sysfs_node_loop task_nodes m msk else (0, msk))"
  by pat_completeness auto
termination
proof (relation "measure (\<lambda>(n, m, msk). length m)")
  fix task_nodes :: int and m :: string and msk :: bitmask and x xa y xb xc xd
  assume "x = strtol m 0" "(xa, y) = x" "\<not> y = m" "xd = dropWhile (\<lambda>c. c_isspace c \<or> c = CHR '','') y"
  then show "((task_nodes, xd, xc), (task_nodes, m, msk)) \<in> measure (\<lambda>(n, m, msk). length m)"
    using strtol_shorter [of m 0 xa y] length_dropWhile_le [of "\<lambda>c. c_isspace c \<or> c = CHR '',''" y] by simp
qed simp

declare sysfs_node_loop.simps [simp del]

definition sysfs_node_read :: "'w os \<Rightarrow> bitmask \<Rightarrow> string \<Rightarrow> 'w numa \<Rightarrow> (int \<times> bitmask) \<times> 'w numa" where
  "sysfs_node_read K msk fn s =
     (if \<not> os_malloc_ok K (world s) (length fn + 1) then ((- 1, msk), s)
      else
        let (p, s) = sysfs_read K fn s in
        case p of
          None \<Rightarrow> ((- 1, msk), s)
        | Some m \<Rightarrow> (sysfs_node_loop (numa_num_task_nodes s) m msk, s))"

section \<open>Devices of a class\<close>

definition badchar :: "string \<Rightarrow> bool" where
  "badchar s \<longleftrightarrow> (\<exists>c \<in> set s. c = CHR ''/'' \<or> c = CHR ''.'')"

definition node_parse_failure :: "int \<Rightarrow> 'w numa \<Rightarrow> (int \<times> 'w numa) option" where
  "node_parse_failure ret s = do {
     s \<leftarrow> numa_warn (if ret = - 2 then W_node_parse1 else W_node_parse2) s;
     Some (- 1, s)
   }"

text \<open>Reading a \<open>numa_node\<close> file and reporting a failure, as every handler does it.\<close>

definition read_or_fail :: "'w os \<Rightarrow> bitmask \<Rightarrow> string \<Rightarrow> 'w numa \<Rightarrow> ((int \<times> bitmask) \<times> 'w numa) option" where
  "read_or_fail K msk fn s =
     (let ((ret, msk), s) = sysfs_node_read K msk fn s in
      if ret < 0 then do { (r, s) \<leftarrow> node_parse_failure ret s; Some ((r, msk), s) }
      else Some ((ret, msk), s))"

text \<open>The regular expression \<open>(/devices/pci[0-9a-fA-F:/]+\.[0-9]+)/\<close>: the length of the group of a match that
  starts here.  No character of the first class is a dot and no digit is a slash, so a match is determined
  by its start.  Then the leftmost match, as its offset and the end of the group.\<close>

definition pci_char :: "char \<Rightarrow> bool" where
  "pci_char c \<longleftrightarrow> is_digit_of 16 c \<or> c = CHR '':'' \<or> c = CHR ''/''"

definition pci_match :: "string \<Rightarrow> nat option" where
  "pci_match s =
     (if take 12 s \<noteq> ''/devices/pci'' then None
      else
        let a = takeWhile pci_char (drop 12 s); r = drop (12 + length a) s;
            d = takeWhile c_isdigit (tl r); n = 12 + length a + 1 + length d
        in if a \<noteq> [] \<and> take 1 r = ''.'' \<and> d \<noteq> [] \<and> take 1 (drop n s) = ''/'' then Some n else None)"

fun pci_search :: "string \<Rightarrow> nat \<Rightarrow> (nat \<times> nat) option" where
  "pci_search [] i = None"
| "pci_search (c # cs) i =
     (case pci_match (c # cs) of Some n \<Rightarrow> Some (i, i + n) | None \<Rightarrow> pci_search cs (Suc i))"

text \<open>The device behind the link of the class entry: the offset of the match and its text up to the slash.
  A link of 1024 bytes or more fills the array, and the search runs out of it.\<close>

definition link_device :: "'w os \<Rightarrow> 'w dev \<Rightarrow> string \<Rightarrow> 'w numa \<Rightarrow> (nat \<times> string) option option" where
  "link_device K D fn s =
     (case (if os_malloc_ok K (world s) (length fn + 1) then dev_readlink D (world s) fn else None) of
        None \<Rightarrow> Some None
      | Some t \<Rightarrow>
          if 1024 \<le> length t then None
          else
            let path = t @ dev_stack D (world s)
            in Some (map_option (\<lambda>(so, eo). (so, take (eo + 1 - so) (drop so path))) (pci_search path 0)))"

definition class_file :: "string \<Rightarrow> string \<Rightarrow> string" where
  "class_file cls dev = ''/sys/class/'' @ cls @ ''/'' @ dev"

text \<open>The assertion fails when the match is at the start of the link.\<close>

definition affinity_class :: "'w os \<Rightarrow> 'w dev \<Rightarrow> bitmask \<Rightarrow> string \<Rightarrow> string \<Rightarrow> 'w numa \<Rightarrow>
    ((int \<times> bitmask) \<times> 'w numa) option" where
  "affinity_class K D msk cls dev s = do {
     let dev = dropWhile c_isspace dev;
     if badchar dev then do { s \<leftarrow> numa_warn W_badchar s; Some ((- 1, msk), s) }
     else do {
       hit \<leftarrow> link_device K D (class_file cls dev) s;
       case hit of
         Some (so, p) \<Rightarrow>
           if so = 0 then None else read_or_fail K msk (''/sys/'' @ p @ ''/numa_node'') s
       | None \<Rightarrow> do {
           ((ret, msk), s) \<leftarrow> read_or_fail K msk (class_file cls dev @ ''/device/numa_node'') s;
           Some ((if ret < 0 then ret else 0, msk), s)
         }
     }
   }"

section \<open>The device of a file\<close>

text \<open>\<open>sscanf(dev, "%u:%u", &maj, &min)\<close> with both fields read.\<close>

definition scan_uint :: "string \<Rightarrow> (nat \<times> string) option" where
  "scan_uint s = (let (v, end) = strtoul s 10 in if end = s then None else Some (v mod 2 ^ 32, end))"

definition scan_dev :: "string \<Rightarrow> (nat \<times> nat) option" where
  "scan_dev s =
     (case scan_uint s of
        None \<Rightarrow> None
      | Some (maj, r) \<Rightarrow>
          if take 1 r \<noteq> '':'' then None
          else case scan_uint (tl r) of None \<Rightarrow> None | Some (mn, _) \<Rightarrow> Some (maj, mn))"

fun affinity_file_loop :: "'w os \<Rightarrow> 'w dev \<Rightarrow> bitmask \<Rightarrow> nat \<times> nat \<Rightarrow> string list \<Rightarrow> 'w numa \<Rightarrow>
    ((int \<times> bitmask) \<times> 'w numa) option" where
  "affinity_file_loop K D msk d [] s = do { s \<leftarrow> numa_warn W_blockdev5 s; Some ((- 1, msk), s) }"
| "affinity_file_loop K D msk d (name # names) s =
     (if take 1 name = ''.'' then affinity_file_loop K D msk d names s
      else
        let (dev, s) = sysfs_read K (''/sys/class/block/'' @ name @ ''/dev'') s in
        case Option.bind dev scan_dev of
          None \<Rightarrow> do { s \<leftarrow> numa_warn W_blockdev3 s; affinity_file_loop K D msk d names s }
        | Some n \<Rightarrow> if n \<noteq> d then affinity_file_loop K D msk d names s
                    else affinity_class K D msk ''block'' name s)"

definition affinity_file :: "'w os \<Rightarrow> 'w dev \<Rightarrow> bitmask \<Rightarrow> string \<Rightarrow> 'w numa \<Rightarrow>
    ((int \<times> bitmask) \<times> 'w numa) option" where
  "affinity_file K D msk fl s =
     (case dev_stat D (world s) fl of
        Inl e \<Rightarrow> do { s \<leftarrow> numa_warn W_blockdev1 (s\<lparr>errno := e\<rparr>); Some ((- 1, msk), s) }
      | Inr (k, st_dev, st_rdev) \<Rightarrow>
          let (cls, d) = (case k of S_CHR \<Rightarrow> (''misc'', st_rdev) | S_BLK \<Rightarrow> (''block'', st_rdev)
                                  | S_other \<Rightarrow> (''block'', st_dev))
          in case os_dir K (world s) (''/sys/class/'' @ cls) of
               None \<Rightarrow> do { s \<leftarrow> numa_warn W_blockdev2 s; Some ((- 1, msk), s) }
             | Some names \<Rightarrow> affinity_file_loop K D msk d names s)"

section \<open>Addresses and PCI devices\<close>

definition affinity_ip :: "'w os \<Rightarrow> 'w dev \<Rightarrow> bitmask \<Rightarrow> string \<Rightarrow> 'w numa \<Rightarrow>
    ((int \<times> bitmask) \<times> 'w numa) option" where
  "affinity_ip K D msk ident s =
     (case ro_getaddrinfo (dev_route D) (world s) ident of
        None \<Rightarrow> do {
          s \<leftarrow> numa_warn W_net1 s;
          Some ((- 1, msk), s)
        }
      | Some ai \<Rightarrow> do {
          (iif, s) \<leftarrow> find_route (dev_route D) ai s;
          case iif of
            None \<Rightarrow> Some ((- 1, msk), s)
          | Some iif \<Rightarrow>
              (case iif_to_name (dev_route D) iif s of
                 (None, s) \<Rightarrow> do {
                   s \<leftarrow> numa_warn W_net2 s;
                   Some ((- 1, msk), s)
                 }
               | (Some name, s) \<Rightarrow> affinity_class K D msk ''net'' name s)
        })"

text \<open>One \<open>%x\<close> of \<open>sscanf\<close>: unlike \<open>strtoul\<close>, it fails on a prefix \<open>0x\<close> without a digit behind it.\<close>

definition scan_hex :: "string \<Rightarrow> (nat \<times> string) option" where
  "scan_hex s =
     (let (v, end) = strtoul s 16; t = snd (take_sign (dropWhile c_isspace s)) in
      if end = s \<or> (end = drop 1 t \<and> take 1 t = ''0'' \<and> (take 1 end = ''x'' \<or> take 1 end = ''X'')) then None
      else Some (v mod 2 ^ 32, end))"

text \<open>The fields of a format whose conversions are separated by the given characters, as many as match.\<close>

fun scan_fields :: "string \<Rightarrow> string \<Rightarrow> nat list" where
  "scan_fields seps s =
     (case scan_hex s of
        None \<Rightarrow> []
      | Some (v, r) \<Rightarrow>
          (case seps of
             [] \<Rightarrow> [v]
           | c # seps \<Rightarrow> if take 1 r = [c] then v # scan_fields seps (tl r) else [v]))"

definition pci_file :: "nat \<Rightarrow> nat \<Rightarrow> nat \<Rightarrow> nat \<Rightarrow> string" where
  "pci_file seg bus dev func =
     ''/sys/devices/pci'' @ hex_field 4 seg @ '':'' @ hex_field 2 bus @ ''/'' @ hex_field 4 seg @ '':'' @
     hex_field 2 bus @ '':'' @ hex_field 2 dev @ ''.'' @ hex_nat func @ ''/numa_node''"

definition parse_pci :: "string \<Rightarrow> (nat \<times> nat \<times> nat \<times> nat) option" where
  "parse_pci ident =
     (case scan_fields ''::.'' ident of
        [seg, bus, dev, func] \<Rightarrow> Some (seg, bus, dev, func)
      | [seg, bus, dev] \<Rightarrow> Some (seg, bus, dev, 0)
      | _ \<Rightarrow>
          (case scan_fields '':.'' ident of
             [bus, dev, func] \<Rightarrow> Some (0, bus, dev, func)
           | [bus, dev] \<Rightarrow> Some (0, bus, dev, 0)
           | _ \<Rightarrow> None))"

definition affinity_pci :: "'w os \<Rightarrow> bitmask \<Rightarrow> string \<Rightarrow> 'w numa \<Rightarrow> ((int \<times> bitmask) \<times> 'w numa) option" where
  "affinity_pci K msk ident s =
     (case parse_pci ident of
        None \<Rightarrow> do { s \<leftarrow> numa_warn W_pci1 s; Some ((- 1, msk), s) }
      | Some (seg, bus, dev, func) \<Rightarrow> do {
          ((ret, msk), s) \<leftarrow> read_or_fail K msk (pci_file seg bus dev func) s;
          Some ((if ret < 0 then ret else 0, msk), s)
        })"

section \<open>The table of handlers\<close>

datatype handler_fn = H_class | H_ip | H_file | H_pci

record handler =
  h_first :: char
  h_name :: string
  h_cls :: string
  h_handler :: handler_fn

definition handlers :: "handler list" where
  "handlers =
     [\<lparr>h_first = CHR ''n'', h_name = ''netdev:'', h_cls = ''net'', h_handler = H_class\<rparr>,
      \<lparr>h_first = CHR ''i'', h_name = ''ip:'', h_cls = '''', h_handler = H_ip\<rparr>,
      \<lparr>h_first = CHR ''f'', h_name = ''file:'', h_cls = '''', h_handler = H_file\<rparr>,
      \<lparr>h_first = CHR ''b'', h_name = ''block:'', h_cls = ''block'', h_handler = H_class\<rparr>,
      \<lparr>h_first = CHR ''p'', h_name = ''pci:'', h_cls = '''', h_handler = H_pci\<rparr>]"

definition call_handler :: "'w os \<Rightarrow> 'w dev \<Rightarrow> handler \<Rightarrow> bitmask \<Rightarrow> string \<Rightarrow> 'w numa \<Rightarrow>
    ((int \<times> bitmask) \<times> 'w numa) option" where
  "call_handler K D h msk desc s =
     (case h_handler h of
        H_class \<Rightarrow> affinity_class K D msk (h_cls h) desc s
      | H_ip \<Rightarrow> affinity_ip K D msk desc s
      | H_file \<Rightarrow> affinity_file K D msk desc s
      | H_pci \<Rightarrow> affinity_pci K msk desc s)"

fun handler_loop :: "'w os \<Rightarrow> 'w dev \<Rightarrow> handler list \<Rightarrow> 'w resolver" where
  "handler_loop K D [] ident msk s = Some ((NO_IO_AFFINITY, msk), s)"
| "handler_loop K D (h # hs) ident msk s =
     (if take 1 ident = [h_first h] \<and> take (length (h_name h)) ident = h_name h
      then do {
        ((ret, msk), s) \<leftarrow> call_handler K D h msk (drop (length (h_name h)) ident) s;
        s \<leftarrow> (if ret = - 2 then numa_warn W_nonode s else Some s);
        Some ((ret, msk), s)
      }
      else handler_loop K D hs ident msk s)"

definition resolve_affinity :: "'w os \<Rightarrow> 'w dev \<Rightarrow> 'w resolver" where
  "resolve_affinity K D = handler_loop K D handlers"

end
