(* ===== verification/Meminfo.thy ===== *)
theory Meminfo
  imports Setup
begin

text \<open>
  The size of a node (\<open>libnuma.c\<close> lines 831-889): the file \<open>meminfo\<close> of the node is read line by line; the
  number in front of the first \<open>kB\<close> of a line is its value.  Pointers into the line are indices.
\<close>

section \<open>Searching in a line\<close>

text \<open>\<open>while (s > line && P(*s)) --s\<close>.\<close>

fun back_while :: "(char \<Rightarrow> bool) \<Rightarrow> string \<Rightarrow> nat \<Rightarrow> nat" where
  "back_while P line 0 = 0"
| "back_while P line (Suc p) = (if P (line ! Suc p) then back_while P line p else Suc p)"

section \<open>One line, and the file\<close>

text \<open>A value: \<open>strtoull(s, &end, 0) << 10\<close>, stored in a \<open>long long\<close>, or -1 when there is no number.  The
  first component tells whether there was one.\<close>

definition kb_value :: "string \<Rightarrow> bool \<times> int" where
  "kb_value s = (let (v, end) = strtoul s 0 in if end = s then (False, - 1) else (True, c_long (int v * 1024)))"

text \<open>The state of the loop: the size, the free memory and the counter \<open>ok\<close>.  When the unit is at the very
  start of the line, the pointer moves in front of it, and reading a value there is undefined.\<close>

definition meminfo_line :: "bool \<Rightarrow> string \<Rightarrow> int \<times> int \<times> int \<Rightarrow> (int \<times> int \<times> int) option" where
  "meminfo_line freep line = (\<lambda>(sz, free, ok).
     case strcasestr line ''kB'' of
       None \<Rightarrow> Some (sz, free, ok)
     | Some k \<Rightarrow>
         let total_line = (strstr line ''MemTotal'' \<noteq> None);
             free_line = (freep \<and> strstr line ''MemFree'' \<noteq> None)
         in if k = 0 then (if total_line \<or> free_line then None else Some (sz, free, ok))
            else
              let s = drop (back_while c_isdigit line (back_while c_isspace line (k - 1))) line;
                  (found, v) = kb_value s;
                  (sz, ok) = (if total_line then (v, if found then ok + 1 else ok) else (sz, ok));
                  (free, ok) = (if free_line then (v, if found then ok + 1 else ok) else (free, ok))
              in Some (sz, free, ok))"

definition meminfo_file :: "int \<Rightarrow> string" where
  "meminfo_file node = ''/sys/devices/system/node/node'' @ dec_int node @ ''/meminfo''"

text \<open>Returns the size and what \<open>*freep\<close> holds, which counts only when the caller passed a pointer.\<close>

definition numa_node_size64 :: "'w os \<Rightarrow> int \<Rightarrow> bool \<Rightarrow> 'w numa \<Rightarrow> ((int \<times> int) \<times> 'w numa) option" where
  "numa_node_size64 K node freep s =
     (case os_file K (world s) (meminfo_file node) of
        Inl e \<Rightarrow> Some ((- 1, 0), s\<lparr>errno := e\<rparr>)
      | Inr t \<Rightarrow> do {
          (sz, free, ok) \<leftarrow> foldM (meminfo_line freep) (file_lines t) (- 1, 0, 0);
          s \<leftarrow> (if ok \<noteq> (if freep then 2 else 1) then numa_warn W_badmeminfo s else Some s);
          Some ((sz, free), s)
        })"

definition numa_node_size :: "'w os \<Rightarrow> int \<Rightarrow> 'w numa \<Rightarrow> ((int \<times> int) \<times> 'w numa) option" where
  "numa_node_size K node s = numa_node_size64 K node True s"

section \<open>What the kernel prints is read back\<close>

text \<open>A line of \<open>meminfo\<close>: \<open>Node 0 MemTotal:  16384 kB\<close>.\<close>

definition meminfo_entry :: "nat \<Rightarrow> string \<Rightarrow> nat \<Rightarrow> nat \<Rightarrow> string" where
  "meminfo_entry node key blanks v =
     (''Node '' @ dec_nat node @ '' '' @ key @ '':'' @ replicate (Suc blanks) CHR '' '') @ dec_nat v @ '' kB'' @ [CHR 0x0A]"

lemma find_sub_append:
  assumes "pat \<noteq> []" "\<forall>c \<in> set u. f c \<noteq> f (hd pat)"
  shows "find_sub f pat (u @ r) = map_option ((+) (length u)) (find_sub f pat r)"
  using assms(2)
proof (induction u)
  case Nil
  then show ?case by (simp add: option.map_ident)
next
  case (Cons c u)
  have "map f (take (length pat) ((c # u) @ r)) \<noteq> map f pat"
    using Cons.prems assms(1) by (cases pat) auto
  then show ?case using Cons by (simp add: option.map_comp comp_def)
qed

lemma back_while_run:
  assumes "\<forall>c \<in> set v. P c" "\<not> P x"
  shows "back_while P (u @ x # v @ r) (length u + length v) = length u"
  using assms
proof (induction v arbitrary: r rule: rev_induct)
  case Nil
  then show ?case by (cases "length u") (simp_all add: nth_append)
next
  case (snoc c v)
  have "(u @ x # v @ c # r) ! Suc (length u + length v) = c" by (simp add: nth_append)
  then show ?case using snoc.IH [of "c # r"] snoc.prems by simp
qed

lemma dec_nat_not_in:
  assumes "\<not> is_digit_of 10 c"
  shows "c \<notin> set (dec_nat n)"
  using assms set_dec_nat [of c n] by blast

lemma find_sub_found: "find_sub f pat (u @ pat @ r) \<noteq> None"
proof (induction u)
  case Nil
  then show ?case by (cases pat; cases r) simp_all
qed simp

lemma find_sub_absent:
  assumes "pat \<noteq> []" "\<forall>c \<in> set s. f c \<noteq> f (hd pat)"
  shows "find_sub f pat s = None"
  using find_sub_append [OF assms, of "[]"] assms(1) by simp

lemma toupper_K: "c_toupper c = CHR ''K'' \<Longrightarrow> c = CHR ''k'' \<or> c = CHR ''K''"
proof -
  assume a: "c_toupper c = CHR ''K''"
  show ?thesis
  proof (cases "97 \<le> char_code c \<and> char_code c \<le> 122")
    case True
    then have "char_code c - 32 < 256" by linarith
    then have "char_code (char_of (char_code c - 32)) = char_code c - 32" by (simp add: char_code_def)
    moreover have "char_of (char_code c - 32) = CHR ''K''" using a True by (simp add: c_toupper_def)
    ultimately have "char_code c - 32 = char_code CHR ''K''" by simp
    then have "char_code c = char_code CHR ''k''" using True by (simp add: char_code_def)
    then have "c = CHR ''k''" by (simp only: char_code_def of_char_eq_iff)
    then show ?thesis ..
  next
    case False
    then have "c_toupper c = c" by (auto simp: c_toupper_def)
    then show ?thesis using a by simp
  qed
qed

lemma strtoul_blank:
  assumes "strtoul s b = (v, r)" "length r < length s"
  shows "strtoul (CHR '' '' # s) b = (v, r)"
proof -
  have "scan_int (CHR '' '' # s) b = scan_int s b" by (simp add: scan_int_def c_isspace_def char_code_def)
  then show ?thesis using assms by (auto simp: strtoul_def split: option.splits)
qed

lemma file_lines_concat:
  assumes "\<forall>l \<in> set ls. \<exists>u. l = u @ [CHR 0x0A] \<and> CHR 0x0A \<notin> set u"
  shows "file_lines (concat ls) = ls"
proof -
  have step: "split_lines acc (u @ CHR 0x0A # r) = (rev acc @ u @ [CHR 0x0A]) # split_lines [] r"
    if "CHR 0x0A \<notin> set u" for acc u r
    using that by (induction u arbitrary: acc) auto
  have "split_lines [] (concat ls) = ls"
    using assms by (induction ls) (auto simp: step)
  then show ?thesis by (simp add: file_lines_def)
qed

lemma meminfo_entry_value:
  assumes v: "v * 1024 < 2 ^ 63" and key: "CHR ''k'' \<notin> set key" "CHR ''K'' \<notin> set key"
  shows "\<exists>k. strcasestr (meminfo_entry node key blanks v) ''kB'' = Some (Suc k) \<and>
    kb_value (drop (back_while c_isdigit (meminfo_entry node key blanks v)
      (back_while c_isspace (meminfo_entry node key blanks v) k)) (meminfo_entry node key blanks v)) = (True, int v * 1024)"
proof -
  define x where "x = ''Node '' @ dec_nat node @ '' '' @ key @ '':'' @ replicate blanks CHR '' ''"
  define d where "d = dec_nat v"
  let ?l = "x @ CHR '' '' # d @ '' kB'' @ [CHR 0x0A]"
  have l: "meminfo_entry node key blanks v = ?l"
    by (simp add: meminfo_entry_def x_def d_def replicate_append_same [symmetric])
  obtain e z where d: "d = e @ [z]" unfolding d_def by (metis append_butlast_last_id dec_nat_neq_Nil)
  have dg: "c_isdigit c" "\<not> c_isspace c" if "c \<in> set d" for c
    using set_dec_nat [of c v] that
    by (auto simp: d_def is_digit_of_def digit_val_def c_isdigit_def c_isspace_def Let_def split: if_splits)
  have nk: "c_toupper c \<noteq> c_toupper CHR ''k''" if "c \<in> set (x @ CHR '' '' # d @ '' '')" for c
  proof -
    have "c_toupper CHR ''k'' = CHR ''K''" by code_simp
    moreover have "c \<noteq> CHR ''k''" "c \<noteq> CHR ''K''"
      using that key set_dec_nat [of c] by (auto simp: x_def d_def is_digit_of_def digit_val_def char_code_def)
    ultimately show ?thesis using toupper_K [of c] by auto
  qed
  define k where "k = length x + length d + 1"
  have ll: "length (x @ CHR '' '' # d @ '' '') = Suc k" by (simp add: k_def)
  have "strcasestr ((x @ CHR '' '' # d @ '' '') @ ''kB'' @ [CHR 0x0A]) ''kB'' = Some (Suc k)"
    unfolding strcasestr_def using nk by (subst find_sub_append) (simp_all add: k_def)
  then have s: "strcasestr ?l ''kB'' = Some (Suc k)" by simp
  have "\<not> c_isspace z" using dg(2) d by simp
  then have b1: "back_while c_isspace ((x @ CHR '' '' # e) @ z # '' '' @ ''kB'' @ [CHR 0x0A]) (length (x @ CHR '' '' # e) + length '' '')
      = length (x @ CHR '' '' # e)"
    by (intro back_while_run) (simp_all add: c_isspace_def char_code_def)
  have b2: "back_while c_isdigit (x @ CHR '' '' # d @ '' kB'' @ [CHR 0x0A]) (length x + length d) = length x"
    using dg(1) by (intro back_while_run) (simp_all add: c_isdigit_def char_code_def)
  have st: "strtoul (CHR '' '' # d @ '' kB'' @ [CHR 0x0A]) 0 = (v, '' kB'' @ [CHR 0x0A])"
  proof (rule strtoul_blank)
    show "strtoul (d @ '' kB'' @ [CHR 0x0A]) 0 = (v, '' kB'' @ [CHR 0x0A])"
      unfolding d_def using v by (intro strtoul_dec_nat)
        (simp_all add: ULONG_MAX_def starts_digit_def is_digit_of_def digit_val_def char_code_def)
  qed (use d in simp)
  have "int (v * 1024) < 2 ^ 63" using v by (metis of_nat_less_iff of_nat_numeral of_nat_power)
  moreover have "- (2 ^ 63) \<le> int (v * 1024)" by (rule order_trans [of _ 0]) simp_all
  ultimately have "c_long (int (v * 1024)) = int (v * 1024)" by (rule c_long_id [rotated])
  then have "kb_value (CHR '' '' # d @ '' kB'' @ [CHR 0x0A]) = (True, int v * 1024)"
    using st by (auto simp: kb_value_def dest: arg_cong [of _ _ length])
  moreover have "back_while c_isspace ?l k = length x + length d" using b1 by (simp add: d k_def)
  ultimately show ?thesis unfolding l using s b2 by simp
qed

lemma meminfo_other_line:
  assumes "strstr l ''MemTotal'' = None" "strstr l ''MemFree'' = None"
  shows "meminfo_line freep l st = Some st"
  using assms by (cases st) (simp add: meminfo_line_def split: option.splits prod.splits)

text \<open>A key is not found in the line of another one that starts with the same letter only.\<close>

lemma other_key:
  assumes "pat = CHR ''M'' # p" "key = CHR ''M'' # k" "CHR ''M'' \<notin> set k"
    and "\<And>r. take (length pat) (key @ CHR '':'' # r) \<noteq> pat"
  shows "strstr (meminfo_entry node key blanks v) pat = None"
proof -
  have m: "CHR ''M'' \<notin> set (dec_nat n)" for n
    by (rule dec_nat_not_in) (simp add: is_digit_of_def digit_val_def char_code_def)
  let ?r = "'':'' @ replicate (Suc blanks) CHR '' '' @ dec_nat v @ '' kB'' @ [CHR 0x0A]"
  have "find_sub id pat ((''Node '' @ dec_nat node @ '' '') @ key @ ?r) =
      map_option ((+) (length (''Node '' @ dec_nat node @ '' ''))) (find_sub id pat (key @ ?r))"
    using assms(1) m by (intro find_sub_append) auto
  moreover have "find_sub id pat (key @ ?r) = None"
  proof -
    have "take (length pat) (key @ ?r) \<noteq> pat" using assms(4) by simp
    moreover have "find_sub id pat (k @ ?r) = None"
      using assms(1,3) m by (intro find_sub_absent) auto
    ultimately show ?thesis by (simp add: assms(2))
  qed
  ultimately show ?thesis by (simp add: meminfo_entry_def strstr_def)
qed

lemma meminfo_total_line:
  assumes "v * 1024 < 2 ^ 63"
  shows "meminfo_line freep (meminfo_entry node ''MemTotal'' blanks v) (sz, free, ok) = Some (int v * 1024, free, ok + 1)"
proof -
  let ?l = "meminfo_entry node ''MemTotal'' blanks v"
  have "strstr ?l ''MemTotal'' \<noteq> None"
    using find_sub_found [of id "''MemTotal''" "''Node '' @ dec_nat node @ '' ''"]
    by (simp add: meminfo_entry_def strstr_def)
  moreover have "strstr ?l ''MemFree'' = None"
    by (rule other_key [OF refl refl]) simp_all
  ultimately show ?thesis
    using meminfo_entry_value [OF assms, of "''MemTotal''" node blanks] by (auto simp: meminfo_line_def)
qed

lemma meminfo_free_line:
  assumes "v * 1024 < 2 ^ 63"
  shows "meminfo_line freep (meminfo_entry node ''MemFree'' blanks v) (sz, free, ok) =
    Some (if freep then (sz, int v * 1024, ok + 1) else (sz, free, ok))"
proof -
  let ?l = "meminfo_entry node ''MemFree'' blanks v"
  have "strstr ?l ''MemFree'' \<noteq> None"
    using find_sub_found [of id "''MemFree''" "''Node '' @ dec_nat node @ '' ''"]
    by (simp add: meminfo_entry_def strstr_def)
  moreover have "strstr ?l ''MemTotal'' = None"
    by (rule other_key [OF refl refl]) simp_all
  ultimately show ?thesis
    using meminfo_entry_value [OF assms, of "''MemFree''" node blanks] by (auto simp: meminfo_line_def)
qed

lemma foldM_other_lines:
  "\<forall>l \<in> set ls. strstr l ''MemTotal'' = None \<and> strstr l ''MemFree'' = None \<Longrightarrow> foldM (meminfo_line freep) ls st = Some st"
  by (induction ls) (simp_all add: meminfo_other_line)

lemma meminfo_entry_ends: "CHR 0x0A \<notin> set key \<Longrightarrow> \<exists>u. meminfo_entry node key blanks v = u @ [CHR 0x0A] \<and> CHR 0x0A \<notin> set u"
proof -
  assume k: "CHR 0x0A \<notin> set key"
  have "CHR 0x0A \<notin> set (dec_nat n)" for n
    by (rule dec_nat_not_in) (simp add: is_digit_of_def digit_val_def char_code_def)
  then show ?thesis using k
    by (intro exI [of _ "butlast (meminfo_entry node key blanks v)"]) (simp add: meminfo_entry_def butlast_append)
qed

lemma node_size_run:
  assumes fl: "os_file K (world s) (meminfo_file node) =
      Inr (concat (pre @ [meminfo_entry n ''MemTotal'' b1 tot] @ mid @ [meminfo_entry n ''MemFree'' b2 avail] @ post))"
    and others: "\<forall>l \<in> set (pre @ mid @ post). (\<exists>u. l = u @ [CHR 0x0A] \<and> CHR 0x0A \<notin> set u) \<and>
      strstr l ''MemTotal'' = None \<and> strstr l ''MemFree'' = None"
    and v: "tot * 1024 < 2 ^ 63" "avail * 1024 < 2 ^ 63"
  shows "numa_node_size64 K node True s = Some ((int tot * 1024, int avail * 1024), s)"
    and "\<exists>f. numa_node_size64 K node False s = Some ((int tot * 1024, f), s)"
proof -
  let ?ls = "pre @ [meminfo_entry n ''MemTotal'' b1 tot] @ mid @ [meminfo_entry n ''MemFree'' b2 avail] @ post"
  have lines: "file_lines (concat ?ls) = ?ls"
  proof (rule file_lines_concat)
    have "\<exists>u. meminfo_entry n ''MemTotal'' b1 tot = u @ [CHR 0x0A] \<and> CHR 0x0A \<notin> set u"
      "\<exists>u. meminfo_entry n ''MemFree'' b2 avail = u @ [CHR 0x0A] \<and> CHR 0x0A \<notin> set u"
      by (rule meminfo_entry_ends, simp)+
    then show "\<forall>l \<in> set ?ls. \<exists>u. l = u @ [CHR 0x0A] \<and> CHR 0x0A \<notin> set u" using others by auto
  qed
  have fold: "foldM (meminfo_line freep) ?ls (- 1, 0, 0) =
      Some (if freep then (int tot * 1024, int avail * 1024, 2) else (int tot * 1024, 0, 1))" for freep
    using others by (simp add: foldM_append foldM_other_lines meminfo_total_line [OF v(1)] meminfo_free_line [OF v(2)])
  show "numa_node_size64 K node True s = Some ((int tot * 1024, int avail * 1024), s)"
    "\<exists>f. numa_node_size64 K node False s = Some ((int tot * 1024, f), s)"
    unfolding numa_node_size64_def fl sum.case lines fold by simp_all
qed

end
