(* ===== verification/Library.thy ===== *)
theory Library
  imports RunNode NodeString Affinity Distance Meminfo
begin

unbundle bit_operations_syntax

text \<open>
  The library as a state machine.  A process that uses \<open>libnuma\<close> calls its functions in any order, and between the
  calls the machine changes, \<open>errno\<close> is overwritten and the client sets the public flags.  What every call leaves
  alone is collected as frame facts, and what the globals of \<open>libnuma.c\<close> and \<open>distance.c\<close> promise to all of them is an
  invariant of every reachable state.
\<close>

section \<open>What the calls rely on\<close>

text \<open>What the constructor has found out: it is never changed afterwards.\<close>

definition setup_of :: "'w numa \<Rightarrow> (int \<times> int \<times> int \<times> int \<times> int \<times> int) \<times> bitmask option list" where
  "setup_of s =
     ((nodemask_sz s, cpumask_sz s, maxconfigurednode s, maxconfiguredcpu s, numprocnode s, numproccpu s),
      [numa_no_nodes_ptr s, numa_all_nodes_ptr s, numa_possible_nodes_ptr s, numa_all_cpus_ptr s,
       numa_possible_cpus_ptr s, numa_nodes_ptr s, numa_memnode_ptr s])"

lemma setup_wf: "setup_of t = setup_of s \<Longrightarrow> numa_wf t = numa_wf s"
  by (simp add: setup_of_def numa_wf_def)

text \<open>The table of the distances belongs to the nodes of the machine; the product of its size is computed in
  \<open>int\<close>.\<close>

definition distance_ok :: "'w numa \<Rightarrow> bool" where
  "distance_ok s \<longleftrightarrow>
     (case distance_table s of
        None \<Rightarrow> True
      | Some table \<Rightarrow> distance_numnodes s = maxconfigurednode s + 1 \<and>
          length table = c_ulong (c_int (distance_numnodes s * distance_numnodes s)))"

definition flags_ok :: "'w numa \<Rightarrow> bool" where
  "flags_ok s \<longleftrightarrow>
     (bind_policy s = MPOL_BIND \<or> bind_policy s = MPOL_PREFERRED \<or> bind_policy s = MPOL_PREFERRED_MANY) \<and>
     (mbind_flags s = 0 \<or> mbind_flags s = MPOL_MF_STRICT) \<and>
     (has_preferred_many s = - 1 \<or> has_preferred_many s = 0 \<or> has_preferred_many s = 1) \<and>
     (has_home_node s = - 1 \<or> has_home_node s = 0 \<or> has_home_node s = 1)"

definition lib_inv :: "'w numa \<Rightarrow> bool" where
  "lib_inv s \<longleftrightarrow> numa_wf s \<and> warnings_ok s \<and> cpu_cache_ok s \<and>
     length (node_cpu_mask_v1 s) = NUMA_NUM_NODES \<and> flags_ok s \<and> distance_ok s"

text \<open>A state \<open>t\<close> that a call may leave when it was entered in a state \<open>s\<close>.\<close>

definition keeps :: "'w numa \<Rightarrow> 'w numa \<Rightarrow> bool" where
  "keeps s t \<longleftrightarrow> setup_of t = setup_of s \<and> (lib_inv s \<longrightarrow> lib_inv t)"

lemma keeps_self [simp, intro!]: "keeps s s"
  by (simp add: keeps_def)

lemma keeps_trans: "keeps s t \<Longrightarrow> keeps t u \<Longrightarrow> keeps s u"
  by (simp add: keeps_def)

lemma setup_fields [simp]:
  "setup_of (t\<lparr>world := w\<rparr>) = setup_of t" "setup_of (t\<lparr>errno := e\<rparr>) = setup_of t"
  "setup_of (t\<lparr>err_out := o'\<rparr>) = setup_of t" "setup_of (t\<lparr>pagesize := p\<rparr>) = setup_of t"
  "setup_of (t\<lparr>run_mask_size := r\<rparr>) = setup_of t" "setup_of (t\<lparr>numa_all_nodes := m\<rparr>) = setup_of t"
  "setup_of (t\<lparr>node_cpu_mask_v1_stale := b\<rparr>) = setup_of t" "setup_of (t\<lparr>node_cpu_mask_v2_stale := b\<rparr>) = setup_of t"
  "setup_of (t\<lparr>numa_exit_on_error := b\<rparr>) = setup_of t" "setup_of (t\<lparr>numa_exit_on_warn := b\<rparr>) = setup_of t"
  "setup_of (t\<lparr>numa_fail_alloc_on_error := b\<rparr>) = setup_of t" "setup_of (t\<lparr>has_preferred_many := h\<rparr>) = setup_of t"
  "setup_of (t\<lparr>has_home_node := h\<rparr>) = setup_of t" "setup_of (t\<lparr>bind_policy := p\<rparr>) = setup_of t"
  "setup_of (t\<lparr>mbind_flags := f\<rparr>) = setup_of t" "setup_of (t\<lparr>node_cpu_mask_v1 := c\<rparr>) = setup_of t"
  "setup_of (t\<lparr>node_cpu_mask_v2 := c2\<rparr>) = setup_of t" "setup_of (t\<lparr>warned := wd\<rparr>) = setup_of t"
  "setup_of (t\<lparr>warn_out := wo\<rparr>) = setup_of t" "setup_of (t\<lparr>distance_numnodes := n\<rparr>) = setup_of t"
  "setup_of (t\<lparr>distance_table := d\<rparr>) = setup_of t"
  by (simp_all add: setup_of_def)

lemmas setup_fields_wf [simp] = setup_fields [THEN setup_wf]

lemma inv_fields [simp]:
  "lib_inv (t\<lparr>world := w\<rparr>) = lib_inv t" "lib_inv (t\<lparr>errno := e\<rparr>) = lib_inv t"
  "lib_inv (t\<lparr>err_out := o'\<rparr>) = lib_inv t" "lib_inv (t\<lparr>pagesize := p\<rparr>) = lib_inv t"
  "lib_inv (t\<lparr>run_mask_size := r\<rparr>) = lib_inv t" "lib_inv (t\<lparr>numa_all_nodes := m\<rparr>) = lib_inv t"
  "lib_inv (t\<lparr>node_cpu_mask_v1_stale := b\<rparr>) = lib_inv t" "lib_inv (t\<lparr>node_cpu_mask_v2_stale := b\<rparr>) = lib_inv t"
  "lib_inv (t\<lparr>numa_exit_on_error := b\<rparr>) = lib_inv t" "lib_inv (t\<lparr>numa_exit_on_warn := b\<rparr>) = lib_inv t"
  "lib_inv (t\<lparr>numa_fail_alloc_on_error := b\<rparr>) = lib_inv t"
  unfolding lib_inv_def setup_fields_wf by (simp_all add: warnings_ok_def cpu_cache_ok_def flags_ok_def distance_ok_def cong: option.case_cong)

lemma keeps_fields [simp]:
  "keeps s (t\<lparr>world := w\<rparr>) = keeps s t" "keeps s (t\<lparr>errno := e\<rparr>) = keeps s t"
  "keeps s (t\<lparr>err_out := o'\<rparr>) = keeps s t" "keeps s (t\<lparr>pagesize := p\<rparr>) = keeps s t"
  "keeps s (t\<lparr>run_mask_size := r\<rparr>) = keeps s t" "keeps s (t\<lparr>numa_all_nodes := m\<rparr>) = keeps s t"
  "keeps s (t\<lparr>node_cpu_mask_v1_stale := b\<rparr>) = keeps s t" "keeps s (t\<lparr>node_cpu_mask_v2_stale := b\<rparr>) = keeps s t"
  "keeps s (t\<lparr>numa_exit_on_error := b\<rparr>) = keeps s t" "keeps s (t\<lparr>numa_exit_on_warn := b\<rparr>) = keeps s t"
  "keeps s (t\<lparr>numa_fail_alloc_on_error := b\<rparr>) = keeps s t"
  by (simp_all only: keeps_def inv_fields setup_fields)

lemma inv_probes:
  "lib_inv t \<Longrightarrow> h = 0 \<or> h = 1 \<Longrightarrow> lib_inv (t\<lparr>has_preferred_many := h\<rparr>)"
  "lib_inv t \<Longrightarrow> h = 0 \<or> h = 1 \<Longrightarrow> lib_inv (t\<lparr>has_home_node := h\<rparr>)"
  "lib_inv t \<Longrightarrow> p = MPOL_BIND \<or> p = MPOL_PREFERRED \<or> p = MPOL_PREFERRED_MANY \<Longrightarrow> lib_inv (t\<lparr>bind_policy := p\<rparr>)"
  "lib_inv t \<Longrightarrow> f = 0 \<or> f = MPOL_MF_STRICT \<Longrightarrow> lib_inv (t\<lparr>mbind_flags := f\<rparr>)"
  "lib_inv t \<Longrightarrow> lib_inv (t\<lparr>node_cpu_mask_v1 := (node_cpu_mask_v1 t)[i := m]\<rparr>)"
  unfolding lib_inv_def setup_fields_wf
  by (simp_all add: warnings_ok_def cpu_cache_ok_def flags_ok_def distance_ok_def cong: option.case_cong)

lemma keeps_probes [simp]:
  "keeps s t \<Longrightarrow> h = 0 \<or> h = 1 \<Longrightarrow> keeps s (t\<lparr>has_preferred_many := h\<rparr>)"
  "keeps s t \<Longrightarrow> h = 0 \<or> h = 1 \<Longrightarrow> keeps s (t\<lparr>has_home_node := h\<rparr>)"
  "keeps s t \<Longrightarrow> p = MPOL_BIND \<or> p = MPOL_PREFERRED \<or> p = MPOL_PREFERRED_MANY \<Longrightarrow> keeps s (t\<lparr>bind_policy := p\<rparr>)"
  "keeps s t \<Longrightarrow> keeps s (t\<lparr>node_cpu_mask_v1 := (node_cpu_mask_v1 t)[i := m]\<rparr>)"
  by (simp_all add: keeps_def inv_probes)

section \<open>Calls that keep the state\<close>

text \<open>A call with result \<open>m\<close>, whose final state is \<open>g x\<close> for the result \<open>x\<close>, ends with \<open>P\<close> when it comes back.  The
  rules follow the shape of the call.\<close>

definition kept :: "('a \<Rightarrow> 'w numa) \<Rightarrow> ('w numa \<Rightarrow> bool) \<Rightarrow> 'a option \<Rightarrow> bool" where
  "kept g P m \<longleftrightarrow> (\<forall>x. m = Some x \<longrightarrow> P (g x))"

lemma kept_simps [simp]:
  "kept g P None" "kept g P (Some x) = P (g x)"
  by (simp_all add: kept_def)

named_theorems keep \<open>the calls that keep the state\<close>

lemma kept_bind [keep]:
  "kept snd P m \<Longrightarrow> (\<And>r t. P t \<Longrightarrow> kept g P (f (r, t))) \<Longrightarrow> kept g P (Option.bind m f)"
  by (cases m) (auto simp: kept_def)

lemma kept_bind_state [keep]:
  "kept id P n \<Longrightarrow> (\<And>t. P t \<Longrightarrow> kept g P (h t)) \<Longrightarrow> kept g P (Option.bind n h)"
  by (cases n) (auto simp: kept_def)

text \<open>A step that yields a value and no state.\<close>

lemma kept_bind_value: "(\<And>x :: 'b. kept g P (h x)) \<Longrightarrow> kept g P (Option.bind c h)"
  by (cases c) auto

lemmas kept_bind_values [keep] =
  kept_bind_value [where 'b = bitmask] kept_bind_value [where 'b = bool] kept_bind_value [where 'b = int] kept_bind_value [where 'b = nat]
  kept_bind_value [where 'b = "'v list"] kept_bind_value [where 'b = "int \<times> 'v list"]
  kept_bind_value [where 'b = "'v option"]

lemma kept_foldM [keep]:
  "P (snd z) \<Longrightarrow> (\<And>x r t. P t \<Longrightarrow> kept snd P (f x (r, t))) \<Longrightarrow> kept snd P (foldM f xs z)"
proof (induction xs arbitrary: z)
  case (Cons x xs)
  obtain r t where z: "z = (r, t)" by force
  then have "kept snd P (f x z)" using Cons.prems by simp
  then show ?case
    using Cons.IH [OF _ Cons.prems(2)] by (cases "f x z") simp_all
qed simp

lemmas steps = Let_def split_beta

lemma warn_keep [keep]: "keeps s0 s \<Longrightarrow> kept id (keeps s0) (numa_warn w s)"
proof (cases "numa_warn w s")
  case (Some t)
  assume k: "keeps s0 s"
  obtain wd wo where t: "t = s \<or> t = s\<lparr>warned := wd, warn_out := wo\<rparr>"
    using Some by (auto simp: numa_warn_unfold split: if_splits)
  then have "setup_of t = setup_of s" by auto
  moreover have "cpu_cache_ok t = cpu_cache_ok s" "distance_ok t = distance_ok s" "flags_ok t = flags_ok s"
    "node_cpu_mask_v1 t = node_cpu_mask_v1 s"
    using t by (auto simp: cpu_cache_ok_def distance_ok_def flags_ok_def cong: option.case_cong)
  ultimately have "keeps s0 t"
    using k warnings_ok_step [OF _ Some] setup_wf [of t s] by (simp add: keeps_def lib_inv_def)
  then show ?thesis using Some by simp
qed simp

lemma error_keep [keep]: "keeps s0 s \<Longrightarrow> kept id (keeps s0) (numa_error w s)"
  by (simp add: numa_error_unfold)

lemma alloc_keep [keep]: "keeps s0 s \<Longrightarrow> kept snd (keeps s0) (numa_bitmask_alloc K n s)"
  by (auto simp: numa_bitmask_alloc_def intro!: keep)

lemma alloc_mask_keep [keep]:
  "keeps s0 s \<Longrightarrow> kept snd (keeps s0) (numa_allocate_cpumask K s)" "keeps s0 s \<Longrightarrow> kept snd (keeps s0) (numa_allocate_nodemask K s)"
  "keeps s0 s \<Longrightarrow> kept snd (keeps s0) (allocate_nodemask_v1 K s)"
  by (auto simp: numa_allocate_cpumask_def numa_allocate_nodemask_def allocate_nodemask_v1_def intro!: keep)

text \<open>A call that always returns is a function to a pair.\<close>

lemma syscall_keep [simp]:
  "keeps s0 s \<Longrightarrow> keeps s0 (snd (get_mempolicy K p ws n a f s))"
  "keeps s0 s \<Longrightarrow> keeps s0 (snd (mbind K st len mode nm n f s))"
  "keeps s0 s \<Longrightarrow> keeps s0 (snd (set_mempolicy K p ws n s))"
  "keeps s0 s \<Longrightarrow> keeps s0 (snd (migrate_pages K pid n ws vs s))"
  "keeps s0 s \<Longrightarrow> keeps s0 (snd (move_pages K pid c pages ns status fl s))"
  "keeps s0 s \<Longrightarrow> keeps s0 (snd (set_mempolicy_home_node K st len nd fl s))"
  "keeps s0 s \<Longrightarrow> keeps s0 (snd (numa_sched_setaffinity_v1 K pid n ws s))"
  "keeps s0 s \<Longrightarrow> keeps s0 (snd (numa_sched_setaffinity_v2 K pid b s))"
  "keeps s0 s \<Longrightarrow> keeps s0 (snd (numa_sched_getaffinity_v1 K pid n ws s))"
  "keeps s0 s \<Longrightarrow> keeps s0 (snd (numa_sched_getaffinity_v2 K pid b s))"
  by (simp_all add: get_mempolicy_def mbind_def set_mempolicy_def migrate_pages_def move_pages_def
      set_mempolicy_home_node_def numa_sched_setaffinity_v1_def numa_sched_setaffinity_v2_def
      numa_sched_getaffinity_v1_def numa_sched_getaffinity_v2_def split: sum.splits prod.splits)

section \<open>Memory policy and allocation\<close>

lemma setpol_keep [keep]: "keeps s0 s \<Longrightarrow> kept id (keeps s0) (setpol K p b s)"
  by (auto simp: setpol_def steps intro!: keep)

lemma getpol_keep [keep]: "keeps s0 s \<Longrightarrow> kept snd (keeps s0) (getpol K p b s)"
  by (auto simp: getpol_def steps intro!: keep)

lemma dombind_keep [keep]: "keeps s0 s \<Longrightarrow> kept snd (keeps s0) (dombind K mem sz p b s)"
  by (auto simp: dombind_def steps intro!: keep)

lemma dombind_or_free_keep [keep]: "keeps s0 s \<Longrightarrow> kept snd (keeps s0) (dombind_or_free K mem sz p b s)"
  by (auto simp: dombind_or_free_def steps intro!: keep)

lemma pagesize_keep [simp]: "keeps s0 s \<Longrightarrow> keeps s0 (snd (numa_pagesize K s))"
  by (simp add: numa_pagesize_def)

lemma mems_allowed_keep [keep]: "keeps s0 s \<Longrightarrow> kept snd (keeps s0) (numa_get_mems_allowed K s)"
  by (auto simp: numa_get_mems_allowed_def steps intro!: keep split: option.split)

lemma available_keep [simp]: "keeps s0 s \<Longrightarrow> keeps s0 (snd (numa_available K s))"
  by (simp add: numa_available_def steps)

lemma probe_keep [keep]: "keeps s0 s \<Longrightarrow> kept id (keeps s0) (set_preferred_many K s)"
  by (auto simp: set_preferred_many_def steps intro!: keep split: option.split)

lemma mmap_keep [simp]: "keeps s0 s \<Longrightarrow> keeps s0 (snd (mmap_anon K sz s))"
  by (simp add: mmap_anon_def split: option.splits)

lemma pair_keep [simp]:
  "keeps s0 s \<Longrightarrow> keeps s0 (snd (numa_realloc K mem sz sz2 s))"
  "keeps s0 s \<Longrightarrow> keeps s0 (snd (numa_get_interleave_node K s))"
  "keeps s0 s \<Longrightarrow> keeps s0 (snd (numa_migrate_pages K pid b b' s))"
  "keeps s0 s \<Longrightarrow> keeps s0 (snd (numa_move_pages K pid count pages ns status fl s))"
  "keeps s0 s \<Longrightarrow> keeps s0 (numa_free K mem sz s)"
  by (simp_all add: numa_realloc_def numa_get_interleave_node_def numa_migrate_pages_def numa_move_pages_def
      numa_free_def steps split: option.splits)

lemma memory_keep [keep]:
  "keeps s0 s \<Longrightarrow> kept id (keeps s0) (numa_interleave_memory_v1 K mem sz m s)"
  "keeps s0 s \<Longrightarrow> kept id (keeps s0) (numa_interleave_memory_v2 K mem sz b s)"
  "keeps s0 s \<Longrightarrow> kept id (keeps s0) (numa_weighted_interleave_memory K mem sz b s)"
  "keeps s0 s \<Longrightarrow> kept id (keeps s0) (numa_tonodemask_memory_v1 K mem sz m s)"
  "keeps s0 s \<Longrightarrow> kept id (keeps s0) (numa_tonodemask_memory_v2 K mem sz b s)"
  "keeps s0 s \<Longrightarrow> kept id (keeps s0) (numa_setlocal_memory K mem sz s)"
  by (auto simp: numa_interleave_memory_v1_def numa_interleave_memory_v2_def numa_weighted_interleave_memory_def
      numa_tonodemask_memory_v1_def numa_tonodemask_memory_v2_def numa_setlocal_memory_def intro!: keep)

lemma tonode_keep [keep]: "keeps s0 s \<Longrightarrow> kept id (keeps s0) (numa_tonode_memory K mem sz node s)"
  by (auto simp: numa_tonode_memory_def intro!: keep split: option.split)

lemma police_keep [keep]: "keeps s0 s \<Longrightarrow> kept id (keeps s0) (numa_police_memory K mem sz s)"
  by (simp add: kept_def numa_police_memory_def steps bind_Some_iff) auto

lemma alloc_functions_keep [keep]:
  "keeps s0 s \<Longrightarrow> kept snd (keeps s0) (numa_alloc K sz s)"
  "keeps s0 s \<Longrightarrow> kept snd (keeps s0) (numa_alloc_interleaved_subset_v1 K sz m s)"
  "keeps s0 s \<Longrightarrow> kept snd (keeps s0) (numa_alloc_interleaved_subset_v2 K sz bo s)"
  "keeps s0 s \<Longrightarrow> kept snd (keeps s0) (numa_alloc_weighted_interleaved_subset K sz bo s)"
  "keeps s0 s \<Longrightarrow> kept snd (keeps s0) (numa_alloc_local K sz s)"
  by (auto simp: numa_alloc_def numa_alloc_interleaved_subset_v1_def numa_alloc_interleaved_subset_v2_def
      numa_alloc_weighted_interleaved_subset_def numa_alloc_local_def steps intro!: keep split: option.split)

lemma alloc_onnode_keep [keep]: "keeps s0 s \<Longrightarrow> kept snd (keeps s0) (numa_alloc_onnode K sz node s)"
  by (auto simp: numa_alloc_onnode_def steps intro!: keep split: option.split)

lemma interleave_keep [keep]:
  "keeps s0 s \<Longrightarrow> kept id (keeps s0) (numa_set_interleave_mask_v1 K m s)"
  "keeps s0 s \<Longrightarrow> kept id (keeps s0) (numa_set_interleave_mask_v2 K b s)"
  "keeps s0 s \<Longrightarrow> kept id (keeps s0) (numa_set_weighted_interleave_mask K b s)"
  "keeps s0 s \<Longrightarrow> kept snd (keeps s0) (numa_get_interleave_mask_v1 K s)"
  "keeps s0 s \<Longrightarrow> kept snd (keeps s0) (numa_get_interleave_mask_v2 K s)"
  "keeps s0 s \<Longrightarrow> kept snd (keeps s0) (numa_get_weighted_interleave_mask K s)"
  by (auto simp: numa_set_interleave_mask_v1_def numa_set_interleave_mask_v2_def
      numa_set_weighted_interleave_mask_def numa_get_interleave_mask_v1_def numa_get_interleave_mask_v2_def
      numa_get_weighted_interleave_mask_def steps intro!: keep split: option.split)

lemma membind_keep [keep]:
  "keeps s0 s \<Longrightarrow> kept id (keeps s0) (numa_set_membind_v1 K m s)"
  "keeps s0 s \<Longrightarrow> kept id (keeps s0) (numa_set_membind_v2 K b s)"
  "keeps s0 s \<Longrightarrow> kept id (keeps s0) (numa_set_membind_balancing K b s)"
  "keeps s0 s \<Longrightarrow> kept snd (keeps s0) (numa_get_membind_v1 K s)"
  "keeps s0 s \<Longrightarrow> kept snd (keeps s0) (numa_get_membind_v2 K s)"
  "keeps s0 s \<Longrightarrow> kept id (keeps s0) (numa_set_bind_policy K strict s)"
  by (auto simp: numa_set_membind_v1_def numa_set_membind_v2_def numa_set_membind_balancing_def
      numa_get_membind_v1_def numa_get_membind_v2_def numa_set_bind_policy_def steps intro!: keep split: option.split)

lemma preferred_mask_keep [keep]: "keeps s0 s \<Longrightarrow> kept snd (keeps s0) (numa_preferred_mask K s)"
  by (auto simp: numa_preferred_mask_def steps intro!: keep split: option.split)

lemma preferred_keep [keep]:
  "keeps s0 s \<Longrightarrow> kept snd (keeps s0) (numa_preferred_err K s)"
  "keeps s0 s \<Longrightarrow> kept snd (keeps s0) (numa_preferred_many K s)"
  "keeps s0 s \<Longrightarrow> kept snd (keeps s0) (numa_has_preferred_many K s)"
  "keeps s0 s \<Longrightarrow> kept id (keeps s0) (set_preferred_mask K b s)"
  "keeps s0 s \<Longrightarrow> kept id (keeps s0) (numa_set_localalloc K s)"
  by (auto simp: numa_preferred_err_def numa_preferred_many_def numa_has_preferred_many_def set_preferred_mask_def
      numa_set_localalloc_def steps intro!: keep)

lemma set_preferred_keep [keep]:
  "keeps s0 s \<Longrightarrow> kept snd (keeps s0) (numa_preferred K s)" "keeps s0 s \<Longrightarrow> kept id (keeps s0) (numa_set_preferred K node s)"
  by (auto simp: numa_preferred_def numa_set_preferred_def intro!: keep split: option.split)

lemma set_preferred_many_keep [keep]: "keeps s0 s \<Longrightarrow> kept id (keeps s0) (numa_set_preferred_many K b s)"
  by (auto simp: numa_set_preferred_many_def steps intro!: keep)

lemma strict_keep: "keeps s0 s \<Longrightarrow> keeps s0 (numa_set_strict flag s)"
proof (cases "lib_inv s")
  case True
  have one: "MPOL_MF_STRICT OR MPOL_MF_STRICT = MPOL_MF_STRICT" "MPOL_MF_STRICT AND NOT MPOL_MF_STRICT = 0" by simp_all
  assume "keeps s0 s"
  moreover have "mbind_flags s = 0 \<or> mbind_flags s = MPOL_MF_STRICT" using True by (simp add: lib_inv_def flags_ok_def)
  then have "lib_inv (numa_set_strict flag s)"
    using inv_probes(4) [OF True] by (auto simp: numa_set_strict_def one)
  ultimately show ?thesis by (simp add: keeps_def numa_set_strict_def)
qed (simp add: keeps_def numa_set_strict_def)

lemma home_node_keep [keep]:
  "keeps s0 s \<Longrightarrow> kept snd (keeps s0) (numa_has_home_node K s)"
  "keeps s0 s \<Longrightarrow> kept snd (keeps s0) (numa_set_mempolicy_home_node K start len hn fl s)"
  by (auto simp: numa_has_home_node_def numa_set_mempolicy_home_node_def steps intro!: keep split: option.split)

section \<open>The CPUs of the nodes\<close>

lemma nosysfs2_keep [keep]: "keeps s0 s \<Longrightarrow> kept id (keeps s0) (warn_nosysfs2 node s)"
  by (auto simp: warn_nosysfs2_def intro!: keep)

lemma read_cpumap_keep [keep]: "keeps s0 s \<Longrightarrow> kept snd (keeps s0) (read_cpumap K node m s)"
  by (auto simp: read_cpumap_def steps intro!: keep split: sum.split)

text \<open>Whatever a file holds, the mask that comes out of it has the shape of the mask that went in.\<close>

lemma read_cpumap_shape:
  assumes "read_cpumap K node m s = Some ((r, m'), t)" "bm_inv m"
  shows "bm_inv m' \<and> bm_size m' = bm_size m"
proof -
  have set: "bm_inv (if b then numa_bitmask_setall x else x) \<and> bm_size (if b then numa_bitmask_setall x else x) = bm_size x"
    if "bm_inv x" for b x using that setall_bits [OF that] by simp
  have parse: "bm_inv (snd (case l of None \<Rightarrow> (0, x) | Some l \<Rightarrow> numa_parse_bitmap_v2 l x)) \<and>
      bm_size (snd (case l of None \<Rightarrow> (0, x) | Some l \<Rightarrow> numa_parse_bitmap_v2 l x)) = bm_size x"
    if "bm_inv x" for l x using that parse_bitmap_inv [OF that] by (cases l) simp_all
  define u where "u = (case os_file K (world s) (cpumap_file node) of Inl _ \<Rightarrow> None | Inr t \<Rightarrow> Some (first_line t))"
  define m1 where "m1 = (if u = None \<or> u = Some [] then numa_bitmask_setall m else m)"
  define p where "p = (case u of None \<Rightarrow> (0, m1) | Some l \<Rightarrow> numa_parse_bitmap_v2 l m1)"
  have m1: "bm_inv m1 \<and> bm_size m1 = bm_size m" using set [OF assms(2)] unfolding m1_def by blast
  then have p: "bm_inv (snd p) \<and> bm_size (snd p) = bm_size m" using parse [of m1 u] unfolding p_def by simp
  have "m' = (if fst p < 0 then numa_bitmask_setall (snd p) else snd p)"
    using assms(1)
    by (auto simp: read_cpumap_def steps bind_Some_iff p_def m1_def u_def split: sum.splits if_splits)
  then show ?thesis using set [of "snd p"] p by simp
qed

text \<open>Storing a mask of the right size in the cache.\<close>

lemma store_keep:
  assumes "keeps s0 t" "lib_inv s0 \<Longrightarrow> int (length c) = nodemask_sz s0 \<and> (\<forall>m. Some m \<in> set c \<longrightarrow> mask_ok (cpumask_sz s0) (Some m))"
  shows "keeps s0 (t\<lparr>node_cpu_mask_v2 := Some c\<rparr>)"
proof -
  have "setup_of t = setup_of s0" using assms(1) by (simp add: keeps_def)
  then have "nodemask_sz t = nodemask_sz s0" "cpumask_sz t = cpumask_sz s0" by (simp_all add: setup_of_def)
  then have "cpu_cache_ok (t\<lparr>node_cpu_mask_v2 := Some c\<rparr>)" if "lib_inv s0"
    using assms(2) [OF that] by (simp add: cpu_cache_ok_def)
  moreover have "lib_inv (t\<lparr>node_cpu_mask_v2 := Some c\<rparr>)" if "lib_inv t" "cpu_cache_ok (t\<lparr>node_cpu_mask_v2 := Some c\<rparr>)"
    using that unfolding lib_inv_def setup_fields_wf
    by (simp add: warnings_ok_def flags_ok_def distance_ok_def cong: option.case_cong)
  ultimately show ?thesis using assms(1) by (simp add: keeps_def)
qed

lemma init_cache_keep [simp]: "keeps s0 s \<Longrightarrow> keeps s0 (init_node_cpu_mask_v2 K s)"
proof -
  assume k: "keeps s0 s"
  then have z: "nodemask_sz s = nodemask_sz s0" by (simp add: keeps_def setup_of_def)
  have "keeps s0 (s\<lparr>node_cpu_mask_v2 := Some (replicate (c_ulong (nodemask_sz s)) None)\<rparr>)"
  proof (rule store_keep [OF k])
    assume "lib_inv s0"
    then have "0 < nodemask_sz s0" "nodemask_sz s0 < 2 ^ 31" by (simp_all add: lib_inv_def numa_wf_def)
    then show "int (length (replicate (c_ulong (nodemask_sz s)) None)) = nodemask_sz s0 \<and>
        (\<forall>m. Some m \<in> set (replicate (c_ulong (nodemask_sz s)) None) \<longrightarrow> mask_ok (cpumask_sz s0) (Some m))"
      by (simp add: z c_ulong_id)
  qed
  then show ?thesis
    using k by (simp add: init_node_cpu_mask_v2_def numa_max_possible_node_v2_def numa_num_possible_nodes_def Let_def)
qed

text \<open>The mask that a lookup reads has the size of the kernel's CPU masks, and so has the mask it stores.\<close>

lemma lookup_read:
  assumes k: "keeps s0 s" and c: "node_cpu_mask_v2 s = Some cache" and "i < length cache"
    and m: "numa_allocate_cpumask K s = Some (Some m, s1)" "read_cpumap K node m s1 = Some ((err, m'), s2)"
  shows "keeps s0 s2" "keeps s0 (s2\<lparr>node_cpu_mask_v2 := Some (cache[i := Some m'])\<rparr>)"
    "cache ! i = Some e \<Longrightarrow> keeps s0 (s2\<lparr>node_cpu_mask_v2 := Some (cache[i := Some (copy_bitmask_to_bitmask m' e)])\<rparr>)"
proof -
  have s1: "keeps s0 s1" using alloc_mask_keep(1) [OF k, of K] m(1) by (simp add: kept_def)
  then show k2: "keeps s0 s2" using read_cpumap_keep [OF s1, of K node m] m(2) by (simp add: kept_def)
  have ok: "int (length cache) = nodemask_sz s0 \<and> bm_inv m' \<and> int (bm_size m') = cpumask_sz s0 \<and> cpumask_sz s0 < 2 ^ 31 \<and>
      (\<forall>x. Some x \<in> set cache \<longrightarrow> mask_ok (cpumask_sz s0) (Some x))" if I: "lib_inv s0"
  proof -
    have e: "nodemask_sz s = nodemask_sz s0" "cpumask_sz s = cpumask_sz s0" using k by (simp_all add: keeps_def setup_of_def)
    have wf: "0 < cpumask_sz s0" "cpumask_sz s0 < 2 ^ 31" using I by (simp_all add: lib_inv_def numa_wf_def)
    have "lib_inv s" using k I by (simp add: keeps_def)
    then have cc: "int (length cache) = nodemask_sz s0" "\<forall>x. Some x \<in> set cache \<longrightarrow> mask_ok (cpumask_sz s0) (Some x)"
      using c e by (simp_all add: lib_inv_def cpu_cache_ok_def)
    have "m = new_bitmask (nat (cpumask_sz s0))"
      using m(1) wf e(2)
      by (auto simp: numa_allocate_cpumask_def numa_num_possible_cpus_def numa_bitmask_alloc_def c_uint_id bind_Some_iff
          split: if_splits)
    then show ?thesis using read_cpumap_shape [OF m(2)] cc wf by simp
  qed
  have mem: "Some x \<in> set (cache[i := Some y]) \<Longrightarrow> x = y \<or> Some x \<in> set cache" for x y
    using set_update_subset_insert [of cache i "Some y"] by auto
  show "keeps s0 (s2\<lparr>node_cpu_mask_v2 := Some (cache[i := Some m'])\<rparr>)"
  proof (rule store_keep [OF k2])
    assume "lib_inv s0"
    from ok [OF this] show "int (length (cache[i := Some m'])) = nodemask_sz s0 \<and>
        (\<forall>x. Some x \<in> set (cache[i := Some m']) \<longrightarrow> mask_ok (cpumask_sz s0) (Some x))"
      using mem [of _ m'] by (auto simp: mask_ok_def)
  qed
  assume ce: "cache ! i = Some e"
  show "keeps s0 (s2\<lparr>node_cpu_mask_v2 := Some (cache[i := Some (copy_bitmask_to_bitmask m' e)])\<rparr>)"
  proof (rule store_keep [OF k2])
    assume "lib_inv s0"
    note O = ok [OF this]
    have "Some e \<in> set cache" using ce assms(3) by (metis nth_mem)
    then have "bm_inv e" "int (bm_size e) = cpumask_sz s0" using O by (simp_all add: mask_ok_def)
    moreover from this O have "bm_size m' = bm_size e" by linarith
    moreover have "bm_size m' < 2 ^ 32" using O by simp
    ultimately have "copy_bitmask_to_bitmask m' e = m'" using copy_same [of m' e] O by blast
    then show "int (length (cache[i := Some (copy_bitmask_to_bitmask m' e)])) = nodemask_sz s0 \<and>
        (\<forall>x. Some x \<in> set (cache[i := Some (copy_bitmask_to_bitmask m' e)]) \<longrightarrow> mask_ok (cpumask_sz s0) (Some x))"
      using O mem [of _ m'] by (auto simp: mask_ok_def)
  qed
qed

lemma node_to_cpus_keep [keep]: "keeps s0 s \<Longrightarrow> kept snd (keeps s0) (numa_node_to_cpus_v2 K node b s)"
proof -
  assume k: "keeps s0 s"
  define s1 where "s1 = (if node_cpu_mask_v2 s = None then init_node_cpu_mask_v2 K s else s)"
  have k1: "keeps s0 s1" using k by (simp add: s1_def)
  define s2 where "s2 = s1\<lparr>node_cpu_mask_v2_stale := False\<rparr>"
  have k2: "keeps s0 s2" using k1 by (simp add: s2_def)
  have "keeps s0 t" if run: "numa_node_to_cpus_v2 K node b s = Some (r, t)" for r t
  proof (cases "node < 0 \<or> numa_max_node s < node")
    case True
    then show ?thesis using run k1 by (auto simp: numa_node_to_cpus_v2_def s1_def [symmetric])
  next
    case False
    note U = run [unfolded numa_node_to_cpus_v2_def Let_def, folded s1_def, folded s2_def]
    obtain cache where c: "node_cpu_mask_v2 s2 = Some cache" "nat node < length cache"
      using U False by (auto simp: bind_Some_iff split: if_splits)
    show ?thesis
    proof (cases "\<exists>e. cache ! nat node = Some e \<and> \<not> node_cpu_mask_v2_stale s1")
      case True
      then obtain e where "cache ! nat node = Some e" "\<not> node_cpu_mask_v2_stale s1" by blast
      then show ?thesis
        using U False c k2 error_keep [of s0 "s2\<lparr>errno := EINVAL\<rparr>" "''map size mismatch''"]
        by (auto simp: bind_Some_iff kept_def split: if_splits)
    next
      case miss: False
      obtain m s3 where m: "numa_allocate_cpumask K s2 = Some (m, s3)"
        using U False c miss by (cases "cache ! nat node"; cases "node_cpu_mask_v2_stale s1") (auto simp: bind_Some_iff)
      have k3: "keeps s0 s3" using alloc_mask_keep(1) [OF k2, of K] m by (simp add: kept_def)
      show ?thesis
      proof (cases m)
        case None
        then show ?thesis
          using U False c miss m k3
          by (cases "cache ! nat node"; cases "node_cpu_mask_v2_stale s1") (auto simp: bind_Some_iff)
      next
        case (Some m0)
        obtain err m' s4 where rd: "read_cpumap K node m0 s3 = Some ((err, m'), s4)"
          using U False c miss m Some
          by (cases "cache ! nat node"; cases "node_cpu_mask_v2_stale s1") (auto simp: bind_Some_iff)
        note L = lookup_read [OF k2 c m [unfolded Some] rd]
        show ?thesis
          using U False c miss m Some rd L
          by (cases "cache ! nat node"; cases "node_cpu_mask_v2_stale s1") (auto split: if_splits)
      qed
    qed
  qed
  then show ?thesis by (auto simp: kept_def)
qed

text \<open>The version 1 lookup computes many values on its way; only the states among them matter.\<close>

lemma kept_let:
  "P t \<Longrightarrow> (\<And>t. P t \<Longrightarrow> kept g P (f1 t)) \<Longrightarrow> kept g P (Let t f1)"
  "(\<And>b :: bool. kept g P (f2 b)) \<Longrightarrow> kept g P (Let b f2)"
  "(\<And>i :: int. kept g P (f3 i)) \<Longrightarrow> kept g P (Let i f3)"
  "(\<And>k :: nat. kept g P (f8 k)) \<Longrightarrow> kept g P (Let k f8)"
  "(\<And>xs :: 'b list. kept g P (f4 xs)) \<Longrightarrow> kept g P (Let xs f4)"
  "(\<And>x :: string option. kept g P (f5 x)) \<Longrightarrow> kept g P (Let x f5)"
  "(\<And>y :: errno + string. kept g P (f6 y)) \<Longrightarrow> kept g P (Let y f6)"
  "(\<And>i :: int. \<And>ws :: ulong list. kept g P (f7 i ws)) \<Longrightarrow> kept g P (let (i, ws) = p in f7 i ws)"
  by (simp_all add: Let_def split_beta)

lemma node_to_cpus_v1_keep [keep]: "keeps s0 s \<Longrightarrow> kept snd (keeps s0) (numa_node_to_cpus_v1 K node b n s)"
  unfolding numa_node_to_cpus_v1_def
  by (auto intro!: keep kept_let split: option.split sum.split prod.split bool.split)

lemma node_of_cpu_loop_keep [keep]: "keeps s0 s \<Longrightarrow> kept snd (keeps s0) (node_of_cpu_loop K cpu nodes b s)"
  by (induction nodes arbitrary: b s) (auto intro!: keep split: prod.split)

lemma cpu_map_keep [keep]:
  "keeps s0 s \<Longrightarrow> kept snd (keeps s0) (numa_node_of_cpu K cpu s)"
  "keeps s0 s \<Longrightarrow> kept snd (keeps s0) (numa_is_cpuless_node K node s)"
  by (auto simp: numa_node_of_cpu_def numa_is_cpuless_node_def steps intro!: keep split: option.split prod.split)

lemma update_keep [simp]: "keeps s0 s \<Longrightarrow> keeps s0 (numa_node_to_cpu_update s)"
proof -
  have e: "numa_node_to_cpu_update s = (s\<lparr>node_cpu_mask_v1_stale := True\<rparr>)\<lparr>node_cpu_mask_v2_stale := True\<rparr>"
    by (simp add: numa_node_to_cpu_update_def)
  show "keeps s0 s \<Longrightarrow> keeps s0 (numa_node_to_cpu_update s)" unfolding e keeps_fields .
qed

section \<open>Running on nodes\<close>

lemma setaffinity_result: "numa_sched_setaffinity_v1 K pid n ws s = (r, t) \<Longrightarrow> keeps s0 s \<Longrightarrow> keeps s0 t"
  using syscall_keep(7) [of s0 s K pid n ws] by simp

lemma affinity_loop_keep [keep]: "keeps s0 s \<Longrightarrow> kept snd (keeps s0) (affinity_loop_v1 K buf err s)"
proof -
  have "affinity_loop_v1 K buf err s = Some r \<Longrightarrow> keeps s0 s \<longrightarrow> keeps s0 (snd r)" for r
    by (erule affinity_loop_v1.raw_induct [rotated])
      (auto simp: split_beta Let_def intro: setaffinity_result split: if_splits)
  then show "keeps s0 s \<Longrightarrow> kept snd (keeps s0) (affinity_loop_v1 K buf err s)" by (simp add: kept_def)
qed

lemma run_step_keep [keep]:
  "keeps s0 s \<Longrightarrow> kept snd (keeps s0) (run_mask_step_v1 K m n i (p, s))"
  "keeps s0 s \<Longrightarrow> kept snd (keeps s0) (run_mask_step K allowed bmp nc i (q, s))"
  "keeps s0 s \<Longrightarrow> kept snd (keeps s0) (get_run_step K b longs cpus i (u, s))"
  by (auto simp: run_mask_step_v1_def run_mask_step_def get_run_step_def steps intro!: keep split: option.split prod.split)

lemma run_mask_v1_keep [keep]: "keeps s0 s \<Longrightarrow> kept snd (keeps s0) (numa_run_on_node_mask_v1 K m s)"
  by (auto simp: numa_run_on_node_mask_v1_def steps intro!: keep split: prod.split)

lemma run_on_mask_keep [keep]: "keeps s0 s \<Longrightarrow> kept snd (keeps s0) (run_on_mask K allowed b s)"
  by (auto simp: run_on_mask_def steps intro!: keep split: prod.split)

lemma run_keep [keep]:
  "keeps s0 s \<Longrightarrow> kept snd (keeps s0) (numa_run_on_node_mask_v2 K b s)"
  "keeps s0 s \<Longrightarrow> kept snd (keeps s0) (numa_run_on_node_mask_all K b s)"
  "keeps s0 s \<Longrightarrow> kept snd (keeps s0) (numa_run_on_node K node s)"
  by (auto simp: numa_run_on_node_mask_v2_def numa_run_on_node_mask_all_def numa_run_on_node_def steps
      intro!: keep split: option.split prod.split)

lemma get_run_keep [keep]:
  "keeps s0 s \<Longrightarrow> kept snd (keeps s0) (numa_get_run_node_mask_v1 K s)"
  "keeps s0 s \<Longrightarrow> kept snd (keeps s0) (numa_get_run_node_mask_v2 K s)"
  by (auto simp: numa_get_run_node_mask_v1_def numa_get_run_node_mask_v2_def steps
      intro!: keep split: option.split prod.split)

lemma bind_keep [keep]:
  "keeps s0 s \<Longrightarrow> kept id (keeps s0) (numa_bind_v1 K m s)" "keeps s0 s \<Longrightarrow> kept id (keeps s0) (numa_bind_v2 K b s)"
  by (auto simp: numa_bind_v1_def numa_bind_v2_def steps intro!: keep)

section \<open>Node and CPU lists, devices\<close>

lemma route_keep [keep]: "keeps s0 s \<Longrightarrow> kept snd (keeps s0) (rtnetlink_request R msg n s)"
  by (auto simp: rtnetlink_request_def steps split: option.split sum.split intro!: keep)

lemma iif_to_name_keep [simp]: "keeps s0 s \<Longrightarrow> keeps s0 (snd (iif_to_name R iif s))"
  by (simp add: iif_to_name_def split: sum.split)

lemma find_route_keep [keep]: "keeps s0 s \<Longrightarrow> kept snd (keeps s0) (find_route R ai s)"
  by (auto simp: find_route_def steps split: option.split sum.split prod.split intro!: keep)

lemma sysfs_read_keep [simp]: "keeps s0 s \<Longrightarrow> keeps s0 (snd (sysfs_read K fn s))"
  by (auto simp: sysfs_read_def split: sum.split)

lemma sysfs_node_read_keep [simp]: "keeps s0 s \<Longrightarrow> keeps s0 (snd (sysfs_node_read K m fn s))"
  by (auto simp: sysfs_node_read_def steps split: option.split)

lemma read_or_fail_keep [keep]: "keeps s0 s \<Longrightarrow> kept snd (keeps s0) (read_or_fail K m fn s)"
  by (auto simp: read_or_fail_def node_parse_failure_def steps intro!: keep)

lemma affinity_class_keep [keep]: "keeps s0 s \<Longrightarrow> kept snd (keeps s0) (affinity_class K D m cls dev s)"
  by (auto simp: affinity_class_def Let_def intro!: keep split: option.split prod.split)

lemma affinity_file_loop_keep [keep]: "keeps s0 s \<Longrightarrow> kept snd (keeps s0) (affinity_file_loop K D m d names s)"
  by (induction names arbitrary: s) (auto simp: steps intro!: keep split: option.split)

lemma handler_keep [keep]:
  "keeps s0 s \<Longrightarrow> kept snd (keeps s0) (affinity_file K D m fl s)"
  "keeps s0 s \<Longrightarrow> kept snd (keeps s0) (affinity_ip K D m ident s)"
  "keeps s0 s \<Longrightarrow> kept snd (keeps s0) (affinity_pci K m ident s)"
  by (auto simp: affinity_file_def affinity_ip_def affinity_pci_def steps intro!: keep
      split: option.split sum.split prod.split file_kind.split)

lemma call_handler_keep [keep]: "keeps s0 s \<Longrightarrow> kept snd (keeps s0) (call_handler K D h m desc s)"
  by (auto simp: call_handler_def intro!: keep split: handler_fn.split)

lemma resolve_keep [keep]: "keeps s0 s \<Longrightarrow> kept snd (keeps s0) (resolve_affinity K D ident m s)"
proof -
  have "keeps s0 s \<Longrightarrow> kept snd (keeps s0) (handler_loop K D hs ident m s)" for hs
    by (induction hs) (auto intro!: keep split: prod.split)
  then show "keeps s0 s \<Longrightarrow> kept snd (keeps s0) (resolve_affinity K D ident m s)" unfolding resolve_affinity_def .
qed

lemma node_numbers_keep [keep]: "keeps s0 s \<Longrightarrow> kept snd (keeps s0) (node_numbers_item relative allowed str m s)"
  by (auto simp: node_numbers_item_def steps intro!: keep)

lemma node_item_keep:
  assumes "\<And>str m s. keeps s0 s \<Longrightarrow> kept snd (keeps s0) (f str m s)" "keeps s0 s"
  shows "kept snd (keeps s0) (node_item f relative allowed str m s)"
  using assms(2) by (auto simp: node_item_def intro!: keep assms(1) split: prod.split)

lemma node_loop_keep:
  assumes "\<And>str m s. keeps s0 s \<Longrightarrow> kept snd (keeps s0) (f str m s)" "keeps s0 s"
  shows "kept snd (keeps s0) (node_loop f relative allowed str m s)"
  using assms
proof (induction f relative allowed str m s rule: node_loop.induct)
  case (1 f relative allowed str m s)
  have k: "kept snd (keeps s0) (node_item f relative allowed str m s)" using 1(2,3) by (rule node_item_keep)
  show ?case
  proof (cases "node_item f relative allowed str m s")
    case None
    then show ?thesis by (subst node_loop.simps) simp
  next
    case (Some p)
    obtain it t where p: "p = (it, t)" by force
    have t: "keeps s0 t" using k Some p by simp
    note run = node_loop.simps [of f relative allowed str m s, unfolded Some p]
    show ?thesis
    proof (cases it)
      case (Item_next m' r)
      note IH = "1.IH" [OF Some p [symmetric] Item_next]
      show ?thesis unfolding run using t Item_next IH 1(2) by (auto split: list.split)
    qed (use t in \<open>simp_all add: run\<close>)
  qed
qed

lemma cpu_item_keep [keep]: "keeps s0 s \<Longrightarrow> kept snd (keeps s0) (cpu_item relative allowed n str m s)"
  by (auto simp: cpu_item_def steps intro!: keep)

lemma cpu_loop_keep [keep]:
  assumes "keeps s0 s"
  shows "kept snd (keeps s0) (cpu_loop relative allowed n str m s)"
  using assms
proof (induction relative allowed n str m s rule: cpu_loop.induct)
  case (1 relative allowed n str m s)
  have k: "kept snd (keeps s0) (cpu_item relative allowed n str m s)" using 1(2) by (rule cpu_item_keep)
  show ?case
  proof (cases "cpu_item relative allowed n str m s")
    case None
    then show ?thesis by (subst cpu_loop.simps) simp
  next
    case (Some p)
    obtain it t where p: "p = (it, t)" by force
    have t: "keeps s0 t" using k Some p by simp
    note run = cpu_loop.simps [of relative allowed n str m s, unfolded Some p]
    show ?thesis
    proof (cases it)
      case (Item_next m' r)
      note IH = "1.IH" [OF Some p [symmetric] Item_next]
      show ?thesis unfolding run using t Item_next IH by (auto split: list.split)
    qed (use t in \<open>simp_all add: run\<close>)
  qed
qed

lemma parse_nodestring_keep:
  assumes "\<And>str m s. keeps s0 s \<Longrightarrow> kept snd (keeps s0) (f str m s)" "keeps s0 s"
  shows "kept snd (keeps s0) (parse_nodestring K f str allowed s)"
  using assms(2) by (auto simp: parse_nodestring_def steps intro!: keep node_loop_keep assms(1) split: option.split)

lemma parse_nodes_keep [keep]:
  "keeps s0 s \<Longrightarrow> kept snd (keeps s0) (numa_parse_nodestring K (resolve_affinity K D) str s)"
  "keeps s0 s \<Longrightarrow> kept snd (keeps s0) (numa_parse_nodestring_all K (resolve_affinity K D) str s)"
  by (auto simp: numa_parse_nodestring_def numa_parse_nodestring_all_def intro!: keep parse_nodestring_keep)

lemma parse_cpus_keep [keep]:
  "keeps s0 s \<Longrightarrow> kept snd (keeps s0) (numa_parse_cpustring K str s)"
  "keeps s0 s \<Longrightarrow> kept snd (keeps s0) (numa_parse_cpustring_all K str s)"
  by (auto simp: numa_parse_cpustring_def numa_parse_cpustring_all_def parse_cpustring_def steps intro!: keep
      split: option.split)

section \<open>Sizes and distances of the nodes\<close>

lemma node_size_keep [keep]:
  "keeps s0 s \<Longrightarrow> kept snd (keeps s0) (numa_node_size64 K node fp s)" "keeps s0 s \<Longrightarrow> kept snd (keeps s0) (numa_node_size K node s)"
  by (auto simp: numa_node_size64_def numa_node_size_def steps split: sum.split prod.split
      intro!: keep kept_bind_value [where 'b = "int \<times> int \<times> int"])

lemma parse_numbers_length: "parse_numbers k nodes n row str j table = Some t \<Longrightarrow> length t = length table"
proof (induction k nodes n row str j table rule: parse_numbers.induct)
  case (2 k nodes n row str j table)
  obtain d e where "strtoul str 0 = (d, e)" by force
  then show ?case using 2 by (auto simp: Let_def split: if_splits)
qed simp

text \<open>The loop that reads the files changes \<open>errno\<close> only, and the table it fills has its full length from the first
  file on.\<close>

lemma distance_loop_keeps:
  assumes "distance_loop K nd err table s = Some ((e, tb), t)" "keeps s0 s"
    and "\<And>x. table = Some x \<Longrightarrow> length x = c_ulong (c_int ((maxconfigurednode s0 + 1) * (maxconfigurednode s0 + 1)))"
  shows "keeps s0 t \<and> distance_table t = distance_table s \<and>
    (\<forall>x. tb = Some x \<longrightarrow> length x = c_ulong (c_int ((maxconfigurednode s0 + 1) * (maxconfigurednode s0 + 1))))"
proof -
  let ?n = "c_ulong (c_int ((maxconfigurednode s0 + 1) * (maxconfigurednode s0 + 1)))"
  have mx: "keeps s0 s \<Longrightarrow> numa_max_node s = maxconfigurednode s0" for s
    by (simp add: keeps_def setup_of_def numa_max_node_def)
  have "distance_loop K nd err table s = Some y \<Longrightarrow> keeps s0 s \<and> pred_option (\<lambda>x. length x = ?n) table \<longrightarrow>
      keeps s0 (snd y) \<and> distance_table (snd y) = distance_table s \<and> pred_option (\<lambda>x. length x = ?n) (snd (fst y))"
    for y
    by (erule distance_loop.raw_induct [rotated])
      (auto simp: steps bind_Some_iff mx dest!: parse_numbers_length split: if_splits sum.splits option.splits)
  from this [OF assms(1)] assms(2,3) show ?thesis by (auto simp: pred_option_def split: option.splits)
qed

lemma inv_distances:
  assumes "lib_inv t" "\<And>x. d = Some x \<Longrightarrow> n = maxconfigurednode t + 1 \<and> length x = c_ulong (c_int (n * n))"
  shows "lib_inv (t\<lparr>distance_numnodes := n, distance_table := d\<rparr>)"
  using assms unfolding lib_inv_def setup_fields_wf
  by (auto simp: warnings_ok_def cpu_cache_ok_def flags_ok_def distance_ok_def cong: option.case_cong split: option.split)

lemma read_distance_table_keep [keep]: "keeps s0 s \<Longrightarrow> kept snd (keeps s0) (read_distance_table K s)"
proof -
  assume k: "keeps s0 s"
  have "keeps s0 t" if run: "read_distance_table K s = Some (r, t)" for r t
  proof -
    obtain err tb u where l: "distance_loop K 0 (- 1) None s = Some ((err, tb), u)"
      using run by (auto simp: read_distance_table_def steps bind_Some_iff)
    note L = distance_loop_keeps [OF l k, simplified]
    have e: "setup_of u = setup_of s0" "setup_of s = setup_of s0" "maxconfigurednode u = maxconfigurednode s0"
      "maxconfigurednode s = maxconfigurednode s0"
      using L k by (auto simp: keeps_def setup_of_def)
    have "keeps s0 (u\<lparr>distance_numnodes := maxconfigurednode s0 + 1, distance_table := tb\<rparr>)"
      using L e inv_distances [of u tb "maxconfigurednode s0 + 1"] by (simp add: keeps_def)
    then show ?thesis
      using run l L e warn_keep [of s0 u W_distance]
      by (auto simp: read_distance_table_def numa_max_node_def bind_Some_iff kept_def split: if_splits)
  qed
  then show ?thesis by (auto simp: kept_def)
qed

lemma distance_keep [keep]: "keeps s0 s \<Longrightarrow> kept snd (keeps s0) (numa_distance K a b s)"
  by (auto simp: numa_distance_def intro!: keep split: option.split)

section \<open>What the constructor leaves\<close>

text \<open>The constructor finds the caches, the table and the flags as the loader made them, and leaves them so; it may
  have given a warning.\<close>

definition late_ok :: "'w numa \<Rightarrow> bool" where
  "late_ok s \<longleftrightarrow> warnings_ok s \<and> flags_ok s \<and> node_cpu_mask_v2 s = None \<and> distance_table s = None \<and>
     length (node_cpu_mask_v1 s) = NUMA_NUM_NODES"

lemma late_fields [simp]:
  "late_ok (t\<lparr>world := w\<rparr>) = late_ok t" "late_ok (t\<lparr>errno := e\<rparr>) = late_ok t"
  "late_ok (t\<lparr>err_out := o'\<rparr>) = late_ok t" "late_ok (t\<lparr>nodemask_sz := n\<rparr>) = late_ok t"
  "late_ok (t\<lparr>cpumask_sz := n\<rparr>) = late_ok t" "late_ok (t\<lparr>maxconfigurednode := n\<rparr>) = late_ok t"
  "late_ok (t\<lparr>maxconfiguredcpu := n\<rparr>) = late_ok t" "late_ok (t\<lparr>numprocnode := n\<rparr>) = late_ok t"
  "late_ok (t\<lparr>numproccpu := n\<rparr>) = late_ok t" "late_ok (t\<lparr>sizes_set := n\<rparr>) = late_ok t"
  "late_ok (t\<lparr>numa_no_nodes_ptr := b\<rparr>) = late_ok t" "late_ok (t\<lparr>numa_all_nodes_ptr := b\<rparr>) = late_ok t"
  "late_ok (t\<lparr>numa_possible_nodes_ptr := b\<rparr>) = late_ok t" "late_ok (t\<lparr>numa_all_cpus_ptr := b\<rparr>) = late_ok t"
  "late_ok (t\<lparr>numa_possible_cpus_ptr := b\<rparr>) = late_ok t" "late_ok (t\<lparr>numa_nodes_ptr := b\<rparr>) = late_ok t"
  "late_ok (t\<lparr>numa_memnode_ptr := b\<rparr>) = late_ok t" "late_ok (t\<lparr>numa_all_nodes := m\<rparr>) = late_ok t"
  "late_ok (t\<lparr>numa_no_nodes := m\<rparr>) = late_ok t"
  by (simp_all add: late_ok_def warnings_ok_def flags_ok_def)

lemma late_initial: "late_ok (initial_numa w)"
  using warnings_ok_initial [of w] by (simp add: late_ok_def flags_ok_def initial_numa_def mpol_defs)

lemma late_warn [keep]: "late_ok s \<Longrightarrow> kept id late_ok (numa_warn w s)"
proof (cases "numa_warn w s")
  case (Some t)
  assume l: "late_ok s"
  obtain wd wo where t: "t = s \<or> t = s\<lparr>warned := wd, warn_out := wo\<rparr>"
    using Some by (auto simp: numa_warn_unfold split: if_splits)
  then have "flags_ok t = flags_ok s" "node_cpu_mask_v2 t = node_cpu_mask_v2 s" "distance_table t = distance_table s"
    "node_cpu_mask_v1 t = node_cpu_mask_v1 s" by (auto simp: flags_ok_def)
  then show ?thesis using Some l warnings_ok_step [OF _ Some] by (simp add: late_ok_def)
qed simp

lemma late_error [keep]: "late_ok s \<Longrightarrow> kept id late_ok (numa_error w s)"
  by (simp add: numa_error_unfold)

lemma late_alloc [keep]: "late_ok s \<Longrightarrow> kept snd late_ok (numa_bitmask_alloc K n s)"
  by (auto simp: numa_bitmask_alloc_def intro!: keep)

lemma late_alloc_mask [keep]:
  "late_ok s \<Longrightarrow> kept snd late_ok (numa_allocate_cpumask K s)"
  "late_ok s \<Longrightarrow> kept snd late_ok (numa_allocate_nodemask K s)"
  by (auto simp: numa_allocate_cpumask_def numa_allocate_nodemask_def intro!: keep)

lemma late_probe: "late_ok s \<Longrightarrow> late_ok (probe_nodemask_size K k s)"
proof (induction K k s rule: probe_nodemask_size.induct)
  case (1 K k s)
  then show ?case
    by (subst probe_nodemask_size.simps) (auto simp: get_mempolicy_def Let_def split: sum.split)
qed

lemma late_nodemask_size: "late_ok s \<Longrightarrow> late_ok (set_nodemask_size K s)"
  by (simp add: set_nodemask_size_def Let_def late_probe split: sum.split)

lemma kept_foldM_state:
  assumes "\<And>x s. P s \<Longrightarrow> kept id P (f x s)" "P s"
  shows "kept id P (foldM f xs s)"
  using foldM_invariant [of f xs s _ P] assms by (auto simp: kept_def)

lemma late_nodes [keep]: "late_ok s \<Longrightarrow> kept id late_ok (set_configured_nodes K s)"
  by (auto simp: set_configured_nodes_def node_entry_def steps intro!: keep kept_foldM_state split: option.split)

lemma late_cpu_loop [keep]: "late_ok s \<Longrightarrow> kept snd late_ok (max_cpu_loop K k s)"
proof (induction "8 - k" arbitrary: k s rule: less_induct)
  case less
  have get: "late_ok u \<Longrightarrow> late_ok (snd (numa_sched_getaffinity_v2 K 0 b u))" for b u
    by (simp add: numa_sched_getaffinity_v2_def split: sum.split)
  have IH: "kept snd late_ok (max_cpu_loop K (Suc k) u)" if "\<not> 1024 * 1024 \<le> 4096 * (2 :: nat) ^ k" "late_ok u" for u
  proof -
    have "k < 8" using that(1) by (simp add: not_le max_cpu_bound)
    then show ?thesis using less.hyps [of "Suc k"] that(2) by simp
  qed
  show ?case
    using less.prems by (subst max_cpu_loop.simps) (auto simp: Let_def split_beta get IH simp del: not_le intro!: keep split: option.split)
qed

lemma late_cpus [keep]:
  "late_ok s \<Longrightarrow> kept id late_ok (set_numa_max_cpu K s)" "late_ok s \<Longrightarrow> kept id late_ok (set_configured_cpus K s)"
  by (auto simp: set_numa_max_cpu_def set_configured_cpus_def steps intro!: keep split: option.split)

lemma late_task [keep]: "late_ok s \<Longrightarrow> kept id late_ok (task_defaults h s)"
  by (auto simp: task_defaults_def steps intro!: keep)

lemma late_status [keep]: "late_ok s \<Longrightarrow> kept id late_ok (status_line l s)"
  by (auto simp: status_line_def steps intro!: keep)

lemma late_constraints [keep]: "late_ok s \<Longrightarrow> kept id late_ok (set_task_constraints K s)"
  by (auto simp: set_task_constraints_def steps intro!: keep kept_foldM_state split: sum.split)

lemma late_init:
  assumes "numa_init K (initial_numa w) = Some s"
  shows "late_ok s"
proof -
  have "kept id late_ok (set_sizes K (initial_numa w))"
    using late_initial [of w] by (auto simp: set_sizes_def steps late_nodemask_size intro!: keep)
  then have "kept id late_ok (numa_init K (initial_numa w))"
    using late_initial [of w] by (auto simp: numa_init_def steps intro!: keep)
  then show ?thesis using assms by simp
qed

lemma init_inv: "numa_init K (initial_numa w) = Some s \<Longrightarrow> numa_wf s \<Longrightarrow> lib_inv s"
  using late_init [of K w s] by (simp add: lib_inv_def late_ok_def cpu_cache_ok_def distance_ok_def)

section \<open>The calls as steps\<close>

text \<open>One rule for every public function that reads or changes the globals; a call that does not come back is not
  a step.\<close>

inductive memory_call :: "'w os \<Rightarrow> 'w numa \<Rightarrow> 'w numa \<Rightarrow> bool" for K where
  alloc: "numa_alloc K sz s = Some (r, t) \<Longrightarrow> memory_call K s t"
| alloc_interleaved_subset_v1: "numa_alloc_interleaved_subset_v1 K sz m s = Some (r, t) \<Longrightarrow> memory_call K s t"
| alloc_interleaved_subset: "numa_alloc_interleaved_subset_v2 K sz (Some b) s = Some (r, t) \<Longrightarrow> memory_call K s t"
| alloc_interleaved: "numa_alloc_interleaved K sz s = Some (r, t) \<Longrightarrow> memory_call K s t"
| alloc_weighted_subset: "numa_alloc_weighted_interleaved_subset K sz (Some b) s = Some (r, t) \<Longrightarrow> memory_call K s t"
| alloc_weighted: "numa_alloc_weighted_interleaved K sz s = Some (r, t) \<Longrightarrow> memory_call K s t"
| alloc_onnode: "numa_alloc_onnode K sz node s = Some (r, t) \<Longrightarrow> memory_call K s t"
| alloc_local: "numa_alloc_local K sz s = Some (r, t) \<Longrightarrow> memory_call K s t"
| realloc: "memory_call K s (snd (numa_realloc K mem sz sz' s))"
| free: "memory_call K s (numa_free K mem sz s)"
| police: "numa_police_memory K mem sz s = Some t \<Longrightarrow> memory_call K s t"
| interleave_v1: "numa_interleave_memory_v1 K mem sz m s = Some t \<Longrightarrow> memory_call K s t"
| interleave: "numa_interleave_memory_v2 K mem sz b s = Some t \<Longrightarrow> memory_call K s t"
| weighted_interleave: "numa_weighted_interleave_memory K mem sz b s = Some t \<Longrightarrow> memory_call K s t"
| tonode: "numa_tonode_memory K mem sz node s = Some t \<Longrightarrow> memory_call K s t"
| tonodemask_v1: "numa_tonodemask_memory_v1 K mem sz m s = Some t \<Longrightarrow> memory_call K s t"
| tonodemask: "numa_tonodemask_memory_v2 K mem sz b s = Some t \<Longrightarrow> memory_call K s t"
| setlocal: "numa_setlocal_memory K mem sz s = Some t \<Longrightarrow> memory_call K s t"
| migrate: "memory_call K s (snd (numa_migrate_pages K pid b b' s))"
| move: "memory_call K s (snd (numa_move_pages K pid count pages nodes status fl s))"
| has_home_node: "numa_has_home_node K s = Some (h, t) \<Longrightarrow> memory_call K s t"
| set_home_node: "numa_set_mempolicy_home_node K start len node fl s = Some (h, t) \<Longrightarrow> memory_call K s t"
| page_size: "memory_call K s (snd (numa_pagesize K s))"

inductive policy_call :: "'w os \<Rightarrow> 'w numa \<Rightarrow> 'w numa \<Rightarrow> bool" for K where
  available: "policy_call K s (snd (numa_available K s))"
| set_interleave_v1: "numa_set_interleave_mask_v1 K m s = Some t \<Longrightarrow> policy_call K s t"
| set_interleave: "numa_set_interleave_mask_v2 K b s = Some t \<Longrightarrow> policy_call K s t"
| set_weighted: "numa_set_weighted_interleave_mask K b s = Some t \<Longrightarrow> policy_call K s t"
| get_interleave_v1: "numa_get_interleave_mask_v1 K s = Some (m, t) \<Longrightarrow> policy_call K s t"
| get_interleave: "numa_get_interleave_mask_v2 K s = Some (r, t) \<Longrightarrow> policy_call K s t"
| get_weighted: "numa_get_weighted_interleave_mask K s = Some (r, t) \<Longrightarrow> policy_call K s t"
| get_interleave_node: "policy_call K s (snd (numa_get_interleave_node K s))"
| set_bind_policy: "numa_set_bind_policy K strict s = Some t \<Longrightarrow> policy_call K s t"
| set_membind_v1: "numa_set_membind_v1 K m s = Some t \<Longrightarrow> policy_call K s t"
| set_membind: "numa_set_membind_v2 K b s = Some t \<Longrightarrow> policy_call K s t"
| set_membind_balancing: "numa_set_membind_balancing K b s = Some t \<Longrightarrow> policy_call K s t"
| get_membind_v1: "numa_get_membind_v1 K s = Some (m, t) \<Longrightarrow> policy_call K s t"
| get_membind: "numa_get_membind_v2 K s = Some (r, t) \<Longrightarrow> policy_call K s t"
| get_mems_allowed: "numa_get_mems_allowed K s = Some (r, t) \<Longrightarrow> policy_call K s t"
| preferred: "numa_preferred K s = Some (node, t) \<Longrightarrow> policy_call K s t"
| preferred_err: "numa_preferred_err K s = Some (node, t) \<Longrightarrow> policy_call K s t"
| preferred_many: "numa_preferred_many K s = Some (r, t) \<Longrightarrow> policy_call K s t"
| has_preferred_many: "numa_has_preferred_many K s = Some (h, t) \<Longrightarrow> policy_call K s t"
| set_preferred: "numa_set_preferred K node s = Some t \<Longrightarrow> policy_call K s t"
| set_preferred_many: "numa_set_preferred_many K b s = Some t \<Longrightarrow> policy_call K s t"
| set_localalloc: "numa_set_localalloc K s = Some t \<Longrightarrow> policy_call K s t"
| set_strict: "policy_call K s (numa_set_strict flag s)"

inductive cpu_call :: "'w os \<Rightarrow> 'w numa \<Rightarrow> 'w numa \<Rightarrow> bool" for K where
  node_to_cpus_v1: "numa_node_to_cpus_v1 K node ws n s = Some (q, t) \<Longrightarrow> cpu_call K s t"
| node_to_cpus: "numa_node_to_cpus_v2 K node b s = Some (p, t) \<Longrightarrow> cpu_call K s t"
| node_to_cpu_update: "cpu_call K s (numa_node_to_cpu_update s)"
| node_of_cpu: "numa_node_of_cpu K cpu s = Some (node, t) \<Longrightarrow> cpu_call K s t"
| is_cpuless: "numa_is_cpuless_node K node s = Some (r, t) \<Longrightarrow> cpu_call K s t"
| run_on_mask_v1: "numa_run_on_node_mask_v1 K m s = Some (r, t) \<Longrightarrow> cpu_call K s t"
| run_on_mask: "numa_run_on_node_mask_v2 K b s = Some (r, t) \<Longrightarrow> cpu_call K s t"
| run_on_mask_all: "numa_run_on_node_mask_all K b s = Some (r, t) \<Longrightarrow> cpu_call K s t"
| run_on_node: "numa_run_on_node K node s = Some (r, t) \<Longrightarrow> cpu_call K s t"
| get_run_mask_v1: "numa_get_run_node_mask_v1 K s = Some (m, t) \<Longrightarrow> cpu_call K s t"
| get_run_mask: "numa_get_run_node_mask_v2 K s = Some (bo, t) \<Longrightarrow> cpu_call K s t"
| bind_v1: "numa_bind_v1 K m s = Some t \<Longrightarrow> cpu_call K s t"
| bind: "numa_bind_v2 K b s = Some t \<Longrightarrow> cpu_call K s t"

inductive query_call :: "'w os \<Rightarrow> 'w dev \<Rightarrow> 'w numa \<Rightarrow> 'w numa \<Rightarrow> bool" for K D where
  parse_nodes: "numa_parse_nodestring K (resolve_affinity K D) str s = Some (r, t) \<Longrightarrow> query_call K D s t"
| parse_nodes_all: "numa_parse_nodestring_all K (resolve_affinity K D) str s = Some (r, t) \<Longrightarrow> query_call K D s t"
| parse_cpus: "numa_parse_cpustring K str s = Some (r, t) \<Longrightarrow> query_call K D s t"
| parse_cpus_all: "numa_parse_cpustring_all K str s = Some (r, t) \<Longrightarrow> query_call K D s t"
| node_size: "numa_node_size64 K node fp s = Some (p, t) \<Longrightarrow> query_call K D s t"
| distance: "numa_distance K a b s = Some (d, t) \<Longrightarrow> query_call K D s t"
| alloc_mask: "numa_bitmask_alloc K n s = Some (r, t) \<Longrightarrow> query_call K D s t"
| alloc_nodemask: "numa_allocate_nodemask K s = Some (r, t) \<Longrightarrow> query_call K D s t"
| alloc_cpumask: "numa_allocate_cpumask K s = Some (r, t) \<Longrightarrow> query_call K D s t"
| warn: "numa_warn w s = Some t \<Longrightarrow> query_call K D s t"
| error: "numa_error msg s = Some t \<Longrightarrow> query_call K D s t"

text \<open>Between the calls the machine moves on, \<open>errno\<close> is overwritten, and the client sets the flags that \<open>numa.h\<close>
  declares.\<close>

inductive lib_step :: "'w os \<Rightarrow> 'w dev \<Rightarrow> 'w numa \<Rightarrow> 'w numa \<Rightarrow> bool" for K D where
  memory: "memory_call K s t \<Longrightarrow> lib_step K D s t"
| policy: "policy_call K s t \<Longrightarrow> lib_step K D s t"
| cpu: "cpu_call K s t \<Longrightarrow> lib_step K D s t"
| query: "query_call K D s t \<Longrightarrow> lib_step K D s t"
| environment: "lib_step K D s (s\<lparr>world := w, errno := e\<rparr>)"
| flags: "lib_step K D s (s\<lparr>numa_exit_on_error := a, numa_exit_on_warn := b, numa_fail_alloc_on_error := c\<rparr>)"

inductive lib_reach :: "'w os \<Rightarrow> 'w dev \<Rightarrow> 'w \<Rightarrow> 'w numa \<Rightarrow> bool" for K D w where
  start: "numa_init K (initial_numa w) = Some s \<Longrightarrow> lib_reach K D w s"
| step: "lib_reach K D w s \<Longrightarrow> lib_step K D s t \<Longrightarrow> lib_reach K D w t"

lemma kept_result:
  "m = Some (r, t) \<Longrightarrow> kept snd (keeps s) m \<Longrightarrow> keeps s t" "n = Some t \<Longrightarrow> kept id (keeps s) n \<Longrightarrow> keeps s t"
  by simp_all

lemma memory_call_keeps: "memory_call K s t \<Longrightarrow> keeps s t"
  by (induction rule: memory_call.induct)
    (auto simp: numa_alloc_interleaved_def numa_alloc_weighted_interleaved_def elim!: kept_result intro!: keep)

lemma policy_call_keeps: "policy_call K s t \<Longrightarrow> keeps s t"
  by (induction rule: policy_call.induct) (auto elim!: kept_result intro!: keep strict_keep)

lemma cpu_call_keeps: "cpu_call K s t \<Longrightarrow> keeps s t"
  by (induction rule: cpu_call.induct) (auto elim!: kept_result intro!: keep)

lemma query_call_keeps: "query_call K D s t \<Longrightarrow> keeps s t"
  by (induction rule: query_call.induct) (auto elim!: kept_result intro!: keep)

lemma lib_step_keeps: "lib_step K D s t \<Longrightarrow> keeps s t"
  by (induction rule: lib_step.induct)
    (auto dest: memory_call_keeps policy_call_keeps cpu_call_keeps query_call_keeps)

lemma lib_reach_keeps:
  assumes "lib_reach K D w s" "numa_init K (initial_numa w) = Some s0"
  shows "keeps s0 s"
  using assms by (induction rule: lib_reach.induct) (auto dest: lib_step_keeps intro: keeps_trans)

end
