(* ===== verification/PropsLibrary.thy ===== *)
theory PropsLibrary
  imports Library Sample
begin

unbundle bit_operations_syntax

text \<open>
  Properties of the library as a state machine: what holds after any sequence of calls, whatever the machine and the
  client do between them.
\<close>

section \<open>Every reachable state\<close>

lemma reach_from_sane:
  assumes "sane_system K w t names n" "card (set (node_numbers names)) \<le> NUMA_NUM_NODES" "lib_reach K D w s"
  obtains s0 where "numa_init K (initial_numa w) = Some s0" "setup_of s = setup_of s0" "lib_inv s"
    "nodemask_sz s0 = scan_nodemask_size (file_lines t) 0 0" "cpumask_sz s0 = n * 8"
    "maxconfigurednode s0 = Max (set (node_numbers names))"
    "bm_bits (the (numa_nodes_ptr s0)) = nat ` set (node_numbers names)"
proof -
  obtain s0 where s0: "numa_init K (initial_numa w) = Some s0" "numa_wf s0"
    "nodemask_sz s0 = scan_nodemask_size (file_lines t) 0 0" "cpumask_sz s0 = n * 8"
    "maxconfigurednode s0 = Max (set (node_numbers names))"
    "bm_bits (the (numa_nodes_ptr s0)) = nat ` set (node_numbers names)"
    using numa_init_run [OF assms(1,2)] by blast
  have "keeps s0 s" using lib_reach_keeps [OF assms(3) s0(1)] .
  then show thesis using that s0 init_inv [OF s0(1,2)] by (simp add: keeps_def)
qed

text \<open>C3: whatever sequence of calls a client makes, in any order, with whatever arguments and results, and whatever
  the machine does in between: the sizes, the highest node and the set of nodes are those that the constructor
  found, every global mask and every cached CPU mask has its size, the flags have one of their values, the distance
  table has the size of the machine, and no warning has been given twice.\<close>

theorem reachable_library_ok:
  assumes "sane_system K w t names n" "card (set (node_numbers names)) \<le> NUMA_NUM_NODES" "lib_reach K D w s"
  shows "lib_inv s \<and> nodemask_sz s = scan_nodemask_size (file_lines t) 0 0 \<and> cpumask_sz s = n * 8 \<and>
    maxconfigurednode s = Max (set (node_numbers names)) \<and>
    bm_bits (the (numa_nodes_ptr s)) = nat ` set (node_numbers names) \<and> distinct (warn_out s)"
proof -
  obtain s0 where "numa_init K (initial_numa w) = Some s0" and s0: "setup_of s = setup_of s0" "lib_inv s"
    "nodemask_sz s0 = scan_nodemask_size (file_lines t) 0 0" "cpumask_sz s0 = n * 8"
    "maxconfigurednode s0 = Max (set (node_numbers names))"
    "bm_bits (the (numa_nodes_ptr s0)) = nat ` set (node_numbers names)"
    by (rule reach_from_sane [OF assms])
  have "nodemask_sz s = nodemask_sz s0" "cpumask_sz s = cpumask_sz s0" "maxconfigurednode s = maxconfigurednode s0"
    "numa_nodes_ptr s = numa_nodes_ptr s0" using s0(1) by (simp_all add: setup_of_def)
  moreover have "distinct (warn_out s)" using s0(2) by (simp add: lib_inv_def warnings_ok_def)
  ultimately show ?thesis using s0(2-6) by simp
qed

theorem reachable_library_ok_witness:
  "\<forall>D. \<exists>s. lib_reach (toy_os True) D toy_world s \<and> mbind_flags s = MPOL_MF_STRICT \<and> errno s = EPERM \<and> lib_inv s \<and>
    nodemask_sz s = 64 \<and> maxconfigurednode s = 1"
proof
  fix D :: "toy dev"
  obtain s0 where s0: "numa_init (toy_os True) (initial_numa toy_world) = Some s0"
    using numa_init_run [OF toy_sane] by (auto simp: toy_names_numbers NUMA_NUM_NODES_def)
  let ?s1 = "numa_set_strict 1 s0" and ?s2 = "\<lambda>w. (numa_set_strict 1 s0)\<lparr>world := w, errno := EPERM\<rparr>"
  have r0: "lib_reach (toy_os True) D toy_world s0" using s0 by (rule lib_reach.start)
  then have r1: "lib_reach (toy_os True) D toy_world ?s1"
    by (blast intro: lib_reach.step lib_step.policy policy_call.set_strict)
  then have r2: "lib_reach (toy_os True) D toy_world (?s2 toy_world)"
    by (blast intro: lib_reach.step lib_step.environment)
  have few: "card (set (node_numbers toy_names)) \<le> NUMA_NUM_NODES" by (simp add: toy_names_numbers NUMA_NUM_NODES_def)
  have "mbind_flags s0 = 0 \<or> mbind_flags s0 = MPOL_MF_STRICT"
    using reachable_library_ok [OF toy_sane few r0] by (simp add: lib_inv_def flags_ok_def)
  then have "mbind_flags (?s2 toy_world) = MPOL_MF_STRICT" by (auto simp: numa_set_strict_def)
  then show "\<exists>s. lib_reach (toy_os True) D toy_world s \<and> mbind_flags s = MPOL_MF_STRICT \<and> errno s = EPERM \<and> lib_inv s \<and>
    nodemask_sz s = 64 \<and> maxconfigurednode s = 1"
    using r2 reachable_library_ok [OF toy_sane few r2] by (intro exI [of _ "?s2 toy_world"]) (simp add: toy_names_numbers toy_status_size)
qed

section \<open>Lookups in a reachable state\<close>

text \<open>A lookup first makes the cache, where there is none: from then on it is the lookup in a state with a cache of
  the library's sizes.\<close>

lemma lookup_entry:
  assumes I: "lib_inv s" and K: "malloc_succeeds K" and node: "0 \<le> node" "node \<le> maxconfigurednode s"
  obtains s1 cache where "numa_node_to_cpus_v2 K node b s = numa_node_to_cpus_v2 K node b s1"
    "lookup_base s1 = lookup_base s" "node_cpu_mask_v2 s1 = Some cache" "int (length cache) = nodemask_sz s"
    "nat node < length cache" "\<forall>e. Some e \<in> set cache \<longrightarrow> mask_ok (cpumask_sz s) (Some e)"
proof -
  have wf: "numa_wf s" and co: "cpu_cache_ok s" using I by (simp_all add: lib_inv_def)
  have sz: "0 < nodemask_sz s" "nodemask_sz s < 2 ^ 31" "maxconfigurednode s < nodemask_sz s"
    using wf by (simp_all add: numa_wf_def)
  define s1 where "s1 = (if node_cpu_mask_v2 s = None then init_node_cpu_mask_v2 K s else s)"
  have init: "init_node_cpu_mask_v2 K s = s\<lparr>node_cpu_mask_v2 := Some (replicate (nat (nodemask_sz s)) None)\<rparr>"
    using K sz by (simp add: init_node_cpu_mask_v2_def malloc_succeeds_def numa_max_possible_node_v2_def
        numa_num_possible_nodes_def c_ulong_id)
  obtain cache where c: "node_cpu_mask_v2 s1 = Some cache" "int (length cache) = nodemask_sz s"
    "\<forall>e. Some e \<in> set cache \<longrightarrow> mask_ok (cpumask_sz s) (Some e)"
    using co sz(1) by (cases "node_cpu_mask_v2 s") (auto simp: s1_def init cpu_cache_ok_def)
  have "numa_node_to_cpus_v2 K node b s = numa_node_to_cpus_v2 K node b s1"
    using c(1) by (auto simp: numa_node_to_cpus_v2_def s1_def init numa_max_node_def)
  moreover have "lookup_base s1 = lookup_base s" by (simp add: s1_def init)
  moreover have "nat node < length cache" using node sz(3) c(2) by linarith
  ultimately show thesis using c that by blast
qed

text \<open>A lookup with a mask of the library's size, whatever the cache holds by now and whether it is stale.\<close>

lemma inv_lookup:
  assumes I: "lib_inv s" and K: "malloc_succeeds K" and ex: "\<not> numa_exit_on_warn s"
    and node: "0 \<le> node" "node \<le> maxconfigurednode s" and b: "bm_inv b" "int (bm_size b) = cpumask_sz s"
  shows "numa_node_to_cpus_v2 K node b s \<noteq> None"
proof -
  obtain s1 cache where s1: "numa_node_to_cpus_v2 K node b s = numa_node_to_cpus_v2 K node b s1"
    "lookup_base s1 = lookup_base s" and c: "node_cpu_mask_v2 s1 = Some cache" "int (length cache) = nodemask_sz s"
    "nat node < length cache" "\<forall>e. Some e \<in> set cache \<longrightarrow> mask_ok (cpumask_sz s) (Some e)"
    by (rule lookup_entry [OF I K node])
  note F = lookup_base_fields [OF s1(2)]
  have wf: "numa_wf s" using I by (simp add: lib_inv_def)
  have e: "bm_inv e \<and> bm_size e = bm_size b" if "cache ! nat node = Some e" for e
    using c(4) nth_mem [OF c(3)] that b(2) by (auto simp: mask_ok_def)
  note pre = wf [unfolded F(10) [symmetric]] c(1) c(2) [unfolded F(2) [symmetric]] node(1)
    node(2) [unfolded F(4) [symmetric]] b(1) b(2) [unfolded F(3) [symmetric]]
  show ?thesis
  proof (cases "cache ! nat node = None \<or> node_cpu_mask_v2_stale s1")
    case True
    have "\<not> numa_exit_on_warn s1" using ex F(7) by simp
    from miss_lookup [OF pre(1) K this pre(2-7) True e] show ?thesis unfolding s1(1) by blast
  next
    case False
    then obtain x where x: "cache ! nat node = Some x" "\<not> node_cpu_mask_v2_stale s1" by auto
    then show ?thesis using hit_lookup [OF pre x] e [OF x(1)] s1(1) by simp
  qed
qed

text \<open>What a lookup that comes back has left in the buffer, whatever warnings it has given.\<close>

lemma lookup_shape:
  fixes s :: "'w numa"
  assumes I: "lib_inv s" and K: "malloc_succeeds K" and node: "0 \<le> node" "node \<le> maxconfigurednode s"
    and b: "bm_inv b" "int (bm_size b) = cpumask_sz s" and run: "numa_node_to_cpus_v2 K node b s = Some ((r, m), u)"
  shows "bm_inv m \<and> bm_size m = bm_size b \<and> (r = 0 \<or> r = - 1)"
proof -
  obtain s1 cache where s1: "numa_node_to_cpus_v2 K node b s = numa_node_to_cpus_v2 K node b s1"
    "lookup_base s1 = lookup_base s" and c: "node_cpu_mask_v2 s1 = Some cache" "int (length cache) = nodemask_sz s"
    "nat node < length cache" "\<forall>e. Some e \<in> set cache \<longrightarrow> mask_ok (cpumask_sz s) (Some e)"
    by (rule lookup_entry [OF I K node])
  note F = lookup_base_fields [OF s1(2)]
  have sz: "0 < cpumask_sz s" "cpumask_sz s < 2 ^ 31" using I by (simp_all add: lib_inv_def numa_wf_def)
  define s2 where "s2 = s1\<lparr>node_cpu_mask_v2_stale := False\<rparr>"
  have "cpumask_sz s2 = cpumask_sz s" "nat (cpumask_sz s) = bm_size b" using F(3) b(2) by (simp add: s2_def, linarith)
  then have al: "numa_allocate_cpumask K s2 = Some (Some (new_bitmask (bm_size b)), s2)"
    using allocate_cpumask_run [OF K, of s2] sz by simp
  have cl: "bm_inv (numa_bitmask_clearall b)" "bm_size (numa_bitmask_clearall b) = bm_size b"
    using clearall_bits [OF b(1)] by auto
  have copy: "bm_inv (copy_bitmask_to_bitmask x (numa_bitmask_clearall b)) \<and>
      bm_size (copy_bitmask_to_bitmask x (numa_bitmask_clearall b)) = bm_size b"
    if "bm_inv x" "bm_size x = bm_size b" for x
    using copy_words(1,2) [of x "numa_bitmask_clearall b"] that cl sz b(2) by simp
  have entry: "\<not> (node < 0 \<or> numa_max_node s1 < node)" "\<not> length cache \<le> nat node"
    using node c(3) F(4) by (simp_all add: numa_max_node_def)
  have read: ?thesis if "read_cpumap K node (new_bitmask (bm_size b)) s2 = Some ((r, x), v)"
    "m = copy_bitmask_to_bitmask x (numa_bitmask_clearall b)" for x v
  proof -
    have "r = 0 \<or> r = - 1" using that(1) by (auto simp: read_cpumap_def steps bind_Some_iff split: if_splits)
    then show ?thesis using copy [of x] read_cpumap_shape [OF that(1)] that(2) by simp
  qed
  have c2: "node_cpu_mask_v2 s2 = Some cache" by (simp add: s2_def c(1))
  define next_state where "next_state err x v = (case cache ! nat node of
      Some c \<Rightarrow> v\<lparr>node_cpu_mask_v2 := Some (cache[nat node := Some (copy_bitmask_to_bitmask x c)])\<rparr>
    | None \<Rightarrow> if err = 0 then v\<lparr>node_cpu_mask_v2 := Some (cache[nat node := Some x])\<rparr> else v)"
    for err :: int and x and v :: "'w numa"
  show ?thesis
  proof (cases "cache ! nat node = None \<or> node_cpu_mask_v2_stale s1")
    case True
    then have "numa_node_to_cpus_v2 K node b s1 = do {
        ((err, x), v) \<leftarrow> read_cpumap K node (new_bitmask (bm_size b)) s2;
        Some ((err, copy_bitmask_to_bitmask x (numa_bitmask_clearall b)), next_state err x v)
      }"
      using entry al by (cases "cache ! nat node"; cases "node_cpu_mask_v2_stale s1")
        (simp_all add: numa_node_to_cpus_v2_def s2_def [symmetric] c(1) c2 next_state_def)
    then show ?thesis using run read unfolding s1(1)
      by (cases "read_cpumap K node (new_bitmask (bm_size b)) s2") (auto split: prod.splits)
  next
    case False
    then obtain e where Some: "cache ! nat node = Some e" "\<not> node_cpu_mask_v2_stale s1" by auto
    have e: "bm_inv e" "bm_size e = bm_size b" using c(4) nth_mem [OF c(3)] Some b(2) by (auto simp: mask_ok_def)
    have "numa_node_to_cpus_v2 K node b s1 = Some ((0, copy_bitmask_to_bitmask e (numa_bitmask_clearall b)), s2)"
      using entry Some e(2) cl(2)
      by (simp add: numa_node_to_cpus_v2_def s2_def [symmetric] c(1) c2)
    then show ?thesis using run copy [OF e] unfolding s1(1) by simp
  qed
qed

text \<open>C11: on a sane system with at most \<open>NUMA_NUM_NODES\<close> nodes, in every state that is reached from the constructor,
  after any calls and whatever files the lookups have read, the CPUs of any number can be looked up with a mask of the
  library's size.  The call does not come back only where the client has asked
  for warnings to end the process (\<open>numa_exit_on_warn\<close>) and the number is a node.  In every other case it comes
  back with 0 or -1 and a mask of that size, with 0 for nodes only: no access leaves the cache, and the sizes never
  fail to match.\<close>

theorem reachable_lookup_returns:
  assumes "sane_system K w t names n" "card (set (node_numbers names)) \<le> NUMA_NUM_NODES" "lib_reach K D w s"
    and "bm_inv b" "int (bm_size b) = cpumask_sz s"
  shows "case numa_node_to_cpus_v2 K node b s of
      None \<Rightarrow> numa_exit_on_warn s \<and> 0 \<le> node \<and> node \<le> maxconfigurednode s
    | Some ((r, m), u) \<Rightarrow> (r = 0 \<or> r = - 1) \<and> bm_inv m \<and> bm_size m = bm_size b \<and>
        (r = 0 \<longrightarrow> 0 \<le> node \<and> node \<le> maxconfigurednode s)"
proof -
  have I: "lib_inv s" by (rule reach_from_sane [OF assms(1-3)])
  have K: "malloc_succeeds K" using assms(1) by (simp add: sane_system_def)
  show ?thesis
  proof (cases "node < 0 \<or> maxconfigurednode s < node")
    case True
    then show ?thesis using assms(4) by (simp add: numa_node_to_cpus_v2_def numa_max_node_def Let_def init_node_cpu_mask_v2_def)
  next
    case False
    then have node: "0 \<le> node" "node \<le> maxconfigurednode s" by auto
    have "numa_exit_on_warn s" if "numa_node_to_cpus_v2 K node b s = None"
      using inv_lookup [OF I K _ node assms(4,5)] that by blast
    then show ?thesis using node lookup_shape [OF I K node assms(4,5)] by (auto split: option.split)
  qed
qed

theorem reachable_lookup_returns_witness:
  "\<forall>D. \<exists>s r m u. lib_reach (toy_os True) D toy_world s \<and> node_cpu_mask_v2_stale s \<and>
    numa_node_to_cpus_v2 (toy_os True) 1 (new_bitmask 64) s = Some ((r, m), u) \<and> bm_size m = 64"
proof
  fix D :: "toy dev"
  obtain s0 where s0: "numa_init (toy_os True) (initial_numa toy_world) = Some s0"
    using numa_init_run [OF toy_sane] by (auto simp: toy_names_numbers NUMA_NUM_NODES_def)
  let ?s = "numa_node_to_cpu_update (s0\<lparr>numa_exit_on_error := False, numa_exit_on_warn := False, numa_fail_alloc_on_error := True\<rparr>)"
  have r0: "lib_reach (toy_os True) D toy_world s0" using s0 by (rule lib_reach.start)
  have r: "lib_reach (toy_os True) D toy_world ?s"
    by (blast intro: r0 lib_reach.step lib_step.flags lib_step.cpu cpu_call.node_to_cpu_update)
  have few: "card (set (node_numbers toy_names)) \<le> NUMA_NUM_NODES" by (simp add: toy_names_numbers NUMA_NUM_NODES_def)
  have "cpumask_sz s0 = 64" using numa_init_run [OF toy_sane few] s0 by auto
  then have "int (bm_size (new_bitmask 64)) = cpumask_sz ?s" "\<not> numa_exit_on_warn ?s" "node_cpu_mask_v2_stale ?s"
    by (simp_all add: numa_node_to_cpu_update_def)
  with reachable_lookup_returns [OF toy_sane few r, of "new_bitmask 64" 1] r
  have "\<exists>r m u. numa_node_to_cpus_v2 (toy_os True) 1 (new_bitmask 64) ?s = Some ((r, m), u) \<and> bm_size m = 64"
    by (cases "numa_node_to_cpus_v2 (toy_os True) 1 (new_bitmask 64) ?s") (auto split: prod.splits)
  with r \<open>node_cpu_mask_v2_stale ?s\<close> show "\<exists>s r m u. lib_reach (toy_os True) D toy_world s \<and> node_cpu_mask_v2_stale s \<and>
    numa_node_to_cpus_v2 (toy_os True) 1 (new_bitmask 64) s = Some ((r, m), u) \<and> bm_size m = 64"
    by blast
qed

section \<open>Distances in a reachable state\<close>

text \<open>A failed reading leaves no table behind, so where there is a table the call succeeded.\<close>

lemma read_table_error:
  assumes "read_distance_table K s = Some (err, t)" "distance_table s = None" "distance_table t \<noteq> None"
  shows "err = 0"
proof -
  obtain e tb u where l: "distance_loop K 0 (- 1) None s = Some ((e, tb), u)"
    using assms(1) by (auto simp: read_distance_table_def steps bind_Some_iff)
  have u: "distance_table u = None" using distance_loop_keeps [OF l keeps_self] assms(2) by simp
  have w: "distance_table v = None" if "numa_warn W_distance u = Some v" for v
    using that u by (auto simp: numa_warn_unfold split: if_splits)
  show ?thesis
    using assms(1,3) l u w by (auto simp: read_distance_table_def Let_def bind_Some_iff split: if_splits)
qed

lemma distance_result:
  assumes "numa_distance K a b s = Some (d, u)"
  shows "d = (case distance_table u of
      None \<Rightarrow> 0
    | Some table \<Rightarrow>
        if c_uint (distance_numnodes u) \<le> c_uint a \<or> c_uint (distance_numnodes u) \<le> c_uint b then 0
        else table ! nat (a * distance_numnodes u + b))"
proof -
  obtain err v where r: "(if distance_table s = None then read_distance_table K s else Some (0, s)) = Some (err, v)"
    using assms by (auto simp: numa_distance_def bind_Some_iff)
  have uv: "u = v" using assms unfolding numa_distance_def r by (auto split: option.splits if_splits)
  show ?thesis
  proof (cases "distance_table v")
    case None
    then show ?thesis using assms unfolding numa_distance_def r by simp
  next
    case (Some table)
    have "err = 0"
      using r Some read_table_error [of K s err v] by (cases "distance_table s") simp_all
    then show ?thesis using assms Some uv unfolding numa_distance_def r by (auto split: if_splits)
  qed
qed

lemma c_uint_range:
  assumes "0 < n" "n < 2 ^ 31" "- (2 ^ 31) \<le> (a :: int)" "a < 2 ^ 31"
  shows "c_uint n \<le> c_uint a \<longleftrightarrow> a < 0 \<or> n \<le> a"
proof (cases "0 \<le> a")
  case True
  then show ?thesis using assms by (auto simp: c_uint_id)
next
  case False
  have "a mod 2 ^ 32 = a + 2 ^ 32"
    using False assms(3) mod_pos_pos_trivial [of "a + 2 ^ 32" "2 ^ 32"] by simp
  then have "c_uint a = nat (a + 2 ^ 32)" by (simp add: c_uint_def)
  moreover have "c_uint n = nat n" using assms(1,2) by (simp add: c_uint_id)
  ultimately show ?thesis using assms False by simp
qed

lemma square_index:
  assumes "0 \<le> a" "a < n" "0 \<le> b" "b < (n :: int)"
  shows "0 \<le> a * n + b" "a * n + b < n * n"
proof -
  have "a * n \<le> (n - 1) * n" using assms by (intro mult_right_mono) simp_all
  then show "a * n + b < n * n" using assms by (simp add: algebra_simps)
  show "0 \<le> a * n + b" using assms by simp
qed

text \<open>C15: in every reachable state, a distance that is asked for is the entry of the table for the two nodes, and the
  entry lies inside the table; it is 0 when there is no table or when one of the numbers, negative ones included,
  is not that of a node.  The bound is that the number of entries is an \<open>int\<close>, which the code does not check.\<close>

theorem distance_reads_entry:
  assumes "sane_system K w t names n" "card (set (node_numbers names)) \<le> NUMA_NUM_NODES" "lib_reach K D w s"
    and "(maxconfigurednode s + 1) * (maxconfigurednode s + 1) < 2 ^ 31"
    and "- (2 ^ 31) \<le> a" "a < 2 ^ 31" "- (2 ^ 31) \<le> b" "b < 2 ^ 31"
    and "numa_distance K a b s = Some (d, u)"
  shows "case distance_table u of
      None \<Rightarrow> d = 0
    | Some table \<Rightarrow>
        if 0 \<le> a \<and> a \<le> maxconfigurednode s \<and> 0 \<le> b \<and> b \<le> maxconfigurednode s
        then a * (maxconfigurednode s + 1) + b < int (length table) \<and>
          d = table ! nat (a * (maxconfigurednode s + 1) + b)
        else d = 0"
proof -
  have I: "lib_inv s" by (rule reach_from_sane [OF assms(1-3)])
  have "keeps s u" using distance_keep [OF keeps_self, of s K a b] assms(9) by simp
  then have Iu: "lib_inv u" and mx: "maxconfigurednode u = maxconfigurednode s"
    using I by (simp_all add: keeps_def setup_of_def)
  let ?n = "maxconfigurednode s + 1"
  have n: "0 < ?n" "?n < 2 ^ 31"
    using I by (simp_all add: lib_inv_def numa_wf_def)
  show ?thesis
  proof (cases "distance_table u")
    case None
    then show ?thesis using distance_result [OF assms(9)] by simp
  next
    case (Some table)
    have nn: "distance_numnodes u = ?n" and len: "length table = c_ulong (c_int (?n * ?n))"
      using Iu Some mx by (simp_all add: lib_inv_def distance_ok_def)
    have sq: "0 \<le> k \<Longrightarrow> k < 2 ^ 31 \<Longrightarrow> int (c_ulong (c_int k)) = k" for k by (simp add: c_int_id c_ulong_id)
    have "int (length table) = ?n * ?n" unfolding len using assms(4) by (intro sq) simp_all
    moreover have "d = (if c_uint ?n \<le> c_uint a \<or> c_uint ?n \<le> c_uint b then 0 else table ! nat (a * ?n + b))"
      using distance_result [OF assms(9)] by (simp only: Some nn option.case)
    moreover have "c_uint ?n \<le> c_uint a \<or> c_uint ?n \<le> c_uint b \<longleftrightarrow>
        \<not> (0 \<le> a \<and> a \<le> maxconfigurednode s \<and> 0 \<le> b \<and> b \<le> maxconfigurednode s)"
      unfolding c_uint_range [OF n assms(5,6)] c_uint_range [OF n assms(7,8)] by auto
    moreover have "a * ?n + b < ?n * ?n"
      if "0 \<le> a" "a \<le> maxconfigurednode s" "0 \<le> b" "b \<le> maxconfigurednode s"
      using that by (intro square_index(2)) simp_all
    ultimately show ?thesis by (simp only: Some option.case) (simp split: if_split)
  qed
qed

theorem distance_reads_entry_witness:
  "\<forall>D. \<exists>s. lib_reach (toy_os True) D toy_world s \<and> numa_distance (toy_os True) 1 0 s = Some (22, s) \<and>
    numa_distance (toy_os True) (- 1) 0 s = Some (0, s)"
proof
  fix D :: "toy dev"
  have few: "card (set (node_numbers toy_names)) \<le> NUMA_NUM_NODES" by (simp add: toy_names_numbers NUMA_NUM_NODES_def)
  obtain s where s: "numa_init (toy_os True) (initial_numa toy_world) = Some s" "numa_wf s" "world s = toy_world"
    "maxconfigurednode s = 1" "bm_bits (the (numa_nodes_ptr s)) = {0, 1}"
    using numa_init_run [OF toy_sane few] by (auto simp: toy_names_numbers)
  have r: "lib_reach (toy_os True) D toy_world s" using s(1) by (rule lib_reach.start)
  obtain nodes where n: "numa_nodes_ptr s = Some nodes" using s(2) by (auto simp: numa_wf_def elim: mask_okE)
  then have b: "bm_bits nodes = {0, 1}" using s(5) by simp
  have t: "distance_table s = None" using late_init [OF s(1)] by (simp add: late_ok_def)
  have bits: "numa_bitmask_isbitset nodes i \<longleftrightarrow> i = 0 \<or> i = 1" for i using b mem_bm_bits [of i nodes] by auto
  have ne: "bm_bits nodes \<noteq> {}" unfolding b by simp
  obtain u where u: "numa_distance (toy_os True) (int 1) (int 0) s = Some (22, u)"
    "distance_table u = Some (rows_upto nodes 2 toy_distance 2)"
    using numa_distance_run [OF toy_malloc n t _ _ _ toy_distances [OF b] ne, of 1 0] bits s(4)
    by (auto simp: numa_max_node_def toy_distance_def simp del: of_nat_1)
  have ru: "lib_reach (toy_os True) D toy_world u"
    by (rule lib_reach.step [OF r lib_step.query [OF query_call.distance [OF u(1)]]])
  have mu: "maxconfigurednode u = 1"
    using distance_keep [OF keeps_self, of s "toy_os True" "int 1" "int 0"] u(1) s(4) by (simp add: keeps_def setup_of_def)
  have again: "\<exists>d. numa_distance (toy_os True) a b u = Some (d, u)" for a b
    by (simp add: numa_distance_def u(2))
  have bounds: "(maxconfigurednode u + 1) * (maxconfigurednode u + 1) < 2 ^ 31" by (simp add: mu)
  note P = distance_reads_entry [OF toy_sane few ru bounds]
  obtain d where d: "numa_distance (toy_os True) 1 0 u = Some (d, u)" using again by blast
  obtain d' where d': "numa_distance (toy_os True) (- 1) 0 u = Some (d', u)" using again by blast
  have "d = rows_upto nodes 2 toy_distance 2 ! 2" using P [OF _ _ _ _ d] by (simp add: u(2) mu)
  then have "d = 22"
    by (simp add: rows_upto_def toy_distance_def bits)
  moreover have "d' = 0" using P [OF _ _ _ _ d'] by (simp add: u(2))
  ultimately show "\<exists>s. lib_reach (toy_os True) D toy_world s \<and> numa_distance (toy_os True) 1 0 s = Some (22, s) \<and>
    numa_distance (toy_os True) (- 1) 0 s = Some (0, s)" using ru d d' by blast
qed

end
