(* ===== verification/PolicyMachine.thy ===== *)
theory PolicyMachine
  imports PolicyFacts Library
begin

unbundle bit_operations_syntax

text \<open>
  The policy functions of the library as an implementation of an abstract machine.  The machine knows the policy of
  the process, a mode with a set of nodes; a call sets it or is refused, and the queries answer from it.  The library
  reaches the policy only through system calls and bit masks.
\<close>

section \<open>The abstract machine\<close>

text \<open>\<open>Preferred_many\<close> is not set by the calls below; a process can inherit it.\<close>

datatype policy =
  Default | Local | Bind "nat set" | Balanced "nat set" | Interleave "nat set" | Weighted "nat set" | Preferred nat |
  Preferred_many "nat set"

datatype policy_op =
  Set_membind bitmask | Set_balancing bitmask | Set_interleave bitmask | Set_weighted bitmask | Set_preferred int |
  Set_localalloc | Get_membind | Get_interleave | Get_weighted | Get_preferred

datatype answer = Accepted | Refused | Nodes "nat set" | Node int

fun nodes_of :: "policy \<Rightarrow> nat set" where
  "nodes_of Default = {}"
| "nodes_of Local = {}"
| "nodes_of (Bind S) = S"
| "nodes_of (Balanced S) = S"
| "nodes_of (Interleave S) = S"
| "nodes_of (Weighted S) = S"
| "nodes_of (Preferred i) = {i}"
| "nodes_of (Preferred_many S) = S"

text \<open>The nodes of a mask that take effect: those the task may use, among the first \<open>k\<close> bits, which are the bits that
  reach the kernel.\<close>

definition effective :: "nat \<Rightarrow> nat set \<Rightarrow> nat set \<Rightarrow> nat set" where
  "effective k allowed S = {i \<in> S. i < k \<and> i \<in> allowed}"

definition first_node :: "nat set \<Rightarrow> int" where
  "first_node S = (if S = {} then 0 else int (Min S))"

definition queries :: "policy_op set" where
  "queries = {Get_membind, Get_interleave, Get_weighted, Get_preferred}"

text \<open>\<open>k\<close> is the number of bits of a library mask that reach the kernel, \<open>all\<close> the answer for a process that is not
  bound.\<close>

inductive policy_step :: "nat \<Rightarrow> nat set \<Rightarrow> nat set \<Rightarrow> policy \<Rightarrow> policy_op \<Rightarrow> answer \<Rightarrow> policy \<Rightarrow> bool" for k A all where
  membind: "policy_step k A all p (Set_membind b) Accepted (Bind (effective k A (bm_bits b)))"
| balancing: "policy_step k A all p (Set_balancing b) Accepted (Balanced (bm_bits b \<inter> A))"
| not_balancing: "policy_step k A all p (Set_balancing b) Accepted (Bind (effective k A (bm_bits b)))"
| interleave: "bm_bits b \<noteq> {} \<Longrightarrow>
    policy_step k A all p (Set_interleave b) Accepted (Interleave (effective k A (bm_bits b)))"
| no_interleave: "bm_bits b = {} \<Longrightarrow> policy_step k A all p (Set_interleave b) Accepted Default"
| weighted: "bm_bits b \<noteq> {} \<Longrightarrow> policy_step k A all p (Set_weighted b) Accepted (Weighted (effective k A (bm_bits b)))"
| no_weighted: "bm_bits b = {} \<Longrightarrow> policy_step k A all p (Set_weighted b) Accepted Default"
| preferred: "c_uint i < k \<Longrightarrow> c_uint i \<in> A \<Longrightarrow> policy_step k A all p (Set_preferred i) Accepted (Preferred (c_uint i))"
| no_preferred: "c_uint i < k \<longrightarrow> c_uint i \<notin> A \<Longrightarrow> policy_step k A all p (Set_preferred i) Accepted Local"
| localalloc: "policy_step k A all p Set_localalloc Accepted Local"
| refused: "c \<notin> queries \<Longrightarrow> policy_step k A all p c Refused p"
| get_membind: "policy_step k A all p Get_membind (Nodes (case p of Bind S \<Rightarrow> S | _ \<Rightarrow> all)) p"
| get_interleave: "policy_step k A all p Get_interleave (Nodes (case p of Interleave S \<Rightarrow> S | _ \<Rightarrow> {})) p"
| get_weighted: "policy_step k A all p Get_weighted (Nodes (case p of Weighted S \<Rightarrow> S | _ \<Rightarrow> {})) p"
| get_preferred: "policy_step k A all p Get_preferred (Node (first_node (nodes_of p))) p"

inductive policy_trace :: "nat \<Rightarrow> nat set \<Rightarrow> nat set \<Rightarrow> policy \<Rightarrow> (policy_op \<times> answer) list \<Rightarrow> policy \<Rightarrow> bool"
  for k A all where
  finished: "policy_trace k A all p [] p"
| more: "policy_step k A all p c a q \<Longrightarrow> policy_trace k A all q cs r \<Longrightarrow> policy_trace k A all p ((c, a) # cs) r"

inductive_simps set_membind_step: "policy_step k A all p (Set_membind b) Accepted q"
inductive_simps get_membind_step: "policy_step k A all p Get_membind a q"
inductive_simps get_preferred_step: "policy_step k A all p Get_preferred a q"
inductive_simps trace_Nil: "policy_trace k A all p [] q"
inductive_simps trace_Cons: "policy_trace k A all p ((c, a) # cs) q"

section \<open>The library\<close>

text \<open>A call is accepted when it reports no error.\<close>

definition accept :: "'w numa \<Rightarrow> 'w numa option \<Rightarrow> (answer \<times> 'w numa) option" where
  "accept s m = do { t \<leftarrow> m; Some (if err_out t = err_out s then Accepted else Refused, t) }"

definition nodes_answer :: "(bitmask option \<times> 'w numa) option \<Rightarrow> (answer \<times> 'w numa) option" where
  "nodes_answer m = do { (b, t) \<leftarrow> m; b \<leftarrow> b; Some (Nodes (bm_bits b), t) }"

fun run_call :: "'w os \<Rightarrow> policy_op \<Rightarrow> 'w numa \<Rightarrow> (answer \<times> 'w numa) option" where
  "run_call K (Set_membind b) s = accept s (numa_set_membind_v2 K b s)"
| "run_call K (Set_balancing b) s = accept s (numa_set_membind_balancing K b s)"
| "run_call K (Set_interleave b) s = accept s (numa_set_interleave_mask_v2 K b s)"
| "run_call K (Set_weighted b) s = accept s (numa_set_weighted_interleave_mask K b s)"
| "run_call K (Set_preferred i) s = accept s (numa_set_preferred K i s)"
| "run_call K Set_localalloc s = accept s (numa_set_localalloc K s)"
| "run_call K Get_membind s = nodes_answer (numa_get_membind_v2 K s)"
| "run_call K Get_interleave s = nodes_answer (numa_get_interleave_mask_v2 K s)"
| "run_call K Get_weighted s = nodes_answer (numa_get_weighted_interleave_mask K s)"
| "run_call K Get_preferred s = map_option (\<lambda>(i, t). (Node i, t)) (numa_preferred K s)"

fun run_calls :: "'w os \<Rightarrow> policy_op list \<Rightarrow> 'w numa \<Rightarrow> (answer list \<times> 'w numa) option" where
  "run_calls K [] s = Some ([], s)"
| "run_calls K (c # cs) s = do {
     (a, s) \<leftarrow> run_call K c s;
     (as, s) \<leftarrow> run_calls K cs s;
     Some (a # as, s)
   }"

text \<open>The masks a client passes have the size that the library gives its node masks, and nothing set behind it.\<close>

fun call_ok :: "nat \<Rightarrow> policy_op \<Rightarrow> bool" where
  "call_ok n (Set_membind b) = (bm_inv b \<and> bm_size b = n)"
| "call_ok n (Set_balancing b) = (bm_clean b \<and> bm_size b = n)"
| "call_ok n (Set_interleave b) = (bm_inv b \<and> bm_size b = n)"
| "call_ok n (Set_weighted b) = (bm_inv b \<and> bm_size b = n)"
| "call_ok n c = True"

section \<open>The abstraction\<close>

text \<open>The modes under which a policy is reported.\<close>

fun modes_of :: "policy \<Rightarrow> int set" where
  "modes_of Default = {MPOL_DEFAULT}"
| "modes_of Local = {MPOL_LOCAL, MPOL_PREFERRED}"
| "modes_of (Bind S) = {MPOL_BIND}"
| "modes_of (Balanced S) = {MPOL_BIND OR MPOL_F_NUMA_BALANCING}"
| "modes_of (Interleave S) = {MPOL_INTERLEAVE}"
| "modes_of (Weighted S) = {MPOL_WEIGHTED_INTERLEAVE}"
| "modes_of (Preferred i) = {MPOL_PREFERRED}"
| "modes_of (Preferred_many S) = {MPOL_PREFERRED_MANY}"

text \<open>The policy \<open>p\<close> is in force: it is what the kernel answers, and its nodes are nodes of the task.\<close>

definition in_force :: "'w os \<Rightarrow> nat \<Rightarrow> nat set \<Rightarrow> 'w numa \<Rightarrow> policy \<Rightarrow> bool" where
  "in_force K N A s p \<longleftrightarrow> nodes_of p \<subseteq> A \<and> (\<exists>mode \<in> modes_of p. reads K N (world s) mode (nodes_of p))"

text \<open>What the library relies on: it is set up with masks of \<open>n\<close> bits for at least \<open>N\<close> nodes, memory does not run out,
  the mask of no nodes is empty.\<close>

definition policy_ready :: "'w os \<Rightarrow> nat \<Rightarrow> 'w numa \<Rightarrow> nat \<Rightarrow> nat set \<Rightarrow> bool" where
  "policy_ready K N s n all \<longleftrightarrow> malloc_succeeds K \<and> numa_wf s \<and> nat (nodemask_sz s) = n \<and> N \<le> n \<and>
     (\<exists>no. numa_no_nodes_ptr s = Some no \<and> bm_bits no = {}) \<and>
     (\<exists>al. numa_all_nodes_ptr s = Some al \<and> bm_bits al = all)"

lemma ready_keeps: "policy_ready K N s n all \<Longrightarrow> keeps s t \<Longrightarrow> policy_ready K N t n all"
  using setup_wf [of t s] by (simp add: policy_ready_def keeps_def) (simp add: setup_of_def)

lemma in_force_world: "in_force K N A s p \<Longrightarrow> world t = world s \<Longrightarrow> in_force K N A t p"
  by (simp add: in_force_def)

section \<open>Every call is a step\<close>

lemma ready_alloc:
  assumes "policy_ready K N s n all"
  shows "numa_allocate_nodemask K s = Some (Some (new_bitmask n), s)" "0 < n" "n < 2 ^ 31" "nat (nodemask_sz s) = n" "N \<le> n"
  using assms allocate_nodemask_run [of K s] by (auto simp: policy_ready_def numa_wf_def)

text \<open>What the library reads while a policy is in force.\<close>

lemma in_force_read:
  assumes K: "policy_kernel K u (\<lambda>_. A) N" and R: "policy_ready K N s n all" and F: "in_force K N A s p"
  obtains mode b where "mode \<in> modes_of p" "\<forall>old. getpol K old (new_bitmask n) s = Some ((mode, b), s)" "bm_inv b"
    "bm_size b = n" "bm_bits b = nodes_of p"
proof -
  obtain mode where m: "mode \<in> modes_of p" "reads K N (world s) mode (nodes_of p)"
    using F by (auto simp: in_force_def)
  obtain b where b: "\<forall>old. getpol K old (new_bitmask n) s = Some ((mode, b), s)" "bm_inv b" "bm_size b = n"
    "bm_bits b = nodes_of p \<inter> {..<n}"
    by (rule reads_getpol [OF m(2) ready_alloc(5) [OF R]])
  have "nodes_of p \<subseteq> {..<n}"
    using F policy_kernel_bounds(3) [OF K] ready_alloc(5) [OF R] by (fastforce simp: in_force_def)
  then show thesis using that m(1) b by (simp add: Int_absorb2)
qed

text \<open>A \<open>set_mempolicy\<close> with \<open>mode\<close> and the effective nodes \<open>E\<close> puts the policy \<open>p\<close> in force.\<close>

definition installs :: "int \<Rightarrow> nat set \<Rightarrow> policy \<Rightarrow> bool" where
  "installs mode E p \<longleftrightarrow> (\<forall>mode' S. read_as mode E mode' S \<longrightarrow> mode' \<in> modes_of p \<and> S = nodes_of p)"

lemma installs_simps [simp]:
  "installs MPOL_DEFAULT E Default" "installs MPOL_LOCAL E Local"
  "installs MPOL_BIND E (Bind E)" "installs (MPOL_BIND OR MPOL_F_NUMA_BALANCING) E (Balanced E)"
  "installs MPOL_INTERLEAVE E (Interleave E)" "installs MPOL_WEIGHTED_INTERLEAVE E (Weighted E)"
  "installs MPOL_PREFERRED_MANY E (Preferred_many E)"
  "installs MPOL_PREFERRED {} Local" "installs MPOL_PREFERRED {i} (Preferred i)"
  by (simp_all add: installs_def read_as_def mask_modes_def mpol_defs MPOL_F_NUMA_BALANCING_def)

text \<open>A policy is put in force by the mode and the nodes that are reported for it.\<close>

lemma installs_reported: "mode \<in> modes_of p \<Longrightarrow> installs mode (nodes_of p) p"
  by (cases p) auto

lemma set_in_force:
  assumes K: "policy_kernel K u (\<lambda>_. A) N" and w: "os_set_mempolicy K (world s) mode ws k = Inr w"
    and E: "{i. wbit ws i \<and> i < u k \<and> i \<in> A} = E" and p: "installs mode E p" "nodes_of p \<subseteq> A"
  shows "in_force K N A (s\<lparr>world := w\<rparr>) p"
proof -
  obtain mode' S where "read_as mode {i. wbit ws i \<and> i < u k \<and> i \<in> A} mode' S" "reads K N w mode' S"
    by (rule policy_kernel_set [OF K w])
  then show ?thesis using p unfolding E in_force_def installs_def by auto
qed

lemma mask_effective:
  assumes K: "policy_kernel K u (\<lambda>_. A) N" and b: "bm_inv b" "bm_size b = n"
  shows "{i. wbit (maskp b) i \<and> i < u n \<and> i \<in> A} = effective (u n) A (bm_bits b)"
proof -
  have "i \<in> bm_bits b \<longleftrightarrow> i < n \<and> wbit (maskp b) i" for i using isbitset_wbit [OF b(1)] b(2) by simp
  moreover have "i < u n \<Longrightarrow> i < n" for i using policy_kernel_bounds(2) [OF K, of n] by simp
  ultimately show ?thesis unfolding effective_def by blast
qed

lemma setpol_step:
  assumes K: "policy_kernel K u (\<lambda>_. A) N" and F: "in_force K N A s q"
    and run: "accept s (setpol K mode b s) = Some (a, t)" and b: "bm_inv b" "bm_size b = n"
    and p: "installs mode (effective (u n) A (bm_bits b)) p" "nodes_of p \<subseteq> A"
  shows "(a = Accepted \<and> in_force K N A t p) \<or> (a = Refused \<and> in_force K N A t q)"
proof -
  have r: "setpol K mode b s = Some t" "a = (if err_out t = err_out s then Accepted else Refused)"
    using run by (auto simp: accept_def bind_Some_iff)
  show ?thesis
  proof (cases "err_out t = err_out s")
    case True
    then obtain w where w: "os_set_mempolicy K (world s) mode (maskp b) n = Inr w" "t = s\<lparr>world := w\<rparr>"
      using setpol_accepted [OF r(1)] b(2) by auto
    then show ?thesis using set_in_force [OF K w(1) mask_effective [OF K b] p] True r(2) by simp
  next
    case False
    then have "world t = world s"
      using r(1) by (auto simp: setpol_def set_mempolicy_def numa_error_unfold split: sum.splits if_splits)
    then show ?thesis using in_force_world [OF F] False r(2) by simp
  qed
qed

lemma balancing_step:
  assumes K: "policy_kernel K u (\<lambda>_. A) N" and F: "in_force K N A s q"
    and run: "run_call K (Set_balancing b) s = Some (a, t)" and b: "bm_clean b" "bm_size b = n"
  shows "(a = Accepted \<and> (in_force K N A t (Balanced (bm_bits b \<inter> A)) \<or> in_force K N A t (Bind (effective (u n) A (bm_bits b))))) \<or>
    (a = Refused \<and> in_force K N A t q)"
proof -
  have r: "numa_set_membind_balancing K b s = Some t" "a = (if err_out t = err_out s then Accepted else Refused)"
    using run by (auto simp: accept_def bind_Some_iff)
  have inv: "bm_inv b" using b(1) by (simp add: bm_clean_def)
  show ?thesis
  proof (cases "os_set_mempolicy K (world s) (MPOL_BIND OR MPOL_F_NUMA_BALANCING) (maskp b) (n + 1)")
    case (Inr w)
    have "i < u (n + 1)" if "i < n" for i using policy_kernel_bounds(1) [OF K, of "n + 1"] that by simp
    moreover have "i \<in> bm_bits b \<longleftrightarrow> wbit (maskp b) i" for i
      using isbitset_wbit [OF inv, of i] bm_cleanD [OF b(1), of i] by auto
    moreover from this have "wbit (maskp b) i \<Longrightarrow> i < n" for i using bm_cleanD [OF b(1)] b(2) by simp
    ultimately have "{i. wbit (maskp b) i \<and> i < u (n + 1) \<and> i \<in> A} = bm_bits b \<inter> A" by blast
    from set_in_force [OF K Inr this, of "Balanced (bm_bits b \<inter> A)"]
    have "in_force K N A (s\<lparr>world := w\<rparr>) (Balanced (bm_bits b \<inter> A))" by simp
    moreover have "t = s\<lparr>world := w\<rparr>" using r(1) b(2) Inr by (simp add: numa_set_membind_balancing_def set_mempolicy_def)
    ultimately show ?thesis using r(2) by simp
  next
    case (Inl e)
    show ?thesis
    proof (cases "e = EINVAL")
      case True
      let ?s = "s\<lparr>errno := E0\<rparr>"
      have run': "accept ?s (setpol K MPOL_BIND b ?s) = Some (a, t)"
        using r Inl True b(2)
        by (simp add: numa_set_membind_balancing_def set_mempolicy_def numa_set_membind_v2_def accept_def)
      have "in_force K N A ?s q" using in_force_world [OF F, of ?s] by simp
      then show ?thesis
        using setpol_step [OF K _ run' inv b(2), of q "Bind (effective (u n) A (bm_bits b))"] by (auto simp: effective_def)
    next
      case False
      then have "err_out t \<noteq> err_out s" "world t = world s"
        using r(1) Inl b(2)
        by (auto simp: numa_set_membind_balancing_def set_mempolicy_def numa_error_unfold split: if_splits)
      then show ?thesis using in_force_world [OF F] r(2) by simp
    qed
  qed
qed

text \<open>The masks of the library that have no node and the nodes of the task.\<close>

lemma ready_masks:
  assumes "policy_ready K N s n all"
  obtains no al where "numa_no_nodes_ptr s = Some no" "bm_inv no" "bm_size no = n" "bm_bits no = {}"
    "numa_all_nodes_ptr s = Some al" "bm_inv al" "bm_size al = n" "bm_bits al = all"
proof -
  obtain no al where m: "numa_no_nodes_ptr s = Some no" "bm_bits no = {}" "numa_all_nodes_ptr s = Some al" "bm_bits al = all"
    and wf: "numa_wf s" and n: "nat (nodemask_sz s) = n"
    using assms by (auto simp: policy_ready_def)
  have "mask_ok (nodemask_sz s) (numa_no_nodes_ptr s)" "mask_ok (nodemask_sz s) (numa_all_nodes_ptr s)"
    using wf by (simp_all add: numa_wf_def)
  then have "bm_inv no" "bm_size no = n" "bm_inv al" "bm_size al = n" using m n by (auto simp: mask_ok_def)
  then show thesis using that m by blast
qed

text \<open>The mode that is read tells the policies apart.\<close>

lemma modes_of_eq:
  assumes "mode \<in> modes_of p"
  shows "mode = MPOL_BIND \<longleftrightarrow> (\<exists>S. p = Bind S)" "mode = MPOL_INTERLEAVE \<longleftrightarrow> (\<exists>S. p = Interleave S)"
    "mode = MPOL_WEIGHTED_INTERLEAVE \<longleftrightarrow> (\<exists>S. p = Weighted S)"
    "mode = MPOL_PREFERRED \<Longrightarrow> p = Local \<or> (\<exists>i. p = Preferred i)"
  using assms by (cases p; auto simp: mpol_defs MPOL_F_NUMA_BALANCING_def)+

lemma query_runs:
  assumes R: "policy_ready K N s n all" and g: "\<forall>old. getpol K old (new_bitmask n) s = Some ((md, b), s)"
    and b: "bm_inv b" "bm_size b = n"
    and no: "numa_no_nodes_ptr s = Some no" "bm_inv no" "bm_size no = n"
    and al: "numa_all_nodes_ptr s = Some al" "bm_inv al" "bm_size al = n"
  shows "numa_get_membind_v2 K s = Some (Some (if md = MPOL_BIND then b else al), s)"
    "numa_get_interleave_mask_v2 K s = Some (Some (if md = MPOL_INTERLEAVE then b else no), s)"
    "numa_get_weighted_interleave_mask K s = Some (Some (if md = MPOL_WEIGHTED_INTERLEAVE then b else no), s)"
proof -
  note alloc = ready_alloc(1) [OF R]
  have "n < 2 ^ 32" using ready_alloc(3) [OF R] by simp
  then have "copy_bitmask_to_bitmask al b = al" "copy_bitmask_to_bitmask no b = no"
    using b no al by (simp_all add: copy_same)
  then show "numa_get_membind_v2 K s = Some (Some (if md = MPOL_BIND then b else al), s)"
    "numa_get_interleave_mask_v2 K s = Some (Some (if md = MPOL_INTERLEAVE then b else no), s)"
    "numa_get_weighted_interleave_mask K s = Some (Some (if md = MPOL_WEIGHTED_INTERLEAVE then b else no), s)"
    using alloc g no(1) al(1)
    by (simp_all add: numa_get_membind_v2_def numa_get_interleave_mask_v2_def numa_get_weighted_interleave_mask_def)
qed


lemma query_step:
  assumes K: "policy_kernel K u (\<lambda>_. A) N" and R: "policy_ready K N s n all" and F: "in_force K N A s p"
    and run: "run_call K c s = Some (a, t)" and c: "c \<in> {Get_membind, Get_interleave, Get_weighted}"
  shows "t = s \<and> policy_step k A all p c a p"
proof -
  obtain mode b where m: "mode \<in> modes_of p"
    and b: "\<forall>old. getpol K old (new_bitmask n) s = Some ((mode, b), s)" "bm_inv b" "bm_size b = n" "bm_bits b = nodes_of p"
    by (rule in_force_read [OF K R F])
  obtain no al where no: "numa_no_nodes_ptr s = Some no" "bm_inv no" "bm_size no = n"
    and al: "numa_all_nodes_ptr s = Some al" "bm_inv al" "bm_size al = n" and bits: "bm_bits no = {}" "bm_bits al = all"
    using ready_masks [OF R] by metis
  note q = query_runs [OF R b(1-3) no al]
  have "bm_bits (if mode = MPOL_BIND then b else al) = (case p of Bind S \<Rightarrow> S | _ \<Rightarrow> all)"
    "bm_bits (if mode = MPOL_INTERLEAVE then b else no) = (case p of Interleave S \<Rightarrow> S | _ \<Rightarrow> {})"
    "bm_bits (if mode = MPOL_WEIGHTED_INTERLEAVE then b else no) = (case p of Weighted S \<Rightarrow> S | _ \<Rightarrow> {})"
    using b(4) bits unfolding modes_of_eq(1-3) [OF m] by (simp_all split: policy.split)
  then have "run_call K Get_membind s = Some (Nodes (case p of Bind S \<Rightarrow> S | _ \<Rightarrow> all), s)"
    "run_call K Get_interleave s = Some (Nodes (case p of Interleave S \<Rightarrow> S | _ \<Rightarrow> {}), s)"
    "run_call K Get_weighted s = Some (Nodes (case p of Weighted S \<Rightarrow> S | _ \<Rightarrow> {}), s)"
    by (simp_all only: run_call.simps nodes_answer_def q Option.bind.bind_lunit prod.case)
  then show ?thesis
    using c run get_membind [of k A all p] get_interleave [of k A all p] get_weighted [of k A all p] by auto
qed

lemma preferred_run:
  assumes K: "policy_kernel K u (\<lambda>_. A) N" and R: "policy_ready K N s n all" and F: "in_force K N A s p"
  shows "numa_preferred K s = Some (first_node (nodes_of p), s)"
proof -
  obtain mode b where m: "mode \<in> modes_of p"
    and b: "\<forall>old. getpol K old (new_bitmask n) s = Some ((mode, b), s)" "bm_inv b" "bm_size b = n" "bm_bits b = nodes_of p"
    by (rule in_force_read [OF K R F])
  have "\<not> (mode = MPOL_PREFERRED \<and> 1 < numa_bitmask_weight b)"
    using modes_of_eq(4) [OF m] unfolding weight_bits b(4) by auto
  then have "numa_preferred_mask K s = Some (Some b, s)"
    using ready_alloc(1) [OF R] b(1) by (auto simp: numa_preferred_mask_def clearall_new)
  then show ?thesis
    by (simp add: numa_preferred_def numa_preferred_err_def find_first_bits b(4) first_node_def)
qed

text \<open>Every call keeps what the library relies on.\<close>

lemma accept_keeps: "kept id (keeps s) m \<Longrightarrow> accept s m = Some (a, t) \<Longrightarrow> keeps s t"
  by (auto simp: accept_def kept_def bind_Some_iff)

lemma nodes_keeps: "kept snd (keeps s) m \<Longrightarrow> nodes_answer m = Some (a, t) \<Longrightarrow> keeps s t"
  by (auto simp: nodes_answer_def kept_def bind_Some_iff)

lemma run_call_keeps:
  assumes "run_call K c s = Some (a, t)"
  shows "keeps s t"
proof (cases c)
  case Get_preferred
  then show ?thesis using assms set_preferred_keep(1) [OF keeps_self, of s K] by (auto simp: kept_def)
qed (use assms in \<open>auto intro!: keep keeps_self elim!: accept_keeps [rotated] nodes_keeps [rotated]\<close>)

text \<open>Setting a policy, in general.\<close>

lemma set_call:
  assumes K: "policy_kernel K u (\<lambda>_. A) N" and F: "in_force K N A s p"
    and run: "accept s m = Some (a, t)" "m = setpol K mode b s" and b: "bm_inv b" "bm_size b = n"
    and q: "installs mode (effective (u n) A (bm_bits b)) q" "nodes_of q \<subseteq> A"
    and step: "policy_step (u n) A all p c Accepted q" "c \<notin> queries"
  shows "\<exists>q. policy_step (u n) A all p c a q \<and> in_force K N A t q"
  using setpol_step [OF K F run(1) [unfolded run(2)] b q] step policy_step.refused by metis

lemma effective_subset: "effective k A S \<subseteq> A"
  by (auto simp: effective_def)

lemma run_call_step:
  assumes K: "policy_kernel K u (\<lambda>_. A) N" and R: "policy_ready K N s n all" and F: "in_force K N A s p"
    and ok: "call_ok n c" and run: "run_call K c s = Some (a, t)"
  shows "\<exists>q. policy_step (u n) A all p c a q \<and> in_force K N A t q"
proof -
  note set = set_call [OF K F, of _ a t]
  obtain no al where no: "numa_no_nodes_ptr s = Some no" "bm_inv no" "bm_size no = n" "bm_bits no = {}"
    and al: "numa_all_nodes_ptr s = Some al" "bm_inv al" "bm_size al = n" "bm_bits al = all"
    by (rule ready_masks [OF R])
  show ?thesis
  proof (cases c)
    case (Set_membind b)
    then show ?thesis
      using ok run by (intro set [of _ MPOL_BIND b n "Bind (effective (u n) A (bm_bits b))"])
        (auto simp: queries_def numa_set_membind_v2_def effective_subset intro: policy_step.membind)
  next
    case (Set_balancing b)
    then have "(a = Accepted \<and> (in_force K N A t (Balanced (bm_bits b \<inter> A)) \<or>
          in_force K N A t (Bind (effective (u n) A (bm_bits b))))) \<or> (a = Refused \<and> in_force K N A t p)"
      using ok run balancing_step [OF K F, of b a t] by simp
    then show ?thesis unfolding Set_balancing using policy_step.refused [of c "u n" A all p] Set_balancing
      by (auto simp: queries_def intro: policy_step.balancing policy_step.not_balancing)
  next
    case (Set_interleave b)
    define q where "q = (if bm_bits b = {} then Default else Interleave (effective (u n) A (bm_bits b)))"
    have "policy_step (u n) A all p c Accepted q"
      unfolding Set_interleave q_def by (simp add: policy_step.interleave policy_step.no_interleave)
    moreover have "numa_set_interleave_mask_v2 K b s = setpol K (if bm_bits b = {} then MPOL_DEFAULT else MPOL_INTERLEAVE) b s"
      using no by (simp add: numa_set_interleave_mask_v2_def equal_bits)
    moreover have "installs (if bm_bits b = {} then MPOL_DEFAULT else MPOL_INTERLEAVE) (effective (u n) A (bm_bits b)) q" "nodes_of q \<subseteq> A"
      unfolding q_def by (simp_all add: effective_subset)
    ultimately show ?thesis
      using ok run Set_interleave by (intro set [of _ "if bm_bits b = {} then MPOL_DEFAULT else MPOL_INTERLEAVE" b n q]) (simp_all add: queries_def)
  next
    case (Set_weighted b)
    define q where "q = (if bm_bits b = {} then Default else Weighted (effective (u n) A (bm_bits b)))"
    have "policy_step (u n) A all p c Accepted q"
      unfolding Set_weighted q_def by (simp add: policy_step.weighted policy_step.no_weighted)
    moreover have "numa_set_weighted_interleave_mask K b s =
        setpol K (if bm_bits b = {} then MPOL_DEFAULT else MPOL_WEIGHTED_INTERLEAVE) b s"
      using no by (simp add: numa_set_weighted_interleave_mask_def equal_bits)
    moreover have "installs (if bm_bits b = {} then MPOL_DEFAULT else MPOL_WEIGHTED_INTERLEAVE) (effective (u n) A (bm_bits b)) q" "nodes_of q \<subseteq> A"
      unfolding q_def by (simp_all add: effective_subset)
    ultimately show ?thesis
      using ok run Set_weighted by (intro set [of _ "if bm_bits b = {} then MPOL_DEFAULT else MPOL_WEIGHTED_INTERLEAVE" b n q]) (simp_all add: queries_def)
  next
    case (Set_preferred i)
    let ?x = "c_uint i"
    define q where "q = (if ?x < u n \<and> ?x \<in> A then Preferred ?x else Local)"
    let ?b = "numa_bitmask_setbit (new_bitmask n) ?x"
    have b: "bm_inv ?b" "bm_size ?b = n" "bm_bits ?b = (if ?x < n then {?x} else {})"
      using setbit_bits [of "new_bitmask n" ?x] by auto
    have E: "effective (u n) A (bm_bits ?b) = (if ?x < u n \<and> ?x \<in> A then {?x} else {})"
      unfolding b(3) using policy_kernel_bounds(2) [OF K, of n] by (auto simp: effective_def)
    have "malloc_succeeds K" "numa_wf s" using R by (simp_all add: policy_ready_def)
    then have m: "numa_set_preferred K i s = setpol K (if ?x < n then MPOL_PREFERRED else MPOL_LOCAL) ?b s"
      using set_preferred_run [of K s n i] ready_alloc(4) [OF R] by simp
    have "policy_step (u n) A all p c Accepted q"
      unfolding Set_preferred q_def by (simp add: policy_step.preferred policy_step.no_preferred)
    moreover have "installs (if ?x < n then MPOL_PREFERRED else MPOL_LOCAL) (effective (u n) A (bm_bits ?b)) q"
      unfolding E q_def using policy_kernel_bounds(2) [OF K, of n] by auto
    moreover have "nodes_of q \<subseteq> A" by (simp add: q_def)
    ultimately show ?thesis
      using run b(1,2) Set_preferred m by (intro set [of _ _ ?b n q]) (auto simp: queries_def)
  next
    case Set_localalloc
    then show ?thesis
      using run no by (intro set [of _ MPOL_LOCAL no n Local])
        (auto simp: queries_def numa_set_localalloc_def intro: policy_step.localalloc)
  next
    case Get_preferred
    then show ?thesis using run preferred_run [OF K R F] F policy_step.get_preferred [of "u n" A all p] by auto
  qed (use query_step [OF K R F run] F in auto)
qed

text \<open>A call comes back, unless errors end the process.\<close>

lemma setpol_returns:
  assumes "\<not> numa_exit_on_error s"
  shows "\<exists>t. setpol K m b s = Some t \<and> \<not> numa_exit_on_error t"
  using assms by (simp add: setpol_def set_mempolicy_def numa_error_unfold split: sum.split)

lemma balancing_returns:
  assumes "\<not> numa_exit_on_error s"
  shows "\<exists>t. numa_set_membind_balancing K b s = Some t \<and> \<not> numa_exit_on_error t"
proof (cases "os_set_mempolicy K (world s) (MPOL_BIND OR MPOL_F_NUMA_BALANCING) (maskp b) (bm_size b + 1)")
  case (Inr w)
  then show ?thesis using assms by (simp add: numa_set_membind_balancing_def set_mempolicy_def)
next
  case (Inl e)
  then show ?thesis
    using assms setpol_returns [of "s\<lparr>errno := E0\<rparr>" K MPOL_BIND b]
    by (cases "e = EINVAL") (simp_all add: numa_set_membind_balancing_def set_mempolicy_def numa_set_membind_v2_def numa_error_unfold)
qed

lemma accept_returns: "\<exists>t. m = Some t \<and> P t \<Longrightarrow> \<exists>a t. accept s m = Some (a, t) \<and> P t"
  by (auto simp: accept_def)

lemma run_call_returns:
  assumes K: "policy_kernel K u (\<lambda>_. A) N" and R: "policy_ready K N s n all" and F: "in_force K N A s p"
    and ex: "\<not> numa_exit_on_error s"
  shows "\<exists>a t. run_call K c s = Some (a, t) \<and> \<not> numa_exit_on_error t"
proof -
  note set = accept_returns [OF setpol_returns [OF ex]]
  obtain no al where no: "numa_no_nodes_ptr s = Some no" "bm_inv no" "bm_size no = n"
    and al: "numa_all_nodes_ptr s = Some al" "bm_inv al" "bm_size al = n"
    by (rule ready_masks [OF R])
  obtain mode b where "mode \<in> modes_of p" and b: "\<forall>old. getpol K old (new_bitmask n) s = Some ((mode, b), s)" "bm_inv b"
    "bm_size b = n" "bm_bits b = nodes_of p"
    by (rule in_force_read [OF K R F])
  show ?thesis
  proof (cases c)
    case (Set_preferred i)
    have "malloc_succeeds K" "numa_wf s" using R by (simp_all add: policy_ready_def)
    then show ?thesis
      using set_preferred_run [of K s n i] ready_alloc(4) [OF R] set Set_preferred by simp
  next
    case Get_preferred
    then show ?thesis using preferred_run [OF K R F] ex by auto
  qed (use set no accept_returns [OF balancing_returns [OF ex]] query_runs [OF R b(1-3) no al] ex in
      \<open>simp_all add: numa_set_membind_v2_def numa_set_interleave_mask_v2_def numa_set_weighted_interleave_mask_def
        numa_set_localalloc_def nodes_answer_def\<close>)
qed

text \<open>A sequence of calls.\<close>

lemma run_calls_trace:
  assumes K: "policy_kernel K u (\<lambda>_. A) N"
    and "policy_ready K N s n all" "in_force K N A s p" "\<forall>c \<in> set cs. call_ok n c" "\<not> numa_exit_on_error s"
  shows "\<exists>as t q. run_calls K cs s = Some (as, t) \<and> length as = length cs \<and>
    policy_trace (u n) A all p (zip cs as) q \<and> in_force K N A t q"
  using assms(2-5)
proof (induction cs arbitrary: s p)
  case Nil
  then show ?case by (auto intro: policy_trace.finished)
next
  case (Cons c cs)
  obtain a v where r: "run_call K c s = Some (a, v)" "\<not> numa_exit_on_error v"
    using run_call_returns [OF K Cons.prems(1,2,4)] by blast
  obtain q where q: "policy_step (u n) A all p c a q" "in_force K N A v q"
    using run_call_step [OF K Cons.prems(1,2) _ r(1)] Cons.prems(3) by auto
  have "policy_ready K N v n all" using ready_keeps [OF Cons.prems(1) run_call_keeps [OF r(1)]] .
  from Cons.IH [OF this q(2) _ r(2)] Cons.prems(3)
  obtain bs t x where "run_calls K cs v = Some (bs, t)" "length bs = length cs"
    "policy_trace (u n) A all q (zip cs bs) x" "in_force K N A t x" by auto
  then show ?case using q(1) r(1) by (auto intro: policy_trace.more)
qed

section \<open>The probe for MPOL_PREFERRED_MANY\<close>

text \<open>The mask the probe tries: the nodes the kernel allows the task, or none when it does not tell.\<close>

definition probe_mask :: "'w os \<Rightarrow> nat \<Rightarrow> 'w numa \<Rightarrow> ulong list" where
  "probe_mask K n s =
     (case os_get_mempolicy K (world s) (maskp (new_bitmask n)) n 0 MPOL_F_MEMS_ALLOWED of
        Inl e \<Rightarrow> maskp (new_bitmask n) | Inr (_, ws) \<Rightarrow> ws)"

lemma mems_allowed_mask:
  assumes R: "policy_ready K N s n all" and ex: "\<not> numa_exit_on_error s"
  shows "\<exists>t. numa_get_mems_allowed K s = Some (Some \<lparr>bm_size = n, maskp = probe_mask K n s\<rparr>, t) \<and>
    world t = world s \<and> has_preferred_many t = has_preferred_many s"
  using ready_alloc(1) [OF R] ex
  by (cases "os_get_mempolicy K (world s) (maskp (new_bitmask n)) n 0 MPOL_F_MEMS_ALLOWED")
    (auto simp: numa_get_mems_allowed_def get_mempolicy_def numa_error_unfold probe_mask_def new_bitmask_def)

lemma probe_run:
  assumes K: "policy_kernel K u (\<lambda>_. A) N" and R: "policy_ready K N s n all" and F: "in_force K N A s p"
    and new: "has_preferred_many s < 0" and ex: "\<not> numa_exit_on_error s"
  shows "\<exists>t. set_preferred_many K s = Some t \<and> errno t = errno s \<and>
    (case os_set_mempolicy K (world s) MPOL_PREFERRED_MANY (probe_mask K n s) n of
       Inl e \<Rightarrow> has_preferred_many t = 0 \<and> world t = world s
     | Inr w \<Rightarrow> has_preferred_many t = 1 \<and>
         (in_force K N A t p \<or>
          (\<exists>mode \<in> modes_of p. \<exists>ws e. (\<forall>i. wbit ws i \<longleftrightarrow> i \<in> nodes_of p) \<and> os_set_mempolicy K w mode ws (n + 1) = Inl e)))"
proof -
  define s0 where "s0 = s\<lparr>has_preferred_many := 0\<rparr>"
  have R0: "policy_ready K N s0 n all" using R by (simp add: policy_ready_def s0_def numa_wf_def)
  have ex0: "\<not> numa_exit_on_error s0" using ex by (simp add: s0_def)
  have pm: "probe_mask K n s0 = probe_mask K n s" by (simp add: probe_mask_def s0_def)
  obtain v where v: "numa_get_mems_allowed K s0 = Some (Some \<lparr>bm_size = n, maskp = probe_mask K n s\<rparr>, v)"
    "world v = world s" "has_preferred_many v = 0"
    using mems_allowed_mask [OF R0 ex0] unfolding pm by (auto simp: s0_def)
  obtain mode where mode: "mode \<in> modes_of p" "reads K N (world s) mode (nodes_of p)" using F by (auto simp: in_force_def)
  have nb: "maskp (new_bitmask n) = replicate (longsperbits n) 0" by (simp add: new_bitmask_def)
  obtain ws where ws: "os_get_mempolicy K (world s) (maskp (new_bitmask n)) n 0 0 = Inr (mode, ws)"
    "\<forall>i. wbit ws i \<longleftrightarrow> i \<in> nodes_of p"
    using mode(2) ready_alloc(5) [OF R] size_le_words [of n] unfolding reads_def nb by blast
  show ?thesis
  proof (cases "os_set_mempolicy K (world s) MPOL_PREFERRED_MANY (probe_mask K n s) n")
    case (Inl e)
    then show ?thesis
      using new ready_alloc(1) [OF R0] v ws(1)
      by (simp add: set_preferred_many_def s0_def [symmetric] get_mempolicy_def set_mempolicy_def Let_def)
  next
    case (Inr w)
    define t where "t = (snd (set_mempolicy K mode ws (n + 1) (v\<lparr>world := w, has_preferred_many := 1\<rparr>)))\<lparr>errno := errno s\<rparr>"
    have run: "set_preferred_many K s = Some t"
      using new ready_alloc(1) [OF R0] v ws(1) Inr
      by (simp add: set_preferred_many_def s0_def [symmetric] get_mempolicy_def set_mempolicy_def [of K MPOL_PREFERRED_MANY] Let_def t_def)
    show ?thesis
    proof (cases "os_set_mempolicy K w mode ws (n + 1)")
      case (Inr w2)
      have "nodes_of p \<subseteq> {..<n}" "nodes_of p \<subseteq> A"
        using F policy_kernel_bounds(3) [OF K] ready_alloc(5) [OF R] by (fastforce simp: in_force_def)+
      moreover have "i < u (n + 1)" if "i < n" for i using policy_kernel_bounds(1) [OF K, of "n + 1"] that by simp
      ultimately have "{i. wbit ws i \<and> i < u (n + 1) \<and> i \<in> A} = nodes_of p" using ws(2) by blast
      then have "in_force K N A (v\<lparr>world := w\<rparr>\<lparr>world := w2\<rparr>) p"
        using Inr \<open>nodes_of p \<subseteq> A\<close> by (intro set_in_force [OF K _ _ installs_reported [OF mode(1)]]) simp_all
      moreover have "world t = w2" "has_preferred_many t = 1" using Inr by (simp_all add: t_def set_mempolicy_def)
      ultimately have "in_force K N A t p" by (simp add: in_force_def)
      then show ?thesis using run \<open>has_preferred_many t = 1\<close> \<open>os_set_mempolicy K (world s) _ _ n = Inr w\<close> by (simp add: t_def)
    next
      case (Inl e)
      then have "has_preferred_many t = 1" by (simp add: t_def set_mempolicy_def)
      then show ?thesis
        using run Inl mode(1) ws(2) \<open>os_set_mempolicy K (world s) _ _ n = Inr w\<close> by (auto simp: t_def)
    qed
  qed
qed

end
