(* ===== verification/PropsPolicy.thy ===== *)
theory PropsPolicy
  imports PolicyMachine Sample
begin

unbundle bit_operations_syntax

text \<open>
  Properties of the memory policy functions.  The kernel is any instance of \<open>os\<close> that keeps policies as
  documented (\<open>policy_kernel\<close>); the witnesses take the sample system.
\<close>

lemma toy_setpol:
  "0 \<le> mode \<Longrightarrow> mode < 7 \<Longrightarrow> mode \<noteq> MPOL_PREFERRED \<Longrightarrow> \<exists>t. setpol (toy_os r) mode b s = Some t \<and> err_out t = err_out s"
  by (simp add: setpol_def set_mempolicy_def toy_set_mempolicy)

section \<open>Setting and reading the policy\<close>

text \<open>C17: memory binding: when \<open>numa_set_membind\<close> reports no error, \<open>numa_get_membind\<close> returns the nodes of the mask that
  the task is allowed to use.  The library passes the size of the mask as the kernel's \<open>maxnode\<close>; of the mask the first
  \<open>u size\<close> bits count, which is all of them or all but the last: the manual of \<open>set_mempolicy\<close> allows both, and on
  Linux, which leaves the last one out, the highest node is lost.  The kernel is assumed to keep policies as its manual
  says (\<open>policy_kernel\<close>), the masks of the library, and the one that is set, to have room for the nodes that the system
  supports, and memory not to run out.\<close>

theorem membind_round_trip:
  assumes "policy_kernel K u allowed N" "malloc_succeeds K" "numa_wf s" "int N \<le> nodemask_sz s"
    and "bm_inv b" "int (bm_size b) = nodemask_sz s"
    and "numa_set_membind_v2 K b s = Some t" "err_out t = err_out s"
  shows "\<exists>b'. numa_get_membind_v2 K t = Some (Some b', t) \<and>
    bm_bits b' = {i \<in> bm_bits b. i < u (bm_size b) \<and> i \<in> allowed (world s)}"
  by (rule membind_read_back [OF assms])

theorem membind_round_trip_witness:
  "\<exists>t b'. numa_set_membind_v2 (toy_os True) (toy_mask 64 [1, 63]) toy_numa = Some t \<and>
    numa_get_membind_v2 (toy_os True) t = Some (Some b', t) \<and> bm_bits b' = {1}"
proof -
  obtain t where t: "numa_set_membind_v2 (toy_os True) (toy_mask 64 [1, 63]) toy_numa = Some t" "err_out t = err_out toy_numa"
    using toy_setpol [of MPOL_BIND True "toy_mask 64 [1, 63]" toy_numa]
    by (auto simp: numa_set_membind_v2_def mpol_defs)
  from membind_round_trip [OF toy_policy_kernel toy_malloc toy_wf _ _ _ t]
  obtain b' where "numa_get_membind_v2 (toy_os True) t = Some (Some b', t)"
    "bm_bits b' = {i \<in> bm_bits (toy_mask 64 [1, 63]). i < bm_size (toy_mask 64 [1, 63]) - 1 \<and> i \<in> {..<64}}"
    by (auto simp: toy_mask_bits(1,2))
  moreover have "{i \<in> bm_bits (toy_mask 64 [1, 63]). i < bm_size (toy_mask 64 [1, 63]) - 1 \<and> i \<in> {..<64}} = {1}"
    unfolding toy_mask_bits(2,3) by auto
  ultimately show ?thesis using t(1) by auto
qed

text \<open>Interleaving: the mask set is read back in the same way; the empty mask, which sets the default
  policy, reads back as the empty mask.\<close>

theorem interleave_round_trip:
  assumes "policy_kernel K u allowed N" "malloc_succeeds K" "numa_wf s" "int N \<le> nodemask_sz s"
    and "numa_no_nodes_ptr s = Some no" "bm_bits no = {}"
    and "bm_inv b" "int (bm_size b) = nodemask_sz s"
    and "numa_set_interleave_mask_v2 K b s = Some t" "err_out t = err_out s"
  shows "\<exists>b'. numa_get_interleave_mask_v2 K t = Some (Some b', t) \<and>
    bm_bits b' = {i \<in> bm_bits b. i < u (bm_size b) \<and> i \<in> allowed (world s)}"
  using interleave_read_back [OF assms(1-4) _ assms(7-10)] assms(5,6) by auto

theorem interleave_round_trip_witness:
  "\<exists>t b'. numa_set_interleave_mask_v2 (toy_os True) (toy_mask 64 [0, 1]) toy_numa = Some t \<and>
    numa_get_interleave_mask_v2 (toy_os True) t = Some (Some b', t) \<and> bm_bits b' = {0, 1}"
proof -
  let ?b = "toy_mask 64 [0, 1]"
  have bits: "bm_bits ?b = {0, 1}" "bm_bits (toy_mask 64 []) = {}" unfolding toy_mask_bits(3) by auto
  then have "numa_set_interleave_mask_v2 (toy_os True) ?b toy_numa = setpol (toy_os True) MPOL_INTERLEAVE ?b toy_numa"
    by (simp add: numa_set_interleave_mask_v2_def equal_bits)
  then obtain t where t: "numa_set_interleave_mask_v2 (toy_os True) ?b toy_numa = Some t" "err_out t = err_out toy_numa"
    using toy_setpol [of MPOL_INTERLEAVE True ?b toy_numa] by (auto simp: mpol_defs)
  have sz: "int (bm_size ?b) = nodemask_sz toy_numa" by (simp add: toy_mask_bits(2))
  have wf: "numa_wf toy_numa" "int 64 \<le> nodemask_sz toy_numa" by simp_all
  from interleave_round_trip [OF toy_policy_kernel toy_malloc wf toy_numa_fields(12) bits(2) toy_mask_bits(1) sz t]
  obtain b' where "numa_get_interleave_mask_v2 (toy_os True) t = Some (Some b', t)"
    "bm_bits b' = {i \<in> {0, 1}. i < 64 - 1 \<and> i \<in> {..<64}}" unfolding bits(1) toy_mask_bits(2) by blast
  moreover have "{i \<in> {0, 1}. i < 64 - 1 \<and> i \<in> {..<64}} = {0, 1 :: nat}" by auto
  ultimately show ?thesis using t(1) by metis
qed

text \<open>The preferred node: a node set with \<open>numa_set_preferred\<close> is what \<open>numa_preferred\<close> returns.\<close>

theorem preferred_round_trip:
  assumes "policy_kernel K u allowed N" "malloc_succeeds K" "numa_wf s" "int N \<le> nodemask_sz s"
    and "0 \<le> node" "node + 1 < nodemask_sz s" "nat node \<in> allowed (world s)"
    and "numa_set_preferred K node s = Some t" "err_out t = err_out s"
  shows "numa_preferred K t = Some (node, t)"
  by (rule preferred_read_back [OF assms])

theorem preferred_round_trip_witness:
  "\<exists>t. numa_set_preferred (toy_os True) 1 toy_numa = Some t \<and> numa_preferred (toy_os True) t = Some (1, t)"
proof -
  let ?b = "numa_bitmask_setbit (new_bitmask 64) 1"
  have "maskp ?b = [2]" "bm_size ?b = 64" "\<not> 1 < length (filter (wbit (cut_words 63 [2])) [0..<64])" by code_simp+
  then have "\<exists>t. setpol (toy_os True) MPOL_PREFERRED ?b toy_numa = Some t \<and> err_out t = err_out toy_numa"
    by (simp add: setpol_def set_mempolicy_def toy_os_def mpol_defs)
  then obtain t where t: "numa_set_preferred (toy_os True) 1 toy_numa = Some t" "err_out t = err_out toy_numa"
    using set_preferred_run [OF toy_malloc toy_wf refl, of True 1] by (auto simp: c_uint_def)
  from preferred_round_trip [OF toy_policy_kernel toy_malloc toy_wf _ _ _ _ t] t(1) show ?thesis by simp
qed

text \<open>A negative or too large node makes \<open>numa_set_preferred\<close> ask for local allocation with an empty
  mask, the documented meaning of -1.\<close>

theorem preferred_minus_one_is_local:
  assumes "malloc_succeeds K" "numa_wf s" "nat (nodemask_sz s) \<le> c_uint node"
  shows "numa_set_preferred K node s = setpol K MPOL_LOCAL (new_bitmask (nat (nodemask_sz s))) s"
proof -
  have "numa_bitmask_setbit (new_bitmask (nat (nodemask_sz s))) (c_uint node) = new_bitmask (nat (nodemask_sz s))"
    using assms(3) by (intro bm.put_beyond) simp
  then show ?thesis using set_preferred_run [OF assms(1,2) refl, of node] assms(3) by simp
qed

theorem preferred_minus_one_is_local_witness:
  "numa_set_preferred (toy_os True) (- 1) toy_numa = setpol (toy_os True) MPOL_LOCAL (new_bitmask 64) toy_numa"
  using preferred_minus_one_is_local [OF toy_malloc toy_wf, of "- 1"] by (simp add: c_uint_def)

section \<open>The probe for MPOL_PREFERRED_MANY\<close>

text \<open>C34: the first call that asks whether the kernel knows \<open>MPOL_PREFERRED_MANY\<close> tries it on the process itself, and
  leaves the process as it was: when the kernel refuses the mode, nothing has changed and the answer is no; when the
  kernel accepts it, the answer is yes and the policy in force is the one that was in force before, whichever it
  was, default and local allocation included, unless the kernel refuses to take back the mode and the nodes that it
  has just reported.  \<open>errno\<close> is what it was.  The kernel is assumed to keep policies as its manual says
  (\<open>policy_kernel\<close>), the nodes the task may use not to change, and errors not to end the process.\<close>

theorem preferred_many_probe_restores:
  assumes "policy_kernel K u (\<lambda>_. A) N" "policy_ready K N s n all" "in_force K N A s p"
    and "has_preferred_many s < 0" "\<not> numa_exit_on_error s"
  shows "\<exists>t. set_preferred_many K s = Some t \<and> errno t = errno s \<and>
    (case os_set_mempolicy K (world s) MPOL_PREFERRED_MANY (probe_mask K n s) n of
       Inl e \<Rightarrow> has_preferred_many t = 0 \<and> world t = world s
     | Inr w \<Rightarrow> has_preferred_many t = 1 \<and>
         (in_force K N A t p \<or>
          (\<exists>mode \<in> modes_of p. \<exists>ws e. (\<forall>i. wbit ws i \<longleftrightarrow> i \<in> nodes_of p) \<and> os_set_mempolicy K w mode ws (n + 1) = Inl e)))"
  by (rule probe_run [OF assms])

lemma toy_mask_nodes: "bm_bits (toy_mask 64 []) = {}" "bm_bits (toy_mask 64 [0, 1]) = {0, 1}"
  unfolding toy_mask_bits(3) by auto

lemma toy_in_force:
  assumes "toy_mode w \<in> modes_of p" "{i. wbit (toy_words w) i} = nodes_of p" "nodes_of p \<subseteq> {..<64}" "world s = w"
  shows "in_force (toy_os r) 64 {..<64} s p"
  using toy_reads [of "nodes_of p" w r] assms by (auto simp: in_force_def)

theorem preferred_many_probe_restores_witness:
  "\<exists>s t. in_force (toy_os True) 64 {..<64} s (Bind {1}) \<and> set_preferred_many (toy_os True) s = Some t \<and>
    has_preferred_many t = 1 \<and> in_force (toy_os True) 64 {..<64} t (Bind {1})"
proof -
  let ?K = "toy_os True" and ?s = "toy_numa\<lparr>world := toy_world\<lparr>toy_mode := MPOL_BIND, toy_words := [2]\<rparr>\<rparr>"
  have wf: "numa_wf ?s" using toy_wf by (simp add: numa_wf_def)
  have ready: "policy_ready ?K 64 ?s 64 {0, 1}" using wf toy_mask_nodes by (simp add: policy_ready_def)
  have "wbit [2] i \<longleftrightarrow> i = 1" for i
    by (cases "i div 64") (auto simp: wbit_def bit_2_iff div_eq_0_iff)
  then have bits: "{i. wbit [2] i} = {1}" by auto
  have bind: "in_force ?K 64 {..<64} ?s (Bind {1})" by (rule toy_in_force) (simp_all add: bits)
  obtain w where w: "os_set_mempolicy ?K (world ?s) MPOL_PREFERRED_MANY (probe_mask ?K 64 ?s) 64 = Inr w"
    by (simp add: toy_set_mempolicy mpol_defs)
  have take: "os_set_mempolicy ?K w mode ws (64 + 1) \<noteq> Inl e" if "mode \<in> modes_of (Bind {1})" for mode ws e
    using that by (simp add: toy_set_mempolicy mpol_defs)
  have "has_preferred_many ?s < 0" "\<not> numa_exit_on_error ?s" by simp_all
  from preferred_many_probe_restores [OF toy_policy_kernel ready bind this] w take
  obtain t where "set_preferred_many ?K ?s = Some t" "has_preferred_many t = 1" "in_force ?K 64 {..<64} t (Bind {1})"
    by (simp del: One_nat_def) blast
  then show ?thesis using bind by blast
qed

text \<open>Whatever the kernel answers to the calls of the probe, it leaves \<open>errno\<close> as it was, stores an
  answer, and is not repeated.\<close>

theorem preferred_many_probe_once:
  assumes "set_preferred_many K s = Some t"
  shows "errno t = errno s \<and> 0 \<le> has_preferred_many t \<and> has_preferred_many t \<le> max 1 (has_preferred_many s) \<and>
    set_preferred_many K t = Some t"
proof -
  have "0 \<le> has_preferred_many t \<and> has_preferred_many t \<le> max 1 (has_preferred_many s)"
    using set_preferred_many_errno(2,3) [OF assms] by (cases "has_preferred_many s < 0") auto
  then show ?thesis using set_preferred_many_errno(1) [OF assms] by (simp add: set_preferred_many_def)
qed

theorem preferred_many_probe_once_witness:
  "\<exists>t. set_preferred_many (toy_os True) (toy_numa\<lparr>has_preferred_many := 0, errno := ENOENT\<rparr>) = Some t \<and> errno t = ENOENT"
proof -
  have r: "set_preferred_many (toy_os True) (toy_numa\<lparr>has_preferred_many := 0, errno := ENOENT\<rparr>) =
      Some (toy_numa\<lparr>has_preferred_many := 0, errno := ENOENT\<rparr>)" by (simp add: set_preferred_many_def)
  from preferred_many_probe_once [OF r] r show ?thesis by auto
qed

section \<open>Areas of memory\<close>

text \<open>A failed \<open>mbind\<close> is always reported; the area is unmapped and NULL returned exactly when
  \<open>numa_fail_alloc_on_error\<close> is set, and otherwise the address of the unbound area is returned.\<close>

theorem failed_binding:
  assumes "os_mbind K (world s) mem sz p (map_option maskp b) (case b of None \<Rightarrow> 0 | Some b \<Rightarrow> bm_size b) (mbind_flags s) = Inl e"
    and "\<not> numa_exit_on_error s"
  shows "\<exists>r t. dombind_or_free K mem sz p b s = Some (r, t) \<and> err_out t = ''mbind'' # err_out s \<and> errno t = e \<and>
    (if numa_fail_alloc_on_error s then r = None \<and> world t = os_munmap K (world s) mem sz
     else r = Some mem \<and> world t = world s)"
  using assms by (simp add: dombind_or_free_cases Let_def)

theorem failed_binding_witness:
  "\<exists>r t. dombind_or_free (toy_os True) 4096 0 MPOL_LOCAL None (toy_numa\<lparr>numa_fail_alloc_on_error := True\<rparr>) = Some (r, t) \<and>
    r = None \<and> err_out t = [''mbind'']"
  using failed_binding [of "toy_os True" "toy_numa\<lparr>numa_fail_alloc_on_error := True\<rparr>" 4096 0 MPOL_LOCAL None EINVAL]
  by (auto simp: toy_os_def)

text \<open>\<open>numa_police_memory\<close> returns, having touched one address in every page of the area, in order and
  nothing else, for every area that does not reach into the last page of the address space.\<close>

theorem police_memory_touches_all:
  assumes "0 < pagesize s" "pagesize s < 2 ^ 31" "int sz + pagesize s \<le> 2 ^ 64" "mem < 2 ^ 64"
  shows "\<exists>pages. numa_police_memory K mem sz s =
      Some (s\<lparr>world := fold (\<lambda>a w. os_touch K w a) pages (world s)\<rparr>) \<and>
    (\<forall>a < sz. (mem + a div nat (pagesize s) * nat (pagesize s)) mod 2 ^ 64 \<in> set pages) \<and>
    length pages = (sz + nat (pagesize s) - 1) div nat (pagesize s)"
proof -
  have "0 < nat (pagesize s)" using assms(1) by simp
  from touched_pages [OF this] police_memory_run [OF assms, of K] show ?thesis
    by (intro exI [of _ "touched (nat (pagesize s)) mem ((sz + nat (pagesize s) - 1) div nat (pagesize s))"])
      (auto simp: touched_def)
qed

theorem police_memory_touches_all_witness:
  "\<exists>pages. numa_police_memory (toy_os True) 8192 5000 (toy_numa\<lparr>pagesize := 4096\<rparr>) =
      Some (toy_numa\<lparr>pagesize := 4096, world := fold (\<lambda>a w. os_touch (toy_os True) w a) pages toy_world\<rparr>) \<and>
    length pages = 2"
  using police_memory_touches_all [of "toy_numa\<lparr>pagesize := 4096\<rparr>" 5000 8192 "toy_os True"] by auto

text \<open>For a longer area the index of the loop wraps around and the loop never ends.\<close>

theorem police_memory_diverges:
  assumes "0 < pagesize s" "pagesize s < 2 ^ 31" "nat (pagesize s) dvd 2 ^ 64" "2 ^ 64 < int sz + pagesize s"
  shows "numa_police_memory K mem sz s = None"
proof -
  have "c_ulong (pagesize s) = nat (pagesize s)" using assms by (simp add: c_ulong_id)
  moreover have "int (2 ^ 64) < int (sz + nat (pagesize s))" using assms(1,4) by simp
  then have "2 ^ 64 < sz + nat (pagesize s)" by (simp only: of_nat_less_iff)
  ultimately show ?thesis
    using assms police_loop_diverges [of "nat (pagesize s)" sz 0 K mem "world s"]
    by (simp add: numa_police_memory_def numa_pagesize_def)
qed

theorem police_memory_diverges_witness:
  "numa_police_memory (toy_os True) 0 (2 ^ 64 - 1) (toy_numa\<lparr>pagesize := 4096\<rparr>) = None"
proof (rule police_memory_diverges)
  have "(2 :: nat) ^ 12 dvd 2 ^ 64" by (rule le_imp_power_dvd) simp
  then show "nat (pagesize (toy_numa\<lparr>pagesize := 4096\<rparr>)) dvd 2 ^ 64" by simp
qed simp_all

section \<open>The version 1 interface\<close>

text \<open>\<open>numa_set_membind\<close> of version 1 gives the mask the size of its structure in bytes, so the nodes from
  16 on are lost (on Linux, also node 15): the policy in force afterwards has only the nodes below of the mask.\<close>

theorem membind_v1_loses_nodes:
  assumes "policy_kernel K u allowed N" "malloc_succeeds K" "N \<le> 128" "nm_inv nm"
    and "numa_set_membind_v1 K nm s = Some t" "err_out t = err_out s"
  shows "\<exists>nm'. numa_get_membind_v1 K t = Some (nm', t) \<and>
    (\<forall>i. nodemask_isset_compat nm' i \<longleftrightarrow> nodemask_isset_compat nm i \<and> i < u 16 \<and> i \<in> allowed (world s))"
  by (rule membind_v1_read_back [OF assms])

theorem membind_v1_loses_nodes_witness:
  "\<exists>t nm'. numa_set_membind_v1 (toy_os True) [0x10001, 0] toy_numa = Some t \<and>
    numa_get_membind_v1 (toy_os True) t = Some (nm', t) \<and> nodemask_isset_compat nm' 0 \<and>
    nodemask_isset_compat [0x10001, 0] 16 \<and> \<not> nodemask_isset_compat nm' 16"
proof -
  have nm: "nm_inv [0x10001, 0]" by (simp add: nm_inv_def NUMA_NUM_NODES_def)
  have set: "nodemask_isset_compat [0x10001, 0] 0" "nodemask_isset_compat [0x10001, 0] 16"
    by (simp_all add: nodemask_isset_bit NUMA_NUM_NODES_def bit_iff_odd drop_bit_eq_div [symmetric] flip: drop_bit_numeral_minus_bit1)
  obtain t where t: "numa_set_membind_v1 (toy_os True) [0x10001, 0] toy_numa = Some t" "err_out t = err_out toy_numa"
    using toy_setpol [of MPOL_BIND True "\<lparr>bm_size = sizeof_nodemask, maskp = [0x10001, 0]\<rparr>" toy_numa]
    by (auto simp: numa_set_membind_v1_def mpol_defs)
  from membind_v1_loses_nodes [OF toy_policy_kernel toy_malloc _ nm t] set t(1) show ?thesis by auto
qed

text \<open>\<open>numa_get_membind\<close> of version 1, called by a process that is not bound, does not return all nodes:
  it overwrites the global mask \<open>numa_all_nodes\<close> with the nodes of the current policy, none for the default
  policy, and returns that.\<close>

theorem get_membind_v1_overwrites_all_nodes:
  assumes "malloc_succeeds K" and "os_get_mempolicy K (world s) (maskp (new_bitmask 128)) 128 0 0 = Inr (p, ws)"
    and "p \<noteq> MPOL_BIND" "length ws = 2"
  shows "\<exists>nm. numa_get_membind_v1 K s = Some (nm, s\<lparr>numa_all_nodes := nm\<rparr>) \<and>
    (\<forall>i. nodemask_isset_compat nm i \<longleftrightarrow> i < NUMA_NUM_NODES \<and> wbit ws i)"
  by (rule membind_v1_clobbers [OF assms])

theorem get_membind_v1_overwrites_all_nodes_witness:
  "\<exists>nm. numa_get_membind_v1 (toy_os True) (toy_numa\<lparr>numa_all_nodes := [3, 0]\<rparr>) =
      Some (nm, toy_numa\<lparr>numa_all_nodes := nm\<rparr>) \<and> (\<forall>i. \<not> nodemask_isset_compat nm i)"
proof -
  have m: "maskp (new_bitmask 128) = [0, 0]" by (simp add: new_bitmask_def longsperbits_def numeral_2_eq_2)
  have "os_get_mempolicy (toy_os True) toy_world (maskp (new_bitmask 128)) 128 0 0 = Inr (0, [0, 0])"
    by (simp add: toy_os_def toy_world_def m fit_words_def MPOL_F_MEMS_ALLOWED_def)
  then have g: "os_get_mempolicy (toy_os True) (world (toy_numa\<lparr>numa_all_nodes := [3, 0]\<rparr>)) (maskp (new_bitmask 128)) 128 0 0 =
      Inr (0, [0, 0])" by simp
  have z: "\<not> wbit [0, 0] i" for i
  proof -
    have "[0, 0] = replicate 2 (0 :: ulong)" by (simp add: numeral_2_eq_2)
    then show ?thesis by (simp only: wbit_replicate_0 not_False_eq_True)
  qed
  have "(0 :: int) \<noteq> MPOL_BIND" "length [0, 0 :: ulong] = 2" by (simp_all add: MPOL_BIND_def)
  from get_membind_v1_overwrites_all_nodes [OF toy_malloc g this]
  obtain nm where nm: "numa_get_membind_v1 (toy_os True) (toy_numa\<lparr>numa_all_nodes := [3, 0]\<rparr>) =
      Some (nm, toy_numa\<lparr>numa_all_nodes := [3, 0]\<rparr>\<lparr>numa_all_nodes := nm\<rparr>)"
    "\<forall>i. nodemask_isset_compat nm i \<longleftrightarrow> i < NUMA_NUM_NODES \<and> wbit [0, 0] i" by blast
  have "toy_numa\<lparr>numa_all_nodes := [3, 0]\<rparr>\<lparr>numa_all_nodes := nm\<rparr> = toy_numa\<lparr>numa_all_nodes := nm\<rparr>" by simp
  with nm z show ?thesis by metis
qed

section \<open>The policy machine\<close>

text \<open>C4: any sequence of calls that set and read the memory policy is explained by the abstract machine: the calls
  come back, and there is a run of the machine on the same calls with the same answers that ends in a policy which is
  the one in force.  A call that reports no error has set its policy, with the nodes that the task may use, among the
  bits of the mask that reach the kernel; one that reports an error has changed nothing.  A query for binding or
  interleaving answers with the nodes in force when the policy has that mode, with all nodes of the task or
  none otherwise; \<open>numa_preferred\<close> answers with the lowest node of the policy in force, whatever its mode, and with
  0 for default and local allocation.  The kernel is assumed to keep policies as its manual says (\<open>policy_kernel\<close>), the
  nodes the task may use not to change, and errors not to end the process.\<close>

theorem policy_calls_refine:
  assumes "policy_kernel K u (\<lambda>_. A) N" "policy_ready K N s n all" "in_force K N A s p" "\<forall>c \<in> set cs. call_ok n c"
    and "\<not> numa_exit_on_error s"
  shows "\<exists>as t q. run_calls K cs s = Some (as, t) \<and> length as = length cs \<and>
    policy_trace (u n) A all p (zip cs as) q \<and> in_force K N A t q"
  by (rule run_calls_trace [OF assms])

theorem policy_calls_refine_witness:
  "\<exists>t. run_calls (toy_os True) [Set_membind (toy_mask 64 [1, 63]), Get_membind, Get_preferred] toy_numa =
      Some ([Accepted, Nodes {1}, Node 1], t) \<and> in_force (toy_os True) 64 {..<64} t (Bind {1})"
proof -
  let ?K = "toy_os True" and ?b = "toy_mask 64 [1, 63]"
  let ?cs = "[Set_membind ?b, Get_membind, Get_preferred]"
  have ready: "policy_ready ?K 64 toy_numa 64 {0, 1}" using toy_mask_nodes by (simp add: policy_ready_def)
  have default: "in_force ?K 64 {..<64} toy_numa Default"
    by (rule toy_in_force) (simp_all add: toy_world_def mpol_defs wbit_def)
  have ok: "\<forall>c \<in> set ?cs. call_ok 64 c" by (simp add: toy_mask_bits(1,2))
  obtain as t q where run: "run_calls ?K ?cs toy_numa = Some (as, t)" "length as = length ?cs"
    "policy_trace (64 - 1) {..<64} {0, 1} Default (zip ?cs as) q" "in_force ?K 64 {..<64} t q"
    using policy_calls_refine [OF toy_policy_kernel ready default ok] by auto
  obtain v where v: "setpol ?K MPOL_BIND ?b toy_numa = Some v" "err_out v = err_out toy_numa"
    using toy_setpol [of MPOL_BIND True ?b toy_numa] by (auto simp: mpol_defs)
  have "run_call ?K (Set_membind ?b) toy_numa = Some (Accepted, v)"
    using v by (simp add: accept_def numa_set_membind_v2_def)
  then obtain a c where as: "as = [Accepted, a, c]" using run(1,2) by (auto simp: bind_Some_iff)
  have eff: "effective (64 - 1) {..<64} (bm_bits ?b) = {1}" unfolding toy_mask_bits(3) by (auto simp: effective_def)
  let ?E = "effective (64 - 1) {..<64} (bm_bits ?b)"
  have "q = Bind ?E" "a = Nodes ?E" "c = Node (first_node ?E)"
    using run(3) unfolding as
    by (auto simp: trace_Cons trace_Nil set_membind_step get_membind_step get_preferred_step queries_def simp del: diff_numeral_simps)
  then have "q = Bind {1}" "a = Nodes {1}" "c = Node (first_node {1})" unfolding eff .
  then show ?thesis using run(1,4) as by (auto simp: first_node_def)
qed

text \<open>Where the kernel accepts the flag for NUMA balancing, a binding set by \<open>numa_set_membind_balancing\<close> is not seen by
  \<open>numa_get_membind\<close>: the mode that is read back has the flag in it, so the answer is all nodes of the task.\<close>

lemma balanced_binding_unread:
  assumes K: "policy_kernel K u (\<lambda>_. A) N" and R: "policy_ready K N s n all" and F: "in_force K N A s (Balanced S)"
  shows "\<exists>al. numa_get_membind_v2 K s = Some (Some al, s) \<and> bm_bits al = all"
proof -
  obtain mode b where m: "mode \<in> modes_of (Balanced S)"
    and b: "\<forall>old. getpol K old (new_bitmask n) s = Some ((mode, b), s)" "bm_inv b" "bm_size b = n" "bm_bits b = nodes_of (Balanced S)"
    by (rule in_force_read [OF K R F])
  obtain no al where no: "numa_no_nodes_ptr s = Some no" "bm_inv no" "bm_size no = n" "bm_bits no = {}"
    and al: "numa_all_nodes_ptr s = Some al" "bm_inv al" "bm_size al = n" "bm_bits al = all"
    by (rule ready_masks [OF R])
  have "mode \<noteq> MPOL_BIND" using modes_of_eq(1) [OF m] by blast
  then show ?thesis using query_runs(1) [OF R b(1-3) no(1-3) al(1-3)] al(4) by simp
qed

end
