(* ===== verification/Compat.thy ===== *)
theory Compat
  imports RunNode
begin

unbundle bit_operations_syntax

text \<open>
  The source compatible version 1 interface of \<open>numa.h\<close>: inline functions that take a \<open>nodemask_t\<close> or an array of
  longs and call the version 2 function with a \<open>struct bitmask\<close> around it.  \<open>numacompat1.h\<close> gives them the names of
  version 1.  They are not the binary compatible functions of \<open>libnuma.c\<close> with the suffix \<open>_v1\<close>.
\<close>

section \<open>Node masks\<close>

definition numa_set_interleave_mask_compat :: "'w os \<Rightarrow> nodemask \<Rightarrow> 'w numa \<Rightarrow> 'w numa option" where
  "numa_set_interleave_mask_compat K m s = numa_set_interleave_mask_v2 K (nodemask_as_bitmask m) s"

text \<open>The mask that the library returns is copied without a test for NULL.\<close>

definition numa_get_interleave_mask_compat :: "'w os \<Rightarrow> 'w numa \<Rightarrow> (nodemask \<times> 'w numa) option" where
  "numa_get_interleave_mask_compat K s = do {
     (tp, s) \<leftarrow> numa_get_interleave_mask_v2 K s;
     tp \<leftarrow> tp;
     Some (copy_bitmask_to_nodemask tp, s)
   }"

definition numa_bind_compat :: "'w os \<Rightarrow> nodemask \<Rightarrow> 'w numa \<Rightarrow> 'w numa option" where
  "numa_bind_compat K m s = do {
     (tp, s) \<leftarrow> numa_allocate_nodemask K s;
     tp \<leftarrow> tp;
     numa_bind_v2 K (copy_nodemask_to_bitmask m tp) s
   }"

definition numa_set_membind_compat :: "'w os \<Rightarrow> nodemask \<Rightarrow> 'w numa \<Rightarrow> 'w numa option" where
  "numa_set_membind_compat K m s = numa_set_membind_v2 K (nodemask_as_bitmask m) s"

definition numa_get_membind_compat :: "'w os \<Rightarrow> 'w numa \<Rightarrow> (nodemask \<times> 'w numa) option" where
  "numa_get_membind_compat K s = do {
     (tp, s) \<leftarrow> numa_get_membind_v2 K s;
     tp \<leftarrow> tp;
     Some (copy_bitmask_to_nodemask tp, s)
   }"

definition numa_alloc_interleaved_subset_compat :: "'w os \<Rightarrow> nat \<Rightarrow> nodemask \<Rightarrow> 'w numa \<Rightarrow>
    (nat option \<times> 'w numa) option" where
  "numa_alloc_interleaved_subset_compat K sz m s =
     numa_alloc_interleaved_subset_v2 K sz (Some (nodemask_as_bitmask m)) s"

definition numa_run_on_node_mask_compat :: "'w os \<Rightarrow> nodemask \<Rightarrow> 'w numa \<Rightarrow> (int \<times> 'w numa) option" where
  "numa_run_on_node_mask_compat K m s = numa_run_on_node_mask_v2 K (nodemask_as_bitmask m) s"

definition numa_get_run_node_mask_compat :: "'w os \<Rightarrow> 'w numa \<Rightarrow> (nodemask \<times> 'w numa) option" where
  "numa_get_run_node_mask_compat K s = do {
     (tp, s) \<leftarrow> numa_get_run_node_mask_v2 K s;
     tp \<leftarrow> tp;
     Some (copy_bitmask_to_nodemask tp, s)
   }"

definition numa_interleave_memory_compat :: "'w os \<Rightarrow> nat \<Rightarrow> nat \<Rightarrow> nodemask \<Rightarrow> 'w numa \<Rightarrow> 'w numa option" where
  "numa_interleave_memory_compat K mem sz m s = numa_interleave_memory_v2 K mem sz (nodemask_as_bitmask m) s"

definition numa_tonodemask_memory_compat :: "'w os \<Rightarrow> nat \<Rightarrow> nat \<Rightarrow> nodemask \<Rightarrow> 'w numa \<Rightarrow> 'w numa option" where
  "numa_tonodemask_memory_compat K mem sz m s = numa_tonodemask_memory_v2 K mem sz (nodemask_as_bitmask m) s"

section \<open>Arrays of longs\<close>

text \<open>A bitmask over the caller's array, of whose size the caller gives the bytes.  The library works on whole longs:
  where they reach beyond the array, the access is undefined behaviour.\<close>

definition array_as_bitmask :: "nat \<Rightarrow> ulong list \<Rightarrow> bitmask option" where
  "array_as_bitmask bits ws = (if longsperbits bits \<le> length ws then Some \<lparr>bm_size = bits, maskp = ws\<rparr> else None)"

text \<open>\<open>len\<close> is \<open>unsigned\<close>, so the number of bits wraps around.\<close>

definition numa_sched_getaffinity_compat :: "'w os \<Rightarrow> int \<Rightarrow> nat \<Rightarrow> ulong list \<Rightarrow> 'w numa \<Rightarrow>
    ((int \<times> ulong list) \<times> 'w numa) option" where
  "numa_sched_getaffinity_compat K pid len m s = do {
     tmp \<leftarrow> array_as_bitmask (len * 8 mod 2 ^ 32) m;
     let ((r, tmp), s) = numa_sched_getaffinity_v2 K pid tmp s;
     Some ((r, maskp tmp), s)
   }"

definition numa_sched_setaffinity_compat :: "'w os \<Rightarrow> int \<Rightarrow> nat \<Rightarrow> ulong list \<Rightarrow> 'w numa \<Rightarrow> (int \<times> 'w numa) option" where
  "numa_sched_setaffinity_compat K pid len m s = do {
     tmp \<leftarrow> array_as_bitmask (len * 8 mod 2 ^ 32) m;
     Some (numa_sched_setaffinity_v2 K pid tmp s)
   }"

text \<open>\<open>buffer_len\<close> is \<open>int\<close>, and its product with 8 must be one; as an \<open>unsigned long\<close> a negative one is larger than
  any array.\<close>

definition numa_node_to_cpus_compat :: "'w os \<Rightarrow> int \<Rightarrow> ulong list \<Rightarrow> int \<Rightarrow> 'w numa \<Rightarrow>
    ((int \<times> ulong list) \<times> 'w numa) option" where
  "numa_node_to_cpus_compat K node buffer buffer_len s = do {
     bits \<leftarrow> (if - (2 ^ 31) \<le> buffer_len * 8 \<and> buffer_len * 8 < 2 ^ 31 then Some (c_ulong (buffer_len * 8)) else None);
     tmp \<leftarrow> array_as_bitmask bits buffer;
     ((r, tmp), s) \<leftarrow> numa_node_to_cpus_v2 K node tmp s;
     Some ((r, maskp tmp), s)
   }"

section \<open>The nodes of a mask are all that counts\<close>

text \<open>A loop over the bits of a mask that skips the bits that are not set.\<close>

lemma foldM_filter:
  assumes "\<And>x z. x \<in> set xs \<Longrightarrow> \<not> P x \<Longrightarrow> f x z = Some z"
  shows "foldM f xs z = foldM f (filter P xs) z"
  using assms by (induction xs arbitrary: z) (auto simp: bind_eq_Some_conv intro!: arg_cong [where f = "Option.bind _"])

lemma foldM_cong:
  assumes "\<And>x z. x \<in> set xs \<Longrightarrow> f x z = g x z"
  shows "foldM f xs z = foldM g xs z"
  using assms by (induction xs arbitrary: z) (simp_all cong: Option.bind_cong)

definition set_nodes :: "bitmask \<Rightarrow> nat list" where
  "set_nodes b = filter (numa_bitmask_isbitset b) [0..<bm_size b]"

lemma set_nodes_eq:
  assumes "bm_bits a = bm_bits b"
  shows "set_nodes a = set_nodes b"
proof -
  have "sorted (set_nodes c)" "distinct (set_nodes c)" "set (set_nodes c) = bm_bits c" for c
    using bm_bits_below [of c] by (auto simp: set_nodes_def sorted_wrt_filter)
  then show ?thesis using assms sorted_distinct_set_unique by metis
qed

text \<open>The test of the whole word is only a short cut.\<close>

lemma run_mask_step_skips:
  assumes "bm_inv b" "\<not> numa_bitmask_isbitset b i"
  shows "run_mask_step K allowed b n i z = Some z"
  using assms(2) by (simp add: run_mask_step_def split: prod.split)

lemma run_mask_step_same:
  assumes "bm_inv a" "bm_inv b" "numa_bitmask_isbitset a i" "numa_bitmask_isbitset b i"
  shows "run_mask_step K allowed a n i z = run_mask_step K allowed b n i z"
proof -
  have "maskp c ! (i div 64) \<noteq> 0" if "bm_inv c" "numa_bitmask_isbitset c i" for c
    using that by (auto simp: isbitset_wbit wbit_def)
  then show ?thesis using assms by (simp add: run_mask_step_def split: prod.split)
qed

lemma run_on_mask_same_nodes:
  assumes inv: "bm_inv a" "bm_inv b" and bits: "bm_bits a = bm_bits b"
  shows "run_on_mask K allowed a s = run_on_mask K allowed b s"
proof -
  have loop: "foldM (run_mask_step K allowed c n) [0..<bm_size c] z = foldM (run_mask_step K allowed c n) (set_nodes c) z"
    if "bm_inv c" for c n z
    unfolding set_nodes_def by (rule foldM_filter) (rule run_mask_step_skips [OF that])
  have "foldM (run_mask_step K allowed a n) [0..<bm_size a] z = foldM (run_mask_step K allowed b n) [0..<bm_size b] z" for n z
  proof -
    have "foldM (run_mask_step K allowed a n) (set_nodes b) z = foldM (run_mask_step K allowed b n) (set_nodes b) z"
    proof (rule foldM_cong)
      fix i z assume "i \<in> set (set_nodes b)"
      then have "numa_bitmask_isbitset b i" by (simp add: set_nodes_def)
      moreover from this have "numa_bitmask_isbitset a i" using bits mem_bm_bits by blast
      ultimately show "run_mask_step K allowed a n i z = run_mask_step K allowed b n i z"
        using inv by (intro run_mask_step_same)
    qed
    then show ?thesis unfolding loop [OF inv(1)] loop [OF inv(2)] set_nodes_eq [OF bits] .
  qed
  then show ?thesis unfolding run_on_mask_def by (simp only:)
qed

lemma nodemask_bitmask:
  assumes "nm_inv m"
  shows "bm_inv (nodemask_as_bitmask m)" "bm_size (nodemask_as_bitmask m) = NUMA_NUM_NODES"
    "numa_bitmask_isbitset (nodemask_as_bitmask m) i \<longleftrightarrow> nodemask_isset_compat m i"
proof -
  show inv: "bm_inv (nodemask_as_bitmask m)"
    using assms by (simp add: bm_inv_def nodemask_as_bitmask_def nm_inv_def sizeof_nodemask_bits longsperbits_def NUMA_NUM_NODES_def)
  show sz: "bm_size (nodemask_as_bitmask m) = NUMA_NUM_NODES" by (simp add: nodemask_as_bitmask_def sizeof_nodemask_bits)
  show "numa_bitmask_isbitset (nodemask_as_bitmask m) i \<longleftrightarrow> nodemask_isset_compat m i"
    unfolding isbitset_wbit [OF inv] sz nodemask_isset_bit
    using nm_index [OF assms, of i] by (auto simp: wbit_def nodemask_as_bitmask_def)
qed

end
