(* ===== verification/PropsCompat.thy ===== *)
theory PropsCompat
  imports Compat Sample
begin

unbundle bit_operations_syntax

text \<open>
  Properties of the source compatible version 1 interface of \<open>numa.h\<close>.
\<close>

section \<open>Running on the nodes of a nodemask\<close>

text \<open>C37: a program compiled for version 1 runs on the same CPUs: \<open>numa_run_on_node_mask\<close> with a \<open>nodemask_t\<close> does
  exactly what it does with any bitmask of the same nodes, whatever the size of that bitmask: the result, the errors,
  the warnings and the affinity.  Only the nodes count, not the words, and the test of a whole word at a time is a
  short cut.\<close>

theorem compat_run_same_nodes:
  assumes "nm_inv m" "bm_inv b" "\<forall>i. nodemask_isset_compat m i \<longleftrightarrow> numa_bitmask_isbitset b i"
  shows "numa_run_on_node_mask_compat K m s = numa_run_on_node_mask_v2 K b s"
proof -
  have "bm_bits (nodemask_as_bitmask m) = bm_bits b" using nodemask_bitmask(3) [OF assms(1)] assms(3) by auto
  then show ?thesis
    using run_on_mask_same_nodes [OF nodemask_bitmask(1) [OF assms(1)] assms(2)]
    by (simp add: numa_run_on_node_mask_compat_def numa_run_on_node_mask_v2_def)
qed

theorem compat_run_same_nodes_witness:
  "numa_run_on_node_mask_compat (toy_os True) [3, 0] toy_numa =
    numa_run_on_node_mask_v2 (toy_os True) (toy_mask 64 [0, 1]) toy_numa"
proof -
  have nm: "nm_inv [3, 0]" by (simp add: nm_inv_def sizeof_nodemask_def NUMA_NUM_NODES_def)
  have three: "bit (3 :: ulong) i \<longleftrightarrow> i = 0 \<or> i = 1" for i
  proof -
    have e: "(3 :: ulong) = mask 2" by (simp add: mask_eq_exp_minus_1)
    show ?thesis unfolding e bit_mask_iff by (auto simp: possible_bit_word less_2_cases_iff)
  qed
  have bits: "nodemask_isset_compat [3, 0] i \<longleftrightarrow> i = 0 \<or> i = 1" for i
  proof (cases "i div 64 = 0")
    case True
    then show ?thesis using three [of i] by (auto simp: nodemask_isset_bit NUMA_NUM_NODES_def)
  next
    case False
    then show ?thesis by (cases "i div 64 = 1") (auto simp: nodemask_isset_bit NUMA_NUM_NODES_def)
  qed
  have "numa_bitmask_isbitset (toy_mask 64 [0, 1]) i \<longleftrightarrow> i = 0 \<or> i = 1" for i
    unfolding mem_bm_bits [symmetric] toy_mask_bits(3) by auto
  then have "\<forall>i. nodemask_isset_compat [3, 0] i \<longleftrightarrow> numa_bitmask_isbitset (toy_mask 64 [0, 1]) i"
    using bits by simp
  then show ?thesis by (rule compat_run_same_nodes [OF nm toy_mask_bits(1)])
qed

section \<open>Binding to a nodemask\<close>

text \<open>C35: setting the binding through the source compatible interface, when no error is reported, and reading it back
  returns the nodes of the \<open>nodemask_t\<close> that the task may use, on a kernel that keeps policies as its manual says
  (\<open>policy_kernel\<close>) and where the library's masks have room for the nodes of the system; they are taken among the first \<open>u 128\<close>, 127 or 128 of them: the inline functions pass the size
  in bits, and the mask read has the size of the library's masks, not of the \<open>nodemask_t\<close>.  (The binary compatible
  functions pass the size in bytes and lose the nodes from 16 on, see \<open>membind_v1_loses_nodes\<close>.)\<close>

theorem compat_membind_round_trip:
  assumes K: "policy_kernel K u allowed N" "malloc_succeeds K" and nm: "nm_inv m"
    and sz: "0 < nodemask_sz s" "nodemask_sz s < 2 ^ 31" "int N \<le> nodemask_sz s"
    and set: "numa_set_membind_compat K m s = Some t" "err_out t = err_out s"
  shows "\<exists>m'. numa_get_membind_compat K t = Some (m', t) \<and>
    (\<forall>i. nodemask_isset_compat m' i \<longleftrightarrow> nodemask_isset_compat m i \<and> i < u 128 \<and> i \<in> allowed (world s))"
proof -
  let ?b = "nodemask_as_bitmask m"
  define n where "n = nat (nodemask_sz s)"
  have N: "N \<le> n" using sz(3) by (simp add: n_def)
  have b: "bm_size ?b = 128" using nodemask_bitmask(2) [OF nm] by (simp add: NUMA_NUM_NODES_def)
  let ?E = "{i \<in> bm_bits ?b. i < u (bm_size ?b) \<and> i \<in> allowed (world s)}"
  have "setpol K MPOL_BIND ?b s = Some t"
    using set(1) by (simp add: numa_set_membind_compat_def numa_set_membind_v2_def)
  then obtain w mode S where t: "t = s\<lparr>world := w\<rparr>" and "reads K N w mode S" "read_as MPOL_BIND ?E mode S"
    by (rule setpol_reads [OF K(1) nodemask_bitmask(1) [OF nm] _ set(2)])
  then have r: "reads K N (world t) MPOL_BIND ?E" by (simp add: read_as_mask mask_modes_def)
  obtain b' where b': "\<forall>old. getpol K old (new_bitmask n) t = Some ((MPOL_BIND, b'), t)" "bm_inv b'" "bm_size b' = n"
    "bm_bits b' = ?E \<inter> {..<n}"
    by (rule reads_getpol [OF r N])
  have "numa_allocate_nodemask K t = Some (Some (new_bitmask n), t)"
    using allocate_nodemask_run [OF K(2), of t] sz(1,2) t by (simp add: n_def)
  then have "numa_get_membind_compat K t = Some (copy_bitmask_to_nodemask b', t)"
    using b'(1) by (simp add: numa_get_membind_compat_def numa_get_membind_v2_def)
  moreover have "nodemask_isset_compat (copy_bitmask_to_nodemask b') i \<longleftrightarrow>
      nodemask_isset_compat m i \<and> i < u 128 \<and> i \<in> allowed (world s)" for i
  proof -
    have "i \<in> bm_bits ?b \<longleftrightarrow> nodemask_isset_compat m i" using nodemask_bitmask(3) [OF nm, of i] by simp
    moreover have "numa_bitmask_isbitset b' i \<longleftrightarrow> i \<in> ?E \<inter> {..<n}" unfolding b'(4) [symmetric] by simp
    moreover have "i \<in> allowed (world s) \<Longrightarrow> i < n" using policy_kernel_bounds(3) [OF K(1)] N by fastforce
    moreover have "i < u 128 \<Longrightarrow> i < 128" using policy_kernel_bounds(2) [OF K(1), of 128] by simp
    ultimately show ?thesis unfolding copy_to_nodemask(2) b by (simp add: NUMA_NUM_NODES_def del: mem_bm_bits) blast
  qed
  ultimately show ?thesis by blast
qed

theorem compat_membind_round_trip_witness:
  "\<exists>t m'. numa_set_membind_compat (toy_os True) [3, 0x8000000000000000] (toy_numa\<lparr>nodemask_sz := 128\<rparr>) = Some t \<and>
    numa_get_membind_compat (toy_os True) t = Some (m', t) \<and> nodemask_isset_compat m' 1 \<and> \<not> nodemask_isset_compat m' 127"
proof -
  let ?m = "[3, 0x8000000000000000]" and ?s = "toy_numa\<lparr>nodemask_sz := 128\<rparr>"
  have nm: "nm_inv ?m" by (simp add: nm_inv_def sizeof_nodemask_def NUMA_NUM_NODES_def)
  obtain t where t: "numa_set_membind_compat (toy_os True) ?m ?s = Some t" "err_out t = err_out ?s"
    by (simp add: numa_set_membind_compat_def numa_set_membind_v2_def setpol_def set_mempolicy_def toy_set_mempolicy mpol_defs)
  have "nodemask_isset_compat ?m 1" by (simp add: nodemask_isset_bit NUMA_NUM_NODES_def)
  then show ?thesis using compat_membind_round_trip [OF toy_policy_kernel toy_malloc nm _ _ _ t] t(1) by auto
qed

end
