(* ===== verification/PropsCpu.thy ===== *)
theory PropsCpu
  imports Sample
begin

unbundle bit_operations_syntax

text \<open>
  Properties of the map from nodes to CPUs, of its cache, and of the functions that use it to set the
  affinity of the process.
\<close>

section \<open>The files of the sample system\<close>

lemma toy_cpumaps:
  "cpumap_of (toy_os r) w 64 0 = Some \<lparr>bm_size = 64, maskp = [3]\<rparr>"
  "cpumap_of (toy_os True) w 64 1 = Some \<lparr>bm_size = 64, maskp = [12]\<rparr>"
  "cpumap_of (toy_os False) w 64 1 = None"
proof -
  have nl: "first_line (u @ [CHR 0x0A]) = u @ [CHR 0x0A]" if "CHR 0x0A \<notin> set u" for u
    using split_lines_one [OF that, of "[]"] by (simp add: first_line_def file_lines_def)
  have n: "new_bitmask 64 = \<lparr>bm_size = 64, maskp = [0]\<rparr>" by (simp add: new_bitmask_def longsperbits_def)
  have run: "numa_parse_bitmap_v2 (g @ [CHR 0x0A]) \<lparr>bm_size = 64, maskp = [0]\<rparr> =
      (0, \<lparr>bm_size = 64, maskp = [of_nat (digits_acc 16 0 g)]\<rparr>)" if g: "field_ok g" for g
  proof -
    have "CHR 0x0A \<notin> set g" using g by (auto simp: field_ok_def is_digit_of_def digit_val_def char_code_def)
    then have at: "length (takeWhile (\<lambda>c. c \<noteq> CHR 0x0A) (g @ [CHR 0x0A])) = length g"
      by (subst takeWhile_append2) auto
    have longs: "CPU_LONGS (c_ulong (c_int 64)) = 1"
      by (simp add: c_int_id c_ulong_id CPU_LONGS_longsperbits longsperbits_def)
    have "parse_bitmap_loop 1 0 (length g) (g @ CHR 0x0A # []) [0] = (0, [0][0 := of_nat (digits_acc 16 0 g)])"
      by (rule loop_last_field [OF g]) simp_all
    then show ?thesis unfolding numa_parse_bitmap_v2_def at by (simp add: longs)
  qed
  have f: "field_ok ''00000003''" "field_ok ''0000000c''"
    by (simp_all add: field_ok_def is_digit_of_def digit_val_def char_code_def)
  have v: "digits_acc 16 0 ''00000003'' = 3" "digits_acc 16 0 ''0000000c'' = 12"
    by (simp_all add: digit_val_def char_code_def)
  have d: "dec_int 0 = ''0''" "dec_int 1 = ''1''" by code_simp+
  have files: "os_file (toy_os r) w (cpumap_file 0) = Inr (''00000003'' @ [CHR 0x0A])"
    "os_file (toy_os True) w (cpumap_file 1) = Inr (''0000000c'' @ [CHR 0x0A])"
    "os_file (toy_os False) w (cpumap_file 1) = Inl ENOENT"
    by (simp_all add: toy_os_def toy_files_def cpumap_file_def d mask_size_file_def distance_file_def)
  note run0 = run [OF f(1), unfolded v] and run1 = run [OF f(2), unfolded v]
  have cm: "cpumap_of K w 64 node = Some \<lparr>bm_size = 64, maskp = [of_nat k]\<rparr>"
    if "os_file K w (cpumap_file node) = Inr (u @ [CHR 0x0A])" "CHR 0x0A \<notin> set u"
      "numa_parse_bitmap_v2 (u @ [CHR 0x0A]) \<lparr>bm_size = 64, maskp = [0]\<rparr> = (0, \<lparr>bm_size = 64, maskp = [of_nat k]\<rparr>)"
    for K :: "toy os" and w node u k
    using that(3) unfolding cpumap_of_def that(1) sum.case nl [OF that(2)] n by simp
  show "cpumap_of (toy_os r) w 64 0 = Some \<lparr>bm_size = 64, maskp = [3]\<rparr>"
    using cm [OF files(1) _ run0] by simp
  show "cpumap_of (toy_os True) w 64 1 = Some \<lparr>bm_size = 64, maskp = [12]\<rparr>"
    using cm [OF files(2) _ run1] by simp
  show "cpumap_of (toy_os False) w 64 1 = None" unfolding cpumap_of_def files(3) by simp
qed

section \<open>Parsing the map of a node\<close>

text \<open>C9: the parser of \<open>cpumap\<close> files reads back what the kernel prints for a CPU mask: 32-bit fields in
  hexadecimal, the most significant first, of which the first may have fewer digits.  It stores them two by
  two into the 64-bit words of the mask, also when their number is odd, and reports no error.\<close>

theorem parse_bitmap_reads_back:
  assumes "0 < k" "k \<le> 8" "hd xs < 16 ^ k" "xs \<noteq> []" "\<forall>x \<in> set xs. x < 2 ^ 32"
    and "(length xs + 1) div 2 \<le> longsperbits n" "n < 2 ^ 31"
  shows "\<exists>b. numa_parse_bitmap_v2 (print_mask k xs) (new_bitmask n) = (0, b) \<and> bm_inv b \<and> bm_size b = n \<and>
    bm_bits b = chunk_bits xs \<inter> {..<n}"
proof -
  have "\<forall>i. \<not> wbit (maskp (new_bitmask n)) i" by (simp add: new_bitmask_def)
  from parse_bitmap_print [OF assms(1-5) _ bm_inv_new _ this] assms(6,7)
  obtain b where b: "numa_parse_bitmap_v2 (print_mask k xs) (new_bitmask n) = (0, b)" "bm_inv b" "bm_size b = n"
    "\<forall>i. wbit (maskp b) i \<longleftrightarrow> i \<in> chunk_bits xs"
    by auto
  have "i \<in> bm_bits b \<longleftrightarrow> i \<in> chunk_bits xs \<inter> {..<n}" for i
    unfolding mem_bm_bits isbitset_wbit [OF b(2)] b(3) Int_iff lessThan_iff using b(4) by blast
  then have "bm_bits b = chunk_bits xs \<inter> {..<n}" by blast
  with b show ?thesis by blast
qed

theorem parse_bitmap_reads_back_witness:
  "\<exists>b. numa_parse_bitmap_v2 (print_mask 2 [3, 0, 5]) (new_bitmask 96) = (0, b) \<and> bm_inv b \<and> bm_size b = 96 \<and>
    bm_bits b = chunk_bits [3, 0, 5] \<inter> {..<96}"
  by (rule parse_bitmap_reads_back) (simp_all add: longsperbits_def)

text \<open>Whatever text a \<open>cpumap\<close> file holds, the parser writes inside the words of the mask only: their
  number and the size of the mask stay the same.\<close>

theorem parse_bitmap_in_bounds:
  assumes "bm_inv b"
  shows "bm_inv (snd (numa_parse_bitmap_v2 line b)) \<and> bm_size (snd (numa_parse_bitmap_v2 line b)) = bm_size b"
  using parse_bitmap_inv [OF assms] by blast

theorem parse_bitmap_in_bounds_witness:
  "bm_inv (snd (numa_parse_bitmap_v2 (''f,,0,x,1,2,3'' @ [CHR 0x0A]) (new_bitmask 33)))"
  using parse_bitmap_in_bounds [of "new_bitmask 33"] by simp

section \<open>The cache\<close>

text \<open>C1: the cache is transparent: as long as its entries agree with the files of sysfs, a lookup of a
  possible node returns what reading its file gives (the CPUs, or all CPUs and -1 when the file cannot be
  used), whether it comes from the cache or from the file; and the entries still agree afterwards.\<close>

theorem node_to_cpus_transparent:
  assumes "numa_wf s" "malloc_succeeds K" "\<not> numa_exit_on_warn s" "cache_coherent K s"
    and "0 \<le> node" "node \<le> maxconfigurednode s" "bm_inv b" "int (bm_size b) = cpumask_sz s"
  shows "\<exists>r t. numa_node_to_cpus_v2 K node b s = Some (r, t) \<and> lookup_base t = lookup_base s \<and>
    cache_coherent K t \<and> lookup_result (cpumap_of K (world s) (bm_size b) node) (bm_size b) r"
  by (rule node_to_cpus_coherent [OF assms])

theorem node_to_cpus_transparent_witness:
  "\<exists>t. numa_node_to_cpus_v2 (toy_os True) 1 (new_bitmask 64) toy_numa =
    Some ((0, \<lparr>bm_size = 64, maskp = [12]\<rparr>), t) \<and> cache_coherent (toy_os True) t"
  using node_to_cpus_transparent [of toy_numa "toy_os True" 1 "new_bitmask 64"]
  by (auto simp: toy_cpumaps lookup_result_def)

text \<open>\<open>numa_node_to_cpu_update\<close> refreshes one node only.  The first lookup after it reads the file of its
  node again; it clears the stale mark for the whole cache, so a lookup of any other cached node still
  answers the old mask, whatever its file holds now.\<close>

theorem update_refreshes_one_node:
  assumes "numa_wf s" "malloc_succeeds K" "\<not> numa_exit_on_warn s" "cpu_cache_ok s"
    and "node_cpu_mask_v2 s = Some cache" "cache ! nat i = Some old" "0 \<le> i" "i \<le> maxconfigurednode s"
    and "0 \<le> node" "node \<le> maxconfigurednode s" "node \<noteq> i"
    and "bm_inv b" "int (bm_size b) = cpumask_sz s"
  shows "\<exists>r t. numa_node_to_cpus_v2 K node b (numa_node_to_cpu_update s) = Some (r, t) \<and>
    lookup_result (cpumap_of K (world s) (bm_size b) node) (bm_size b) r \<and>
    numa_node_to_cpus_v2 K i b t = Some ((0, old), t)"
proof -
  let ?s = "numa_node_to_cpu_update s"
  have len: "int (length cache) = nodemask_sz s" and ce: "\<And>c. Some c \<in> set cache \<Longrightarrow> bm_inv c \<and> bm_size c = bm_size b"
    using assms(4,5,13) by (auto simp: cpu_cache_ok_def mask_ok_def)
  have F: "numa_wf ?s" "\<not> numa_exit_on_warn ?s" "node_cpu_mask_v2 ?s = Some cache" "node_cpu_mask_v2_stale ?s"
    "int (length cache) = nodemask_sz ?s" "maxconfigurednode ?s = maxconfigurednode s" "cpumask_sz ?s = cpumask_sz s"
    "world ?s = world s"
    using assms(1,3,5) len by (simp_all add: numa_node_to_cpu_update_def numa_wf_def)
  have inr: "nat node < length cache" "nat i < length cache"
    using assms(1,7-10) len by (auto simp: numa_wf_def)
  then have ce': "\<And>c. cache ! nat node = Some c \<Longrightarrow> bm_inv c \<and> bm_size c = bm_size b"
    using ce by (metis nth_mem)
  obtain r m t where run: "numa_node_to_cpus_v2 K node b ?s = Some ((r, m), t)" "lookup_base t = lookup_base ?s"
    "lookup_result (cpumap_of K (world s) (bm_size b) node) (bm_size b) (r, m)" "\<not> node_cpu_mask_v2_stale t"
    "node_cpu_mask_v2 t = Some (if cache ! nat node = None \<and> r \<noteq> 0 then cache else cache[nat node := Some m])"
    using miss_lookup [OF F(1) assms(2) F(2,3,5) assms(9) _ assms(12) _ _ ce'] assms(10,13) F by auto
  define cache' where "cache' = (if cache ! nat node = None \<and> r \<noteq> 0 then cache else cache[nat node := Some m])"
  note G = lookup_base_fields [OF run(2)]
  have c': "cache' ! nat i = Some old" "length cache' = length cache"
    using assms(6,7,9,11) inr by (auto simp: cache'_def nth_list_update)
  have o: "bm_inv old" "bm_size old = bm_size b" using ce assms(6) inr(2) by (metis nth_mem)+
  have "numa_node_to_cpus_v2 K i b t = Some ((0, old), t)"
    using hit_lookup [of t cache' i b old K] run(4,5) G F c' o assms(7,8,12,13) len
    by (simp add: cache'_def)
  with run show ?thesis by blast
qed

theorem update_refreshes_one_node_witness:
  "\<exists>s r t. node_cpu_mask_v2 s = Some ((replicate 64 None)[1 := Some (new_bitmask 64)]) \<and>
    numa_node_to_cpus_v2 (toy_os True) 0 (new_bitmask 64) (numa_node_to_cpu_update s) = Some (r, t) \<and>
    numa_node_to_cpus_v2 (toy_os True) 1 (new_bitmask 64) t = Some ((0, new_bitmask 64), t)"
proof -
  let ?cache = "(replicate 64 None)[1 := Some (new_bitmask 64)]"
  let ?s = "toy_numa\<lparr>node_cpu_mask_v2 := Some ?cache\<rparr>"
  have wf: "numa_wf ?s" using toy_wf unfolding numa_wf_def by simp
  have one: "c = new_bitmask 64" if "Some c \<in> set ?cache" for c
    using that set_update_subset_insert [of "replicate 64 None" 1 "Some (new_bitmask 64)"] by auto
  have "mask_ok 64 (Some c)" if "Some c \<in> set ?cache" for c
    unfolding one [OF that] mask_ok_def by simp
  then have "cpu_cache_ok ?s" unfolding cpu_cache_ok_def by simp
  from update_refreshes_one_node [OF wf toy_malloc [of True] _ this, of ?cache 1 "new_bitmask 64" 0 "new_bitmask 64"]
  obtain r t where "numa_node_to_cpus_v2 (toy_os True) 0 (new_bitmask 64) (numa_node_to_cpu_update ?s) = Some (r, t)"
    "numa_node_to_cpus_v2 (toy_os True) 1 (new_bitmask 64) t = Some ((0, new_bitmask 64), t)"
    by auto
  then show ?thesis by (intro exI [of _ ?s] exI [of _ r] exI [of _ t]) simp
qed

text \<open>C33: a refresh that fails spoils the cache: after \<open>numa_node_to_cpu_update\<close>, a lookup of a cached node
  whose file cannot be used reports the error with all CPUs, and stores all CPUs in the cache; the next
  lookup of the node returns them with no error.\<close>

theorem failed_refresh_spoils_cache:
  assumes "numa_wf s" "malloc_succeeds K" "\<not> numa_exit_on_warn s" "cpu_cache_ok s"
    and "node_cpu_mask_v2 s = Some cache" "cache ! nat i = Some old" "0 \<le> i" "i \<le> maxconfigurednode s"
    and "bm_inv b" "int (bm_size b) = cpumask_sz s"
    and "cpumap_of K (world s) (bm_size b) i = None"
  shows "\<exists>m t. numa_node_to_cpus_v2 K i b (numa_node_to_cpu_update s) = Some ((- 1, m), t) \<and>
    bm_bits m = {..<bm_size b} \<and> numa_node_to_cpus_v2 K i b t = Some ((0, m), t)"
proof -
  let ?s = "numa_node_to_cpu_update s"
  have len: "int (length cache) = nodemask_sz s" and ce: "\<And>c. Some c \<in> set cache \<Longrightarrow> bm_inv c \<and> bm_size c = bm_size b"
    using assms(4,5,10) by (auto simp: cpu_cache_ok_def mask_ok_def)
  have F: "numa_wf ?s" "\<not> numa_exit_on_warn ?s" "node_cpu_mask_v2 ?s = Some cache" "node_cpu_mask_v2_stale ?s"
    "int (length cache) = nodemask_sz ?s" "maxconfigurednode ?s = maxconfigurednode s" "cpumask_sz ?s = cpumask_sz s"
    "world ?s = world s"
    using assms(1,3,5) len by (simp_all add: numa_node_to_cpu_update_def numa_wf_def)
  have inr: "nat i < length cache" using assms(1,7,8) len by (auto simp: numa_wf_def)
  then have ce': "\<And>c. cache ! nat i = Some c \<Longrightarrow> bm_inv c \<and> bm_size c = bm_size b"
    using ce by (metis nth_mem)
  obtain r m t where run: "numa_node_to_cpus_v2 K i b ?s = Some ((r, m), t)" "lookup_base t = lookup_base ?s"
    "lookup_result (cpumap_of K (world s) (bm_size b) i) (bm_size b) (r, m)" "\<not> node_cpu_mask_v2_stale t"
    "node_cpu_mask_v2 t = Some (if cache ! nat i = None \<and> r \<noteq> 0 then cache else cache[nat i := Some m])"
    "bm_inv m" "bm_size m = bm_size b"
    using miss_lookup [OF F(1) assms(2) F(2,3,5) assms(7) _ assms(9) _ _ ce'] assms(8,10) F by auto
  note G = lookup_base_fields [OF run(2)]
  have "r = - 1" "bm_bits m = {..<bm_size b}" using run(3) assms(11) by (simp_all add: lookup_result_def)
  moreover have "numa_node_to_cpus_v2 K i b t = Some ((0, m), t)"
    using hit_lookup [of t "cache[nat i := Some m]" i b m K] run(4-7) G F inr assms(6-10) len by simp
  ultimately show ?thesis using run(1) by blast
qed

theorem failed_refresh_spoils_cache_witness:
  "\<exists>s m t. numa_node_to_cpus_v2 (toy_os False) 1 (new_bitmask 64) (numa_node_to_cpu_update s) = Some ((- 1, m), t) \<and>
    bm_bits m = {..<64} \<and> numa_node_to_cpus_v2 (toy_os False) 1 (new_bitmask 64) t = Some ((0, m), t)"
proof -
  let ?cache = "(replicate 64 None)[1 := Some (new_bitmask 64)]"
  let ?s = "toy_numa\<lparr>node_cpu_mask_v2 := Some ?cache\<rparr>"
  have wf: "numa_wf ?s" using toy_wf unfolding numa_wf_def by simp
  have one: "c = new_bitmask 64" if "Some c \<in> set ?cache" for c
    using that set_update_subset_insert [of "replicate 64 None" 1 "Some (new_bitmask 64)"] by auto
  have "mask_ok 64 (Some c)" if "Some c \<in> set ?cache" for c
    unfolding one [OF that] mask_ok_def by simp
  then have "cpu_cache_ok ?s" unfolding cpu_cache_ok_def by simp
  from failed_refresh_spoils_cache [OF wf toy_malloc [of False] _ this, of ?cache 1 "new_bitmask 64" "new_bitmask 64"]
  obtain m t where "numa_node_to_cpus_v2 (toy_os False) 1 (new_bitmask 64) (numa_node_to_cpu_update ?s) = Some ((- 1, m), t)"
    "bm_bits m = {..<64}" "numa_node_to_cpus_v2 (toy_os False) 1 (new_bitmask 64) t = Some ((0, m), t)"
    by (auto simp: toy_cpumaps)
  then show ?thesis by blast
qed

section \<open>The node of a CPU\<close>

definition node_has_cpu :: "'w os \<Rightarrow> 'w numa \<Rightarrow> int \<Rightarrow> nat \<Rightarrow> bool" where
  "node_has_cpu K s cpu i \<longleftrightarrow>
     (case cpumap_of K (world s) (nat (cpumask_sz s)) (int i) of
        None \<Rightarrow> False
      | Some m \<Rightarrow> 0 \<le> cpu \<and> nat cpu \<in> bm_bits m)"

lemma node_of_cpu_loop_run:
  assumes "numa_wf s" "malloc_succeeds K" "\<not> numa_exit_on_warn s" "cache_coherent K s"
    and "bm_inv b" "int (bm_size b) = cpumask_sz s" "- (2 ^ 31) \<le> cpu" "cpu < 2 ^ 31"
    and "\<forall>i \<in> set nodes. int i \<le> maxconfigurednode s"
  shows "\<exists>t. node_of_cpu_loop K cpu (map int nodes) (Some b) s =
      Some (map_option int (find (node_has_cpu K s cpu) nodes), t) \<and>
    lookup_base t = lookup_base s \<and> cache_coherent K t"
  using assms(1,3-6,9)
proof (induction nodes arbitrary: b s)
  case Nil
  then show ?case by simp
next
  case (Cons i nodes)
  obtain r m t where lk: "numa_node_to_cpus_v2 K (int i) b s = Some ((r, m), t)" "lookup_base t = lookup_base s"
    "cache_coherent K t" "lookup_result (cpumap_of K (world s) (bm_size b) (int i)) (bm_size b) (r, m)"
    using node_to_cpus_coherent [OF Cons.prems(1) assms(2) Cons.prems(2,3), of "int i" b] Cons.prems(4-6) by fastforce
  note F = lookup_base_fields [OF lk(2)]
  have sz: "nat (cpumask_sz s) = bm_size b" "cpumask_sz s < 2 ^ 31" using Cons.prems(1,5) by (auto simp: numa_wf_def)
  have m: "bm_inv m" "int (bm_size m) = cpumask_sz s"
    using lk(4) Cons.prems(5) cpumap_of_inv [of K "world s" "bm_size b" "int i" m]
    by (auto simp: lookup_result_def split: option.splits)
  have hc: "node_has_cpu K t cpu = node_has_cpu K s cpu" by (simp add: node_has_cpu_def fun_eq_iff F(1,3))
  have rest: "\<exists>u. node_of_cpu_loop K cpu (map int nodes) (Some m) t =
      Some (map_option int (find (node_has_cpu K s cpu) nodes), u) \<and> lookup_base u = lookup_base s \<and> cache_coherent K u"
    using Cons.IH [of t m] Cons.prems m lk(2,3) F hc by simp
  have set_iff: "numa_bitmask_isbitset m (c_uint cpu) \<longleftrightarrow> 0 \<le> cpu \<and> nat cpu \<in> bm_bits m"
  proof (cases "0 \<le> cpu")
    case True
    then show ?thesis using assms(8) by (simp add: c_uint_id)
  next
    case False
    then have "int (c_uint cpu) = cpu + 2 ^ 32" using assms(7) by (simp add: c_uint_neg)
    then have "2 ^ 31 \<le> int (c_uint cpu)" using assms(7) by simp
    then have "\<not> int (c_uint cpu) < int (bm_size m)" unfolding m(2) using sz(2) by linarith
    then have "\<not> c_uint cpu < bm_size m" by simp
    then show ?thesis using False by (simp add: isbitset_bit)
  qed
  show ?case
  proof (cases "cpumap_of K (world s) (bm_size b) (int i)")
    case None
    then have "r < 0" "\<not> node_has_cpu K s cpu i" using lk(4) sz(1) by (simp_all add: lookup_result_def node_has_cpu_def)
    then show ?thesis using lk(1) rest by simp
  next
    case (Some m')
    then have "r = 0" "node_has_cpu K s cpu i \<longleftrightarrow> numa_bitmask_isbitset m (c_uint cpu)"
      unfolding set_iff using lk(4) sz(1) by (simp_all add: lookup_result_def node_has_cpu_def)
    then show ?thesis using lk(1-3) rest by simp
  qed
qed

lemma map_int_upt: "map int [0..<n] = [0..int n - 1]"
  by (induction n) (simp_all add: upto_rec2)

lemma least_below: "P i \<Longrightarrow> i < N \<Longrightarrow> (LEAST i. P i) < (N :: nat)"
  by (meson Least_le le_less_trans)

lemma find_first_upt:
  "find P [0..<n] = (if \<exists>i < n. P i then Some (LEAST i. P i) else None)"
proof (induction n)
  case (Suc n)
  have "find P (xs @ [n]) = (case find P xs of None \<Rightarrow> if P n then Some n else None | Some x \<Rightarrow> Some x)" for xs
    by (induction xs) simp_all
  moreover have "(LEAST i. P i) = n" if "P n" "\<forall>i < n. \<not> P i"
    using that by (metis (no_types, lifting) LeastI Least_le le_neq_implies_less)
  ultimately show ?case using Suc less_Suc_eq by auto
qed simp

text \<open>C20: \<open>numa_node_of_cpu\<close> returns the lowest node whose CPUs include the given one; when there is none,
  also when the CPU number is negative or too large, it returns -1 with EINVAL.\<close>

theorem node_of_cpu_lowest:
  assumes "numa_wf s" "malloc_succeeds K" "\<not> numa_exit_on_warn s" "cache_coherent K s"
    and "- (2 ^ 31) \<le> cpu" "cpu < 2 ^ 31"
  shows "\<exists>r t. numa_node_of_cpu K cpu s = Some (r, t) \<and>
    (if \<exists>i. int i \<le> maxconfigurednode s \<and> node_has_cpu K s cpu i
     then r = int (LEAST i. node_has_cpu K s cpu i)
     else r = - 1 \<and> errno t = EINVAL)"
proof -
  let ?P = "node_has_cpu K s cpu"
  define n where "n = nat (cpumask_sz s)"
  define N where "N = nat (maxconfigurednode s + 1)"
  have sz: "0 < cpumask_sz s" "cpumask_sz s < 2 ^ 31" using assms(1) by (simp_all add: numa_wf_def)
  have N: "int i \<le> maxconfigurednode s \<longleftrightarrow> i < N" for i by (auto simp: N_def)
  have range: "[0..numa_max_node s] = map int [0..<N]"
    using assms(1) map_int_upt [of N] by (simp add: numa_max_node_def N_def numa_wf_def)
  show ?thesis
  proof (cases "cpumask_sz s < cpu")
    case True
    have "\<not> ?P i" for i
      using True cpumap_of_inv [of K "world s" n "int i"] sz
      by (auto simp: node_has_cpu_def n_def isbitset_bit split: option.splits)
    then show ?thesis using True by (simp add: numa_node_of_cpu_def numa_num_possible_cpus_def)
  next
    case False
    have alloc: "numa_bitmask_alloc K (c_uint (cpumask_sz s)) s = Some (Some (new_bitmask n), s)"
      using bitmask_alloc_run [OF assms(2), of n s] sz by (simp add: c_uint_id n_def)
    obtain t where t: "node_of_cpu_loop K cpu (map int [0..<N]) (Some (new_bitmask n)) s =
        Some (map_option int (find ?P [0..<N]), t)"
      using node_of_cpu_loop_run [OF assms(1-4), of "new_bitmask n" cpu "[0..<N]"] assms(5,6) sz N
      by (auto simp: n_def)
    show ?thesis
      using False alloc t [folded range] unfolding numa_node_of_cpu_def numa_num_possible_cpus_def Let_def N
      by (cases "\<exists>i < N. ?P i") (simp_all add: find_first_upt)
  qed
qed

theorem node_of_cpu_lowest_witness:
  "(\<exists>t. numa_node_of_cpu (toy_os True) 3 toy_numa = Some (1, t)) \<and>
   (\<exists>t. numa_node_of_cpu (toy_os False) 3 toy_numa = Some (- 1, t) \<and> errno t = EINVAL)"
proof -
  have has: "\<not> node_has_cpu (toy_os r) toy_numa 3 0" "node_has_cpu (toy_os True) toy_numa 3 1"
    "\<not> node_has_cpu (toy_os False) toy_numa 3 1" for r
    by (simp_all add: node_has_cpu_def toy_cpumaps isbitset_bit)
  have "(LEAST i. node_has_cpu (toy_os True) toy_numa 3 i) = 1"
  proof (rule Least_equality)
    fix i assume "node_has_cpu (toy_os True) toy_numa 3 i"
    then show "1 \<le> i" using has(1) by (cases i) auto
  qed (rule has(2))
  moreover have "\<exists>i. int i \<le> maxconfigurednode toy_numa \<and> node_has_cpu (toy_os True) toy_numa 3 i"
    using has(2) by (intro exI [of _ 1]) simp
  ultimately have "\<exists>t. numa_node_of_cpu (toy_os True) 3 toy_numa = Some (1, t)"
    using node_of_cpu_lowest [of toy_numa "toy_os True" 3] by auto
  moreover have "\<not> node_has_cpu (toy_os False) toy_numa 3 i" if "int i \<le> 1" for i
    using that has(1,3) by (cases "i = 0 \<or> i = 1") auto
  then have "\<exists>t. numa_node_of_cpu (toy_os False) 3 toy_numa = Some (- 1, t) \<and> errno t = EINVAL"
    using node_of_cpu_lowest [of toy_numa "toy_os False" 3] by auto
  ultimately show ?thesis by blast
qed

section \<open>Running on nodes\<close>

text \<open>The CPUs of the nodes of a mask that are allowed and that exist.\<close>

definition mask_cpus :: "'w os \<Rightarrow> 'w numa \<Rightarrow> bitmask \<Rightarrow> bitmask \<Rightarrow> nat set" where
  "mask_cpus K s allowed b = {j. \<exists>i m. i \<in> bm_bits b \<and> i \<in> bm_bits allowed \<and> int i \<le> maxconfigurednode s \<and>
     cpumap_of K (world s) (nat (cpumask_sz s)) (int i) = Some m \<and> j \<in> bm_bits m}"

lemma mask_cpus_nodes_cpus:
  assumes "bm_inv c" "int (bm_size c) = cpumask_sz s" "\<forall>j. wbit (maskp c) j \<longleftrightarrow> j \<in> nodes_cpus K s al b {..<bm_size b}"
  shows "bm_bits c = mask_cpus K s al b"
proof -
  let ?cp = "\<lambda>i. cpumap_of K (world s) (nat (cpumask_sz s)) (int i)"
  have n: "nat (cpumask_sz s) = bm_size c" using assms(2) by simp
  have b: "i \<in> {..<bm_size b}" if "i \<in> bm_bits b" for i using that bm_bits_below by blast
  have m: "j \<in> bm_bits m \<longleftrightarrow> j < bm_size c \<and> wbit (maskp m) j" if "?cp i = Some m" for i m j
    unfolding mem_bm_bits using cpumap_of_inv [OF that] isbitset_wbit [of m j] by (simp add: n)
  have e1: "j \<in> bm_bits c \<longleftrightarrow> j < bm_size c \<and> (\<exists>i m. i \<in> {..<bm_size b} \<and> i \<in> bm_bits b \<and> i \<in> bm_bits al \<and>
      int i \<le> maxconfigurednode s \<and> ?cp i = Some m \<and> wbit (maskp m) j)" for j
    unfolding mem_bm_bits isbitset_wbit [OF assms(1)] assms(3) [rule_format] nodes_cpus_def by simp
  have e2: "j < bm_size c \<and> (\<exists>i m. i \<in> {..<bm_size b} \<and> i \<in> bm_bits b \<and> i \<in> bm_bits al \<and>
      int i \<le> maxconfigurednode s \<and> ?cp i = Some m \<and> wbit (maskp m) j) \<longleftrightarrow> j \<in> mask_cpus K s al b" for j
  proof
    assume "j < bm_size c \<and> (\<exists>i m. i \<in> {..<bm_size b} \<and> i \<in> bm_bits b \<and> i \<in> bm_bits al \<and>
      int i \<le> maxconfigurednode s \<and> ?cp i = Some m \<and> wbit (maskp m) j)"
    then obtain i m' where i: "j < bm_size c" "i \<in> bm_bits b" "i \<in> bm_bits al" "int i \<le> maxconfigurednode s"
      "?cp i = Some m'" "wbit (maskp m') j"
      by blast
    have "j \<in> bm_bits m'" using i(1,6) m [OF i(5)] by blast
    with i(2-5) show "j \<in> mask_cpus K s al b" unfolding mask_cpus_def by blast
  next
    assume "j \<in> mask_cpus K s al b"
    then obtain i m' where i: "i \<in> bm_bits b" "i \<in> bm_bits al" "int i \<le> maxconfigurednode s"
      "?cp i = Some m'" "j \<in> bm_bits m'"
      unfolding mask_cpus_def by blast
    note j = m [OF i(4), of j, THEN iffD1, OF i(5)]
    show "j < bm_size c \<and> (\<exists>i m. i \<in> {..<bm_size b} \<and> i \<in> bm_bits b \<and> i \<in> bm_bits al \<and>
      int i \<le> maxconfigurednode s \<and> ?cp i = Some m \<and> wbit (maskp m) j)"
      by (rule conjI [OF j [THEN conjunct1]], rule exI [of _ i], rule exI [of _ m'])
        (simp only: b [OF i(1)] i j simp_thms)
  qed
  show ?thesis by (rule set_eqI, rule trans [OF e1 e2])
qed

text \<open>C5: \<open>numa_run_on_node_mask\<close> sets the affinity of the process to the CPUs of the nodes of the mask that
  the task may use: the mask it passes to the kernel is the union of their masks in sysfs, whether the cache
  or the files supplied them.  Nodes that are not allowed, do not exist or cannot be read add nothing and do
  not stop the others.  The result is 0, or -1 after reporting the kernel's error.\<close>

theorem run_on_node_mask_sets_affinity:
  assumes "numa_wf s" "malloc_succeeds K" "\<not> numa_exit_on_warn s" "cache_coherent K s"
    and "numa_all_nodes_ptr s = Some al"
  shows "\<exists>cpus t. bm_inv cpus \<and> int (bm_size cpus) = cpumask_sz s \<and> bm_bits cpus = mask_cpus K s al b \<and>
    lookup_base t = lookup_base s \<and> cache_coherent K t \<and>
    numa_run_on_node_mask_v2 K b s =
      (case os_setaffinity K (world s) 0 (numa_bitmask_nbytes cpus) (maskp cpus) of
         Inr w \<Rightarrow> Some (0, t\<lparr>world := w\<rparr>)
       | Inl e \<Rightarrow> map_option (Pair (- 1)) (numa_error ''numa_sched_setaffinity_v2_int() failed'' (t\<lparr>errno := e\<rparr>)))"
proof -
  have al: "numa_all_nodes_ptr t = Some al" if "lookup_base t = lookup_base s" for t
    using lookup_base_fields(6) [OF that] assms(5) by simp
  obtain cpus t where run: "lookup_base t = lookup_base s" "cache_coherent K t" "bm_inv cpus"
    "int (bm_size cpus) = cpumask_sz s" "\<forall>j. wbit (maskp cpus) j \<longleftrightarrow> j \<in> nodes_cpus K s al b {..<bm_size b}"
    "run_on_mask K numa_all_nodes_ptr b s = do {
      let (err, t) = numa_sched_setaffinity_v2 K 0 cpus t;
      t \<leftarrow> (if err < 0 then numa_error ''numa_sched_setaffinity_v2_int() failed'' t else Some t);
      Some (err, t)
    }"
    using run_on_mask_affinity [where allowed = numa_all_nodes_ptr and bmp = b, OF assms(1-4) al] by blast
  have "numa_run_on_node_mask_v2 K b s =
      (case os_setaffinity K (world s) 0 (numa_bitmask_nbytes cpus) (maskp cpus) of
         Inr w \<Rightarrow> Some (0, t\<lparr>world := w\<rparr>)
       | Inl e \<Rightarrow> map_option (Pair (- 1)) (numa_error ''numa_sched_setaffinity_v2_int() failed'' (t\<lparr>errno := e\<rparr>)))"
    unfolding numa_run_on_node_mask_v2_def run(6) numa_sched_setaffinity_v2_def lookup_base_fields(1) [OF run(1)]
    by (simp add: map_conv_bind_option comp_def split: sum.splits)
  with run(1-4) mask_cpus_nodes_cpus [OF run(3-5)] show ?thesis by blast
qed

theorem run_on_node_mask_sets_affinity_witness:
  "\<exists>t cpus. numa_run_on_node_mask_v2 (toy_os False) (toy_mask 64 [0, 1, 40]) toy_numa = Some (0, t) \<and>
    toy_affinity (world t) = maskp cpus \<and> bm_bits cpus = {0, 1}"
proof -
  obtain cpus t where run: "bm_bits cpus = mask_cpus (toy_os False) toy_numa (toy_mask 64 [0, 1]) (toy_mask 64 [0, 1, 40])"
    "numa_run_on_node_mask_v2 (toy_os False) (toy_mask 64 [0, 1, 40]) toy_numa =
      (case os_setaffinity (toy_os False) toy_world 0 (numa_bitmask_nbytes cpus) (maskp cpus) of
         Inr w \<Rightarrow> Some (0, t\<lparr>world := w\<rparr>)
       | Inl e \<Rightarrow> map_option (Pair (- 1)) (numa_error ''numa_sched_setaffinity_v2_int() failed'' (t\<lparr>errno := e\<rparr>)))"
    using run_on_node_mask_sets_affinity [of toy_numa "toy_os False" "toy_mask 64 [0, 1]" "toy_mask 64 [0, 1, 40]"]
    by auto
  have "bm_bits \<lparr>bm_size = 64, maskp = [3]\<rparr> = {0, 1}"
  proof (rule set_eqI)
    fix j
    have "(3 :: ulong) = mask 2" by (simp add: mask_eq_exp_minus_1)
    then have "bit (3 :: ulong) (j mod 64) \<longleftrightarrow> j mod 64 < 64 \<and> j mod 64 < 2" by (simp only: bit_mask_iff) simp
    then show "j \<in> bm_bits \<lparr>bm_size = 64, maskp = [3]\<rparr> \<longleftrightarrow> j \<in> {0, 1}"
      unfolding mem_bm_bits isbitset_bit by (cases "j < 64") (simp_all only: bitmask.simps mod_less div_less nth_Cons_0 simp_thms insert_iff empty_iff, auto)
  qed
  moreover have "mask_cpus (toy_os False) toy_numa (toy_mask 64 [0, 1]) (toy_mask 64 [0, 1, 40]) =
      bm_bits \<lparr>bm_size = 64, maskp = [3]\<rparr>"
  proof -
    have two: "i \<in> bm_bits (toy_mask 64 [0, 1]) \<longleftrightarrow> i = 0 \<or> i = 1"
      "i = 0 \<Longrightarrow> i \<in> bm_bits (toy_mask 64 [0, 1, 40])" for i
      unfolding toy_mask_bits(3) by auto
    show ?thesis unfolding mask_cpus_def two(1) toy_numa_fields using two(2) toy_cpumaps(1) [of False toy_world] toy_cpumaps(3) [of toy_world]
      by (auto simp del: mem_bm_bits)
  qed
  ultimately have "bm_bits cpus = {0, 1}" using run(1) by simp
  moreover have "os_setaffinity (toy_os False) toy_world 0 (numa_bitmask_nbytes cpus) (maskp cpus) =
      Inr (toy_world\<lparr>toy_affinity := maskp cpus\<rparr>)"
    by (simp add: toy_os_def)
  ultimately show ?thesis using run(2) by auto
qed

end
