(* ===== verification/Mt.thy ===== *)
theory Mt
  imports Prelude
begin

unbundle bit_operations_syntax

text \<open>
  The Mersenne twister of \<open>mt.c\<close> and \<open>mt.h\<close>, which \<open>numademo\<close> draws random addresses from: a buffer
  of 624 words that is refilled in place, and a byte index into it.  \<open>rand\<close> is the argument of
  \<open>mt_init\<close>.  The refill is proved to compute the next 624 terms of the recurrence, and the outputs to
  be the terms in order.
\<close>

section \<open>The generator\<close>

definition MT_LEN :: nat where "MT_LEN = 624"
definition MT_IA :: nat where "MT_IA = 397"
definition MT_IB :: nat where "MT_IB = MT_LEN - MT_IA"
definition UPPER_MASK :: uint where "UPPER_MASK = 0x80000000"
definition LOWER_MASK :: uint where "LOWER_MASK = 0x7FFFFFFF"
definition MATRIX_A :: uint where "MATRIX_A = 0x9908B0DF"

record mt =
  mt_index :: nat
  mt_buffer :: "uint list"

definition TWIST :: "uint list \<Rightarrow> nat \<Rightarrow> nat \<Rightarrow> uint" where
  "TWIST b i j = (b ! i AND UPPER_MASK) OR (b ! j AND LOWER_MASK)"

definition MAGIC :: "uint \<Rightarrow> uint" where
  "MAGIC s = (s AND 1) * MATRIX_A"

definition mt_init :: "(nat \<Rightarrow> uint) \<Rightarrow> mt" where
  "mt_init rand = \<lparr>mt_index = 0, mt_buffer = map rand [0..<MT_LEN]\<rparr>"

text \<open>The three assignments of \<open>mt_refill\<close>, over the index ranges of its two loops and its last step.\<close>

definition refill_low :: "nat \<Rightarrow> uint list \<Rightarrow> uint list" where
  "refill_low i b = (let s = TWIST b i (i + 1) in b[i := b ! (i + MT_IA) XOR drop_bit 1 s XOR MAGIC s])"

definition refill_high :: "nat \<Rightarrow> uint list \<Rightarrow> uint list" where
  "refill_high i b = (let s = TWIST b i (i + 1) in b[i := b ! (i - MT_IB) XOR drop_bit 1 s XOR MAGIC s])"

definition mt_refill :: "mt \<Rightarrow> mt" where
  "mt_refill m =
     (let b = fold refill_low [0..<MT_IB] (mt_buffer m);
          b = fold refill_high [MT_IB..<MT_LEN - 1] b;
          s = TWIST b (MT_LEN - 1) 0;
          b = b[MT_LEN - 1 := b ! (MT_IA - 1) XOR drop_bit 1 s XOR MAGIC s]
      in \<lparr>mt_index = 0, mt_buffer = b\<rparr>)"

definition mt_random :: "mt \<Rightarrow> uint \<times> mt" where
  "mt_random m =
     (let idx = mt_index m;
          (m, idx) = (if idx = MT_LEN * 4 then (mt_refill m, 0) else (m, idx));
          m = m\<lparr>mt_index := mt_index m + 4\<rparr>
      in (mt_buffer m ! (idx div 4), m))"

section \<open>The recurrence\<close>

function mt_seq :: "(nat \<Rightarrow> uint) \<Rightarrow> nat \<Rightarrow> uint" where
  "mt_seq rand k =
     (if k < MT_LEN then rand k
      else
        let s = (mt_seq rand (k - MT_LEN) AND UPPER_MASK) OR (mt_seq rand (k - MT_LEN + 1) AND LOWER_MASK)
        in mt_seq rand (k - MT_LEN + MT_IA) XOR drop_bit 1 s XOR MAGIC s)"
  by pat_completeness auto
termination by (relation "measure snd") (auto simp: MT_LEN_def MT_IA_def)

declare mt_seq.simps [simp del]

lemma mt_seq_next:
  "mt_seq r (n + MT_LEN) =
     (let s = (mt_seq r n AND UPPER_MASK) OR (mt_seq r (n + 1) AND LOWER_MASK)
      in mt_seq r (n + MT_IA) XOR drop_bit 1 s XOR MAGIC s)"
  by (subst mt_seq.simps) (simp add: MT_LEN_def)

text \<open>The buffer in the middle of a refill: the first \<open>i\<close> words are new.\<close>

definition window :: "(nat \<Rightarrow> uint) \<Rightarrow> nat \<Rightarrow> nat \<Rightarrow> uint list" where
  "window r n i = map (\<lambda>j. if j < i then mt_seq r (n + MT_LEN + j) else mt_seq r (n + j)) [0..<MT_LEN]"

lemma length_window [simp]: "length (window r n i) = MT_LEN"
  by (simp add: window_def)

lemma window_nth: "j < MT_LEN \<Longrightarrow> window r n i ! j = (if j < i then mt_seq r (n + MT_LEN + j) else mt_seq r (n + j))"
  by (simp add: window_def)

lemma window_update:
  "i < MT_LEN \<Longrightarrow> (window r n i)[i := mt_seq r (n + MT_LEN + i)] = window r n (Suc i)"
  by (rule nth_equalityI) (auto simp: window_nth nth_list_update less_Suc_eq)

lemma refill_low_window: "i < MT_IB \<Longrightarrow> refill_low i (window r n i) = window r n (Suc i)"
  using mt_seq_next [of r "n + i"]
  by (simp add: refill_low_def TWIST_def window_nth window_update [symmetric] MT_IB_def MT_IA_def MT_LEN_def
      Let_def add.assoc add.commute add.left_commute)

lemma refill_high_window:
  "MT_IB \<le> i \<Longrightarrow> i < MT_LEN - 1 \<Longrightarrow> refill_high i (window r n i) = window r n (Suc i)"
  using mt_seq_next [of r "n + i"]
  by (simp add: refill_high_def TWIST_def window_nth window_update [symmetric] MT_IB_def MT_IA_def MT_LEN_def
      Let_def add.assoc add.commute add.left_commute)

lemma fold_steps:
  assumes "\<And>i. a \<le> i \<Longrightarrow> i < b \<Longrightarrow> f i (w i) = w (Suc i)" "a \<le> b"
  shows "fold f [a..<b] (w a) = w b"
  using assms(2,1)
proof (induction b rule: dec_induct)
  case base
  then show ?case by simp
next
  case (step b)
  then show ?case by simp
qed

lemma refill_window:
  assumes "mt_buffer m = window r n 0"
  shows "mt_refill m = \<lparr>mt_index = 0, mt_buffer = window r (n + MT_LEN) 0\<rparr>"
proof -
  have "fold refill_low [0..<MT_IB] (window r n 0) = window r n MT_IB"
    by (rule fold_steps) (simp_all add: refill_low_window)
  moreover have "fold refill_high [MT_IB..<MT_LEN - 1] (window r n MT_IB) = window r n (MT_LEN - 1)"
    by (rule fold_steps) (simp_all add: refill_high_window MT_IB_def MT_IA_def MT_LEN_def)
  moreover have "(window r n (MT_LEN - 1))[MT_LEN - 1 :=
      window r n (MT_LEN - 1) ! (MT_IA - 1) XOR drop_bit 1 (TWIST (window r n (MT_LEN - 1)) (MT_LEN - 1) 0) XOR
      MAGIC (TWIST (window r n (MT_LEN - 1)) (MT_LEN - 1) 0)] = window r n MT_LEN"
    using mt_seq_next [of r "n + (MT_LEN - 1)"] window_update [of "MT_LEN - 1" r n]
    by (simp add: TWIST_def window_nth MT_IA_def MT_LEN_def Let_def add.commute)
  moreover have "window r n MT_LEN = window r (n + MT_LEN) 0"
    by (simp add: window_def)
  ultimately show ?thesis using assms by (simp add: mt_refill_def)
qed

section \<open>The outputs\<close>

text \<open>The state after some outputs: the buffer holds a window of the sequence, and the index is a
  multiple of the word size within it.\<close>

definition mt_at :: "(nat \<Rightarrow> uint) \<Rightarrow> nat \<Rightarrow> mt \<Rightarrow> bool" where
  "mt_at r k m \<longleftrightarrow> (\<exists>n i. k = n + i \<and> i \<le> MT_LEN \<and> mt_index m = 4 * i \<and> mt_buffer m = window r n 0)"

lemma mt_at_init: "mt_at r 0 (mt_init r)"
proof -
  have "map r [0..<MT_LEN] = window r 0 0" by (simp add: window_def mt_seq.simps)
  then show ?thesis by (simp add: mt_at_def mt_init_def)
qed

lemma mt_at_step:
  assumes "mt_at r k m"
  shows "fst (mt_random m) = mt_seq r k \<and> mt_at r (Suc k) (snd (mt_random m))"
proof -
  obtain n i where i: "k = n + i" "i \<le> MT_LEN" "mt_index m = 4 * i" "mt_buffer m = window r n 0"
    using assms by (auto simp: mt_at_def)
  show ?thesis
  proof (cases "i = MT_LEN")
    case True
    then have "mt_at r (Suc k) \<lparr>mt_index = 4, mt_buffer = window r (n + MT_LEN) 0\<rparr>"
      unfolding mt_at_def using i by (intro exI [of _ "n + MT_LEN"] exI [of _ 1]) (simp add: MT_LEN_def)
    then show ?thesis
      using True i refill_window [OF i(4)] by (simp add: mt_random_def window_nth MT_LEN_def)
  next
    case False
    then have "mt_at r (Suc k) (m\<lparr>mt_index := 4 * i + 4\<rparr>)"
      unfolding mt_at_def using i by (intro exI [of _ n] exI [of _ "Suc i"]) simp
    then show ?thesis
      using False i by (simp add: mt_random_def window_nth)
  qed
qed

fun mt_outputs :: "nat \<Rightarrow> mt \<Rightarrow> uint list \<times> mt" where
  "mt_outputs 0 m = ([], m)"
| "mt_outputs (Suc k) m = (let (v, m) = mt_random m; (vs, m) = mt_outputs k m in (v # vs, m))"

lemma mt_outputs_at:
  "mt_at r k m \<Longrightarrow> fst (mt_outputs j m) = map (mt_seq r) [k..<k + j] \<and> mt_at r (k + j) (snd (mt_outputs j m))"
proof (induction j arbitrary: k m)
  case (Suc j)
  obtain v m' where v: "mt_random m = (v, m')" by force
  obtain vs m2 where vs: "mt_outputs j m' = (vs, m2)" by force
  from mt_at_step [OF Suc.prems] have "v = mt_seq r k" "mt_at r (Suc k) m'" by (simp_all add: v)
  with Suc.IH [of "Suc k" m'] show ?case by (simp add: v vs upt_conv_Cons del: upt_Suc)
qed simp

end
