(* ===== verification/Util.thy ===== *)
theory Util
  imports System
begin

text \<open>
  The helpers of the command line tools (\<open>util.c\<close>): sizes with a suffix, the names of the policies, the
  first node of a mask and its printed form.
\<close>

section \<open>Sizes\<close>

definition head_char :: "string \<Rightarrow> char" where
  "head_char s = (case s of [] \<Rightarrow> CHR 0x00 | c # _ \<Rightarrow> c)"

definition memsize :: "string \<Rightarrow> int" where
  "memsize s =
     (let (v, end) = strtoul s 0;
          len = c_long (int v);
          c = c_toupper (head_char end);
          len = (if c = CHR ''G'' then c_long (len * 1024) else len);
          len = (if c = CHR ''G'' \<or> c = CHR ''M'' then c_long (len * 1024) else len);
          len = (if c = CHR ''G'' \<or> c = CHR ''M'' \<or> c = CHR ''K'' then c_long (len * 1024) else len)
      in len)"

section \<open>Policies\<close>

text \<open>\<open>struct policy\<close> and its table, with the constants of \<open>numaif.h\<close>.\<close>

record policy =
  pol_name :: string
  pol_policy :: int
  pol_noarg :: bool

definition policies :: "policy list" where
  "policies =
    [\<lparr>pol_name = ''preferred-many'', pol_policy = 5, pol_noarg = False\<rparr>,
     \<lparr>pol_name = ''local'', pol_policy = 4, pol_noarg = True\<rparr>,
     \<lparr>pol_name = ''interleave'', pol_policy = 3, pol_noarg = False\<rparr>,
     \<lparr>pol_name = ''membind'', pol_policy = 2, pol_noarg = False\<rparr>,
     \<lparr>pol_name = ''preferred'', pol_policy = 1, pol_noarg = False\<rparr>,
     \<lparr>pol_name = ''default'', pol_policy = 0, pol_noarg = True\<rparr>,
     \<lparr>pol_name = ''weighted-interleave'', pol_policy = 6, pol_noarg = False\<rparr>]"

definition policy_names :: "string list" where
  "policy_names = [''default'', ''preferred'', ''bind'', ''interleave'', ''local'', ''preferred-many'', ''weighted-interleave'']"

text \<open>The index is compared with the size of the array as an unsigned number.\<close>

definition policy_name :: "int \<Rightarrow> string" where
  "policy_name p =
     (if length policy_names \<le> c_ulong p then ''['' @ dec_int p @ '']'' else policy_names ! nat p)"

definition parse_policy :: "string option \<Rightarrow> string option \<Rightarrow> int" where
  "parse_policy name arg =
     (case name of
        None \<Rightarrow> 0
      | Some name \<Rightarrow>
          let name = dropWhile (\<lambda>c. c = CHR ''-'') name in
          case List.find (\<lambda>p. pol_name p = name) policies of
            None \<Rightarrow> 7
          | Some p \<Rightarrow> if arg = None \<and> \<not> pol_noarg p then 7 else pol_policy p)"

definition print_policies :: string where
  "print_policies = ''Policies:'' @ concat (map (\<lambda>p. CHR '' '' # pol_name p) policies) @ [CHR 0x0A]"

section \<open>Masks\<close>

definition printmask :: "string \<Rightarrow> bitmask \<Rightarrow> string" where
  "printmask name m =
     name @ '': '' @
     concat (map (\<lambda>i. if numa_bitmask_isbitset m i then dec_nat i @ '' '' else []) [0..<bm_size m]) @ [CHR 0x0A]"

definition find_first :: "bitmask \<Rightarrow> int" where
  "find_first m =
     (case List.find (numa_bitmask_isbitset m) [0..<bm_size m] of None \<Rightarrow> - 1 | Some i \<Rightarrow> int i)"

end
