(* ===== verification/PropsParse.thy ===== *)
theory PropsParse
  imports Sample Mt Util
begin

unbundle bit_operations_syntax

text \<open>
  Properties of what the library and the tools read and print as text: node and CPU lists, the distance
  table, sizes and policy names; and of the pseudo random generator of the tools.
\<close>

section \<open>Node lists\<close>

lemma wf_all_nodes:
  assumes "numa_wf s" "numa_all_nodes_ptr s = Some al"
  shows "bm_inv al" "int (bm_size al) = nodemask_sz s" "bm_size al \<le> nat (nodemask_sz s)" "bm_size al < 2 ^ 31"
proof -
  show "bm_inv al" "int (bm_size al) = nodemask_sz s" using assms by (auto simp: numa_wf_def mask_ok_def)
  moreover have "nodemask_sz s < 2 ^ 31" using assms by (simp add: numa_wf_def)
  ultimately have "bm_size al \<le> nat (nodemask_sz s) \<and> int (bm_size al) < 2 ^ 31" by linarith
  then show "bm_size al \<le> nat (nodemask_sz s)" "bm_size al < 2 ^ 31" by simp_all
qed

text \<open>C6: a list of numbers and ranges denotes the set it spells.  For every list of items whose numbers are
  allowed nodes (or, after \<open>+\<close>, positions in the allowed mask), the text of the list parses, without a
  warning, to the mask of the numbers and of the allowed nodes within the ranges; after \<open>!\<close> the membership
  of the first \<open>n\<close> node numbers is inverted, where \<open>n\<close> is the number of configured nodes.\<close>

theorem nodestring_denotes:
  assumes "numa_wf s" "malloc_succeeds K" "numa_all_nodes_ptr s = Some al"
    and "\<forall>x \<in> set xs. item_ok relative al x" "xs \<noteq> []"
  shows "\<exists>m n. numa_parse_nodestring K f (show_spec invert relative xs) s = Some (Some m, s) \<and>
    numa_num_configured_nodes s = Some n \<and> bm_inv m \<and> int (bm_size m) = nodemask_sz s \<and>
    bm_bits m = spec_nodes invert relative al xs (nat n)"
  using parse_nodestring_show [OF assms(1,2) wf_all_nodes(3) [OF assms(1,3)] assms(4,5), of f invert]
  by (simp add: numa_parse_nodestring_def assms(3))

lemma toy_isset: "numa_bitmask_isbitset (toy_mask n xs) i \<longleftrightarrow> i \<in> set xs \<and> i < n"
  using toy_mask_bits(3) [of n xs] unfolding mem_bm_bits [symmetric] by simp

theorem nodestring_denotes_witness:
  "\<exists>m. numa_parse_nodestring (toy_os True) (\<lambda>s m t. Some ((NO_IO_AFFINITY, m), t)) ''0-1'' toy_numa = Some (Some m, toy_numa) \<and>
    bm_bits m = {0, 1}"
proof -
  let ?al = "toy_mask 64 [0, 1]"
  have ok: "\<forall>x \<in> set [(0, Some 1)]. item_ok False ?al x"
    by (simp add: item_ok_def node_of_nr_def toy_isset)
  have shown: "show_spec False False [(0, Some 1)] = ''0-1''"
    by (simp add: show_spec_def dec_nat_digits)
  have "spec_nodes False False ?al [(0, Some 1)] k = {0, 1}" for k
    unfolding spec_nodes_def Let_def toy_mask_bits(3) by (auto simp: node_of_nr_def toy_mask_bits(3))
  with nodestring_denotes [OF toy_wf toy_malloc [of True] toy_numa_fields(13) ok, of "\<lambda>s m t. Some ((NO_IO_AFFINITY, m), t)" False]
  show ?thesis unfolding shown by auto
qed

text \<open>C36: a number that is not the number of an allowed node ends the parse: no mask, one warning (unless it was given
  before), and nothing else changes.  It does not matter where it stands: after any valid items, as a number of its own or
  as the end of a range, counted absolutely or relative to the allowed nodes, inverted or not, and whatever follows
  after the comma or dash behind it.  The numbers are below 2\<open>^\<close>63.\<close>

theorem nodestring_rejects:
  assumes "numa_wf s" "malloc_succeeds K" "numa_all_nodes_ptr s = Some al"
    and "\<forall>x \<in> set xs. item_ok relative al x"
    and "\<forall>a. start = Some a \<longrightarrow> a < 2 ^ 63 \<and> node_of_nr relative al a \<in> bm_bits al"
    and "v < 2 ^ 63" "node_of_nr relative al v \<notin> bm_bits al" "list_stop r"
  shows "numa_parse_nodestring K f (show_flags invert relative @ show_prefix xs @ show_start start @ dec_nat v @ r) s =
    (case numa_warn W_nodeparse s of None \<Rightarrow> None | Some t \<Rightarrow> Some (None, t))"
  using parse_nodestring_reject [OF assms(1,2) wf_all_nodes(4) [OF assms(1,3)] assms(4) _ assms(6) _ assms(8), of start f invert] assms(5,7)
  by (simp add: numa_parse_nodestring_def assms(3) map_option_case)

theorem nodestring_rejects_witness:
  "\<exists>t. numa_parse_nodestring (toy_os True) (\<lambda>s m t. Some ((NO_IO_AFFINITY, m), t)) ''!0,1-7,0'' toy_numa =
    Some (None, t) \<and> warn_out t = [W_nodeparse]"
proof -
  have ok: "\<forall>x \<in> set [(0, None)]. item_ok False (toy_mask 64 [0, 1]) x"
    by (simp add: item_ok_def node_of_nr_def toy_isset)
  have str: "show_flags True False @ show_prefix [(0, None)] @ show_start (Some 1) @ dec_nat 7 @ '',0'' = ''!0,1-7,0''"
    by code_simp
  have start: "\<forall>a. Some 1 = Some a \<longrightarrow> a < 2 ^ 63 \<and> node_of_nr False (toy_mask 64 [0, 1]) a \<in> bm_bits (toy_mask 64 [0, 1])"
    by (simp add: node_of_nr_def toy_isset)
  show ?thesis
    using nodestring_rejects [OF toy_wf toy_malloc [of True] toy_numa_fields(13) ok start, of 7 "'',0''"
        "\<lambda>s m t. Some ((NO_IO_AFFINITY, m), t)" True]
    unfolding str by (simp add: node_of_nr_def toy_isset list_stop_def numa_warn_unfold)
qed

text \<open>Inversion is wrong where node numbers are not contiguous: it covers as many numbers as there are
  configured nodes.  Below that count the mask has the numbers that the list does not name, but a node whose number is not
  below the count is in the mask exactly when the list names it, as without the \<open>!\<close>.\<close>

theorem inversion_misses_high_nodes:
  assumes "numa_wf s" "malloc_succeeds K" "numa_all_nodes_ptr s = Some al"
    and "\<forall>x \<in> set xs. item_ok relative al x" "xs \<noteq> []"
    and "numa_num_configured_nodes s = Some n"
  shows "\<exists>m. numa_parse_nodestring K f (show_spec True relative xs) s = Some (Some m, s) \<and>
    (i \<in> bm_bits m \<longleftrightarrow> ((\<exists>x \<in> set xs. i \<in> item_nodes relative al x) \<longleftrightarrow> n \<le> int i))"
proof -
  obtain m where m: "parse_nodestring K f (show_spec True relative xs) (Some al) s = Some (Some m, s)"
    "bm_bits m = spec_nodes True relative al xs (nat n)"
    using parse_nodestring_show [OF assms(1,2) wf_all_nodes(3) [OF assms(1,3)] assms(4,5), of f True] assms(6) by auto
  have "i < nat n \<longleftrightarrow> \<not> n \<le> int i" by linarith
  then have "i \<in> bm_bits m \<longleftrightarrow> ((\<exists>x \<in> set xs. i \<in> item_nodes relative al x) \<longleftrightarrow> n \<le> int i)"
    unfolding m(2) spec_nodes_def Let_def by auto
  then show ?thesis using m(1) by (simp add: numa_parse_nodestring_def assms(3) del: mem_bm_bits)
qed

text \<open>The sample system with the nodes 0 and 2.\<close>

definition sparse_numa :: "toy numa" where
  "sparse_numa = toy_numa\<lparr>maxconfigurednode := 2, numa_all_nodes_ptr := Some (toy_mask 64 [0, 2]),
     numa_nodes_ptr := Some (toy_mask 64 [0, 2]), numa_memnode_ptr := Some (toy_mask 64 [0, 2])\<rparr>"

theorem inversion_misses_high_nodes_witness:
  "\<exists>m. numa_parse_nodestring (toy_os True) (\<lambda>s m t. Some ((NO_IO_AFFINITY, m), t)) ''!0'' sparse_numa =
    Some (Some m, sparse_numa) \<and> 2 \<notin> bm_bits m \<and> numa_num_configured_nodes sparse_numa = Some 2"
proof -
  have wf: "numa_wf sparse_numa"
    using toy_wf unfolding numa_wf_def sparse_numa_def by (simp add: mask_ok_def toy_mask_bits)
  have n: "numa_num_configured_nodes sparse_numa = Some 2"
    by (simp add: numa_num_configured_nodes_def sparse_numa_def toy_isset upt_rec)
  have al: "numa_all_nodes_ptr sparse_numa = Some (toy_mask 64 [0, 2])" by (simp add: sparse_numa_def)
  have ok: "\<forall>x \<in> set [(0, None)]. item_ok False (toy_mask 64 [0, 2]) x"
    by (simp add: item_ok_def node_of_nr_def toy_isset)
  have "show_spec True False [(0, None)] = ''!0''"
    by (simp add: show_spec_def dec_nat_digits)
  with inversion_misses_high_nodes [OF wf toy_malloc [of True] al ok _ n, of "\<lambda>s m t. Some ((NO_IO_AFFINITY, m), t)" 2] n
  show ?thesis by (simp add: node_of_nr_def)
qed

text \<open>A single CPU number is not checked against the allowed CPUs, only against the number of configured
  ones: \<open>numa_parse_cpustring\<close> accepts it and returns the mask with that CPU.\<close>

theorem cpu_number_not_checked:
  assumes "numa_wf s" "malloc_succeeds K" "numa_all_cpus_ptr s = Some al"
    and "int a \<le> maxconfiguredcpu s" "maxconfiguredcpu s < cpumask_sz s"
  shows "\<exists>m. numa_parse_cpustring K (dec_nat a) s = Some (Some m, s) \<and> bm_bits m = {a}"
proof -
  have sz: "0 < cpumask_sz s" "cpumask_sz s < 2 ^ 31" using assms(1) by (simp_all add: numa_wf_def)
  let ?b = "new_bitmask (nat (cpumask_sz s))"
  have "int a < cpumask_sz s" "int a < 2 ^ 31" using assms(4,5) sz(2) by linarith+
  then have a: "a < nat (cpumask_sz s)" "a < 2 ^ 31" by simp_all
  obtain c cs where c: "dec_nat a = c # cs" by (cases "dec_nat a") simp_all
  then have d: "is_digit_of 10 c" using set_dec_nat [of c a] by simp
  then have fl: "c \<noteq> CHR ''!''" "c \<noteq> CHR ''+''" "dec_nat a \<noteq> ''all''"
    by (auto simp: c is_digit_of_def digit_val_def char_code_def)
  have nr: "get_nr (dec_nat a) al False = (a, [])"
    using get_nr_dec_nat [of "[]" a al False] a(2) sz wf_all_nodes(4) assms(1,3)
    by (auto simp: list_stop_def node_of_nr_def numa_wf_def mask_ok_def)
  have "\<not> c_ulong (maxconfiguredcpu s + 1) \<le> a"
    using assms(4,5) sz by (simp add: c_ulong_id)
  then have "cpu_item False (Some al) (maxconfiguredcpu s + 1) (dec_nat a) ?b s =
      Some (Item_next (numa_bitmask_setbit ?b a) [], s)"
    using fl(3) nr a(2) dec_nat_neq_Nil [of a, THEN not_sym] by (simp add: cpu_item_def index_conv)
  then have "cpu_loop False (Some al) (maxconfiguredcpu s + 1) (dec_nat a) ?b s = Some (Some (numa_bitmask_setbit ?b a), s)"
    by (simp add: cpu_loop.simps)
  then have "numa_parse_cpustring K (dec_nat a) s = Some (Some (numa_bitmask_setbit ?b a), s)"
    using allocate_cpumask_run [OF assms(2) sz] fl(1,2)
    by (simp add: numa_parse_cpustring_def parse_cpustring_def numa_num_configured_cpus_def assms(3) skip_flag_def c)
  moreover have "bm_bits (numa_bitmask_setbit ?b a) = {a}" using setbit_bits(1) [of ?b a] a(1) by (simp del: mem_bm_bits)
  ultimately show ?thesis by blast
qed

theorem cpu_number_not_checked_witness:
  "\<exists>m. numa_parse_cpustring (toy_os True) (dec_nat 3) (toy_numa\<lparr>numa_all_cpus_ptr := Some (toy_mask 64 [0])\<rparr>) =
    Some (Some m, toy_numa\<lparr>numa_all_cpus_ptr := Some (toy_mask 64 [0])\<rparr>) \<and> bm_bits m = {3}"
proof (rule cpu_number_not_checked)
  show "numa_wf (toy_numa\<lparr>numa_all_cpus_ptr := Some (toy_mask 64 [0])\<rparr>)"
    using toy_wf unfolding numa_wf_def by (simp add: mask_ok_def toy_mask_bits)
qed simp_all

section \<open>Distances\<close>

text \<open>C14: on a system where every existing node has a file with its distances to the existing nodes, the first
  call of \<open>numa_distance\<close> reads all of them and answers the distance in the file, 0 when one of the nodes
  does not exist; a later call is answered from the table.\<close>

theorem distance_from_files:
  assumes "malloc_succeeds K" "numa_nodes_ptr s = Some nodes" "distance_table s = None"
    and "numa_max_node s + 1 = int N" "0 < N" "N * N < 2 ^ 31"
    and "distance_files K (world s) nodes N D" "bm_bits nodes \<noteq> {}" "a < N" "b < N"
  shows "\<exists>t. numa_distance K (int a) (int b) s =
      Some (if a \<in> bm_bits nodes \<and> b \<in> bm_bits nodes then int (D a b) else 0, t) \<and>
    numa_distance K (int a) (int b) t =
      Some (if a \<in> bm_bits nodes \<and> b \<in> bm_bits nodes then int (D a b) else 0, t)"
proof -
  obtain t where t: "numa_distance K (int a) (int b) s =
    Some (if numa_bitmask_isbitset nodes a \<and> numa_bitmask_isbitset nodes b then int (D a b) else 0, t)"
    "distance_table t = Some (rows_upto nodes N D N)" "distance_numnodes t = int N"
    using numa_distance_run [OF assms(1-8) assms(9,10)] by blast
  have "N \<le> N * N" using assms(5) by simp
  then have "N < 2 ^ 31" using assms(6) by linarith
  then have u: "c_uint (int N) = N" "c_uint (int a) = a" "c_uint (int b) = b"
    using assms(9,10) by (simp_all add: c_uint_of_nat)
  have "(a + 1) * N \<le> N * N" using assms(9) by (intro mult_le_mono1) simp
  then have lt: "a * N + b < N * N" using assms(10) by (simp add: algebra_simps)
  have "nat (int a * int N + int b) = a * N + b" by (metis nat_int of_nat_add of_nat_mult)
  moreover have "rows_upto nodes N D N ! (a * N + b) =
      (if numa_bitmask_isbitset nodes a \<and> numa_bitmask_isbitset nodes b then int (D a b) else 0)"
    using lt assms(9,10) by (simp add: rows_upto_def)
  ultimately have "numa_distance K (int a) (int b) t =
      Some (if numa_bitmask_isbitset nodes a \<and> numa_bitmask_isbitset nodes b then int (D a b) else 0, t)"
    using assms(9,10) by (simp add: numa_distance_def t(2,3) u)
  with t(1) show ?thesis by auto
qed

theorem distance_from_files_witness:
  "\<exists>t. numa_distance (toy_os True) 0 1 toy_numa = Some (21, t) \<and> numa_distance (toy_os True) 0 1 t = Some (21, t)"
proof -
  have b: "bm_bits (toy_mask 64 [0, 1]) = {0, 1}" unfolding toy_mask_bits(3) by auto
  from distance_from_files [OF toy_malloc toy_numa_fields(14) toy_numa_fields(19) _ _ _ toy_distances [OF b], of 0 1]
  show ?thesis using b by (simp add: numa_max_node_def toy_distance_def del: mem_bm_bits)
qed

section \<open>Sizes and policies\<close>

text \<open>The factor of a suffix.\<close>

fun suffix_factor :: "string \<Rightarrow> nat" where
  "suffix_factor [] = 1"
| "suffix_factor (c # cs) =
     (if c \<in> {CHR ''g'', CHR ''G''} then 1024 ^ 3 else if c \<in> {CHR ''m'', CHR ''M''} then 1024 ^ 2
      else if c \<in> {CHR ''k'', CHR ''K''} then 1024 else 1)"

lemma toupper_letters:
  "c_toupper CHR ''g'' = CHR ''G''" "c_toupper CHR ''G'' = CHR ''G''" "c_toupper CHR ''m'' = CHR ''M''"
  "c_toupper CHR ''M'' = CHR ''M''" "c_toupper CHR ''k'' = CHR ''K''" "c_toupper CHR ''K'' = CHR ''K''"
  by code_simp+

lemma toupper_other:
  assumes "c_toupper c = CHR ''G'' \<or> c_toupper c = CHR ''M'' \<or> c_toupper c = CHR ''K''"
  shows "c \<in> {CHR ''g'', CHR ''G'', CHR ''m'', CHR ''M'', CHR ''k'', CHR ''K''}"
proof (cases "97 \<le> char_code c \<and> char_code c \<le> 122")
  case True
  have codes: "char_code CHR ''G'' = 71" "char_code CHR ''M'' = 77" "char_code CHR ''K'' = 75"
    "char_code CHR ''g'' = 103" "char_code CHR ''m'' = 109" "char_code CHR ''k'' = 107"
    by (simp_all add: char_code_def)
  have "char_code c - 32 < 256" using True by linarith
  then have "char_code (char_of (char_code c - 32)) = char_code c - 32" by (simp add: char_code_def)
  then have "char_code c \<in> {103, 109, 107}" using assms True codes by (auto simp: c_toupper_def)
  moreover have "char_code d = char_code c \<Longrightarrow> c = d" for d by (simp add: char_code_def of_char_eq_iff)
  ultimately show ?thesis using codes(4-6) by (metis insert_iff singletonD)
qed (use assms in \<open>auto simp: c_toupper_def\<close>)

text \<open>\<open>memsize\<close> reads a number with a suffix: \<open>k\<close>, \<open>m\<close> and \<open>g\<close>, of either case, multiply it by the powers
  of 1024; any other character that cannot continue the number leaves it as it is.\<close>

theorem memsize_suffix:
  assumes "v * suffix_factor r < 2 ^ 63" "\<not> starts_digit 10 r" "take 1 r \<noteq> ''x''" "take 1 r \<noteq> ''X''"
  shows "memsize (dec_nat v @ r) = int (v * suffix_factor r)"
proof -
  have "0 < suffix_factor r" by (cases r) auto
  then have "v \<le> v * suffix_factor r" by simp
  then have v: "v < 2 ^ 63" using assms(1) by linarith
  then have st: "strtoul (dec_nat v @ r) 0 = (v, r)"
    using assms(2-4) by (intro strtoul_dec_nat) (simp_all add: ULONG_MAX_def)
  have id: "c_long (int v) = int v" using v by (simp add: c_long_id)
  have mult: "c_long (int v * 1024 ^ k) = int v * 1024 ^ k" if "v * 1024 ^ k < 2 ^ 63" for k
  proof -
    have "int (v * 1024 ^ k) < 2 ^ 63" using that by (metis of_nat_less_iff of_nat_numeral of_nat_power)
    moreover have "- (2 ^ 63) \<le> int (v * 1024 ^ k)" by (rule order_trans [of _ 0]) simp_all
    ultimately have "c_long (int (v * 1024 ^ k)) = int (v * 1024 ^ k)" by (rule c_long_id [rotated])
    then show ?thesis by simp
  qed
  have less: "v * 1024 ^ k < 2 ^ 63" if "v * 1024 ^ j < 2 ^ 63" "k \<le> j" for k j
  proof -
    have "v * 1024 ^ k \<le> v * 1024 ^ j" using that(2) by (intro mult_le_mono2 power_increasing) simp_all
    then show ?thesis using that(1) by (rule le_less_trans)
  qed
  define c where "c = c_toupper (head_char r)"
  consider (g) "c = CHR ''G''" | (m) "c = CHR ''M''" | (k) "c = CHR ''K''"
    | (other) "c \<noteq> CHR ''G''" "c \<noteq> CHR ''M''" "c \<noteq> CHR ''K''" by blast
  then show ?thesis
  proof cases
    case g
    then obtain d r' where r: "r = d # r'" "d \<in> {CHR ''g'', CHR ''G''}"
      using toupper_other [of "head_char r"] toupper_letters
      by (cases r) (auto simp: c_def head_char_def c_toupper_def char_code_def)
    then have f: "suffix_factor r = 1024 ^ 3" by auto
    note ms = mult [OF less [of 3 1]] mult [OF less [of 3 2]] mult [of 3]
    show ?thesis using g assms(1) f ms by (simp add: memsize_def st id c_def [symmetric] Let_def mult.assoc)
  next
    case m
    then obtain d r' where r: "r = d # r'" "d \<in> {CHR ''m'', CHR ''M''}"
      using toupper_other [of "head_char r"] toupper_letters
      by (cases r) (auto simp: c_def head_char_def c_toupper_def char_code_def)
    then have f: "suffix_factor r = 1024 ^ 2" by auto
    note ms = mult [OF less [of 2 1]] mult [of 2]
    show ?thesis using m assms(1) f ms by (simp add: memsize_def st id c_def [symmetric] Let_def mult.assoc)
  next
    case k
    then obtain d r' where r: "r = d # r'" "d \<in> {CHR ''k'', CHR ''K''}"
      using toupper_other [of "head_char r"] toupper_letters
      by (cases r) (auto simp: c_def head_char_def c_toupper_def char_code_def)
    then have f: "suffix_factor r = 1024" by auto
    show ?thesis using k assms(1) f mult [of 1] by (simp add: memsize_def st id c_def [symmetric] Let_def)
  next
    case other
    then have "suffix_factor r = 1"
      using toupper_letters by (cases r) (auto simp: c_def head_char_def)
    then show ?thesis using other by (simp add: memsize_def st id c_def [symmetric] Let_def)
  qed
qed

theorem memsize_suffix_witness: "memsize (dec_nat 3 @ ''M'') = 3145728"
  using memsize_suffix [of 3 "''M''"] by (simp add: starts_digit_def is_digit_of_def digit_val_def char_code_def)

text \<open>The name the tools print for a policy is one they accept, with that policy as its meaning, for every
  policy except MPOL_BIND, which is printed as \<open>bind\<close> and only accepted as \<open>membind\<close>.\<close>

theorem policy_names_accepted:
  "map (\<lambda>p. parse_policy (Some (''--'' @ policy_name p)) (Some arg)) [0, 1, 2, 3, 4, 5, 6] = [0, 1, 7, 3, 4, 5, 6]"
  by (simp add: parse_policy_def policy_name_def policy_names_def policies_def c_ulong_id)

section \<open>The random numbers\<close>

text \<open>C38: the numbers of the generator, from its initialisation on, are those of the recurrence of the Mersenne
  twister started with the values of \<open>rand\<close>, however often the buffer is refilled; and the byte index into
  the buffer stays at a word within it or at its end.\<close>

theorem random_numbers_follow_recurrence:
  "fst (mt_outputs j (mt_init r)) = map (mt_seq r) [0..<j] \<and>
   mt_index (snd (mt_outputs j (mt_init r))) mod 4 = 0 \<and> mt_index (snd (mt_outputs j (mt_init r))) \<le> 4 * MT_LEN \<and>
   length (mt_buffer (snd (mt_outputs j (mt_init r)))) = MT_LEN"
  using mt_outputs_at [OF mt_at_init [of r], of j] by (auto simp: mt_at_def)

end
