(* ===== verification/RouteFacts.thy ===== *)
theory RouteFacts
  imports Rtnetlink
begin

text \<open>
  Netlink messages as sequences of attributes: the request that is sent is the encoding of one attribute with the
  address, and the loop over a reply that encodes a sequence of attributes finds the first one for the interface.
\<close>

section \<open>Messages\<close>

definition enc_attr :: "nat \<times> byte list \<Rightarrow> byte list" where
  "enc_attr a = (case a of (t, pl) \<Rightarrow>
     bytes_of 2 (4 + length pl) @ bytes_of 2 t @ pl @ replicate ((length pl + 3) div 4 * 4 - length pl) 0)"

text \<open>A routing message: the length, the type, the 22 remaining bytes of the two headers, and the attributes.\<close>

definition netlink_message :: "nat \<Rightarrow> byte list \<Rightarrow> (nat \<times> byte list) list \<Rightarrow> byte list" where
  "netlink_message ty hdr attrs =
     (let b = concat (map enc_attr attrs) in bytes_of 4 (28 + length b) @ bytes_of 2 ty @ hdr @ b)"

definition request_fields :: "nat \<Rightarrow> byte list" where
  "request_fields family = bytes_of 2 NLM_F_REQUEST @ replicate 8 0 @ word_of_nat family # replicate 11 0"

definition address_of :: "sockaddr \<Rightarrow> byte list option" where
  "address_of dst =
     (if sa_family dst = AF_INET \<and> length (sin_addr dst) = 4 then Some (sin_addr dst)
      else if sa_family dst = AF_INET6 \<and> length (sin6_addr dst) = 16 then Some (sin6_addr dst)
      else None)"

lemma length_enc_attr: "length (enc_attr (t, pl)) = 4 + (length pl + 3) div 4 * 4"
proof -
  have "length pl \<le> (length pl + 3) div 4 * 4" by presburger
  then show ?thesis by (simp add: enc_attr_def)
qed

lemma align_attr: "length pl < 65532 \<Longrightarrow> NLMSG_ALIGN (4 + length pl) = length (enc_attr (t, pl))"
proof -
  assume "length pl < 65532"
  moreover have "(4 + length pl + 3) div 4 * 4 = 4 + (length pl + 3) div 4 * 4" by presburger
  ultimately show ?thesis unfolding length_enc_attr by (subst NLMSG_ALIGN_small) simp_all
qed

lemma peek_at:
  assumes "p = length a" "n = length bs"
  shows "peek (a @ bs @ c) p n = Some (nat_of_bytes bs)"
  using assms by (simp add: peek_def)

lemma peek_number:
  assumes "p = length a" "v < 256 ^ n"
  shows "peek (a @ bytes_of n v @ c) p n = Some v"
  using assms peek_at [of p a n "bytes_of n v" c] by (simp add: nat_of_bytes_of)

lemma poke_at:
  assumes "p = length a" "length bs' = length bs"
  shows "poke (a @ bs @ c) p bs' = Some (a @ bs' @ c)"
  using assms by (simp add: poke_def)

lemma peek_attr:
  assumes "p = length a" "4 + length pl < 65536" "t < 65536"
  shows "peek (a @ enc_attr (t, pl) @ c) p 2 = Some (4 + length pl)"
    "peek (a @ enc_attr (t, pl) @ c) (p + 2) 2 = Some t"
    "peek (a @ enc_attr (t, pl) @ c) (p + 4) (length pl) = Some (nat_of_bytes pl)"
proof -
  let ?z = "replicate ((length pl + 3) div 4 * 4 - length pl) (0 :: byte)"
  let ?l = "bytes_of 2 (4 + length pl)" and ?t = "bytes_of 2 t"
  show "peek (a @ enc_attr (t, pl) @ c) p 2 = Some (4 + length pl)"
    using peek_number [of p a "4 + length pl" 2 "?t @ pl @ ?z @ c"] assms by (simp add: enc_attr_def)
  show "peek (a @ enc_attr (t, pl) @ c) (p + 2) 2 = Some t"
    using peek_number [of "p + 2" "a @ ?l" t 2 "pl @ ?z @ c"] assms by (simp add: enc_attr_def)
  show "peek (a @ enc_attr (t, pl) @ c) (p + 4) (length pl) = Some (nat_of_bytes pl)"
    using peek_at [of "p + 4" "a @ ?l @ ?t" "length pl" pl "?z @ c"] assms by (simp add: enc_attr_def)
qed

section \<open>Walking over a reply\<close>

definition route_at :: "byte list \<Rightarrow> nat \<Rightarrow> int option option" where
  "route_at m rta =
     (case peek m (rta + 2) 2 of
        None \<Rightarrow> None
      | Some type \<Rightarrow>
          if type = RTA_OIF then map_option (\<lambda>v. Some (c_int (int v))) (peek m (rta + sizeof_rtattr) 4)
          else route_loop m (Some rta))"

lemma route_loop_step: "rta_get m p hdrlen = Some (Some rta, m') \<Longrightarrow> route_loop m p = route_at m' rta"
  by (subst route_loop.simps) (simp add: route_at_def)

lemma rta_get_attr:
  assumes m: "m = bytes_of 4 len @ a @ enc_attr (t, pl) @ enc_attr (t', pl') @ c" and p: "p = 4 + length a"
    and len: "length (enc_attr (t, pl)) + length (enc_attr (t', pl')) \<le> len" "len < 2 ^ 32"
    and small: "length pl < 65532" "t < 65536" "length pl' < 65532" "t' < 65536"
  shows "rta_get m (Some p) k = Some (Some (p + length (enc_attr (t, pl))),
    bytes_of 4 (len - length (enc_attr (t, pl))) @ a @ enc_attr (t, pl) @ enc_attr (t', pl') @ c)"
proof -
  let ?n = "length (enc_attr (t, pl))"
  let ?m = "bytes_of 4 (len - ?n) @ a @ enc_attr (t, pl) @ enc_attr (t', pl') @ c"
  have l: "peek m p 2 = Some (4 + length pl)"
    using peek_attr(1) [of p "bytes_of 4 len @ a" pl t "enc_attr (t', pl') @ c"] small p by (simp add: m)
  have n: "peek m 0 4 = Some len" using peek_number [of 0 "[]" len 4] len(2) by (simp add: m)
  have al: "NLMSG_ALIGN (4 + length pl) = ?n" using align_attr small(1) .
  have "c_uint (int len - int ?n) = len - ?n" using len by (simp add: c_uint_of_nat flip: of_nat_diff)
  moreover have "poke m 0 (bytes_of 4 (len - ?n)) = Some ?m"
    using poke_at [of 0 "[]" "bytes_of 4 (len - ?n)" "bytes_of 4 len"] by (simp add: m)
  ultimately have next1: "rta_next m p = Some (p + ?n, ?m)" by (simp add: rta_next_def l n al)
  have n': "peek ?m 0 4 = Some (len - ?n)" using peek_number [of 0 "[]" "len - ?n" 4] len(2) by simp
  have l': "peek ?m (p + ?n) 2 = Some (4 + length pl')"
    using peek_attr(1) [of "p + ?n" "bytes_of 4 (len - ?n) @ a @ enc_attr (t, pl)" pl' t' c] small p by simp
  have "4 + length pl' \<le> length (enc_attr (t', pl'))" unfolding length_enc_attr by presburger
  then have "rta_ok ?m (p + ?n) (len - ?n) = Some True"
    using len(1) l' unfolding rta_ok_def sizeof_rtattr_def by simp linarith
  then show ?thesis by (simp add: rta_get_def next1 n')
qed

lemma route_at_attrs:
  assumes "m = bytes_of 4 len @ a @ concat (map enc_attr attrs) @ c" "p = 4 + length a"
    and "length (concat (map enc_attr attrs)) \<le> len" "len < 2 ^ 32"
    and "\<forall>(t, pl) \<in> set attrs. t < 65536 \<and> length pl < 65532"
    and "List.find (\<lambda>(t, pl). t = RTA_OIF) attrs = Some (RTA_OIF, bytes_of 4 iif)" "iif < 2 ^ 31"
  shows "route_at m p = Some (Some (int iif))"
  using assms(1-6)
proof (induction attrs arbitrary: m len a p)
  case (Cons at rest)
  obtain t pl where at: "at = (t, pl)" by fastforce
  have small: "t < 65536" "length pl < 65532" using Cons.prems(5) by (simp_all add: at)
  let ?a = "bytes_of 4 len @ a" and ?c = "concat (map enc_attr rest) @ c"
  have m: "m = ?a @ enc_attr (t, pl) @ ?c" and p: "p = length ?a" using Cons.prems(1,2) by (simp_all add: at)
  have t: "peek m (p + 2) 2 = Some t" using peek_attr(2) [OF p, of pl t ?c] small by (simp add: m)
  show ?case
  proof (cases "t = RTA_OIF")
    case True
    then have pl: "pl = bytes_of 4 iif" using Cons.prems(6) by (simp add: at)
    have "peek m (p + 4) 4 = Some iif"
      using peek_attr(3) [OF p, of pl t ?c] small assms(7) by (simp add: m pl nat_of_bytes_of)
    then show ?thesis using True t assms(7) by (simp add: route_at_def sizeof_rtattr_def c_int_id)
  next
    case False
    then have f: "List.find (\<lambda>(t, pl). t = RTA_OIF) rest = Some (RTA_OIF, bytes_of 4 iif)"
      using Cons.prems(6) by (simp add: at)
    then obtain t' pl' rest' where r: "rest = (t', pl') # rest'" by (cases rest) auto
    let ?n = "length (enc_attr (t, pl))"
    have small': "t' < 65536" "length pl' < 65532" using Cons.prems(5) by (simp_all add: r)
    have get: "rta_get m (Some p) hdrlen = Some (Some (p + ?n),
        bytes_of 4 (len - ?n) @ a @ enc_attr (t, pl) @ enc_attr (t', pl') @ concat (map enc_attr rest') @ c)"
      using Cons.prems(2,3,4) small small' by (intro rta_get_attr) (simp_all add: m r at)
    have "route_at m p = route_loop m (Some p)" using False t by (simp add: route_at_def)
    also have "\<dots> = Some (Some (int iif))"
      unfolding route_loop_step [OF get]
      by (rule Cons.IH [of _ "len - ?n" "a @ enc_attr (t, pl)", OF _ _ _ _ _ f])
        (use Cons.prems(2-5) in \<open>auto simp: r at\<close>)
    finally show ?thesis .
  qed
qed simp

lemma route_loop_reply:
  assumes "length hdr = 22" "length (netlink_message ty hdr attrs) < 2 ^ 32"
    and "\<forall>(t, pl) \<in> set attrs. t < 65536 \<and> length pl < 65532"
    and "List.find (\<lambda>(t, pl). t = RTA_OIF) attrs = Some (RTA_OIF, bytes_of 4 iif)" "iif < 2 ^ 31"
  shows "route_loop (netlink_message ty hdr attrs @ c) None = Some (Some (int iif))"
proof -
  let ?b = "concat (map enc_attr attrs)"
  let ?m = "netlink_message ty hdr attrs @ c"
  have "rta_get ?m None hdrlen = Some (Some 28, ?m)"
    by (simp add: rta_get_def hdrlen_def netlink_consts NLMSG_ALIGN_def)
  then have "route_loop ?m None = route_at ?m 28" by (rule route_loop_step)
  also have "\<dots> = Some (Some (int iif))"
    by (rule route_at_attrs [where attrs = attrs and len = "28 + length ?b" and a = "bytes_of 2 ty @ hdr" and c = c])
      (use assms in \<open>simp_all add: netlink_message_def Let_def\<close>)
  finally show ?thesis .
qed

section \<open>The request\<close>

lemma request_zeros: "route_request family =
    bytes_of 4 28 @ (bytes_of 2 RTM_GETROUTE @ request_fields family) @ replicate 256 0"
  by (simp add: route_request_def request_fields_def hdrlen_def NLMSG_HDRLEN_def sizeof_rtmsg_def)

lemma length_request_fields [simp]: "length (request_fields family) = 22"
  by (simp add: request_fields_def)

lemma rta_put_request:
  assumes "n mod 4 = 0" "n \<le> 252" "ty < 65536"
  shows "rta_put (route_request family) ty n = Some (32,
    bytes_of 4 (32 + n) @ (bytes_of 2 RTM_GETROUTE @ request_fields family) @ bytes_of 2 (4 + n) @ bytes_of 2 ty @ replicate 252 0)"
proof -
  obtain h where h: "h = bytes_of 2 RTM_GETROUTE @ request_fields family" by blast
  then have len [simp]: "length h = 24" by simp
  have m0: "route_request family = bytes_of 4 28 @ h @ replicate 2 0 @ replicate 2 0 @ replicate 252 0"
    unfolding request_zeros h by (simp flip: replicate_add)
  have l: "peek (route_request family) 0 4 = Some 28"
    using peek_number [of 0 "[]" 28 4] by (simp add: m0)
  have p1: "poke (route_request family) 30 (bytes_of 2 ty) = Some (bytes_of 4 28 @ h @ replicate 2 0 @ bytes_of 2 ty @ replicate 252 0)"
    using poke_at [of 30 "bytes_of 4 28 @ h @ replicate 2 0" "bytes_of 2 ty" "replicate 2 0" "replicate 252 0"]
    unfolding m0 by simp
  have p2: "poke (bytes_of 4 28 @ h @ replicate 2 0 @ bytes_of 2 ty @ replicate 252 0) 28 (bytes_of 2 (4 + n)) =
      Some (bytes_of 4 28 @ h @ bytes_of 2 (4 + n) @ bytes_of 2 ty @ replicate 252 0)"
    using poke_at [of 28 "bytes_of 4 28 @ h" "bytes_of 2 (4 + n)" "replicate 2 0" "bytes_of 2 ty @ replicate 252 0"] by simp
  have p3: "poke (bytes_of 4 28 @ h @ bytes_of 2 (4 + n) @ bytes_of 2 ty @ replicate 252 0) 0 (bytes_of 4 (32 + n)) =
      Some (bytes_of 4 (32 + n) @ h @ bytes_of 2 (4 + n) @ bytes_of 2 ty @ replicate 252 0)"
    using poke_at [of 0 "[]" "bytes_of 4 (32 + n)" "bytes_of 4 28"] by simp
  have "(4 + n + 3) div 4 * 4 = 4 + n" using assms(1) by presburger
  then have al: "NLMSG_ALIGN (4 + n) = 4 + n" "NLMSG_ALIGN 28 = 28" using assms(2) by (simp_all add: NLMSG_ALIGN_def)
  show ?thesis
    unfolding rta_put_def l sizeof_rtattr_def h [symmetric] using p1 p2 p3 al by (simp del: bytes_of.simps)
qed

lemma rta_put_address_request:
  assumes "address_of dst = Some addr"
  shows "rta_put_address (route_request (sa_family dst)) RTA_DST dst =
    Some (0, netlink_message RTM_GETROUTE (request_fields (sa_family dst)) [(RTA_DST, addr)] @ replicate (252 - length addr) 0)"
proof -
  have n: "length addr mod 4 = 0" "length addr \<le> 252" "take (length addr) addr = addr" and
    which: "sa_family dst = AF_INET \<and> addr = sin_addr dst \<and> length addr = 4 \<or>
      sa_family dst = AF_INET6 \<and> addr = sin6_addr dst \<and> length addr = 16"
    using assms by (auto simp: address_of_def split: if_splits)
  obtain h where h: "h = bytes_of 2 RTM_GETROUTE @ request_fields (sa_family dst)" by blast
  then have len [simp]: "length h = 24" by simp
  let ?a = "bytes_of 4 (32 + length addr) @ h @ bytes_of 2 (4 + length addr) @ bytes_of 2 RTA_DST"
  have z: "replicate 252 (0 :: byte) = replicate (length addr) 0 @ replicate (252 - length addr) 0"
    using n(2) by (simp flip: replicate_add)
  have put: "rta_put (route_request (sa_family dst)) RTA_DST (length addr) = Some (32, ?a @ replicate 252 0)"
    using rta_put_request [OF n(1,2), of RTA_DST "sa_family dst"] unfolding h by (simp add: RTA_DST_def del: bytes_of.simps)
  have po: "poke (?a @ replicate 252 0) 32 addr = Some (?a @ addr @ replicate (252 - length addr) 0)"
    unfolding z by (rule poke_at) simp_all
  have al: "(length addr + 3) div 4 * 4 = length addr" using n(1) by presburger
  have msg: "?a @ addr @ replicate (252 - length addr) 0 =
      netlink_message RTM_GETROUTE (request_fields (sa_family dst)) [(RTA_DST, addr)] @ replicate (252 - length addr) 0"
    unfolding h by (simp add: netlink_message_def Let_def enc_attr_def al del: bytes_of.simps)
  show ?thesis
    using which put po unfolding msg rta_put_address_def
    by (auto simp: AF_INET_def AF_INET6_def del: disjE elim!: disjE)
qed

end
