(* ===== verification/PropsDevice.thy ===== *)
theory PropsDevice
  imports Sample Affinity Meminfo RouteFacts Library
begin

unbundle bit_operations_syntax

text \<open>
  Properties of the resolution of device names to nodes, and of the memory sizes of the nodes.
\<close>

section \<open>The shape of the results\<close>

definition mask_grows :: "bitmask \<Rightarrow> bitmask \<Rightarrow> bool" where
  "mask_grows m m' \<longleftrightarrow> bm_inv m' \<and> bm_size m' = bm_size m \<and> bm_bits m \<subseteq> bm_bits m'"

lemma mask_grows_refl: "bm_inv m \<Longrightarrow> mask_grows m m"
  by (simp add: mask_grows_def)

lemma mask_grows_trans: "mask_grows a b \<Longrightarrow> mask_grows b c \<Longrightarrow> mask_grows a c"
  unfolding mask_grows_def by (auto simp del: mem_bm_bits)

lemma mask_grows_setbit: "bm_inv m \<Longrightarrow> mask_grows m (numa_bitmask_setbit m i)"
  using setbit_bits [of m i] by (auto simp: mask_grows_def simp del: mem_bm_bits)

lemma sysfs_node_loop_grows:
  "bm_inv msk \<Longrightarrow> mask_grows msk (snd (sysfs_node_loop n m msk)) \<and> fst (sysfs_node_loop n m msk) \<in> {0, - 1, - 2}"
proof (induction n m msk rule: sysfs_node_loop.induct)
  case (1 n m msk)
  obtain num e where st: "strtol m 0 = (num, e)" by force
  let ?m = "dropWhile (\<lambda>c. c_isspace c \<or> c = CHR '','') e"
  let ?b = "numa_bitmask_setbit msk (c_uint (c_int num))"
  have g: "mask_grows msk ?b" using mask_grows_setbit [OF "1.prems"] .
  then have inv: "bm_inv ?b" by (simp add: mask_grows_def)
  show ?case
  proof (cases "e = m \<or> c_int num < 0 \<or> n \<le> c_int num \<or> \<not> (?m \<noteq> [] \<and> c_isdigit (hd ?m))")
    case True
    then show ?thesis
      using g mask_grows_refl [OF "1.prems"] by (subst (1 2) sysfs_node_loop.simps) (auto simp: st Let_def)
  next
    case False
    then have "sysfs_node_loop n m msk = sysfs_node_loop n ?m ?b"
      by (subst sysfs_node_loop.simps) (simp add: st Let_def)
    moreover have "mask_grows ?b (snd (sysfs_node_loop n ?m ?b)) \<and> fst (sysfs_node_loop n ?m ?b) \<in> {0, - 1, - 2}"
      using "1.IH" [OF st [symmetric] refl] False inv by simp
    ultimately show ?thesis using mask_grows_trans [OF g] by simp
  qed
qed

lemma sysfs_node_read_grows:
  assumes "sysfs_node_read K msk fn s = ((r, m), t)" "bm_inv msk"
  shows "mask_grows msk m \<and> r \<in> {0, - 1, - 2}"
  using assms sysfs_node_loop_grows [OF assms(2)] mask_grows_refl [OF assms(2)]
  by (auto simp: sysfs_node_read_def Let_def split: if_splits prod.splits option.splits) (metis fst_conv snd_conv insertE singletonD)+

lemma node_parse_failure_result: "node_parse_failure ret s = Some (r, t) \<Longrightarrow> r = - 1"
  by (auto simp: node_parse_failure_def bind_Some_iff)

definition device_result :: "bitmask \<Rightarrow> int \<Rightarrow> bitmask \<Rightarrow> bool" where
  "device_result msk r m \<longleftrightarrow> mask_grows msk m \<and> r \<in> {0, - 1}"

lemma failed_result: "bm_inv msk \<Longrightarrow> device_result msk (- 1) msk"
  by (simp add: device_result_def mask_grows_refl)

lemma read_or_fail_result:
  assumes "read_or_fail K msk fn s = Some ((r, m), t)" "bm_inv msk"
  shows "device_result msk r m"
proof -
  obtain r1 m1 t1 where rd: "sysfs_node_read K msk fn s = ((r1, m1), t1)" by (metis surj_pair)
  show ?thesis
    using sysfs_node_read_grows [OF rd assms(2)] assms(1)
    by (auto simp: read_or_fail_def rd device_result_def bind_Some_iff dest: node_parse_failure_result split: if_splits)
qed

lemma capped_result: "device_result msk r m \<Longrightarrow> device_result msk (if r < 0 then r else 0) m"
  by (auto simp: device_result_def)

lemma affinity_class_result:
  assumes run: "affinity_class K D msk cls dev s = Some ((r, m), t)" and inv: "bm_inv msk"
  shows "device_result msk r m"
proof (cases "badchar (dropWhile c_isspace dev)")
  case True
  then show ?thesis using run failed_result [OF inv] by (auto simp: affinity_class_def bind_Some_iff)
next
  case False
  let ?fn = "class_file cls (dropWhile c_isspace dev) @ ''/device/numa_node''"
  obtain hit :: "(nat \<times> string) option" where h: "(case hit of
         Some (so, p) \<Rightarrow>
           if so = 0 then None else read_or_fail K msk (''/sys/'' @ p @ ''/numa_node'') s
       | None \<Rightarrow> do {
           ((ret, msk), s) \<leftarrow> read_or_fail K msk ?fn s;
           Some ((if ret < 0 then ret else 0, msk), s)
         }) = Some ((r, m), t)"
    using run False
    by (cases "link_device K D (class_file cls (dropWhile c_isspace dev)) s") (simp_all add: affinity_class_def Let_def)
  show ?thesis
  proof (cases hit)
    case None
    then obtain r1 where "read_or_fail K msk ?fn s = Some ((r1, m), t)" "r = (if r1 < 0 then r1 else 0)"
      using h by (auto simp: bind_Some_iff)
    then show ?thesis using read_or_fail_result [OF _ inv] capped_result by blast
  next
    case (Some p)
    then show ?thesis using h read_or_fail_result [OF _ inv] by (auto split: prod.splits if_splits)
  qed
qed

lemma affinity_file_loop_result:
  "affinity_file_loop K D msk d names s = Some ((r, m), t) \<Longrightarrow> bm_inv msk \<Longrightarrow> device_result msk r m"
proof (induction names arbitrary: s)
  case Nil
  then show ?case using failed_result by (auto simp: bind_Some_iff)
next
  case (Cons n names)
  then show ?case
    using affinity_class_result [of K D msk "''block''" n]
    by (auto simp: bind_Some_iff split: if_splits prod.splits option.splits)
qed

lemma affinity_ip_result:
  assumes run: "affinity_ip K D msk host s = Some ((r, m), t)" and inv: "bm_inv msk"
  shows "device_result msk r m"
proof (cases "ro_getaddrinfo (dev_route D) (world s) host")
  case None
  then show ?thesis using run failed_result [OF inv] by (auto simp: affinity_ip_def bind_Some_iff)
next
  case (Some ai)
  then obtain iif u where f: "find_route (dev_route D) ai s = Some (iif, u)"
    using run by (auto simp: affinity_ip_def bind_Some_iff)
  show ?thesis
  proof (cases iif)
    case None
    then show ?thesis using run Some f failed_result [OF inv] by (auto simp: affinity_ip_def)
  next
    case (Some i)
    then show ?thesis
      using run f \<open>ro_getaddrinfo (dev_route D) (world s) host = Some ai\<close> failed_result [OF inv]
        affinity_class_result [OF _ inv]
      by (cases "ro_ifname (dev_route D) (world u) i") (auto simp: affinity_ip_def iif_to_name_def bind_Some_iff)
  qed
qed

lemma call_handler_result:
  assumes "call_handler K D h msk desc s = Some ((r, m), t)" "bm_inv msk"
  shows "device_result msk r m"
proof (cases "h_handler h")
  case H_class
  then show ?thesis using assms affinity_class_result by (auto simp: call_handler_def)
next
  case H_ip
  then show ?thesis using assms affinity_ip_result by (simp add: call_handler_def)
next
  case H_file
  then show ?thesis using assms affinity_file_loop_result failed_result
    by (auto simp: call_handler_def affinity_file_def bind_Some_iff split: sum.splits option.splits prod.splits)
next
  case H_pci
  show ?thesis
  proof (cases "parse_pci desc")
    case None
    then show ?thesis using assms failed_result H_pci
      by (auto simp: call_handler_def affinity_pci_def bind_Some_iff)
  next
    case (Some p)
    obtain seg bus dev func where p: "p = (seg, bus, dev, func)" by (metis prod_cases4)
    then show ?thesis
      using assms H_pci Some read_or_fail_result [of K msk "pci_file seg bus dev func" s] capped_result
      by (auto simp: call_handler_def affinity_pci_def p bind_Some_iff)
  qed
qed

text \<open>A call that does not give the warning \<open>W_nonode\<close>.\<close>

definition quiet :: "'w numa \<Rightarrow> 'w numa \<Rightarrow> bool" where
  "quiet s t \<longleftrightarrow> (W_nonode \<in> set (warn_out t) \<longrightarrow> W_nonode \<in> set (warn_out s))"

lemma quiet_errno [simp]: "quiet s (t\<lparr>errno := e\<rparr>) = quiet s t"
  by (simp add: quiet_def)

named_theorems quiet_keep \<open>the calls that do not give the warning\<close>

lemmas quiet_binds [quiet_keep] = kept_bind kept_bind_state kept_bind_values

lemma warn_quiet [quiet_keep]: "w \<noteq> W_nonode \<Longrightarrow> quiet s0 s \<Longrightarrow> kept id (quiet s0) (numa_warn w s)"
  by (simp add: numa_warn_unfold quiet_def)

lemma route_quiet [quiet_keep]: "quiet s0 s \<Longrightarrow> kept snd (quiet s0) (rtnetlink_request R msg n s)"
  by (auto simp: rtnetlink_request_def steps split: option.split sum.split intro!: quiet_keep)

lemma iif_to_name_quiet [simp]: "quiet s0 s \<Longrightarrow> quiet s0 (snd (iif_to_name R iif s))"
  by (simp add: iif_to_name_def split: sum.split)

lemma find_route_quiet [quiet_keep]: "quiet s0 s \<Longrightarrow> kept snd (quiet s0) (find_route R ai s)"
  by (auto simp: find_route_def steps split: option.split sum.split prod.split intro!: quiet_keep)

lemma sysfs_read_quiet [simp]: "quiet s0 s \<Longrightarrow> quiet s0 (snd (sysfs_read K fn s))"
  by (auto simp: sysfs_read_def split: sum.split)

lemma sysfs_node_read_quiet [simp]: "quiet s0 s \<Longrightarrow> quiet s0 (snd (sysfs_node_read K m fn s))"
  by (auto simp: sysfs_node_read_def steps split: option.split)

lemma read_or_fail_quiet [quiet_keep]: "quiet s0 s \<Longrightarrow> kept snd (quiet s0) (read_or_fail K m fn s)"
  by (auto simp: read_or_fail_def node_parse_failure_def steps intro!: quiet_keep)

lemma affinity_class_quiet [quiet_keep]: "quiet s0 s \<Longrightarrow> kept snd (quiet s0) (affinity_class K D m cls dev s)"
  by (auto simp: affinity_class_def Let_def intro!: quiet_keep split: option.split prod.split)

lemma affinity_file_loop_quiet [quiet_keep]:
  "quiet s0 s \<Longrightarrow> kept snd (quiet s0) (affinity_file_loop K D m d names s)"
  by (induction names arbitrary: s) (auto simp: steps intro!: quiet_keep split: option.split)

lemma handler_quiet [quiet_keep]:
  "quiet s0 s \<Longrightarrow> kept snd (quiet s0) (affinity_file K D m fl s)"
  "quiet s0 s \<Longrightarrow> kept snd (quiet s0) (affinity_ip K D m ident s)"
  "quiet s0 s \<Longrightarrow> kept snd (quiet s0) (affinity_pci K m ident s)"
  by (auto simp: affinity_file_def affinity_ip_def affinity_pci_def steps intro!: quiet_keep
      split: option.split sum.split prod.split file_kind.split)

lemma call_handler_quiet: "quiet s0 s \<Longrightarrow> kept snd (quiet s0) (call_handler K D h m desc s)"
  by (auto simp: call_handler_def intro!: quiet_keep split: handler_fn.split)

text \<open>A name is for the handler whose prefix it starts with; the first character that the table holds beside the
  prefix is the one of the prefix.\<close>

definition handled :: "handler list \<Rightarrow> string \<Rightarrow> bool" where
  "handled hs name \<longleftrightarrow> (\<exists>h \<in> set hs. take (length (h_name h)) name = h_name h)"

lemma handler_loop_results:
  assumes run: "handler_loop K D hs name msk s = Some ((r, m), t)" and inv: "bm_inv msk"
    and first: "\<forall>h \<in> set hs. take 1 (h_name h) = [h_first h]"
  shows "if handled hs name then device_result msk r m \<and> quiet s t else r = NO_IO_AFFINITY \<and> m = msk \<and> t = s"
  using run first
proof (induction hs)
  case (Cons h hs)
  have f: "take 1 name = [h_first h]" if "take (length (h_name h)) name = h_name h"
  proof -
    have "take 1 (take (length (h_name h)) name) = [h_first h]" using that Cons.prems(2) by simp
    then show ?thesis by (cases "h_name h") (use Cons.prems(2) in auto)
  qed
  show ?case
  proof (cases "take (length (h_name h)) name = h_name h")
    case True
    let ?desc = "drop (length (h_name h)) name"
    obtain r1 m1 t1 where c: "call_handler K D h msk ?desc s = Some ((r1, m1), t1)"
      using Cons.prems True f by (auto simp: bind_Some_iff)
    have res: "device_result msk r1 m1" by (rule call_handler_result [OF c inv])
    have q: "quiet s t1" using call_handler_quiet [of s s K D h msk ?desc] c by (simp add: quiet_def kept_def)
    from res have "r1 \<noteq> - 2" by (auto simp: device_result_def)
    then have "r1 = r" "m1 = m" "t1 = t" using Cons.prems(1) True f c by simp_all
    then show ?thesis using res q True by (simp add: handled_def)
  next
    case False
    then have "handler_loop K D hs name msk s = Some ((r, m), t)" using Cons.prems(1) by (simp split: if_splits)
    then show ?thesis using Cons.IH Cons.prems(2) False by (simp add: handled_def)
  qed
qed (simp add: handled_def)

text \<open>C40: a name that starts with one of the five prefixes goes to its handler, whatever it is and whatever the
  files hold: a call that comes back has returned 0 or -1, has kept the shape of the mask and only added nodes
  to it, and has not given the warning \<open>W_nonode\<close>, although \<open>resolve_affinity\<close> tests for the result -2 to give
  it.  For every other name the result is NO_IO_AFFINITY, which is that same number -2, and neither the mask
  nor the state has changed.\<close>

theorem resolve_affinity_results:
  assumes "resolve_affinity K D name msk s = Some ((r, m), t)" "bm_inv msk"
  shows "if \<exists>p \<in> {''netdev:'', ''ip:'', ''file:'', ''block:'', ''pci:''}. take (length p) name = p
    then r \<in> {0, - 1} \<and> bm_inv m \<and> bm_size m = bm_size msk \<and> bm_bits msk \<subseteq> bm_bits m \<and>
      (W_nonode \<in> set (warn_out t) \<longrightarrow> W_nonode \<in> set (warn_out s))
    else r = NO_IO_AFFINITY \<and> m = msk \<and> t = s"
proof -
  have "\<forall>h \<in> set handlers. take 1 (h_name h) = [h_first h]" by (simp add: handlers_def)
  from handler_loop_results [OF assms(1) [unfolded resolve_affinity_def] assms(2) this]
  have *: "if handled handlers name then device_result msk r m \<and> quiet s t else r = NO_IO_AFFINITY \<and> m = msk \<and> t = s" .
  have "handled handlers name \<longleftrightarrow>
      (\<exists>p \<in> {''netdev:'', ''ip:'', ''file:'', ''block:'', ''pci:''}. take (length p) name = p)"
    unfolding handled_def handlers_def by (simp add: eval_nat_numeral)
  with * show ?thesis unfolding device_result_def mask_grows_def quiet_def by (auto simp del: mem_bm_bits)
qed

section \<open>PCI devices\<close>

lemma pad_hex_0: "pad_hex k 0 = replicate k CHR ''0''"
proof -
  have "digit_char 0 = CHR ''0''" by code_simp
  then show ?thesis by (induction k) (simp_all add: replicate_append_same)
qed

lemma hex_field_pad: "n < 16 ^ k \<Longrightarrow> 0 < k \<Longrightarrow> hex_field k n = pad_hex k n"
proof (induction k arbitrary: n)
  case (Suc k)
  show ?case
  proof (cases "n < 16")
    case True
    then show ?thesis by (simp add: hex_field_def hex_nat.simps [of n] pad_hex_0)
  next
    case False
    have "k \<noteq> 0" using Suc.prems(1) False by (cases k) auto
    moreover have "n div 16 < 16 ^ k" using Suc.prems(1) by (simp add: less_mult_imp_div_less mult.commute)
    ultimately have "hex_field k (n div 16) = pad_hex k (n div 16)" using Suc.IH by simp
    then show ?thesis using False by (simp add: hex_field_def hex_nat.simps [of n])
  qed
qed simp

lemma scan_hex_pad:
  assumes "n < 16 ^ k" "0 < k" "k \<le> 8" "r = [] \<or> hd r = CHR '':'' \<or> hd r = CHR ''.''"
  shows "scan_hex (pad_hex k n @ r) = Some (n, r)"
proof -
  have stop: "hex_stop r"
    using assms(4) by (cases r) (auto simp: hex_stop_def starts_digit_def is_digit_of_def digit_val_def char_code_def)
  have st: "strtoul (pad_hex k n @ r) 16 = (n, r)" using assms stop by (intro strtoul_pad_hex) simp_all
  have "(16 :: nat) ^ k \<le> 16 ^ 8" using assms(3) by (intro power_increasing) simp_all
  then have "n < 2 ^ 32" using assms(1) by simp
  moreover have "pad_hex k n \<noteq> []" using assms(2) length_pad_hex [of k n] by (metis length_0_conv less_irrefl)
  then have "pad_hex k n @ r \<noteq> r" by simp
  moreover have "take 1 r \<noteq> ''x''" "take 1 r \<noteq> ''X''" using stop by (simp_all add: hex_stop_def)
  ultimately show ?thesis by (auto simp: scan_hex_def st)
qed

lemma parse_pci_print:
  assumes "seg < 65536" "bus < 256" "dev < 256" "func < 16"
  shows "parse_pci (pad_hex 4 seg @ '':'' @ pad_hex 2 bus @ '':'' @ pad_hex 2 dev @ ''.'' @ pad_hex 1 func) =
    Some (seg, bus, dev, func)"
proof -
  have f: "scan_hex (pad_hex 1 func) = Some (func, [])" using scan_hex_pad [of func 1 "[]"] assms(4) by simp
  have "scan_fields ''::.'' (pad_hex 4 seg @ '':'' @ pad_hex 2 bus @ '':'' @ pad_hex 2 dev @ ''.'' @ pad_hex 1 func) =
      [seg, bus, dev, func]"
    using assms(1-3) f by (simp add: scan_hex_pad del: pad_hex.simps)
  then show ?thesis by (simp add: parse_pci_def)
qed

lemma sysfs_node_single:
  assumes "malloc_succeeds K" "os_file K (world s) fn = Inr (dec_nat n @ [CHR 0x0A])" "n < 2 ^ 31"
  shows "sysfs_node_read K msk fn s =
    ((if int n < numprocnode s then (0, numa_bitmask_setbit msk n) else (- 1, msk)), s)"
proof -
  have st: "strtol (dec_nat n @ [CHR 0x0A]) 0 = (int n, [CHR 0x0A])"
    using assms(3) by (intro strtol_dec_nat) (simp_all add: starts_digit_def is_digit_of_def digit_val_def char_code_def)
  have "sysfs_node_loop (numprocnode s) (dec_nat n @ [CHR 0x0A]) msk =
      (if int n < numprocnode s then (0, numa_bitmask_setbit msk n) else (- 1, msk))"
    using st assms(3) by (subst sysfs_node_loop.simps) (simp add: c_int_id c_uint_of_nat c_isspace_def char_code_def)
  moreover have "take (SYSFS_BLOCK - 1) (dec_nat n @ [CHR 0x0A]) = dec_nat n @ [CHR 0x0A]"
  proof -
    have "n < 10 ^ k \<Longrightarrow> 0 < k \<Longrightarrow> length (dec_nat n) \<le> k" for k
    proof (induction k arbitrary: n)
      case (Suc k)
      show ?case
      proof (cases "n < 10")
        case False
        then have "k \<noteq> 0" using Suc.prems(1) by (cases k) auto
        moreover have "n div 10 < 10 ^ k" using Suc.prems(1) by (simp add: less_mult_imp_div_less mult.commute)
        ultimately show ?thesis using Suc.IH [of "n div 10"] False by (simp add: dec_nat.simps [of n])
      qed (simp add: dec_nat.simps [of n])
    qed simp
    from this [of 10] show ?thesis using assms(3) by (simp add: SYSFS_BLOCK_def)
  qed
  ultimately show ?thesis
    using assms(1,2)
    by (simp add: sysfs_node_read_def sysfs_read_def malloc_succeeds_def numa_num_task_nodes_def)
qed

lemma pci_run:
  assumes "malloc_succeeds K" "seg < 65536" "bus < 256" "dev < 256" "func < 16"
    and "os_file K (world s) (''/sys/devices/pci'' @ pad_hex 4 seg @ '':'' @ pad_hex 2 bus @ ''/'' @ pad_hex 4 seg @ '':'' @
      pad_hex 2 bus @ '':'' @ pad_hex 2 dev @ ''.'' @ pad_hex 1 func @ ''/numa_node'') = Inr (dec_nat n @ [CHR 0x0A])"
    and "n < 2 ^ 31"
  shows "resolve_affinity K D (''pci:'' @ pad_hex 4 seg @ '':'' @ pad_hex 2 bus @ '':'' @ pad_hex 2 dev @ ''.'' @ pad_hex 1 func)
    msk s = (if int n < numprocnode s then Some ((0, numa_bitmask_setbit msk n), s)
             else map_option (Pair (- 1, msk)) (numa_warn W_node_parse2 s))"
proof -
  let ?a = "pad_hex 4 seg @ '':'' @ pad_hex 2 bus @ '':'' @ pad_hex 2 dev @ ''.'' @ pad_hex 1 func"
  have "hex_nat func = pad_hex 1 func" using hex_field_pad [of func 1] assms(5) by (simp add: hex_field_def hex_nat.simps [of func])
  then have fn: "pci_file seg bus dev func = ''/sys/devices/pci'' @ pad_hex 4 seg @ '':'' @ pad_hex 2 bus @ ''/'' @ pad_hex 4 seg @ '':'' @
      pad_hex 2 bus @ '':'' @ pad_hex 2 dev @ ''.'' @ pad_hex 1 func @ ''/numa_node''"
    using hex_field_pad [of seg 4] hex_field_pad [of bus 2] hex_field_pad [of dev 2] assms(2-4)
    unfolding pci_file_def by simp
  have rd: "sysfs_node_read K msk (pci_file seg bus dev func) s =
      ((if int n < numprocnode s then (0, numa_bitmask_setbit msk n) else (- 1, msk)), s)"
    by (rule sysfs_node_single [OF assms(1) assms(6) [folded fn] assms(7)])
  have "affinity_pci K msk ?a s = (if int n < numprocnode s then Some ((0, numa_bitmask_setbit msk n), s)
             else map_option (Pair (- 1, msk)) (numa_warn W_node_parse2 s))"
    unfolding affinity_pci_def parse_pci_print [OF assms(2-5)]
    by (cases "numa_warn W_node_parse2 s") (simp_all add: read_or_fail_def rd node_parse_failure_def)
  then show ?thesis
    by (cases "numa_warn W_node_parse2 s")
      (auto simp: resolve_affinity_def handlers_def call_handler_def simp del: pad_hex.simps)
qed

text \<open>The name of a PCI device, with its address as the kernel prints it, is resolved to the node that the
  kernel names for it: the address is parsed back from the text, the file read is the one of that device, and
  the node number in it is set in the mask.\<close>

theorem pci_device_node:
  assumes "malloc_succeeds K" "seg < 65536" "bus < 256" "dev < 256" "func < 16"
    and "os_file K (world s) (''/sys/devices/pci'' @ pad_hex 4 seg @ '':'' @ pad_hex 2 bus @ ''/'' @ pad_hex 4 seg @ '':'' @
      pad_hex 2 bus @ '':'' @ pad_hex 2 dev @ ''.'' @ pad_hex 1 func @ ''/numa_node'') = Inr (dec_nat n @ [CHR 0x0A])"
    and "int n < numprocnode s" "n < 2 ^ 31"
  shows "resolve_affinity K D (''pci:'' @ pad_hex 4 seg @ '':'' @ pad_hex 2 bus @ '':'' @ pad_hex 2 dev @ ''.'' @ pad_hex 1 func)
    msk s = Some ((0, numa_bitmask_setbit msk n), s)"
  using pci_run [OF assms(1-6,8)] assms(7) by simp

text \<open>A system with one PCI device, \<open>0000:00:1f.2\<close>, whose file holds the given number.\<close>

definition pci_os :: "nat \<Rightarrow> toy os" where
  "pci_os n = (toy_os True)\<lparr>os_file := \<lambda>w fn.
     if fn = ''/sys/devices/pci0000:00/0000:00:1f.2/numa_node'' then Inr (dec_nat n @ [CHR 0x0A]) else Inl ENOENT\<rparr>"

lemma pci_os_malloc: "malloc_succeeds (pci_os n)"
  by (simp add: pci_os_def malloc_succeeds_def toy_os_def)

lemma pci_os_name:
  "pad_hex 4 0 = ''0000''" "pad_hex 2 0 = ''00''" "pad_hex 2 31 = ''1f''" "pad_hex 1 2 = ''2''"
  by code_simp+

definition no_dev :: "toy dev" where
  "no_dev = \<lparr>dev_readlink = \<lambda>w fn. None, dev_stack = \<lambda>w. [], dev_stat = \<lambda>w fn. Inl ENOENT,
     dev_route = \<lparr>ro_getaddrinfo = \<lambda>w a. None, ro_socket = \<lambda>w. None, ro_sendto = \<lambda>w m. None,
       ro_recvfrom = \<lambda>w m n. Inl ENOENT, ro_ifname = \<lambda>w i. Inl ENOENT\<rparr>\<rparr>"

theorem pci_device_node_witness:
  "resolve_affinity (pci_os 1) no_dev ''pci:0000:00:1f.2'' (new_bitmask 64) toy_numa =
    Some ((0, numa_bitmask_setbit (new_bitmask 64) 1), toy_numa)"
proof -
  have n: "numprocnode toy_numa = 2" by (simp add: toy_numa_def)
  show ?thesis
    using pci_device_node [OF pci_os_malloc [of 1], of 0 0 31 2 toy_numa 1 no_dev "new_bitmask 64"] n
    unfolding pci_os_name by (simp add: pci_os_def)
qed

text \<open>The node of a device is refused when its number is not below the number of nodes the task may use,
  although it is one of them: the numbers are compared with a count, which is wrong for node numbers that are
  not contiguous.\<close>

theorem sparse_device_node_refused:
  assumes "malloc_succeeds K" "seg < 65536" "bus < 256" "dev < 256" "func < 16"
    and "os_file K (world s) (''/sys/devices/pci'' @ pad_hex 4 seg @ '':'' @ pad_hex 2 bus @ ''/'' @ pad_hex 4 seg @ '':'' @
      pad_hex 2 bus @ '':'' @ pad_hex 2 dev @ ''.'' @ pad_hex 1 func @ ''/numa_node'') = Inr (dec_nat n @ [CHR 0x0A])"
    and "numprocnode s \<le> int n" "n < 2 ^ 31" "numa_all_nodes_ptr s = Some al" "n \<in> bm_bits al"
    and "\<not> numa_exit_on_warn s"
  shows "\<exists>t. resolve_affinity K D (''pci:'' @ pad_hex 4 seg @ '':'' @ pad_hex 2 bus @ '':'' @ pad_hex 2 dev @ ''.'' @ pad_hex 1 func)
    msk s = Some ((- 1, msk), t)"
  using pci_run [OF assms(1-6,8), of D msk] warn_runs [OF assms(11), of W_node_parse2] assms(7) by auto

theorem sparse_device_node_refused_witness:
  "\<exists>t. resolve_affinity (pci_os 2) no_dev ''pci:0000:00:1f.2'' (new_bitmask 64)
    (toy_numa\<lparr>numa_all_nodes_ptr := Some (toy_mask 64 [0, 2])\<rparr>) = Some ((- 1, new_bitmask 64), t)"
proof -
  let ?s = "toy_numa\<lparr>numa_all_nodes_ptr := Some (toy_mask 64 [0, 2])\<rparr>"
  have n: "numprocnode ?s = 2" by (simp add: toy_numa_def)
  have "2 \<in> bm_bits (toy_mask 64 [0, 2])" unfolding toy_mask_bits(3) by simp
  with sparse_device_node_refused [OF pci_os_malloc [of 2], of 0 0 31 2 ?s 2 "toy_mask 64 [0, 2]" no_dev "new_bitmask 64"] n
  show ?thesis unfolding pci_os_name by (simp add: pci_os_def del: mem_bm_bits)
qed

theorem resolve_affinity_results_witness:
  "bm_inv (numa_bitmask_setbit (new_bitmask 64) 1) \<and>
    bm_bits (new_bitmask 64) \<subseteq> bm_bits (numa_bitmask_setbit (new_bitmask 64) 1)"
proof -
  have n: "numprocnode toy_numa = 2" by (simp add: toy_numa_def)
  have run: "resolve_affinity (pci_os 1) no_dev ''pci:0000:00:1f.2'' (new_bitmask 64) toy_numa =
    Some ((0, numa_bitmask_setbit (new_bitmask 64) 1), toy_numa)"
    using pci_run [OF pci_os_malloc [of 1], of 0 0 31 2 toy_numa 1 no_dev "new_bitmask 64"] n
    unfolding pci_os_name by (simp add: pci_os_def)
  have p: "\<exists>p \<in> {''netdev:'', ''ip:'', ''file:'', ''block:'', ''pci:''}. take (length p) ''pci:0000:00:1f.2'' = p"
    by simp
  show ?thesis using resolve_affinity_results [OF run bm_inv_new] unfolding if_P [OF p] by blast
qed

section \<open>Addresses\<close>

lemma route_run:
  assumes "address_of dst = Some addr" "ro_socket R (world s) = None"
    and "ro_sendto R (world s) (netlink_message RTM_GETROUTE (request_fields (sa_family dst)) [(RTA_DST, addr)]) = None"
    and "ro_recvfrom R (world s) (netlink_message RTM_GETROUTE (request_fields (sa_family dst)) [(RTA_DST, addr)]) 284 =
      Inr (netlink_message ty hdr attrs)"
    and "length hdr = 22" "length (netlink_message ty hdr attrs) \<le> 284" "ty < 65536" "ty \<noteq> NLMSG_ERROR"
    and "\<forall>(t, pl) \<in> set attrs. t < 65536"
    and "List.find (\<lambda>(t, pl). t = RTA_OIF) attrs = Some (RTA_OIF, bytes_of 4 iif)" "iif < 2 ^ 31"
  shows "find_route R dst s = Some (Some (int iif), s)"
proof -
  let ?q = "netlink_message RTM_GETROUTE (request_fields (sa_family dst)) [(RTA_DST, addr)]"
  let ?r = "netlink_message ty hdr attrs"
  let ?m = "?q @ replicate (252 - length addr) 0"
  have addr: "length addr = 4 \<or> length addr = 16" using assms(1) by (auto simp: address_of_def split: if_splits)
  then have q: "length ?q = 32 + length addr" by (auto simp: netlink_message_def Let_def length_enc_attr)
  have len: "peek ?m 0 4 = Some (32 + length addr)"
    using peek_number [of 0 "[]" "32 + length addr" 4] addr
    by (auto simp: netlink_message_def Let_def length_enc_attr simp del: bytes_of.simps)
  have po: "poke ?m 0 ?r = Some (?r @ drop (length ?r) ?m)"
    using assms(6) q addr by (auto simp: poke_def)
  have ty: "peek (?r @ c) 4 2 = Some ty" for c
    using peek_number [of 4 "bytes_of 4 (28 + length (concat (map enc_attr attrs)))" ty 2] assms(7)
    by (simp add: netlink_message_def Let_def del: bytes_of.simps)
  have pls: "\<forall>(t, pl) \<in> set attrs. t < 65536 \<and> length pl < 65532"
  proof safe
    fix t pl assume a: "(t, pl) \<in> set attrs"
    then show "t < 65536" using assms(9) by auto
    have "length pl \<le> (length pl + 3) div 4 * 4" by presburger
    then have "length pl \<le> length (enc_attr (t, pl))" unfolding length_enc_attr by simp
    also have "\<dots> \<le> length (concat (map enc_attr attrs))" using a
      by (auto simp: length_concat comp_def member_le_sum_list)
    also have "\<dots> < 65532" using assms(6) by (simp add: netlink_message_def Let_def)
    finally show "length pl < 65532" .
  qed
  have "rtnetlink_request R ?m 284 s = Some ((0, ?r @ drop (length ?r) ?m), s)"
    using assms(2-4,6,8) len po ty q addr by (auto simp: rtnetlink_request_def)
  moreover have "route_loop (?r @ drop (length ?r) ?m) None = Some (Some (int iif))"
    using assms(6) by (intro route_loop_reply [OF assms(5) _ pls assms(10,11)]) simp
  moreover have "length ?m = 284" using q addr by auto
  ultimately show ?thesis
    by (simp add: find_route_def rta_put_address_request [OF assms(1)])
qed

text \<open>C16: An address is resolved to the nodes of the network device that the kernel routes it through.  The request
  that is sent is a routing message with the address as its destination attribute; whatever attributes the reply
  holds, and in whatever order, the number of the interface is found in it; the rest is the look-up of the
  interface by its name.\<close>

theorem ip_address_node:
  assumes "ro_getaddrinfo (dev_route D) (world s) host = Some dst" "address_of dst = Some addr"
    and "ro_socket (dev_route D) (world s) = None"
    and "ro_sendto (dev_route D) (world s) (netlink_message RTM_GETROUTE (request_fields (sa_family dst)) [(RTA_DST, addr)]) = None"
    and "ro_recvfrom (dev_route D) (world s) (netlink_message RTM_GETROUTE (request_fields (sa_family dst)) [(RTA_DST, addr)]) 284 =
      Inr (netlink_message ty hdr attrs)"
    and "length hdr = 22" "length (netlink_message ty hdr attrs) \<le> 284" "ty < 65536" "ty \<noteq> NLMSG_ERROR"
    and "\<forall>(t, pl) \<in> set attrs. t < 65536"
    and "List.find (\<lambda>(t, pl). t = RTA_OIF) attrs = Some (RTA_OIF, bytes_of 4 iif)" "iif < 2 ^ 31"
    and "ro_ifname (dev_route D) (world s) (int iif) = Inr name" "affinity_class K D msk ''net'' name s = Some ((r, m), t)"
    and "bm_inv msk"
  shows "resolve_affinity K D (''ip:'' @ host) msk s = Some ((r, m), t)"
proof -
  have "find_route (dev_route D) dst s = Some (Some (int iif), s)"
    by (rule route_run [OF assms(2-12)])
  then have "affinity_ip K D msk host s = Some ((r, m), t)"
    using assms(1,13,14) by (simp add: affinity_ip_def iif_to_name_def)
  moreover have "r \<noteq> - 2" using affinity_class_result [OF assms(14,15)] by (auto simp: device_result_def)
  ultimately show ?thesis by (simp add: resolve_affinity_def handlers_def call_handler_def)
qed

text \<open>A system on which the host is at 10.0.0.1 and is reached through the interface 2, \<open>eth0\<close>, on node 1.\<close>

definition host_reply :: "byte list" where
  "host_reply = netlink_message 24 (replicate 22 0) [(RTA_DST, [10, 0, 0, 1]), (RTA_OIF, bytes_of 4 2)]"

definition host_dev :: "toy dev" where
  "host_dev = no_dev\<lparr>dev_route := \<lparr>ro_getaddrinfo = \<lambda>w a. Some \<lparr>sa_family = AF_INET, sin_addr = [10, 0, 0, 1], sin6_addr = []\<rparr>,
     ro_socket = \<lambda>w. None, ro_sendto = \<lambda>w m. None, ro_recvfrom = \<lambda>w m n. Inr host_reply,
     ro_ifname = \<lambda>w i. if i = 2 then Inr ''eth0'' else Inl ENOENT\<rparr>\<rparr>"

definition host_os :: "toy os" where
  "host_os = (toy_os True)\<lparr>os_file := \<lambda>w fn.
     if fn = ''/sys/class/net/eth0/device/numa_node'' then Inr (dec_nat 1 @ [CHR 0x0A]) else Inl ENOENT\<rparr>"

theorem ip_address_node_witness:
  "resolve_affinity host_os host_dev (''ip:'' @ ''example.org'') (new_bitmask 64) toy_numa =
    Some ((0, numa_bitmask_setbit (new_bitmask 64) 1), toy_numa)"
proof (rule ip_address_node [where attrs = "[(RTA_DST, [10, 0, 0, 1]), (RTA_OIF, bytes_of 4 2)]" and ty = 24
      and hdr = "replicate 22 0" and iif = 2 and addr = "[10, 0, 0, 1]" and name = "''eth0''"
      and dst = "\<lparr>sa_family = AF_INET, sin_addr = [10, 0, 0, 1], sin6_addr = []\<rparr>"])
  have mal: "malloc_succeeds host_os" by (simp add: host_os_def malloc_succeeds_def toy_os_def)
  have "sysfs_node_read host_os (new_bitmask 64) ''/sys/class/net/eth0/device/numa_node'' toy_numa =
      ((0, numa_bitmask_setbit (new_bitmask 64) 1), toy_numa)"
    using sysfs_node_single [OF mal, of toy_numa "''/sys/class/net/eth0/device/numa_node''" 1]
    by (simp add: host_os_def toy_numa_def)
  moreover have name: "dropWhile c_isspace ''eth0'' = ''eth0''" "badchar ''eth0'' = False" by code_simp+
  moreover have link: "link_device host_os host_dev (class_file ''net'' ''eth0'') toy_numa = Some None"
    by (simp add: link_device_def host_dev_def no_dev_def)
  ultimately show "affinity_class host_os host_dev (new_bitmask 64) ''net'' ''eth0'' toy_numa =
      Some ((0, numa_bitmask_setbit (new_bitmask 64) 1), toy_numa)"
    unfolding affinity_class_def name Let_def link by (simp add: read_or_fail_def class_file_def)
qed (simp_all add: host_dev_def host_reply_def netlink_consts address_of_def netlink_message_def Let_def length_enc_attr)

section \<open>Files on character devices\<close>

text \<open>The device of a character special file is looked up in the class \<open>misc\<close>, but the numbers of the
  entries are read from the class \<open>block\<close>: when no block device has the name of a misc device, the file is
  never resolved, also when its device is in the directory.\<close>

theorem misc_device_not_found:
  assumes "dev_stat D (world s) fl = Inr (S_CHR, st_dev, st_rdev)"
    and "os_dir K (world s) ''/sys/class/misc'' = Some names"
    and "\<forall>name \<in> set names. \<exists>e. os_file K (world s) (''/sys/class/block/'' @ name @ ''/dev'') = Inl e"
    and "\<not> numa_exit_on_warn s"
  shows "\<exists>t. resolve_affinity K D (''file:'' @ fl) msk s = Some ((- 1, msk), t)"
proof -
  have loop: "\<exists>u. affinity_file_loop K D msk d names t = Some ((- 1, msk), u)"
    if "\<forall>name \<in> set names. \<exists>e. os_file K (world t) (''/sys/class/block/'' @ name @ ''/dev'') = Inl e" "\<not> numa_exit_on_warn t"
    for names d t
    using that
  proof (induction names arbitrary: t)
    case Nil
    then show ?case using warn_runs [of t W_blockdev5] by auto
  next
    case (Cons n names)
    let ?fn = "''/sys/class/block/'' @ n @ ''/dev''"
    obtain u where u: "sysfs_read K ?fn t = (None, u)" "world u = world t" "\<not> numa_exit_on_warn u"
      using Cons.prems by (cases "os_malloc_ok K (world t) SYSFS_BLOCK") (auto simp: sysfs_read_def)
    obtain v where v: "numa_warn W_blockdev3 u = Some v" using warn_runs [OF u(3)] by blast
    then have "world v = world t" "\<not> numa_exit_on_warn v"
      using u(2,3) warn_base [OF v] lookup_base_fields(1,7) [of v u] by auto
    then have v': "\<exists>w. affinity_file_loop K D msk d names v = Some ((- 1, msk), w)" and
      t': "\<exists>w. affinity_file_loop K D msk d names t = Some ((- 1, msk), w)"
      using Cons.IH [of v] Cons.IH [of t] Cons.prems by simp_all
    have "affinity_file_loop K D msk d (n # names) t =
        (if take 1 n = ''.'' then affinity_file_loop K D msk d names t else affinity_file_loop K D msk d names v)"
      using u(1) v by simp
    then show ?case using v' t' by (cases "take 1 n = ''.''") simp_all
  qed
  have "affinity_file K D msk fl s = affinity_file_loop K D msk st_rdev names s"
    using assms(1,2) by (simp add: affinity_file_def)
  moreover obtain t where "affinity_file_loop K D msk st_rdev names s = Some ((- 1, msk), t)"
    using loop [OF assms(3,4)] by blast
  ultimately show ?thesis by (simp add: resolve_affinity_def handlers_def call_handler_def)
qed

theorem misc_device_not_found_witness:
  "\<exists>t. resolve_affinity ((toy_os True)\<lparr>os_dir := \<lambda>w d. Some [''.'', ''hpet'']\<rparr>)
      (no_dev\<lparr>dev_stat := \<lambda>w f. Inr (S_CHR, (0, 6), (10, 228))\<rparr>) (''file:'' @ ''/dev/hpet'') (new_bitmask 64) toy_numa =
    Some ((- 1, new_bitmask 64), t)"
  by (rule misc_device_not_found [where st_dev = "(0, 6)" and st_rdev = "(10, 228)" and names = "[''.'', ''hpet'']"])
    (simp_all add: toy_os_def toy_files_def cpumap_file_def mask_size_file_def distance_file_def)

section \<open>Memory sizes\<close>

text \<open>\<open>numa_node_size64\<close> reads the total and the free memory of a node, in bytes, from the lines the kernel
  prints, wherever they are in the file and whatever the other lines hold, and gives no warning; without a
  pointer for the free memory it reads the total alone.\<close>

theorem node_size_from_meminfo:
  assumes "os_file K (world s) (meminfo_file node) =
      Inr (concat (pre @ [meminfo_entry n ''MemTotal'' b1 tot] @ mid @ [meminfo_entry n ''MemFree'' b2 avail] @ post))"
    and "\<forall>l \<in> set (pre @ mid @ post). (\<exists>u. l = u @ [CHR 0x0A] \<and> CHR 0x0A \<notin> set u) \<and>
      strstr l ''MemTotal'' = None \<and> strstr l ''MemFree'' = None"
    and "tot * 1024 < 2 ^ 63" "avail * 1024 < 2 ^ 63"
  shows "numa_node_size64 K node True s = Some ((int tot * 1024, int avail * 1024), s) \<and>
    numa_node_size K node s = Some ((int tot * 1024, int avail * 1024), s) \<and>
    (\<exists>f. numa_node_size64 K node False s = Some ((int tot * 1024, f), s))"
  using node_size_run [OF assms] by (simp add: numa_node_size_def)

theorem node_size_from_meminfo_witness:
  "numa_node_size64 ((toy_os True)\<lparr>os_file := \<lambda>w fn. Inr (meminfo_entry 0 ''MemTotal'' 3 4096 @ meminfo_entry 0 ''MemFree'' 3 1024)\<rparr>)
    0 True toy_numa = Some ((4194304, 1048576), toy_numa)"
  using node_size_from_meminfo [of "(toy_os True)\<lparr>os_file := \<lambda>w fn. Inr (meminfo_entry 0 ''MemTotal'' 3 4096 @ meminfo_entry 0 ''MemFree'' 3 1024)\<rparr>"
      toy_numa 0 "[]" 0 3 4096 "[]" 3 1024 "[]"] by simp

end
