(* ===== verification/Shm.thy ===== *)
theory Shm
  imports Policy Util Setup
begin

unbundle bit_operations_syntax

text \<open>
  Policies of shared memory for the \<open>numactl\<close> command (\<open>shm.c\<close>): attaching a System V segment or a file,
  dumping the policies or the nodes of its pages, and verifying them.  The globals of the file are a record
  that is passed along with the state of the library; \<open>shm_out\<close> is what has been printed to standard output.
  Everything that ends the process with a message (\<open>complain\<close>, \<open>nerror\<close>, \<open>err\<close>, \<open>exit\<close>) is \<open>None\<close>.
\<close>

record shm =
  shmfd :: int
  shmid :: int
  shmptr :: nat
  shmlen :: nat
  shmmode :: nat
  shmoffset :: nat
  shmflags :: nat
  shm_pagesize :: int
  exitcode :: int
  shm_out :: string

definition initial_shm :: shm where
  "initial_shm = \<lparr>shmfd = - 1, shmid = 0, shmptr = 0, shmlen = 0, shmmode = 384, shmoffset = 0, shmflags = 0,
     shm_pagesize = 0, exitcode = 0, shm_out = []\<rparr>"

section \<open>Attaching\<close>

text \<open>The system calls: \<open>ftok\<close> returns a negative number on failure, \<open>shmctl\<close> the size of a segment, \<open>open\<close>
  gets a flag for O_CREAT, \<open>fstat\<close> returns the size and the block size of a file.\<close>

record 'w shm_os =
  sh_ftok :: "'w \<Rightarrow> string \<Rightarrow> int \<Rightarrow> int"
  sh_creat :: "'w \<Rightarrow> string \<Rightarrow> nat \<Rightarrow> 'w option"
  sh_shmget :: "'w \<Rightarrow> int \<Rightarrow> nat \<Rightarrow> nat \<Rightarrow> errno + (int \<times> 'w)"
  sh_segsz :: "'w \<Rightarrow> int \<Rightarrow> nat option"
  sh_shmat :: "'w \<Rightarrow> int \<Rightarrow> (nat \<times> 'w) option"
  sh_open :: "'w \<Rightarrow> string \<Rightarrow> bool \<Rightarrow> nat \<Rightarrow> (int \<times> 'w) option"
  sh_fstat :: "'w \<Rightarrow> int \<Rightarrow> (nat \<times> int) option"
  sh_ftruncate :: "'w \<Rightarrow> int \<Rightarrow> nat \<Rightarrow> 'w option"
  sh_mmap :: "'w \<Rightarrow> nat \<Rightarrow> int \<Rightarrow> nat \<Rightarrow> (nat \<times> 'w) option"

definition SHM_HUGETLB :: nat where
  "SHM_HUGETLB = 2048"

definition IPC_CREAT :: nat where
  "IPC_CREAT = 512"

text \<open>\<open>sscanf(line, "Hugepagesize: %d kB", &ps) == 1\<close>: the number is converted, the unit need not follow.\<close>

definition scan_hugepagesize :: "string \<Rightarrow> int option" where
  "scan_hugepagesize line =
     (let key = ''Hugepagesize:''; r = drop (length key) line; (v, end) = strtol r 10 in
      if take (length key) line \<noteq> key \<or> end = r then None else Some (c_int v))"

fun huge_page_loop :: "string list \<Rightarrow> int" where
  "huge_page_loop [] = 0"
| "huge_page_loop (line # lines) =
     (case scan_hugepagesize line of Some ps \<Rightarrow> c_int (ps * 1024) | None \<Rightarrow> huge_page_loop lines)"

definition huge_page_size :: "'w os \<Rightarrow> 'w numa \<Rightarrow> int" where
  "huge_page_size K s =
     (let huge_size = (case os_file K (world s) ''/proc/meminfo'' of
                         Inl _ \<Rightarrow> 0 | Inr t \<Rightarrow> huge_page_loop (file_lines t))
      in if huge_size \<noteq> 0 then huge_size else os_pagesize K (world s))"

text \<open>A page size of 0 is a division by zero.\<close>

definition check_region :: "shm \<Rightarrow> bool option" where
  "check_region h =
     (let pg = c_ulong (shm_pagesize h) in
      if pg = 0 then None
      else Some (shmptr h mod pg = 0 \<and> shmlen h mod pg = 0 \<and> shmlen h \<noteq> 0))"

definition sysvkey :: "'w shm_os \<Rightarrow> string \<Rightarrow> shm \<Rightarrow> 'w numa \<Rightarrow> (int \<times> 'w numa) option" where
  "sysvkey H name h s =
     (let key = sh_ftok H (world s) name (shmid h) in
      if 0 \<le> key then Some (key, s)
      else do {
        w \<leftarrow> sh_creat H (world s) name (shmmode h);
        let s = s\<lparr>world := w\<rparr>;
        let key = sh_ftok H (world s) name (shmid h);
        if key < 0 then None else Some (key, s)
      })"

definition attach_sysvshm :: "'w os \<Rightarrow> 'w shm_os \<Rightarrow> string \<Rightarrow> shm \<times> 'w numa \<Rightarrow> (shm \<times> 'w numa) option" where
  "attach_sysvshm K H name = (\<lambda>(h, s). do {
     if ULONG_MAX < shmoffset h \<or> ULONG_MAX - shmoffset h < shmlen h then None
     else do {
       (key, s) \<leftarrow> sysvkey H name h s;
       (fd, s) \<leftarrow> (case sh_shmget H (world s) key (shmlen h) (shmflags h) of
                     Inr (fd, w) \<Rightarrow> Some (fd, s\<lparr>world := w\<rparr>)
                   | Inl e \<Rightarrow>
                       if e \<noteq> ENOENT then Some (- 1, s\<lparr>errno := e\<rparr>)
                       else if shmlen h = 0 then None
                       else (case sh_shmget H (world s) key (shmlen h + shmoffset h)
                                    (IPC_CREAT OR shmmode h OR shmflags h) of
                               Inr (fd, w) \<Rightarrow> Some (fd, s\<lparr>world := w, errno := e\<rparr>)
                             | Inl _ \<Rightarrow> None));
       let h = h\<lparr>shmfd := fd\<rparr>;
       h \<leftarrow> (if shmlen h \<noteq> 0 then Some h
              else do {
                len \<leftarrow> sh_segsz H (world s) fd;
                if ULONG_MAX - shmoffset h < len then None else Some (h\<lparr>shmlen := len\<rparr>)
              });
       (p, w) \<leftarrow> sh_shmat H (world s) fd;
       let s = s\<lparr>world := w\<rparr>;
       let h = h\<lparr>shmptr := c_ulong (int (p + shmoffset h)),
                 shm_pagesize := (if shmflags h AND SHM_HUGETLB \<noteq> 0 then c_int (huge_page_size K s)
                                  else os_pagesize K (world s))\<rparr>;
       ok \<leftarrow> check_region h;
       if ok then Some (h, s) else None
     }
   })"

text \<open>The region is checked before it is mapped, so the pointer tested there is the one of an earlier
  attachment.\<close>

definition attach_shared :: "'w shm_os \<Rightarrow> string \<Rightarrow> shm \<times> 'w numa \<Rightarrow> (shm \<times> 'w numa) option" where
  "attach_shared H name = (\<lambda>(h, s). do {
     let maxoff = 2 ^ 63 - 1;
     if ULONG_MAX < shmlen h \<or> maxoff < shmoffset h \<or> maxoff - shmoffset h < shmlen h then None
     else do {
       (fd, s) \<leftarrow> (case sh_open H (world s) name False 0 of
                     Some (fd, w) \<Rightarrow> Some (fd, s\<lparr>world := w\<rparr>)
                   | None \<Rightarrow>
                       if shmlen h = 0 then None
                       else do {
                         (fd, w) \<leftarrow> sh_open H (world s) name True (shmmode h);
                         Some (fd, s\<lparr>world := w, errno := E0\<rparr>)
                       });
       let h = h\<lparr>shmfd := fd\<rparr>;
       (st_size, st_blksize) \<leftarrow> sh_fstat H (world s) fd;
       s \<leftarrow> (if st_size < shmlen h + shmoffset h
              then map_option (\<lambda>w. s\<lparr>world := w\<rparr>) (sh_ftruncate H (world s) fd (shmlen h + shmoffset h))
              else Some s);
       let h = h\<lparr>shm_pagesize := c_int st_blksize\<rparr>;
       ok \<leftarrow> check_region h;
       if \<not> ok then None
       else do {
         (p, w) \<leftarrow> sh_mmap H (world s) (shmlen h) fd (shmoffset h);
         Some (h\<lparr>shmptr := p\<rparr>, s\<lparr>world := w\<rparr>)
       }
     }
   })"

section \<open>Dumping\<close>

definition hex_range :: "shm \<Rightarrow> nat \<Rightarrow> nat \<Rightarrow> string" where
  "hex_range h start end =
     hex_field 16 ((shmoffset h + start) mod 2 ^ 64) @ ''-'' @ hex_field 16 ((shmoffset h + end) mod 2 ^ 64)"

definition dumppol :: "shm \<Rightarrow> nat \<Rightarrow> nat \<Rightarrow> int \<Rightarrow> bitmask \<Rightarrow> string" where
  "dumppol h start end pol m =
     (if pol = MPOL_DEFAULT then []
      else hex_range h start end @ '': '' @ policy_name pol @ '' '' @ printmask '''' m)"

text \<open>The loops over the pages; \<open>c\<close> wraps at 64 bits, \<open>None\<close> is a failed call or a loop that does not end.  The
  result is the text printed.\<close>

partial_function (option) dump_loop ::
    "'w os \<Rightarrow> shm \<Rightarrow> nat \<Rightarrow> nat \<Rightarrow> int \<Rightarrow> bitmask \<Rightarrow> bitmask \<Rightarrow> string \<Rightarrow> 'w numa \<Rightarrow> (string \<times> 'w numa) option" where
  "dump_loop K h c start prevpol prevnodes nodes out s =
     (if c < shmlen h then do {
        let ((r, pol, ws), s) = get_mempolicy K prevpol (maskp nodes) (bm_size nodes) (c + shmptr h) MPOL_F_ADDR s;
        if r < 0 then None
        else do {
          let nodes = nodes\<lparr>maskp := ws\<rparr>;
          let c' = (c + c_ulong (shm_pagesize h)) mod 2 ^ 64;
          if pol = prevpol \<and> numa_bitmask_equal prevnodes nodes
          then dump_loop K h c' start prevpol prevnodes nodes out s
          else dump_loop K h c' c pol (copy_bitmask_to_bitmask nodes prevnodes) nodes
                 (if prevpol \<noteq> - 1 then out @ dumppol h start c prevpol prevnodes else out) s
        }
      }
      else Some (out @ dumppol h start c prevpol prevnodes, s))"

definition dump_shm :: "'w os \<Rightarrow> shm \<times> 'w numa \<Rightarrow> (shm \<times> 'w numa) option" where
  "dump_shm K = (\<lambda>(h, s).
     if shmlen h = 0 then Some (h\<lparr>shm_out := shm_out h @ ''nothing to dump'' @ [CHR 0x0A]\<rparr>, s)
     else do {
       (nodes, s) \<leftarrow> numa_allocate_nodemask K s;
       (prevnodes, s) \<leftarrow> numa_allocate_nodemask K s;
       nodes \<leftarrow> nodes;
       prevnodes \<leftarrow> prevnodes;
       (out, s) \<leftarrow> dump_loop K h 0 0 (- 1) prevnodes nodes [] s;
       Some (h\<lparr>shm_out := shm_out h @ out\<rparr>, s)
     })"

definition dumpnode :: "shm \<Rightarrow> nat \<Rightarrow> nat \<Rightarrow> int \<Rightarrow> string" where
  "dumpnode h start end node = hex_range h start end @ '': '' @ dec_int node @ [CHR 0x0A]"

partial_function (option) dump_nodes_loop ::
    "'w os \<Rightarrow> shm \<Rightarrow> nat \<Rightarrow> nat \<Rightarrow> int \<Rightarrow> string \<Rightarrow> 'w numa \<Rightarrow> (string \<times> 'w numa) option" where
  "dump_nodes_loop K h c start prevnode out s =
     (if c < shmlen h then do {
        let ((r, node, _), s) = get_mempolicy K prevnode [] 0 (c + shmptr h) (MPOL_F_ADDR OR MPOL_F_NODE) s;
        if r < 0 then None
        else do {
          let c' = (c + c_ulong (shm_pagesize h)) mod 2 ^ 64;
          if node = prevnode then dump_nodes_loop K h c' start prevnode out s
          else dump_nodes_loop K h c' c node
                 (if prevnode \<noteq> - 1 then out @ dumpnode h start c prevnode else out) s
        }
      }
      else Some (out @ dumpnode h start c prevnode, s))"

definition dump_shm_nodes :: "'w os \<Rightarrow> shm \<times> 'w numa \<Rightarrow> (shm \<times> 'w numa) option" where
  "dump_shm_nodes K = (\<lambda>(h, s).
     if shmlen h = 0 then Some (h\<lparr>shm_out := shm_out h @ ''nothing to dump'' @ [CHR 0x0A]\<rparr>, s)
     else do {
       (out, s) \<leftarrow> dump_nodes_loop K h 0 0 (- 1) [] s;
       Some (h\<lparr>shm_out := shm_out h @ out\<rparr>, s)
     })"

section \<open>Verifying\<close>

definition vwarn :: "nat \<Rightarrow> string \<Rightarrow> shm \<Rightarrow> shm" where
  "vwarn ptr msg h =
     h\<lparr>shm_out := shm_out h @ ''numactl verify '' @ hex_nat ptr @ ''('' @
         hex_nat (c_ulong (int ptr - int (shmptr h))) @ ''): '' @ msg, exitcode := 1\<rparr>"

text \<open>\<open>while (!isbitset(mask, cur)) cur = (cur + 1) % numa_num_nodes\<close>; \<open>None\<close> is a mask without a node to
  find.\<close>

partial_function (option) next_loop :: "nat \<Rightarrow> bitmask \<Rightarrow> nat \<Rightarrow> nat option" where
  "next_loop n m cur = (if numa_bitmask_isbitset m cur then Some cur else next_loop n m ((cur + 1) mod n))"

definition interleave_next :: "nat \<Rightarrow> bitmask \<Rightarrow> 'w numa \<Rightarrow> nat option" where
  "interleave_next cur m s = next_loop (c_uint (numa_num_possible_nodes s)) m ((cur + 1) mod 2 ^ 32)"

text \<open>The \<open>switch\<close> for one page at \<open>p\<close>: the record with the complaints made, the next node expected, and
  whether the verification goes on.\<close>

definition verify_node :: "int \<Rightarrow> nat \<Rightarrow> int \<Rightarrow> int \<Rightarrow> bitmask \<Rightarrow> shm \<Rightarrow> 'w numa \<Rightarrow> (bool \<times> int \<times> shm) option" where
  "verify_node policy p node ilnode nodes2 h s =
     (if policy = MPOL_INTERLEAVE then do {
        let h = (if node < 0 \<or> \<not> numa_bitmask_isbitset nodes2 (c_uint node)
                 then vwarn p (''interleave node out of range '' @ dec_int node @ [CHR 0x0A]) h else h);
        if node \<noteq> ilnode
        then Some (False, ilnode, vwarn p (''expected interleave node '' @ dec_int ilnode @ '', got '' @ dec_int node @ [CHR 0x0A]) h)
        else do { n \<leftarrow> interleave_next (c_uint ilnode) nodes2 s; Some (True, c_int (int n), h) }
      }
      else if policy = MPOL_PREFERRED_MANY \<or> policy = MPOL_PREFERRED \<or> policy = MPOL_BIND then
        Some (True, ilnode,
          if \<not> numa_bitmask_isbitset nodes2 (c_uint node)
          then (let h = vwarn p (''unexpected node '' @ dec_int node @ [CHR 0x0A]) h
                in h\<lparr>shm_out := shm_out h @ printmask ''expected'' nodes2\<rparr>)
          else h)
      else Some (True, ilnode, h))"

text \<open>The loop; \<open>memcmp\<close> over a mask that is longer than the one filled here is undefined.\<close>

partial_function (option) verify_loop ::
    "'w os \<Rightarrow> int \<Rightarrow> bitmask \<Rightarrow> nat \<Rightarrow> int \<Rightarrow> bitmask \<Rightarrow> shm \<Rightarrow> 'w numa \<Rightarrow> (shm \<times> 'w numa) option" where
  "verify_loop K policy nodes c ilnode nodes2 h s =
     (if c < shmlen h then do {
        let p = c + shmptr h;
        let ((r, pol2, ws), s) = get_mempolicy K 0 (maskp nodes2) (bm_size nodes2) p MPOL_F_ADDR s;
        if r < 0 then None
        else if pol2 \<noteq> policy
        then Some (vwarn p (''wrong policy '' @ policy_name pol2 @ '', expected '' @ policy_name policy @ [CHR 0x0A]) h, s)
        else if length ws < longsperbits (bm_size nodes) then None
        else do {
          let nodes2 = nodes2\<lparr>maskp := ws\<rparr>;
          let n = longsperbits (bm_size nodes);
          let h = (if take n ws \<noteq> take n (maskp nodes)
                   then (let h = vwarn p (''mismatched node mask'' @ [CHR 0x0A]) h
                         in h\<lparr>shm_out := shm_out h @ printmask ''expected'' nodes @ printmask ''real'' nodes2\<rparr>)
                   else h);
          let ((r, node, _), s) = get_mempolicy K 0 [] 0 p (MPOL_F_ADDR OR MPOL_F_NODE) s;
          if r < 0 then None
          else do {
            (more, ilnode, h) \<leftarrow> verify_node policy p node ilnode nodes2 h s;
            if more then verify_loop K policy nodes ((c + c_ulong (shm_pagesize h)) mod 2 ^ 64) ilnode nodes2 h s
            else Some (h, s)
          }
        }
      }
      else Some (h, s))"

definition verify_shm :: "'w os \<Rightarrow> int \<Rightarrow> bitmask \<Rightarrow> shm \<times> 'w numa \<Rightarrow> (shm \<times> 'w numa) option" where
  "verify_shm K policy nodes = (\<lambda>(h, s). do {
     let ((r, ilnode, _), s) =
       (if policy = MPOL_INTERLEAVE
        then get_mempolicy K 0 [] 0 (shmptr h) (MPOL_F_ADDR OR MPOL_F_NODE) s else ((0, 0, []), s));
     if r < 0 then None
     else do {
       (nodes2, s) \<leftarrow> numa_allocate_nodemask K s;
       nodes2 \<leftarrow> nodes2;
       verify_loop K policy nodes 0 ilnode nodes2 h s
     }
   })"

end
