(* ===== verification/ShmFacts.thy ===== *)
theory ShmFacts
  imports Shm
begin

unbundle bit_operations_syntax

text \<open>
  What dumping and verifying shared memory compute: the dump is the run-length encoding of the policies of
  the pages, and the verification accepts exactly the pages that have the policy.
\<close>

section \<open>The next interleave node\<close>

lemma next_loop_steps:
  assumes "0 < n" "\<forall>k < d. \<not> numa_bitmask_isbitset m ((cur + k) mod n)" "numa_bitmask_isbitset m ((cur + d) mod n)"
    and "cur < n"
  shows "next_loop n m cur = Some ((cur + d) mod n)"
  using assms(2-4)
proof (induction d arbitrary: cur)
  case 0
  then show ?case by (simp add: next_loop.simps)
next
  case (Suc d)
  have "\<not> numa_bitmask_isbitset m cur" using Suc.prems(1,3) by (metis add_0_right mod_less zero_less_Suc)
  then have "next_loop n m cur = next_loop n m ((cur + 1) mod n)" by (simp add: next_loop.simps [of n m cur])
  also have "\<dots> = Some (((cur + 1) mod n + d) mod n)"
  proof (rule Suc.IH)
    have e: "((cur + 1) mod n + k) mod n = (cur + Suc k) mod n" for k by (simp add: mod_add_left_eq)
    show "\<forall>k < d. \<not> numa_bitmask_isbitset m (((cur + 1) mod n + k) mod n)"
      using Suc.prems(1) unfolding e by (metis Suc_less_eq)
    show "numa_bitmask_isbitset m (((cur + 1) mod n + d) mod n)" using Suc.prems(2) unfolding e .
    show "(cur + 1) mod n < n" using assms(1) by simp
  qed
  finally show ?case by (simp add: mod_add_left_eq)
qed

text \<open>The next member in cyclic order: the least one behind, or the least of all.\<close>

definition next_member :: "bitmask \<Rightarrow> nat \<Rightarrow> nat" where
  "next_member m cur =
     (if \<exists>i \<in> bm_bits m. cur < i then Min {i \<in> bm_bits m. cur < i} else Min (bm_bits m))"

lemma next_loop_member:
  assumes "cur < bm_size m" "bm_bits m \<noteq> {}" "Suc cur < bm_size m"
  shows "next_loop (bm_size m) m (Suc cur) = Some (next_member m cur)"
proof -
  let ?n = "bm_size m"
  have fin: "finite (bm_bits m)" by simp
  have fin2: "finite {i \<in> bm_bits m. cur < i}" by (rule finite_subset [OF _ fin]) blast
  have below: "i < ?n" if "i \<in> bm_bits m" for i using that bm_bits_below by blast
  define a where "a = next_member m cur"
  have a: "a \<in> bm_bits m"
  proof (cases "\<exists>i \<in> bm_bits m. cur < i")
    case True
    then have "Min {i \<in> bm_bits m. cur < i} \<in> {i \<in> bm_bits m. cur < i}" by (intro Min_in [OF fin2]) blast
    then show ?thesis using True by (simp add: a_def next_member_def)
  next
    case False
    then show ?thesis using Min_in [OF fin assms(2)] by (simp only: a_def next_member_def if_False)
  qed
  define d where "d = (if cur < a then a - Suc cur else a + ?n - Suc cur)"
  have d: "(Suc cur + d) mod ?n = a"
    using below [OF a] assms(1) by (auto simp: d_def)
  have gap: "(Suc cur + k) mod ?n \<notin> bm_bits m" if k: "k < d" for k
  proof (cases "cur < a")
    case True
    then have lt: "Suc cur + k < a" using k by (simp add: d_def)
    have "\<exists>i \<in> bm_bits m. cur < i" using True a by blast
    then have "a = Min {i \<in> bm_bits m. cur < i}" by (simp only: a_def next_member_def if_True)
    then have "i \<in> bm_bits m \<Longrightarrow> cur < i \<Longrightarrow> a \<le> i" for i
      using Min_le [OF fin2, of i] by (simp del: mem_bm_bits)
    from this [of "Suc cur + k"] show ?thesis using lt below [OF a] by auto
  next
    case False
    have none: "i \<in> bm_bits m \<Longrightarrow> i \<le> cur" for i
    proof (rule ccontr)
      assume i: "i \<in> bm_bits m" "\<not> i \<le> cur"
      then have ex: "\<exists>i \<in> bm_bits m. cur < i" using linorder_not_le by blast
      then have "Min {i \<in> bm_bits m. cur < i} \<in> {i \<in> bm_bits m. cur < i}" by (intro Min_in [OF fin2]) blast
      then show False using ex False by (simp add: a_def next_member_def)
    qed
    then have "\<not> (\<exists>i \<in> bm_bits m. cur < i)" using linorder_not_le by blast
    then have "a = Min (bm_bits m)" by (simp only: a_def next_member_def if_False)
    then have least: "i \<in> bm_bits m \<Longrightarrow> a \<le> i" for i using Min_le [OF fin, of i] by (simp del: mem_bm_bits)
    show ?thesis
    proof (cases "Suc cur + k < ?n")
      case True
      then show ?thesis using none [of "Suc cur + k"] by auto
    next
      case F: False
      have "k < a + ?n - Suc cur" using k False by (simp add: d_def)
      then have "Suc cur + k - ?n < a" "Suc cur + k - ?n < ?n" using F below [OF a] by linarith+
      moreover from this F have "(Suc cur + k) mod ?n = Suc cur + k - ?n" by (simp add: mod_if [of "Suc (cur + k)"])
      ultimately show ?thesis using least [of "Suc cur + k - ?n"] by auto
    qed
  qed
  have "next_loop ?n m (Suc cur) = Some ((Suc cur + d) mod ?n)"
    proof (rule next_loop_steps)
    show "\<forall>k < d. \<not> numa_bitmask_isbitset m ((Suc cur + k) mod ?n)" using gap unfolding mem_bm_bits by blast
    show "numa_bitmask_isbitset m ((Suc cur + d) mod ?n)" using a unfolding d mem_bm_bits .
  qed (use assms(1,3) in linarith)+
  then show ?thesis unfolding d a_def .
qed


section \<open>Run-length encoding\<close>

text \<open>The maximal runs of a list, their expansion, and the text of the runs: \<open>f a b v\<close> prints one run of the
  value \<open>v\<close> from index \<open>a\<close> up to \<open>b\<close>.\<close>

fun runs :: "'a list \<Rightarrow> ('a \<times> nat) list" where
  "runs [] = []"
| "runs (x # xs) =
     (case runs xs of
        [] \<Rightarrow> [(x, 1)]
      | (y, n) # rs \<Rightarrow> if x = y then (y, Suc n) # rs else (x, 1) # (y, n) # rs)"

definition expand :: "('a \<times> nat) list \<Rightarrow> 'a list" where
  "expand rs = concat (map (\<lambda>(v, n). replicate n v) rs)"

fun print_runs :: "(nat \<Rightarrow> nat \<Rightarrow> 'a \<Rightarrow> string) \<Rightarrow> nat \<Rightarrow> ('a \<times> nat) list \<Rightarrow> string" where
  "print_runs f c [] = []"
| "print_runs f c ((v, n) # rs) = f c (c + n) v @ print_runs f (c + n) rs"

lemma expand_runs: "expand (runs xs) = xs"
  by (induction xs rule: runs.induct) (auto simp: expand_def split: list.splits)

lemma runs_maximal: "successively (\<lambda>(v, _) (w, _). v \<noteq> w) (runs xs) \<and> (\<forall>(v, n) \<in> set (runs xs). 0 < n)"
  by (induction xs rule: runs.induct) (auto simp: successively_Cons split: list.splits)

lemma runs_hd: "\<exists>n rs. runs (x # xs) = (x, n) # rs"
  by (auto split: list.splits)

lemma runs_block:
  "runs (replicate (Suc k) v @ []) = [(v, Suc k)]"
  "x \<noteq> v \<Longrightarrow> runs (replicate (Suc k) v @ x # xs) = (v, Suc k) # runs (x # xs)"
proof -
  show "runs (replicate (Suc k) v @ []) = [(v, Suc k)]" by (induction k) simp_all
  show "x \<noteq> v \<Longrightarrow> runs (replicate (Suc k) v @ x # xs) = (v, Suc k) # runs (x # xs)"
  proof (induction k)
    case 0
    then show ?case using runs_hd [of x xs] by (auto simp del: runs.simps(2) simp: runs.simps(2) [of v])
  next
    case (Suc k)
    then show ?case by (simp del: runs.simps(2) add: runs.simps(2) [of v])
  qed
qed

section \<open>Dumping\<close>

text \<open>The pages of a region: \<open>n\<close> pages of \<open>pg\<close> bytes whose offsets do not wrap.\<close>

definition region :: "shm \<Rightarrow> nat \<Rightarrow> nat \<Rightarrow> bool" where
  "region h pg n \<longleftrightarrow> c_ulong (shm_pagesize h) = pg \<and> 0 < pg \<and> shmlen h = n * pg \<and> n * pg < 2 ^ 64"

lemma region_step:
  assumes "region h pg n" "i < n"
  shows "i * pg < shmlen h" "(i * pg + c_ulong (shm_pagesize h)) mod 2 ^ 64 = Suc i * pg"
proof -
  have "Suc i * pg \<le> n * pg" using assms(2) by (intro mult_le_mono1) simp
  then have "Suc i * pg < 2 ^ 64" using assms(1) by (simp add: region_def)
  then show "i * pg < shmlen h" "(i * pg + c_ulong (shm_pagesize h)) mod 2 ^ 64 = Suc i * pg"
    using assms by (simp_all add: region_def add.commute)
qed

lemma region_end: "region h pg n \<Longrightarrow> \<not> n * pg < shmlen h"
  by (simp add: region_def)

lemma upt_step: "i < n \<Longrightarrow> map f [i..<n] = f i # map f [Suc i..<n]"
  by (simp add: upt_conv_Cons)

text \<open>A loop that has read the value \<open>v\<close> for the pages from \<open>a\<close> up to \<open>i\<close>.\<close>

lemma run_continues: "a < i \<Longrightarrow> i < n \<Longrightarrow> V i = v \<Longrightarrow>
    replicate (i - a) v @ map V [i..<n] = replicate (Suc i - a) v @ map V [Suc i..<n]"
  by (simp add: upt_step Suc_diff_le replicate_append_same)

lemma run_ends:
  assumes "a < i" "i < n" "V i \<noteq> v"
  shows "print_runs f a (runs (replicate (i - a) v @ map V [i..<n])) =
    f a i v @ print_runs f i (runs (replicate (Suc i - i) (V i) @ map V [Suc i..<n]))"
proof -
  obtain k where k: "i = Suc (a + k)" using assms(1) less_iff_Suc_add by blast
  have one: "replicate (Suc i - i) (V i) = [V i]" by (simp add: Suc_diff_le)
  show ?thesis
    unfolding upt_step [OF assms(2)] one using runs_block(2) [OF assms(3), of k]
    by (simp add: k del: runs.simps(2) replicate_Suc)
qed

lemma run_last: "a < i \<Longrightarrow> print_runs f a (runs (replicate (i - a) v @ [])) = f a i v"
proof -
  assume "a < i"
  then obtain k where "i = Suc (a + k)" using less_iff_Suc_add by blast
  then show ?thesis using runs_block(1) [of k v] by (simp del: runs.simps(2) replicate_Suc append_Nil2)
qed

lemma dump_nodes_loop_run:
  assumes "region h pg n"
    and read: "\<And>i. i < n \<Longrightarrow> os_get_mempolicy K (world s) [] 0 (i * pg + shmptr h) (MPOL_F_ADDR OR MPOL_F_NODE) = Inr (V i, W i)"
    and valid: "\<And>i. i < n \<Longrightarrow> 0 \<le> V i"
    and "i \<le> n" "a < i" "0 \<le> v"
  shows "dump_nodes_loop K h (i * pg) (a * pg) v out s =
    Some (out @ print_runs (\<lambda>a b. dumpnode h (a * pg) (b * pg)) a (runs (replicate (i - a) v @ map V [i..<n])), s)"
  using assms(4-6)
proof (induction "n - i" arbitrary: i a v out)
  case 0
  then have "i = n" by simp
  then show ?case
    using region_end [OF assms(1)] run_last [OF 0(3), of "\<lambda>a b. dumpnode h (a * pg) (b * pg)" v]
    by (simp add: dump_nodes_loop.simps [of K h "n * pg"])
next
  case (Suc d)
  then have i: "i < n" by simp
  note step = region_step [OF assms(1) i]
  show ?case
  proof (cases "V i = v")
    case True
    have "dump_nodes_loop K h (i * pg) (a * pg) v out s = dump_nodes_loop K h (Suc i * pg) (a * pg) v out s"
      using step read [OF i] True by (simp add: dump_nodes_loop.simps [of K h "i * pg"] get_mempolicy_def)
    then show ?thesis using Suc.hyps(1) [of "Suc i" a v out] Suc.hyps(2) Suc.prems i run_continues [of a i n V v, OF Suc.prems(2) i True] by simp
  next
    case False
    have "dump_nodes_loop K h (i * pg) (a * pg) v out s =
        dump_nodes_loop K h (Suc i * pg) (i * pg) (V i) (out @ dumpnode h (a * pg) (i * pg) v) s"
      using step read [OF i] False Suc.prems by (simp add: dump_nodes_loop.simps [of K h "i * pg"] get_mempolicy_def)
    then show ?thesis
      using Suc.hyps(1) [of "Suc i" i "V i" "out @ dumpnode h (a * pg) (i * pg) v"] Suc.hyps(2) i valid [OF i]
        run_ends [of a i n V v, OF Suc.prems(2) i False, of "\<lambda>a b. dumpnode h (a * pg) (b * pg)"] by simp
  qed
qed


text \<open>The line printed for a range with a policy.\<close>

definition show_policy :: "shm \<Rightarrow> nat \<Rightarrow> nat \<Rightarrow> int \<times> nat list \<Rightarrow> string" where
  "show_policy h a b = (\<lambda>(pol, ns).
     if pol = MPOL_DEFAULT then []
     else hex_range h a b @ '': '' @ policy_name pol @ '' '' @ '': '' @ concat (map (\<lambda>i. dec_nat i @ '' '') ns) @ [CHR 0x0A])"

lemma concat_filter: "concat (map (\<lambda>i. if P i then f i else []) xs) = concat (map f (filter P xs))"
  by (induction xs) simp_all

lemma dumppol_show: "dumppol h a b pol m = show_policy h a b (pol, members m)"
  by (simp add: dumppol_def show_policy_def printmask_def members_def concat_filter)

lemma dump_loop_run:
  fixes N :: nat
  defines "msk \<equiv> \<lambda>ws. \<lparr>bm_size = N, maskp = ws\<rparr>"
  assumes "region h pg n" and N: "N < 2 ^ 32"
    and read: "\<And>i buf. i < n \<Longrightarrow> length buf = longsperbits N \<Longrightarrow>
      os_get_mempolicy K (world s) buf N (i * pg + shmptr h) MPOL_F_ADDR = Inr (P i, W i)"
    and valid: "\<And>i. i < n \<Longrightarrow> 0 \<le> P i \<and> length (W i) = longsperbits N"
    and "i \<le> n" "a < i" "0 \<le> pol" "bm_size prev = N" "bm_inv prev" "bm_size nodes = N" "bm_inv nodes"
  shows "dump_loop K h (i * pg) (a * pg) pol prev nodes out s =
    Some (out @ print_runs (\<lambda>a b. show_policy h (a * pg) (b * pg)) a
      (runs (replicate (i - a) (pol, members prev) @ map (\<lambda>i. (P i, members (msk (W i)))) [i..<n])), s)"
  using assms(6-12)
proof (induction "n - i" arbitrary: i a pol prev nodes out)
  case 0
  then have "i = n" by simp
  then show ?case
    using region_end [OF assms(2)] run_last [OF 0(3), of "\<lambda>a b. show_policy h (a * pg) (b * pg)" "(pol, members prev)"]
    by (simp add: dump_loop.simps [of K h "n * pg"] dumppol_show)
next
  case (Suc d)
  let ?V = "\<lambda>i. (P i, members (msk (W i)))"
  from Suc.hyps(2) have i: "i < n" by simp
  note step = region_step [OF assms(2) i] and rd = read [OF i, of "maskp nodes"] and new = valid [OF i]
  have nodes: "nodes\<lparr>maskp := W i\<rparr> = msk (W i)" using Suc.prems by (simp add: msk_def)
  have inv: "bm_inv (msk (W i))" "bm_size (msk (W i)) = N" using new by (simp_all add: msk_def bm_inv_def)
  have buf: "length (maskp nodes) = longsperbits N" using Suc.prems by (simp add: bm_inv_def)
  have eq: "numa_bitmask_equal prev (msk (W i)) \<longleftrightarrow> members prev = members (msk (W i))"
    using Suc.prems inv by (intro equal_members) simp
  have copy: "copy_bitmask_to_bitmask (msk (W i)) prev = msk (W i)"
    using Suc.prems inv N by (intro copy_same) simp_all
  show ?case
  proof (cases "?V i = (pol, members prev)")
    case True
    then have "dump_loop K h (i * pg) (a * pg) pol prev nodes out s =
        dump_loop K h (Suc i * pg) (a * pg) pol prev (msk (W i)) out s"
      using step rd buf Suc.prems nodes eq by (simp add: dump_loop.simps [of K h "i * pg"] get_mempolicy_def Let_def)
    then show ?thesis
      using Suc.hyps(1) [of "Suc i" a pol prev "msk (W i)" out] Suc.hyps(2) Suc.prems i inv
        run_continues [of a i n ?V "(pol, members prev)", OF Suc.prems(2) i True] by simp
  next
    case False
    then have "dump_loop K h (i * pg) (a * pg) pol prev nodes out s =
        dump_loop K h (Suc i * pg) (i * pg) (P i) (msk (W i)) (msk (W i))
          (out @ show_policy h (a * pg) (i * pg) (pol, members prev)) s"
      using step rd buf Suc.prems nodes eq copy
      by (auto simp: dump_loop.simps [of K h "i * pg"] get_mempolicy_def dumppol_show Let_def)
    then show ?thesis
      using Suc.hyps(1) [of "Suc i" i "P i" "msk (W i)" "msk (W i)"
          "out @ show_policy h (a * pg) (i * pg) (pol, members prev)"] Suc.hyps(2) i new inv
        run_ends [of a i n ?V "(pol, members prev)", OF Suc.prems(2) i False, of "\<lambda>a b. show_policy h (a * pg) (b * pg)"]
      by simp
  qed
qed


section \<open>What the kernel reports of the pages\<close>

text \<open>The policies \<open>P\<close> and masks \<open>W\<close>, and the nodes \<open>V\<close>, of the \<open>n\<close> pages, as \<open>get_mempolicy\<close> reports them; a
  mask has the \<open>N\<close> bits of a node mask of the library.\<close>

definition page_policies :: "'w os \<Rightarrow> 'w \<Rightarrow> shm \<Rightarrow> nat \<Rightarrow> nat \<Rightarrow> nat \<Rightarrow> (nat \<Rightarrow> int) \<Rightarrow> (nat \<Rightarrow> ulong list) \<Rightarrow> bool" where
  "page_policies K w h pg n N P W \<longleftrightarrow>
     (\<forall>i < n. 0 \<le> P i \<and> length (W i) = longsperbits N \<and>
        (\<forall>buf. length buf = longsperbits N \<longrightarrow>
           os_get_mempolicy K w buf N (i * pg + shmptr h) MPOL_F_ADDR = Inr (P i, W i)))"

definition page_nodes :: "'w os \<Rightarrow> 'w \<Rightarrow> shm \<Rightarrow> nat \<Rightarrow> nat \<Rightarrow> (nat \<Rightarrow> int) \<Rightarrow> bool" where
  "page_nodes K w h pg n V \<longleftrightarrow>
     (\<forall>i < n. 0 \<le> V i \<and> V i < 2 ^ 31 \<and>
        os_get_mempolicy K w [] 0 (i * pg + shmptr h) (MPOL_F_ADDR OR MPOL_F_NODE) = Inr (V i, []))"

definition words_mask :: "nat \<Rightarrow> ulong list \<Rightarrow> bitmask" where
  "words_mask N ws = \<lparr>bm_size = N, maskp = ws\<rparr>"

lemma words_mask [simp]: "bm_size (words_mask N ws) = N" "maskp (words_mask N ws) = ws"
  by (simp_all add: words_mask_def)

lemma dump_nodes_run:
  assumes "region h pg n" "0 < n" "page_nodes K (world s) h pg n V"
  shows "dump_nodes_loop K h 0 0 (- 1) out s =
    Some (out @ print_runs (\<lambda>a b. dumpnode h (a * pg) (b * pg)) 0 (runs (map V [0..<n])), s)"
proof -
  note read = assms(3) [unfolded page_nodes_def, rule_format] and step = region_step [OF assms(1,2)]
  have "dump_nodes_loop K h 0 0 (- 1) out s = dump_nodes_loop K h (Suc 0 * pg) (0 * pg) (V 0) out s"
    using step read [OF assms(2)]
    by (simp add: dump_nodes_loop.simps [of K h 0 0 "- 1"] get_mempolicy_def)
  also have "\<dots> = Some (out @ print_runs (\<lambda>a b. dumpnode h (a * pg) (b * pg)) 0
      (runs (replicate (Suc 0 - 0) (V 0) @ map V [Suc 0..<n])), s)"
    using read assms(2) by (intro dump_nodes_loop_run [OF assms(1)]) auto
  finally show ?thesis using upt_step [OF assms(2), of V] by simp
qed

lemma dump_policies_run:
  assumes "region h pg n" "0 < n" "page_policies K (world s) h pg n N P W" "N < 2 ^ 32"
  shows "dump_loop K h 0 0 (- 1) (new_bitmask N) (new_bitmask N) out s =
    Some (out @ print_runs (\<lambda>a b. show_policy h (a * pg) (b * pg)) 0
      (runs (map (\<lambda>i. (P i, members (words_mask N (W i)))) [0..<n])), s)"
proof -
  let ?V = "\<lambda>i. (P i, members (words_mask N (W i)))"
  note read = assms(3) [unfolded page_policies_def, rule_format] and step = region_step [OF assms(1,2)]
  have inv: "bm_inv (words_mask N (W 0))" using read [OF assms(2)] by (simp add: bm_inv_def)
  have copy: "copy_bitmask_to_bitmask (words_mask N (W 0)) (new_bitmask N) = words_mask N (W 0)"
    using inv assms(4) by (intro copy_same) simp_all
  have new: "(new_bitmask N)\<lparr>maskp := W 0\<rparr> = words_mask N (W 0)" by (simp add: words_mask_def new_bitmask_def)
  have len: "length (maskp (new_bitmask N)) = longsperbits N" using bm_inv_new [of N] by (simp add: bm_inv_def)
  have "dump_loop K h 0 0 (- 1) (new_bitmask N) (new_bitmask N) out s =
      dump_loop K h (Suc 0 * pg) (0 * pg) (P 0) (words_mask N (W 0)) (words_mask N (W 0)) out s"
    using step read [OF assms(2)] copy len
    by (simp add: dump_loop.simps [of K h 0 0 "- 1"] get_mempolicy_def Let_def new)
  also have "\<dots> = Some (out @ print_runs (\<lambda>a b. show_policy h (a * pg) (b * pg)) 0
      (runs (replicate (Suc 0 - 0) (?V 0) @ map ?V [Suc 0..<n])), s)"
    using read assms(2,4) inv unfolding words_mask_def
    by (intro dump_loop_run [OF assms(1)]) (auto simp: words_mask_def)
  finally show ?thesis using upt_step [OF assms(2), of ?V] by simp
qed


section \<open>Verifying\<close>

text \<open>A complaint sets the exit code and prints; nothing else of the record is written.\<close>

definition complains :: "bool \<Rightarrow> shm \<Rightarrow> shm \<Rightarrow> bool" where
  "complains ok h h' \<longleftrightarrow>
     shmptr h' = shmptr h \<and> shmlen h' = shmlen h \<and> shm_pagesize h' = shm_pagesize h \<and>
     (exitcode h' = 0 \<longleftrightarrow> ok \<and> exitcode h = 0)"

lemma complains_refl [simp]: "complains True h h"
  by (simp add: complains_def)

lemma complains_vwarn [simp]:
  "complains False h (vwarn p m h)" "complains False h ((vwarn p m h)\<lparr>shm_out := t\<rparr>)"
  by (simp_all add: complains_def vwarn_def)

lemma complains_trans: "complains a h h1 \<Longrightarrow> complains b h1 h2 \<Longrightarrow> complains (a \<and> b) h h2"
  by (auto simp: complains_def)

lemma complains_frame:
  assumes "complains ok h h'"
  shows "region h' = region h" "page_policies K w h' = page_policies K w h" "page_nodes K w h' = page_nodes K w h"
  using assms by (simp_all add: fun_eq_iff complains_def region_def page_policies_def page_nodes_def)

text \<open>One page: the policy and the mask that are asked for.\<close>

definition page_ok :: "int \<Rightarrow> bitmask \<Rightarrow> int \<Rightarrow> ulong list \<Rightarrow> bool" where
  "page_ok policy nodes p ws \<longleftrightarrow> p = policy \<and> ws = maskp nodes"

lemma verify_page:
  assumes "region h pg n" "i < n" "page_policies K (world s) h pg n N P W" "page_nodes K (world s) h pg n V"
    and "bm_inv nodes" "bm_size nodes = N" "bm_inv nodes2" "bm_size nodes2 = N"
  shows "if P i = policy
    then \<exists>h1. complains (W i = maskp nodes) h h1 \<and>
      verify_loop K policy nodes (i * pg) il nodes2 h s =
        do { (more, il, h) \<leftarrow> verify_node policy (i * pg + shmptr h) (V i) il (words_mask N (W i)) h1 s;
             if more then verify_loop K policy nodes (Suc i * pg) il (words_mask N (W i)) h s else Some (h, s) }
    else \<exists>h1. complains False h h1 \<and> verify_loop K policy nodes (i * pg) il nodes2 h s = Some (h1, s)"
proof -
  note pol = assms(3) [unfolded page_policies_def, rule_format, OF assms(2)]
    and node = assms(4) [unfolded page_nodes_def, rule_format, OF assms(2)]
    and step = region_step [OF assms(1,2)]
  have buf: "length (maskp nodes2) = longsperbits N" and len: "length (maskp nodes) = longsperbits N"
    using assms(5-8) by (simp_all add: bm_inv_def)
  have read: "os_get_mempolicy K (world s) (maskp nodes2) N (i * pg + shmptr h) MPOL_F_ADDR = Inr (P i, W i)"
    using pol buf by blast
  have mask: "nodes2\<lparr>maskp := W i\<rparr> = words_mask N (W i)" using assms(8) by (simp add: words_mask_def)
  show ?thesis
  proof (cases "P i = policy")
    case False
    then have "verify_loop K policy nodes (i * pg) il nodes2 h s = Some (vwarn (i * pg + shmptr h)
        (''wrong policy '' @ policy_name (P i) @ '', expected '' @ policy_name policy @ [CHR 0x0A]) h, s)"
      using step(1) read assms(8)
      by (simp add: verify_loop.simps [of K policy nodes "i * pg"] get_mempolicy_def Let_def)
    then show ?thesis using False complains_vwarn(1) by auto
  next
    case True
    define h1 where "h1 = (if W i \<noteq> maskp nodes
      then (vwarn (i * pg + shmptr h) (''mismatched node mask'' @ [CHR 0x0A]) h)\<lparr>shm_out :=
        shm_out (vwarn (i * pg + shmptr h) (''mismatched node mask'' @ [CHR 0x0A]) h) @
          printmask ''expected'' nodes @ printmask ''real'' (words_mask N (W i))\<rparr>
      else h)"
    have c: "complains (W i = maskp nodes) h h1" by (simp add: h1_def)
    then have same: "shm_pagesize h1 = shm_pagesize h" "shmptr h1 = shmptr h" by (simp_all add: complains_def)
    have next_page: "(\<And>m l h2. verify_node policy p v il b h1 s = Some (m, l, h2) \<Longrightarrow> shm_pagesize h2 = shm_pagesize h1)"
      for p v b
      by (auto simp: verify_node_def vwarn_def Let_def bind_Some_iff split: if_splits)
    have "verify_loop K policy nodes (i * pg) il nodes2 h s =
        do { (more, il, h) \<leftarrow> verify_node policy (i * pg + shmptr h) (V i) il (words_mask N (W i)) h1 s;
             if more then verify_loop K policy nodes ((i * pg + c_ulong (shm_pagesize h)) mod 2 ^ 64) il (words_mask N (W i)) h s
             else Some (h, s) }"
      using step(1) read assms(6,8) True node pol len
      by (simp add: verify_loop.simps [of K policy nodes "i * pg"] get_mempolicy_def Let_def mask h1_def)
    also have "\<dots> = do { (more, il, h) \<leftarrow> verify_node policy (i * pg + shmptr h) (V i) il (words_mask N (W i)) h1 s;
             if more then verify_loop K policy nodes (Suc i * pg) il (words_mask N (W i)) h s else Some (h, s) }"
      by (intro Option.bind_cong refl) (use next_page step(2) same in \<open>auto split: prod.splits\<close>)
    finally show ?thesis using True c by auto
  qed
qed


lemma atLeastLessThan_insert: "(i :: nat) < n \<Longrightarrow> {i..<n} = insert i {Suc i..<n}"
  by auto

text \<open>The policies that name the nodes a page may be on.\<close>

definition node_policies :: "int set" where
  "node_policies = {MPOL_PREFERRED, MPOL_BIND, MPOL_PREFERRED_MANY}"

lemma verify_node_on_mask:
  assumes "policy \<in> node_policies" "0 \<le> v" "v < 2 ^ 31"
  shows "\<exists>h'. verify_node policy p v il b h s = Some (True, il, h') \<and> complains (nat v \<in> bm_bits b) h h'"
  using assms by (auto simp: verify_node_def node_policies_def mpol_defs c_uint_id Let_def)

definition on_mask :: "nat \<Rightarrow> (nat \<Rightarrow> int) \<Rightarrow> (nat \<Rightarrow> ulong list) \<Rightarrow> nat \<Rightarrow> bool" where
  "on_mask N V W i \<longleftrightarrow> nat (V i) \<in> bm_bits (words_mask N (W i))"

lemma verify_on_mask_loop:
  assumes "region h pg n" "page_policies K (world s) h pg n N P W" "page_nodes K (world s) h pg n V"
    and "bm_inv nodes" "bm_size nodes = N" "bm_inv nodes2" "bm_size nodes2 = N"
    and "policy \<in> node_policies" "i \<le> n"
  shows "\<exists>h'. verify_loop K policy nodes (i * pg) il nodes2 h s = Some (h', s) \<and>
    complains (\<forall>j \<in> {i..<n}. page_ok policy nodes (P j) (W j) \<and> on_mask N V W j) h h'"
  using assms(1-3,6,7,9)
proof (induction "n - i" arbitrary: i nodes2 h)
  case 0
  then have "i = n" by simp
  then show ?case using region_end [OF 0(2)] by (simp add: verify_loop.simps [of K policy nodes "n * pg"])
next
  case (Suc d)
  from Suc.hyps(2) have i: "i < n" by simp
  note page = verify_page [OF Suc.prems(1) i Suc.prems(2,3) assms(4,5) Suc.prems(4,5), of policy il]
  show ?case
  proof (cases "P i = policy")
    case False
    then have "\<not> (\<forall>j \<in> {i..<n}. page_ok policy nodes (P j) (W j) \<and> on_mask N V W j)" using i by (auto simp: page_ok_def)
    then show ?thesis using page False by (simp only: if_False) blast
  next
    case True
    let ?b = "words_mask N (W i)"
    from page True obtain h1 where h1: "complains (W i = maskp nodes) h h1"
      and run: "verify_loop K policy nodes (i * pg) il nodes2 h s =
        do { (more, il, h) \<leftarrow> verify_node policy (i * pg + shmptr h) (V i) il ?b h1 s;
             if more then verify_loop K policy nodes (Suc i * pg) il ?b h s else Some (h, s) }" by auto
    have v: "0 \<le> V i" "V i < 2 ^ 31" using Suc.prems(3) i by (simp_all add: page_nodes_def)
    from verify_node_on_mask [OF assms(8) v] obtain h2 where
      h2: "verify_node policy (i * pg + shmptr h) (V i) il ?b h1 s = Some (True, il, h2)" "complains (on_mask N V W i) h1 h2"
      unfolding on_mask_def by blast
    note fr = complains_frame [OF complains_trans [OF h1 h2(2)]]
    have inv: "bm_inv ?b" using Suc.prems(2) i by (simp add: page_policies_def bm_inv_def)
    have "\<exists>h'. verify_loop K policy nodes (Suc i * pg) il ?b h2 s = Some (h', s) \<and>
        complains (\<forall>j \<in> {Suc i..<n}. page_ok policy nodes (P j) (W j) \<and> on_mask N V W j) h2 h'"
      using Suc.hyps(1) [of "Suc i" h2 ?b] Suc.hyps(2) Suc.prems inv i unfolding fr by simp
    then obtain h' where h': "verify_loop K policy nodes (Suc i * pg) il ?b h2 s = Some (h', s)"
      "complains (\<forall>j \<in> {Suc i..<n}. page_ok policy nodes (P j) (W j) \<and> on_mask N V W j) h2 h'" by blast
    have "((W i = maskp nodes \<and> on_mask N V W i) \<and> (\<forall>j \<in> {Suc i..<n}. page_ok policy nodes (P j) (W j) \<and> on_mask N V W j)) \<longleftrightarrow>
        (\<forall>j \<in> {i..<n}. page_ok policy nodes (P j) (W j) \<and> on_mask N V W j)"
      unfolding atLeastLessThan_insert [OF i] using True by (simp add: page_ok_def)
    then have "complains (\<forall>j \<in> {i..<n}. page_ok policy nodes (P j) (W j) \<and> on_mask N V W j) h h'"
      using complains_trans [OF complains_trans [OF h1 h2(2)] h'(2)] by simp
    then show ?thesis using h' run h2(1) by simp
  qed
qed


text \<open>Interleaved pages: after the node of a page comes the next member of the mask in cyclic order.\<close>

definition in_turn :: "bitmask \<Rightarrow> (nat \<Rightarrow> int) \<Rightarrow> nat \<Rightarrow> nat \<Rightarrow> bool" where
  "in_turn nodes V i n \<longleftrightarrow> (\<forall>j \<in> {Suc i..<n}. V j = int (next_member nodes (nat (V (j - 1)))))"

lemma in_turn_Suc: "i < n \<Longrightarrow>
    in_turn nodes V i n \<longleftrightarrow> (Suc i < n \<longrightarrow> V (Suc i) = int (next_member nodes (nat (V i)))) \<and> in_turn nodes V (Suc i) n"
  by (cases "Suc i < n") (simp_all add: in_turn_def atLeastLessThan_insert)

lemma next_member_in: "bm_bits m \<noteq> {} \<Longrightarrow> next_member m cur \<in> bm_bits m"
proof -
  assume m: "bm_bits m \<noteq> {}"
  have fin: "finite {i \<in> bm_bits m. cur < i}" by (rule finite_subset [OF _ finite_bm_bits]) blast
  show ?thesis
  proof (cases "\<exists>i \<in> bm_bits m. cur < i")
    case True
    then have "Min {i \<in> bm_bits m. cur < i} \<in> {i \<in> bm_bits m. cur < i}" by (intro Min_in [OF fin]) blast
    then show ?thesis using True by (simp only: next_member_def if_True) blast
  next
    case False
    then show ?thesis using Min_in [OF finite_bm_bits m] by (simp only: next_member_def if_False)
  qed
qed

lemma interleave_next_member:
  assumes "bm_size m = nat (nodemask_sz s)" "0 < nodemask_sz s" "nodemask_sz s < 2 ^ 31"
    and "Suc cur < bm_size m" "bm_bits m \<noteq> {}"
  shows "interleave_next cur m s = Some (next_member m cur)"
proof -
  have n: "c_uint (numa_num_possible_nodes s) = bm_size m"
    using assms by (simp add: numa_num_possible_nodes_def c_uint_id)
  have "int (Suc cur) < nodemask_sz s" using assms(1,2,4) by linarith
  then have "Suc cur < 2 ^ 32" using assms(3) by simp
  then have "(cur + 1) mod 2 ^ 32 = Suc cur" by simp
  then show ?thesis using next_loop_member [of cur m] assms(4,5) by (simp add: interleave_next_def n)
qed

lemma verify_node_interleave:
  assumes "bm_size b = nat (nodemask_sz s)" "0 < nodemask_sz s" "nodemask_sz s < 2 ^ 31"
    and "0 \<le> v" "Suc (nat v) < bm_size b" "bm_bits b \<noteq> {}"
  shows "\<exists>h' il'. verify_node MPOL_INTERLEAVE p v il b h s = Some (v = il, il', h') \<and>
    complains (v = il \<and> nat v \<in> bm_bits b) h h' \<and> (v = il \<longrightarrow> il' = int (next_member b (nat v)))"
proof -
  have v: "v < 2 ^ 31" using assms(1,3,5) by linarith
  have "next_member b (nat v) < bm_size b" using next_member_in [OF assms(6)] bm_bits_below by blast
  then have c: "c_int (int (next_member b (nat v))) = int (next_member b (nat v))"
    using assms(1,2,3) by (intro c_int_id) linarith+
  define h1 where "h1 = (if nat v \<in> bm_bits b then h else vwarn p (''interleave node out of range '' @ dec_int v @ [CHR 0x0A]) h)"
  have h1: "complains (nat v \<in> bm_bits b) h h1" by (simp add: h1_def)
  have eq: "verify_node MPOL_INTERLEAVE p v il b h s =
      (if v \<noteq> il then Some (False, il, vwarn p (''expected interleave node '' @ dec_int il @ '', got '' @ dec_int v @ [CHR 0x0A]) h1)
       else do { n \<leftarrow> interleave_next (c_uint il) b s; Some (True, c_int (int n), h1) })"
    using assms(4) v by (simp add: verify_node_def c_uint_id h1_def)
  show ?thesis
  proof (cases "v = il")
    case True
    have "verify_node MPOL_INTERLEAVE p v il b h s = Some (v = il, int (next_member b (nat v)), h1)"
      unfolding eq using True assms(4) v c interleave_next_member [OF assms(1,2,3,5,6)] by (simp add: c_uint_id)
    then show ?thesis using h1 True by simp
  next
    case False
    note complains_trans [OF h1 complains_vwarn(1) [of h1]]
    then have "complains (v = il \<and> nat v \<in> bm_bits b) h
        (vwarn p (''expected interleave node '' @ dec_int il @ '', got '' @ dec_int v @ [CHR 0x0A]) h1)" using False by simp
    then show ?thesis unfolding eq using False by auto
  qed
qed


lemma verify_interleave_loop:
  assumes "region h pg n" "page_policies K (world s) h pg n N P W" "page_nodes K (world s) h pg n V"
    and "bm_inv nodes" "bm_size nodes = N" "bm_inv nodes2" "bm_size nodes2 = N"
    and N: "int N = nodemask_sz s" "0 < N" "N < 2 ^ 31"
    and inner: "\<And>j. j < n \<Longrightarrow> P j = MPOL_INTERLEAVE \<Longrightarrow> Suc (nat (V j)) < N \<and> bm_bits (words_mask N (W j)) \<noteq> {}"
    and "i \<le> n"
  shows "\<exists>h'. verify_loop K MPOL_INTERLEAVE nodes (i * pg) il nodes2 h s = Some (h', s) \<and>
    complains ((\<forall>j \<in> {i..<n}. page_ok MPOL_INTERLEAVE nodes (P j) (W j) \<and> on_mask N V W j) \<and>
      (i < n \<longrightarrow> V i = il) \<and> in_turn nodes V i n) h h'"
  using assms(1-3,6,7,12)
proof (induction "n - i" arbitrary: i nodes2 h il)
  case 0
  then have "i = n" by simp
  then show ?case
    using region_end [OF 0(2)] by (simp add: verify_loop.simps [of K MPOL_INTERLEAVE nodes "n * pg"] in_turn_def)
next
  case (Suc d)
  let ?ok = "\<lambda>j. page_ok MPOL_INTERLEAVE nodes (P j) (W j) \<and> on_mask N V W j"
  from Suc.hyps(2) have i: "i < n" by simp
  note page = verify_page [OF Suc.prems(1) i Suc.prems(2,3) assms(4,5) Suc.prems(4,5), of MPOL_INTERLEAVE il]
  show ?case
  proof (cases "P i = MPOL_INTERLEAVE")
    case False
    then have no: "((\<forall>j \<in> {i..<n}. ?ok j) \<and> (i < n \<longrightarrow> V i = il) \<and> in_turn nodes V i n) = False"
      using i by (auto simp: page_ok_def)
    show ?thesis unfolding no using page False by (simp only: if_False) blast
  next
    case True
    let ?b = "words_mask N (W i)"
    from page True obtain h1 where h1: "complains (W i = maskp nodes) h h1"
      and run: "verify_loop K MPOL_INTERLEAVE nodes (i * pg) il nodes2 h s =
        do { (more, il, h) \<leftarrow> verify_node MPOL_INTERLEAVE (i * pg + shmptr h) (V i) il ?b h1 s;
             if more then verify_loop K MPOL_INTERLEAVE nodes (Suc i * pg) il ?b h s else Some (h, s) }" by auto
    have v: "0 \<le> V i" using Suc.prems(3) i by (simp add: page_nodes_def)
    have sz: "bm_size ?b = nat (nodemask_sz s)" "0 < nodemask_sz s" "nodemask_sz s < 2 ^ 31" using N by simp_all
    have in_b: "Suc (nat (V i)) < bm_size ?b" using inner [OF i True] by simp
    from verify_node_interleave [OF sz v in_b conjunct2 [OF inner [OF i True]]] obtain h2 il' where
      h2: "verify_node MPOL_INTERLEAVE (i * pg + shmptr h) (V i) il ?b h1 s = Some (V i = il, il', h2)"
      "complains (V i = il \<and> on_mask N V W i) h1 h2" "V i = il \<Longrightarrow> il' = int (next_member ?b (nat (V i)))"
      unfolding on_mask_def by blast
    note c2 = complains_trans [OF h1 h2(2)]
    note fr = complains_frame [OF c2]
    show ?thesis
    proof (cases "V i = il")
      case False
      then have "verify_loop K MPOL_INTERLEAVE nodes (i * pg) il nodes2 h s = Some (h2, s)" "complains False h h2"
        using run h2(1) c2 by simp_all
      then show ?thesis using False i by simp
    next
      case il: True
      have inv: "bm_inv ?b" using Suc.prems(2) i by (simp add: page_policies_def bm_inv_def)
      have "\<exists>h'. verify_loop K MPOL_INTERLEAVE nodes (Suc i * pg) il' ?b h2 s = Some (h', s) \<and>
          complains ((\<forall>j \<in> {Suc i..<n}. ?ok j) \<and> (Suc i < n \<longrightarrow> V (Suc i) = il') \<and> in_turn nodes V (Suc i) n) h2 h'"
        using Suc.hyps(1) [of "Suc i" h2 ?b il'] Suc.hyps(2) Suc.prems inv i unfolding fr by simp
      then obtain h' where h': "verify_loop K MPOL_INTERLEAVE nodes (Suc i * pg) il' ?b h2 s = Some (h', s)"
        "complains ((\<forall>j \<in> {Suc i..<n}. ?ok j) \<and> (Suc i < n \<longrightarrow> V (Suc i) = il') \<and> in_turn nodes V (Suc i) n) h2 h'" by blast
      have "?b = nodes" if "W i = maskp nodes" using that assms(5) by (simp add: words_mask_def)
      then have "((W i = maskp nodes \<and> V i = il \<and> on_mask N V W i) \<and>
            (\<forall>j \<in> {Suc i..<n}. ?ok j) \<and> (Suc i < n \<longrightarrow> V (Suc i) = il') \<and> in_turn nodes V (Suc i) n) \<longleftrightarrow>
          (\<forall>j \<in> {i..<n}. ?ok j) \<and> (i < n \<longrightarrow> V i = il) \<and> in_turn nodes V i n"
        unfolding atLeastLessThan_insert [OF i] in_turn_Suc [OF i] ball_simps(7)
        using True il i h2(3) [OF il] by (auto simp only: page_ok_def)
      then have "complains ((\<forall>j \<in> {i..<n}. ?ok j) \<and> (i < n \<longrightarrow> V i = il) \<and> in_turn nodes V i n) h h'"
        using complains_trans [OF c2 h'(2)] by simp
      then show ?thesis using h' run h2(1) il by simp
    qed
  qed
qed

end
