(* ===== verification/PropsShm.thy ===== *)
theory PropsShm
  imports ShmFacts Sample
begin

unbundle bit_operations_syntax

text \<open>
  Properties of the shared memory commands of \<open>numactl\<close>: what is dumped, what is verified, and where a
  segment is attached.  The witnesses run on the sample system with a kernel that reports a policy and a node
  for every page of a region at address 0.
\<close>

definition paged_os :: "(nat \<Rightarrow> int) \<Rightarrow> (nat \<Rightarrow> ulong) \<Rightarrow> (nat \<Rightarrow> int) \<Rightarrow> toy os" where
  "paged_os P W V = (toy_os True)\<lparr>os_get_mempolicy := (\<lambda>w buf m addr flags.
     if flags = MPOL_F_ADDR then Inr (P (addr div 4096), fit_words buf [W (addr div 4096)])
     else Inr (V (addr div 4096), buf))\<rparr>"

definition paged_shm :: "nat \<Rightarrow> shm" where
  "paged_shm n = initial_shm\<lparr>shmlen := n * 4096, shm_pagesize := 4096\<rparr>"

lemma paged_malloc [simp]: "malloc_succeeds (paged_os P W V)"
  by (simp add: malloc_succeeds_def paged_os_def toy_os_def)

lemma paged_region [simp]: "n < 2 ^ 40 \<Longrightarrow> region (paged_shm n) 4096 n"
  by (simp add: region_def paged_shm_def initial_shm_def c_ulong_def)

lemma paged_start [simp]: "exitcode (paged_shm n) = 0" "shmptr (paged_shm n) = 0" "shm_out (paged_shm n) = []"
  by (simp_all add: paged_shm_def initial_shm_def)

lemma flags_differ: "MPOL_F_ADDR OR MPOL_F_NODE \<noteq> MPOL_F_ADDR"
  by (simp add: MPOL_F_ADDR_def MPOL_F_NODE_def)

lemma paged_policies:
  assumes "\<forall>i < n. 0 \<le> P i"
  shows "page_policies (paged_os P W V) w (paged_shm n) 4096 n 64 P (\<lambda>i. [W i])"
proof -
  have "length buf = 1 \<Longrightarrow> fit_words buf [x] = [x]" for buf x by (simp add: fit_words_def)
  then show ?thesis using assms by (simp add: page_policies_def paged_os_def longsperbits_def)
qed

lemma paged_nodes:
  assumes "\<forall>i < n. 0 \<le> V i \<and> V i < 2 ^ 31"
  shows "page_nodes (paged_os P W V) w (paged_shm n) 4096 n V"
  using assms flags_differ by (simp add: page_nodes_def paged_os_def)

section \<open>Dumping\<close>

text \<open>C26: the dump of the policies of a segment is the run-length encoding of the pages: the ranges printed
  cover the pages in order, each range is the longest with its policy and its mask, and nothing else changes.\<close>

theorem dump_is_run_length:
  assumes "malloc_succeeds K" "0 < nodemask_sz s" "nodemask_sz s < 2 ^ 31"
    and "region h pg n" "0 < n" "page_policies K (world s) h pg n (nat (nodemask_sz s)) P W"
  shows "\<exists>rs. dump_shm K (h, s) = Some (h\<lparr>shm_out := shm_out h @ print_runs (\<lambda>a b. show_policy h (a * pg) (b * pg)) 0 rs\<rparr>, s) \<and>
    expand rs = map (\<lambda>i. (P i, members (words_mask (nat (nodemask_sz s)) (W i)))) [0..<n] \<and>
    successively (\<lambda>(v, _) (w, _). v \<noteq> w) rs \<and> (\<forall>(v, k) \<in> set rs. 0 < k)"
proof -
  let ?vs = "map (\<lambda>i. (P i, members (words_mask (nat (nodemask_sz s)) (W i)))) [0..<n]"
  have "shmlen h \<noteq> 0" using assms(4,5) by (simp add: region_def)
  moreover have "nat (nodemask_sz s) < 2 ^ 32" using assms(3) by simp
  ultimately have "dump_shm K (h, s) =
      Some (h\<lparr>shm_out := shm_out h @ print_runs (\<lambda>a b. show_policy h (a * pg) (b * pg)) 0 (runs ?vs)\<rparr>, s)"
    using dump_policies_run [OF assms(4-6), of "[]"]
    by (simp add: dump_shm_def allocate_nodemask_run [OF assms(1-3)])
  then show ?thesis using expand_runs [of ?vs] runs_maximal [of ?vs] by blast
qed

lemma dump_is_run_length_witness:
  "\<exists>rs. dump_shm (paged_os (\<lambda>i. 2) (\<lambda>i. if i < 2 then 1 else 3) (\<lambda>i. 0)) (paged_shm 3, toy_numa) =
      Some ((paged_shm 3)\<lparr>shm_out := print_runs (\<lambda>a b. show_policy (paged_shm 3) (a * 4096) (b * 4096)) 0 rs\<rparr>, toy_numa) \<and>
    expand rs = map (\<lambda>i. (2, members (words_mask 64 [if i < 2 then 1 else 3]))) [0..<3] \<and>
    successively (\<lambda>(v, _) (w, _). v \<noteq> w) rs \<and> (\<forall>(v, k) \<in> set rs. 0 < k)"
  using dump_is_run_length [of "paged_os (\<lambda>i. 2) (\<lambda>i. if i < 2 then 1 else 3) (\<lambda>i. 0)" toy_numa "paged_shm 3" 4096 3
      "\<lambda>i. 2" "\<lambda>i. [if i < 2 then 1 else 3]"] paged_policies [of 3 "\<lambda>i. 2"]
  by simp

text \<open>The dump of the nodes of a segment is the run-length encoding of the nodes of its pages.\<close>

theorem dump_nodes_is_run_length:
  assumes "region h pg n" "0 < n" "page_nodes K (world s) h pg n V"
  shows "\<exists>rs. dump_shm_nodes K (h, s) = Some (h\<lparr>shm_out := shm_out h @ print_runs (\<lambda>a b. dumpnode h (a * pg) (b * pg)) 0 rs\<rparr>, s) \<and>
    expand rs = map V [0..<n] \<and> successively (\<lambda>(v, _) (w, _). v \<noteq> w) rs \<and> (\<forall>(v, k) \<in> set rs. 0 < k)"
proof -
  have "shmlen h \<noteq> 0" using assms(1,2) by (simp add: region_def)
  then have "dump_shm_nodes K (h, s) =
      Some (h\<lparr>shm_out := shm_out h @ print_runs (\<lambda>a b. dumpnode h (a * pg) (b * pg)) 0 (runs (map V [0..<n]))\<rparr>, s)"
    using dump_nodes_run [OF assms, of "[]"] by (simp add: dump_shm_nodes_def)
  then show ?thesis using expand_runs [of "map V [0..<n]"] runs_maximal [of "map V [0..<n]"] by blast
qed

lemma dump_nodes_is_run_length_witness:
  "\<exists>rs. dump_shm_nodes (paged_os (\<lambda>i. 0) (\<lambda>i. 0) (\<lambda>i. int (i div 2))) (paged_shm 4, toy_numa) =
      Some ((paged_shm 4)\<lparr>shm_out := print_runs (\<lambda>a b. dumpnode (paged_shm 4) (a * 4096) (b * 4096)) 0 rs\<rparr>, toy_numa) \<and>
    expand rs = map (\<lambda>i. int (i div 2)) [0..<4] \<and> successively (\<lambda>(v, _) (w, _). v \<noteq> w) rs \<and> (\<forall>(v, k) \<in> set rs. 0 < k)"
proof -
  have "page_nodes (paged_os (\<lambda>i. 0) (\<lambda>i. 0) (\<lambda>i. int (i div 2))) (world toy_numa) (paged_shm 4) 4096 4 (\<lambda>i. int (i div 2))"
    by (rule paged_nodes) auto
  from dump_nodes_is_run_length [OF _ _ this] show ?thesis by simp
qed

section \<open>Verifying\<close>

lemma ball_atLeast0LessThan: "(\<forall>j \<in> {0..<n :: nat}. Q j) \<longleftrightarrow> (\<forall>j < n. Q j)"
  by auto


lemma toy_nodes_mask: "maskp (toy_mask 64 [0, 1]) = [3]"
  by code_simp



text \<open>C28: verifying a segment against an interleave policy finishes, and leaves the exit code at 0 exactly when every
  page has the policy and the mask, lies on the mask, and each page lies on the member of the mask that follows the
  node of the page before it in cyclic order.  The pages can have any policy, with or without nodes; of those that are
  reported as interleaved it is assumed that they have at least one node in their mask, which the kernel
  requires of an interleave policy, and that they do not lie on the highest possible node
  (see \<open>interleave_next_skips_zero\<close>).\<close>

theorem verify_interleave_exact:
  assumes "malloc_succeeds K" "0 < nodemask_sz s" "nodemask_sz s < 2 ^ 31"
    and "region h pg n" "0 < n" "page_policies K (world s) h pg n (nat (nodemask_sz s)) P W"
    and "page_nodes K (world s) h pg n V" "bm_inv nodes" "bm_size nodes = nat (nodemask_sz s)" "exitcode h = 0"
    and "\<forall>i < n. P i = MPOL_INTERLEAVE \<longrightarrow> V i + 1 < nodemask_sz s \<and> bm_bits (words_mask (nat (nodemask_sz s)) (W i)) \<noteq> {}"
  shows "\<exists>h'. verify_shm K MPOL_INTERLEAVE nodes (h, s) = Some (h', s) \<and>
    (exitcode h' = 0 \<longleftrightarrow> (\<forall>i < n. P i = MPOL_INTERLEAVE \<and> W i = maskp nodes \<and> nat (V i) \<in> bm_bits nodes) \<and>
       (\<forall>i. Suc i < n \<longrightarrow> V (Suc i) = int (next_member nodes (nat (V i)))))"
proof -
  let ?N = "nat (nodemask_sz s)"
  have start: "get_mempolicy K 0 [] 0 (shmptr h) (MPOL_F_ADDR OR MPOL_F_NODE) s = ((0, V 0, []), s)"
    using assms(7) [unfolded page_nodes_def, rule_format, OF assms(5)] by (simp add: get_mempolicy_def)
  have V: "0 \<le> V j" if "j < n" for j using assms(7) that by (simp add: page_nodes_def)
  have inner: "Suc (nat (V j)) < ?N \<and> bm_bits (words_mask ?N (W j)) \<noteq> {}" if "j < n" "P j = MPOL_INTERLEAVE" for j
  proof -
    have "V j + 1 < nodemask_sz s" using assms(11) that by blast
    then have "Suc (nat (V j)) < ?N" using V [OF that(1)] by linarith
    then show ?thesis using assms(11) that by blast
  qed
  have "\<exists>h'. verify_loop K MPOL_INTERLEAVE nodes (0 * pg) (V 0) (new_bitmask ?N) h s = Some (h', s) \<and>
      complains ((\<forall>j \<in> {0..<n}. page_ok MPOL_INTERLEAVE nodes (P j) (W j) \<and> on_mask ?N V W j) \<and>
        (0 < n \<longrightarrow> V 0 = V 0) \<and> in_turn nodes V 0 n) h h'"
    using assms(2,3) inner
    by (intro verify_interleave_loop [OF assms(4,6-9)]) simp_all
  then obtain h' where h': "verify_loop K MPOL_INTERLEAVE nodes 0 (V 0) (new_bitmask ?N) h s = Some (h', s)"
    "complains ((\<forall>j \<in> {0..<n}. page_ok MPOL_INTERLEAVE nodes (P j) (W j) \<and> on_mask ?N V W j) \<and>
        (0 < n \<longrightarrow> V 0 = V 0) \<and> in_turn nodes V 0 n) h h'" by auto
  have same: "words_mask ?N (maskp nodes) = nodes" using assms(9) by (simp add: words_mask_def)
  have pages: "(\<forall>j \<in> {0..<n}. page_ok MPOL_INTERLEAVE nodes (P j) (W j) \<and> on_mask ?N V W j) \<longleftrightarrow>
      (\<forall>i < n. P i = MPOL_INTERLEAVE \<and> W i = maskp nodes \<and> nat (V i) \<in> bm_bits nodes)"
    unfolding page_ok_def on_mask_def ball_atLeast0LessThan using same by (simp del: mem_bm_bits cong: conj_cong)
  have turn: "in_turn nodes V 0 n \<longleftrightarrow> (\<forall>i. Suc i < n \<longrightarrow> V (Suc i) = int (next_member nodes (nat (V i))))"
    unfolding in_turn_def by (metis Suc_pred' Suc_leI atLeastLessThan_iff diff_Suc_1 less_eq_Suc_le zero_less_Suc)
  show ?thesis
    using h' assms(10) start
    by (simp add: verify_shm_def allocate_nodemask_run [OF assms(1-3)] complains_def pages turn del: mem_bm_bits)
qed

text \<open>The second page has the default policy, whose mask is empty.\<close>

lemma verify_interleave_exact_witness:
  "\<exists>h'. verify_shm (paged_os (\<lambda>i. if i = 1 then 0 else 3) (\<lambda>i. if i = 1 then 0 else 3) (\<lambda>i. int (i mod 2))) MPOL_INTERLEAVE
      (toy_mask 64 [0, 1]) (paged_shm 3, toy_numa) = Some (h', toy_numa) \<and> exitcode h' \<noteq> 0"
proof -
  let ?P = "\<lambda>i :: nat. if i = 1 then 0 else 3 :: int" and ?w = "\<lambda>i :: nat. if i = 1 then 0 else 3 :: ulong"
  let ?K = "paged_os ?P ?w (\<lambda>i. int (i mod 2))"
  have n: "page_nodes ?K (world toy_numa) (paged_shm 3) 4096 3 (\<lambda>i. int (i mod 2))" by (rule paged_nodes) auto
  have p: "page_policies ?K (world toy_numa) (paged_shm 3) 4096 3 (nat (nodemask_sz toy_numa)) ?P (\<lambda>i. [?w i])"
    using paged_policies [of 3 ?P ?w] by simp
  have "words_mask 64 [3] = toy_mask 64 [0, 1]"
    using toy_nodes_mask toy_mask_bits(2) [of 64 "[0, 1]"] by (simp add: words_mask_def)
  then have b: "bm_bits (words_mask (nat (nodemask_sz toy_numa)) [3]) \<noteq> {}" by (auto simp: toy_mask_bits simp del: mem_bm_bits)
  have "\<exists>h'. verify_shm ?K MPOL_INTERLEAVE (toy_mask 64 [0, 1]) (paged_shm 3, toy_numa) = Some (h', toy_numa) \<and>
    (exitcode h' = 0 \<longleftrightarrow> (\<forall>i < 3. ?P i = MPOL_INTERLEAVE \<and> [?w i] = maskp (toy_mask 64 [0, 1]) \<and> nat (int (i mod 2)) \<in> bm_bits (toy_mask 64 [0, 1])) \<and>
       (\<forall>i. Suc i < 3 \<longrightarrow> int (Suc i mod 2) = int (next_member (toy_mask 64 [0, 1]) (nat (int (i mod 2))))))"
    by (rule verify_interleave_exact [OF _ _ _ _ _ p n])
      (use b in \<open>auto simp: toy_mask_bits MPOL_INTERLEAVE_def simp del: mem_bm_bits split: if_splits\<close>)
  moreover have "\<not> (\<forall>i < 3. ?P i = MPOL_INTERLEAVE)" by (auto simp: MPOL_INTERLEAVE_def)
  ultimately show ?thesis by blast
qed

text \<open>After the highest possible node the search for the next interleave node starts at node 1, because
  the number is stepped past the end before it is taken modulo the number of nodes: node 0 is skipped although
  it is the member that follows.\<close>

theorem interleave_next_skips_zero:
  assumes "nodemask_sz s = int N" "1 < N" "N < 2 ^ 31" "bm_size m = N" "0 \<in> bm_bits m" "1 \<in> bm_bits m"
  shows "interleave_next (N - 1) m s = Some 1 \<and> next_member m (N - 1) = 0"
proof -
  have n: "c_uint (numa_num_possible_nodes s) = N" using assms(1,3) by (simp add: numa_num_possible_nodes_def c_uint_id)
  have s: "(N - 1 + 1) mod 2 ^ 32 = N" using assms(2,3) by simp
  have below: "i \<in> bm_bits m \<Longrightarrow> i < N" for i using bm_bits_below assms(4) by blast
  have "\<not> numa_bitmask_isbitset m N" using below [of N] by auto
  then have "next_loop N m N = next_loop N m ((N + 1) mod N)" by (simp add: next_loop.simps [of N m N])
  also have "(N + 1) mod N = 1" using assms(2) by (simp only: mod_add_self1 mod_less)
  also have "next_loop N m 1 = Some 1" using assms(6) unfolding mem_bm_bits by (subst next_loop.simps) (simp only: if_True)
  finally have run: "interleave_next (N - 1) m s = Some 1" unfolding interleave_next_def n s .
  have none: "\<not> (\<exists>i \<in> bm_bits m. N - 1 < i)" using below by fastforce
  have "Min (bm_bits m) = 0" using Min_le [OF finite_bm_bits assms(5)] by simp
  then have "next_member m (N - 1) = 0" using none by (simp only: next_member_def if_False)
  then show ?thesis using run by blast
qed

lemma interleave_next_skips_zero_witness:
  "interleave_next (64 - 1) (toy_mask 64 [0, 1, 63]) toy_numa = Some 1 \<and> next_member (toy_mask 64 [0, 1, 63]) (64 - 1) = 0"
  by (rule interleave_next_skips_zero) (auto simp: toy_mask_bits simp del: mem_bm_bits)

section \<open>Attaching\<close>

text \<open>An attached System V segment is a whole number of pages: when the attachment succeeds, the pointer
  and the length are multiples of the page size and the length is not 0.\<close>

theorem attach_is_aligned:
  assumes "attach_sysvshm K H name (h, s) = Some (h', s')"
  shows "shmptr h' mod c_ulong (shm_pagesize h') = 0 \<and> shmlen h' mod c_ulong (shm_pagesize h') = 0 \<and>
    shmlen h' \<noteq> 0 \<and> c_ulong (shm_pagesize h') \<noteq> 0"
proof -
  from assms obtain h0 where "h' = h0" "check_region h0 = Some True"
    by (auto simp: attach_sysvshm_def Let_def bind_Some_iff split: if_splits sum.splits)
  then show ?thesis by (simp add: check_region_def Let_def split: if_splits)
qed


definition segment_os :: "toy shm_os" where
  "segment_os = \<lparr>sh_ftok = (\<lambda>w name i. 7), sh_creat = (\<lambda>w name m. Some w), sh_shmget = (\<lambda>w key len flags. Inr (5, w)),
     sh_segsz = (\<lambda>w fd. Some 8192), sh_shmat = (\<lambda>w fd. Some (4096, w)), sh_open = (\<lambda>w name c m. None),
     sh_fstat = (\<lambda>w fd. None), sh_ftruncate = (\<lambda>w fd len. None), sh_mmap = (\<lambda>w len fd off. None)\<rparr>"

lemma attach_existing_segment:
  assumes key: "sysvkey H name h s = Some (key, s)"
    and os: "\<And>len flags. sh_shmget H (world s) key len flags = Inr (fd, world s)" "sh_segsz H (world s) fd = Some 8192"
      "sh_shmat H (world s) fd = Some (4096, world s)" "os_pagesize K (world s) = 4096"
    and h: "shmoffset h = 0" "shmlen h = 0" "shmflags h = 0"
  shows "\<exists>h' s'. attach_sysvshm K H name (h, s) = Some (h', s')"
proof -
  have "\<exists>r. attach_sysvshm K H name (h, s) = Some r"
    unfolding attach_sysvshm_def prod.case
    apply (simp only: key Option.bind.simps prod.case h not_less_zero if_False simp_thms)
    apply (simp only: Let_def sum.case prod.case Option.bind.simps os simp_thms if_False if_True)
    apply (simp add: ULONG_MAX_def h os)
    apply (simp add: h os check_region_def c_ulong_def Let_def)
    done
  then show ?thesis by simp
qed

lemma attach_is_aligned_witness:
  "\<exists>h' s'. attach_sysvshm (toy_os True) segment_os ''seg'' (initial_shm, toy_numa) = Some (h', s') \<and>
    shmptr h' mod c_ulong (shm_pagesize h') = 0 \<and> shmlen h' mod c_ulong (shm_pagesize h') = 0 \<and>
    shmlen h' \<noteq> 0 \<and> c_ulong (shm_pagesize h') \<noteq> 0"
proof -
  have "\<exists>h' s'. attach_sysvshm (toy_os True) segment_os ''seg'' (initial_shm, toy_numa) = Some (h', s')"
  proof (rule attach_existing_segment)
    show "sysvkey segment_os ''seg'' initial_shm toy_numa = Some (7, toy_numa)"
      by (simp add: sysvkey_def segment_os_def)
  qed (simp_all add: segment_os_def initial_shm_def toy_os_def)
  then obtain h' s' where "attach_sysvshm (toy_os True) segment_os ''seg'' (initial_shm, toy_numa) = Some (h', s')" by blast
  then show ?thesis using attach_is_aligned by (intro exI [of _ h'] exI [of _ s'] conjI) blast+
qed

end
