(* ===== verification/Report.thy ===== *)
theory Report
  imports RunNode Distance Util Meminfo Affinity
begin

unbundle bit_operations_syntax

text \<open>
  The two reports of \<open>numactl\<close> (\<open>numactl.c\<close> lines 120-399): \<open>--show\<close>, the policy and the affinity of the process,
  and \<open>--hardware\<close>, the nodes with their CPUs, their memory and their distances.  A report is the text printed
  to standard output.  Reading through a NULL mask, and every message that ends the process, is \<open>None\<close>.
\<close>

section \<open>The policy of the process\<close>

text \<open>The mask is doubled until the kernel accepts its size.\<close>

partial_function (option) show_physcpubind_loop :: "'w os \<Rightarrow> int \<Rightarrow> 'w numa \<Rightarrow> (string \<times> 'w numa) option" where
  "show_physcpubind_loop K ncpus s = do {
     (cpubuf, s) \<leftarrow> numa_bitmask_alloc K (c_uint ncpus) s;
     cpubuf \<leftarrow> cpubuf;
     let ((r, cpubuf), s) = numa_sched_getaffinity_v2 K 0 cpubuf s;
     if r < 0 then
       if errno s = EINVAL \<and> ncpus < 1024 * 1024 then show_physcpubind_loop K (ncpus * 2) s else None
     else Some (printmask ''physcpubind'' cpubuf, s)
   }"

definition show_physcpubind :: "'w os \<Rightarrow> 'w numa \<Rightarrow> (string \<times> 'w numa) option" where
  "show_physcpubind K s = show_physcpubind_loop K (numa_num_configured_cpus s) s"

definition weight_file :: "nat \<Rightarrow> string" where
  "weight_file i = ''/sys/kernel/mm/mempolicy/weighted_interleave/node'' @ dec_nat i"

text \<open>\<open>sscanf(weight, "%d", &w)\<close>; a file that cannot be read makes \<open>weight\<close> NULL.\<close>

definition show_weight :: "'w os \<Rightarrow> bitmask \<Rightarrow> nat \<Rightarrow> string \<times> 'w numa \<Rightarrow> (string \<times> 'w numa) option" where
  "show_weight K m i = (\<lambda>(out, s).
     if numa_bitmask_isbitset m i then do {
       let (weight, s) = sysfs_read K (weight_file i) s;
       weight \<leftarrow> weight;
       let (w, end) = strtol weight 10;
       Some (if end \<noteq> weight then out @ '' '' @ dec_int (c_int w) else out, s)
     }
     else Some (out, s))"

definition show_weighted_interleave_weights :: "'w os \<Rightarrow> 'w numa \<Rightarrow> (string \<times> 'w numa) option" where
  "show_weighted_interleave_weights K s = do {
     let maxnode = numa_max_node s;
     (m, s) \<leftarrow> numa_get_weighted_interleave_mask K s;
     case m of
       None \<Rightarrow> Some ([], s)
     | Some m \<Rightarrow> do {
         (out, s) \<leftarrow> foldM (show_weight K m) [0..<nat (maxnode + 1)] (''interleaveweights:'', s);
         Some (out @ [CHR 0x0A], s)
       }
   }"

text \<open>The switch that prints the preferred node; a policy it has no case for prints nothing.\<close>

definition preferred_line :: "int \<Rightarrow> bitmask \<Rightarrow> bitmask \<Rightarrow> int \<Rightarrow> string" where
  "preferred_line policy preferred membind cur =
     ''preferred node: '' @
     (if policy = MPOL_PREFERRED then
        (if numa_bitmask_weight preferred \<noteq> 0 then dec_int (find_first preferred) else dec_int 0) @ [CHR 0x0A]
      else if policy = MPOL_DEFAULT then ''current'' @ [CHR 0x0A]
      else if policy = MPOL_INTERLEAVE \<or> policy = MPOL_WEIGHTED_INTERLEAVE then
        dec_int cur @ '' (interleave next)'' @ [CHR 0x0A]
      else if policy = MPOL_BIND then dec_int (find_first membind) @ [CHR 0x0A]
      else if policy = MPOL_PREFERRED_MANY then dec_int cur @ '' (preferred-many)'' @ [CHR 0x0A]
      else [])"

definition show_report :: "'w os \<Rightarrow> 'w numa \<Rightarrow> (string \<times> 'w numa) option" where
  "show_report K s = do {
     let (r, s) = numa_available K s;
     if r < 0 then None
     else do {
       (cpubind, s) \<leftarrow> numa_get_run_node_mask_v2 K s;
       (preferred, s) \<leftarrow> numa_preferred_many K s;
       (interleave, s) \<leftarrow> numa_get_interleave_mask_v2 K s;
       (weighted_interleave, s) \<leftarrow> numa_get_weighted_interleave_mask K s;
       (membind, s) \<leftarrow> numa_get_membind_v2 K s;
       let (cur, s) = numa_get_interleave_node K s;
       let ((_, policy, _), s) = get_mempolicy K 0 [] 0 0 0 s;
       preferred \<leftarrow> preferred;
       membind \<leftarrow> membind;
       cpubind \<leftarrow> cpubind;
       let out = ''policy: '' @ policy_name policy @ [CHR 0x0A] @ preferred_line policy preferred membind cur;
       (out, s) \<leftarrow>
         (if policy = MPOL_INTERLEAVE then do {
            interleave \<leftarrow> interleave;
            Some (out @ printmask ''interleavemask'' interleave @ ''interleavenode: '' @ dec_int cur @ [CHR 0x0A], s)
          }
          else if policy = MPOL_WEIGHTED_INTERLEAVE then do {
            weighted_interleave \<leftarrow> weighted_interleave;
            (weights, s) \<leftarrow> show_weighted_interleave_weights K s;
            Some (out @ printmask ''interleavemask'' weighted_interleave @ weights @
              ''interleavenode: '' @ dec_int cur @ [CHR 0x0A], s)
          }
          else Some (out, s));
       (cpus, s) \<leftarrow> show_physcpubind K s;
       Some (out @ cpus @ printmask ''cpubind'' cpubind @ printmask ''nodebind'' cpubind @
         printmask ''membind'' membind @ printmask ''preferred'' preferred, s)
     }
   }"

section \<open>The hardware\<close>

text \<open>\<open>mem\<close> is an unsigned 64-bit number; -1 converted to one is the largest.\<close>

definition fmt_mem :: "nat \<Rightarrow> string" where
  "fmt_mem mem = (if mem = ULONG_MAX then ''<not available>'' else dec_nat (mem div 2 ^ 20) @ '' MB'')"

text \<open>The conversion \<open>% 4d\<close>: a blank in place of a plus sign, at least four columns.\<close>

definition fmt_4d :: "int \<Rightarrow> string" where
  "fmt_4d i = (let t = (if 0 \<le> i then CHR '' '' # dec_int i else dec_int i) in replicate (4 - length t) (CHR '' '') @ t)"

definition distance_row :: "'w os \<Rightarrow> bitmask \<Rightarrow> nat \<Rightarrow> nat \<Rightarrow> string \<times> 'w numa \<Rightarrow> (string \<times> 'w numa) option" where
  "distance_row K nodes n i = (\<lambda>(out, s).
     if \<not> numa_bitmask_isbitset nodes i then Some (out, s)
     else do {
       (out, s) \<leftarrow> foldM (\<lambda>k (out, s).
           if numa_bitmask_isbitset nodes i \<and> numa_bitmask_isbitset nodes k then do {
             (d, s) \<leftarrow> numa_distance K (int i) (int k) s;
             Some (out @ fmt_4d d @ '' '', s)
           }
           else Some (out, s)) [0..<n] (out @ fmt_4d (int i) @ '': '', s);
       Some (out @ [CHR 0x0A], s)
     })"

definition print_distances :: "'w os \<Rightarrow> int \<Rightarrow> 'w numa \<Rightarrow> (string \<times> 'w numa) option" where
  "print_distances K maxnode s = do {
     let n = nat (maxnode + 1);
     nodes \<leftarrow> numa_nodes_ptr s;
     let fst_node = (case List.find (numa_bitmask_isbitset nodes) [0..<n] of None \<Rightarrow> 0 | Some i \<Rightarrow> i);
     (d, s) \<leftarrow> numa_distance K maxnode (int fst_node) s;
     if d = 0 then Some (''No distance information available.'' @ [CHR 0x0A], s)
     else
       let out = ''node distances:'' @ [CHR 0x0A] @ ''node  '' @
             concat (map (\<lambda>i. if numa_bitmask_isbitset nodes i then fmt_4d (int i) @ '' '' else []) [0..<n]) @ [CHR 0x0A]
       in foldM (distance_row K nodes n) [0..<n] (out, s)
   }"

text \<open>\<open>while (i < cpus->size && isbitset(cpus, i)) i++\<close>, and the loop that prints the ranges.\<close>

function run_end :: "bitmask \<Rightarrow> nat \<Rightarrow> nat" where
  "run_end cpus i = (if i < bm_size cpus \<and> numa_bitmask_isbitset cpus i then run_end cpus (Suc i) else i)"
  by pat_completeness auto
termination by (relation "measure (\<lambda>(cpus, i). bm_size cpus - i)") auto

declare run_end.simps [simp del]

lemma run_end_le: "i \<le> run_end cpus i"
  by (induction cpus i rule: run_end.induct) (metis Suc_leD order_refl run_end.simps)

definition range_text :: "nat \<Rightarrow> nat \<Rightarrow> nat \<Rightarrow> string" where
  "range_text segment start end =
     (if segment \<noteq> 0 then '','' else []) @
     (if start = end then '' '' @ dec_nat start else '' '' @ dec_nat start @ ''-'' @ dec_nat end)"

function cpu_ranges :: "bitmask \<Rightarrow> nat \<Rightarrow> nat \<Rightarrow> nat \<Rightarrow> string \<Rightarrow> string \<times> nat" where
  "cpu_ranges cpus start segment count out =
     (if start < bm_size cpus then
        if run_end cpus start = start then cpu_ranges cpus (Suc start) segment count out
        else cpu_ranges cpus (run_end cpus start) (segment + 1) (count + (run_end cpus start - 1 - start) + 1)
               (out @ range_text segment start (run_end cpus start - 1))
      else (out, count))"
  by pat_completeness auto
termination
proof (relation "measure (\<lambda>(cpus, i, segment, count, out). bm_size cpus - i)")
  fix cpus start segment count and out :: string
  assume "start < bm_size cpus" "run_end cpus start \<noteq> start"
  then have "bm_size cpus - run_end cpus start < bm_size cpus - start"
    using run_end_le [of start cpus] by linarith
  then show "((cpus, run_end cpus start, segment + 1, count + (run_end cpus start - 1 - start) + 1,
      out @ range_text segment start (run_end cpus start - 1)), cpus, start, segment, count, out)
    \<in> measure (\<lambda>(cpus, i, segment, count, out). bm_size cpus - i)" by simp
qed auto

declare cpu_ranges.simps [simp del]

definition print_node_cpus :: "'w os \<Rightarrow> bool \<Rightarrow> int \<Rightarrow> 'w numa \<Rightarrow> (string \<times> 'w numa) option" where
  "print_node_cpus K cpu_compress node s = do {
     (cpus, s) \<leftarrow> numa_allocate_cpumask K s;
     cpus \<leftarrow> cpus;
     ((err, cpus), s) \<leftarrow> numa_node_to_cpus_v2 K node cpus s;
     if err < 0 then Some ([], s)
     else if \<not> cpu_compress then
       Some (concat (map (\<lambda>i. if numa_bitmask_isbitset cpus i then '' '' @ dec_nat i else []) [0..<bm_size cpus]) @
         [CHR 0x0A], s)
     else
       let (out, count) = cpu_ranges cpus 0 0 0 []
       in Some (out @ '' ('' @ dec_nat count @ '')'' @ [CHR 0x0A], s)
   }"

text \<open>One step of the loop that prints the numbers of the nodes as ranges: \<open>prevnode\<close>, \<open>skip\<close> and the text.\<close>

definition node_list_step :: "int \<Rightarrow> bitmask \<Rightarrow> nat \<Rightarrow> int \<times> bool \<times> string \<Rightarrow> int \<times> bool \<times> string" where
  "node_list_step maxnode nodes i = (\<lambda>(prevnode, skip, out).
     if numa_bitmask_isbitset nodes i then
       if prevnode = - 1 then (int i, skip, out @ dec_nat i)
       else if int i > prevnode + 1 then
         (int i, False, (if skip then out @ dec_int prevnode else out) @ '','' @ dec_nat i)
       else
         let (prevnode, skip, out) =
           (if int i = prevnode + 1 then (int i, True, if \<not> skip then out @ ''-'' else out) else (prevnode, skip, out))
         in (prevnode, skip, if int i = maxnode \<and> skip then out @ dec_int prevnode else out)
     else (prevnode, skip, out))"

definition node_list :: "int \<Rightarrow> bitmask \<Rightarrow> string" where
  "node_list maxnode nodes =
     (case fold (node_list_step maxnode nodes) [0..<nat (maxnode + 1)] (- 1, False, []) of (_, _, out) \<Rightarrow> out)"

definition hardware_node :: "'w os \<Rightarrow> bool \<Rightarrow> nat \<Rightarrow> string \<times> 'w numa \<Rightarrow> (string \<times> 'w numa) option" where
  "hardware_node K cpu_compress i = (\<lambda>(out, s). do {
     ((sz, fr), s) \<leftarrow> numa_node_size64 K (int i) True s;
     nodes \<leftarrow> numa_nodes_ptr s;
     if \<not> numa_bitmask_isbitset nodes i then Some (out, s)
     else do {
       (cpus, s) \<leftarrow> print_node_cpus K cpu_compress (int i) s;
       Some (out @ ''node '' @ dec_nat i @ '' cpus:'' @ cpus @
         ''node '' @ dec_nat i @ '' size: '' @ fmt_mem (c_ulong sz) @ [CHR 0x0A] @
         ''node '' @ dec_nat i @ '' free: '' @ fmt_mem (c_ulong fr) @ [CHR 0x0A], s)
     }
   })"

definition hardware :: "'w os \<Rightarrow> bool \<Rightarrow> 'w numa \<Rightarrow> (string \<times> 'w numa) option" where
  "hardware K cpu_compress s = do {
     let maxnode = numa_max_node s;
     let n = nat (maxnode + 1);
     let (r, s) = numa_available K s;
     if r < 0 then None
     else do {
       nodes \<leftarrow> numa_nodes_ptr s;
       let numnodes = length (filter (numa_bitmask_isbitset nodes) [0..<n]);
       let out = ''available: '' @ dec_nat numnodes @ '' nodes ('' @ node_list maxnode nodes @
             '')'' @ [CHR 0x0A];
       (out, s) \<leftarrow> foldM (hardware_node K cpu_compress) [0..<n] (out, s);
       (dist, s) \<leftarrow> print_distances K maxnode s;
       Some (out @ dist, s)
     }
   }"

end
