(* ===== verification/Numactl.thy ===== *)
theory Numactl
  imports Report NodeString Shm
begin

unbundle bit_operations_syntax

text \<open>
  The \<open>numactl\<close> command (\<open>numactl.c\<close> lines 34-72 and 401-801): the option table, the guards between options, one
  step per option, and \<open>main\<close>.  What \<open>getopt_long\<close> makes of the argument vector is the input: the sequence of
  options with their arguments, and the arguments that are left.  \<open>None\<close> is the process that has ended with
  status 1 (\<open>usage\<close>, \<open>usage_msg\<close>, \<open>complain\<close>, \<open>checkerror\<close>) or does not end.
\<close>

section \<open>Options\<close>

text \<open>The character of an option, or one of the two constants above the character range.\<close>

datatype opt_val = Opt char | CPU_COMPRESS | OPT_VERSION

record opt =
  opt_name :: string
  has_arg :: bool
  opt_value :: opt_val

definition opts :: "opt list" where
  "opts = map (\<lambda>(n, a, v). \<lparr>opt_name = n, has_arg = a, opt_value = v\<rparr>)
    [(''all'', False, Opt (CHR ''a'')), (''interleave'', True, Opt (CHR ''i'')),
     (''weighted-interleave'', True, Opt (CHR ''w'')), (''preferred'', True, Opt (CHR ''p'')),
     (''preferred-many'', True, Opt (CHR ''P'')), (''cpubind'', True, Opt (CHR ''c'')),
     (''cpunodebind'', True, Opt (CHR ''N'')), (''physcpubind'', True, Opt (CHR ''C'')),
     (''membind'', True, Opt (CHR ''m'')), (''show'', False, Opt (CHR ''s'')),
     (''localalloc'', False, Opt (CHR ''l'')), (''balancing'', False, Opt (CHR ''b'')),
     (''hardware'', False, Opt (CHR ''H'')), (''shm'', True, Opt (CHR ''S'')), (''file'', True, Opt (CHR ''f'')),
     (''offset'', True, Opt (CHR ''o'')), (''length'', True, Opt (CHR ''L'')), (''strict'', False, Opt (CHR ''t'')),
     (''shmmode'', True, Opt (CHR ''M'')), (''dump'', False, Opt (CHR ''d'')),
     (''dump-nodes'', False, Opt (CHR ''D'')), (''shmid'', True, Opt (CHR ''I'')),
     (''huge'', False, Opt (CHR ''u'')), (''touch'', False, Opt (CHR ''T'')),
     (''cpu-compress'', False, CPU_COMPRESS), (''verify'', False, Opt (CHR ''V'')), (''version'', False, OPT_VERSION)]"

text \<open>The short option string.  The constants above the characters count as not printable, which
  \<open>isprint\<close> leaves undefined for them.\<close>

fun short_opt :: "opt \<Rightarrow> string" where
  "short_opt r = (case opt_value r of Opt c \<Rightarrow> if has_arg r then [c, CHR '':''] else [c] | _ \<Rightarrow> [])"

definition get_short_opts :: "opt list \<Rightarrow> string" where
  "get_short_opts l = CHR ''+'' # concat (map short_opt l)"

section \<open>The state of the command\<close>

text \<open>The global and static variables of the file, the local variables of \<open>main\<close>, the globals of \<open>shm.c\<close> and
  the library.  \<open>numa_checked\<close> is \<open>static int numa\<close>, \<open>last_nodes\<close> is \<open>static char *last\<close>.\<close>

record 'w ctl =
  cpu_compress :: bool
  set_policy :: int
  shmattached :: bool
  did_node_cpu_parse :: bool
  shmoption :: "string option"
  last_nodes :: "string option"
  numa_checked :: bool
  node_mask :: "bitmask option"
  did_cpubind :: bool
  did_strict :: bool
  do_shm :: bool
  do_dump :: bool
  parse_all :: bool
  numa_balancing :: bool
  do_hardware :: bool
  weighted_interleave :: bool
  segment :: shm
  lib :: "'w numa"

definition initial_ctl :: "'w numa \<Rightarrow> 'w ctl" where
  "initial_ctl s = \<lparr>cpu_compress = False, set_policy = - 1, shmattached = False, did_node_cpu_parse = False,
     shmoption = None, last_nodes = None, numa_checked = False, node_mask = None, did_cpubind = False,
     did_strict = False, do_shm = False, do_dump = False, parse_all = False, numa_balancing = False,
     do_hardware = False, weighted_interleave = False, segment = initial_shm, lib = s\<rparr>"

definition on_lib :: "('w numa \<Rightarrow> 'w numa option) \<Rightarrow> 'w ctl \<Rightarrow> 'w ctl option" where
  "on_lib f t = map_option (\<lambda>s. t\<lparr>lib := s\<rparr>) (f (lib t))"

definition on_segment :: "(shm \<times> 'w numa \<Rightarrow> (shm \<times> 'w numa) option) \<Rightarrow> 'w ctl \<Rightarrow> 'w ctl option" where
  "on_segment f t = map_option (\<lambda>(h, s). t\<lparr>segment := h, lib := s\<rparr>) (f (segment t, lib t))"

definition ctl_print :: "string \<Rightarrow> 'w ctl \<Rightarrow> 'w ctl" where
  "ctl_print out t = t\<lparr>segment := (segment t)\<lparr>shm_out := shm_out (segment t) @ out\<rparr>\<rparr>"

section \<open>Guards\<close>

definition checkerror :: "'w ctl \<Rightarrow> 'w ctl option" where
  "checkerror t = (if errno (lib t) \<noteq> E0 then None else Some t)"

definition checknuma :: "'w os \<Rightarrow> 'w ctl \<Rightarrow> 'w ctl option" where
  "checknuma K t = do {
     t \<leftarrow> (if \<not> numa_checked t then
             let (r, s) = numa_available K (lib t) in if r < 0 then None else Some (t\<lparr>lib := s\<rparr>)
           else Some t);
     Some (t\<lparr>numa_checked := True\<rparr>)
   }"

definition setpolicy :: "int \<Rightarrow> 'w ctl \<Rightarrow> 'w ctl option" where
  "setpolicy pol t = (if set_policy t \<noteq> - 1 then None else Some (t\<lparr>set_policy := pol\<rparr>))"

definition nopolicy :: "'w ctl \<Rightarrow> 'w ctl option" where
  "nopolicy t = (if 0 \<le> set_policy t then None else Some t)"

definition check_cpubind :: "bool \<Rightarrow> 'w ctl \<Rightarrow> 'w ctl option" where
  "check_cpubind flag t = (if flag then None else Some t)"

definition noshm :: "string \<Rightarrow> 'w ctl \<Rightarrow> 'w ctl option" where
  "noshm name t = (if shmattached t then None else Some (t\<lparr>shmoption := Some name\<rparr>))"

definition dontshm :: "'w ctl \<Rightarrow> 'w ctl option" where
  "dontshm t = (if shmoption t \<noteq> None then None else Some t)"

definition needshm :: "'w ctl \<Rightarrow> 'w ctl option" where
  "needshm t = (if \<not> shmattached t then None else Some t)"

definition check_all_parse :: "bool \<Rightarrow> 'w ctl \<Rightarrow> 'w ctl option" where
  "check_all_parse flag t = (if did_node_cpu_parse t then None else Some t)"

definition check_shmbeyond :: "'w ctl \<Rightarrow> 'w ctl option" where
  "check_shmbeyond t = (if shmlen (segment t) \<le> shmoffset (segment t) then None else Some t)"

section \<open>Node and CPU arguments\<close>

definition numactl_parse_nodestring :: "'w os \<Rightarrow> 'w resolver \<Rightarrow> string \<Rightarrow> bool \<Rightarrow> 'w ctl \<Rightarrow> (bitmask option \<times> 'w ctl) option" where
  "numactl_parse_nodestring K f s all t = do {
     (s, t) \<leftarrow> (if s = ''same'' then map_option (\<lambda>l. (l, t)) (last_nodes t)
                else Some (s, t\<lparr>last_nodes := Some s\<rparr>));
     (m, st) \<leftarrow> (if all then numa_parse_nodestring_all K f s (lib t) else numa_parse_nodestring K f s (lib t));
     Some (m, t\<lparr>lib := st\<rparr>)
   }"

text \<open>The statements every option with a node list has in common: parse, refuse an invalid list, clear \<open>errno\<close>.\<close>

definition node_argument :: "'w os \<Rightarrow> 'w resolver \<Rightarrow> string \<Rightarrow> 'w ctl \<Rightarrow> (bitmask \<times> 'w ctl) option" where
  "node_argument K f optarg t = do {
     (m, t) \<leftarrow> numactl_parse_nodestring K f optarg (parse_all t) t;
     m \<leftarrow> m;
     Some (m, t\<lparr>node_mask := Some m, lib := (lib t)\<lparr>errno := E0\<rparr>\<rparr>)
   }"

definition clear_errno :: "'w ctl \<Rightarrow> 'w ctl" where
  "clear_errno t = t\<lparr>lib := (lib t)\<lparr>errno := E0\<rparr>\<rparr>"

definition attached :: "'w ctl \<Rightarrow> bool" where
  "attached t \<longleftrightarrow> 0 \<le> shmfd (segment t)"

section \<open>The options that set something\<close>

definition opt_interleave :: "'w os \<Rightarrow> 'w resolver \<Rightarrow> string \<Rightarrow> 'w ctl \<Rightarrow> 'w ctl option" where
  "opt_interleave K f optarg t = do {
     t \<leftarrow> checknuma K t;
     (m, t) \<leftarrow> node_argument K f optarg t;
     let t = t\<lparr>did_node_cpu_parse := True\<rparr>;
     t \<leftarrow> setpolicy (if weighted_interleave t then MPOL_WEIGHTED_INTERLEAVE else MPOL_INTERLEAVE) t;
     t \<leftarrow> (if attached t then on_lib (numa_interleave_memory_v2 K (shmptr (segment t)) (shmlen (segment t)) m) t
           else if weighted_interleave t then on_lib (numa_set_weighted_interleave_mask K m) t
           else on_lib (numa_set_interleave_mask_v2 K m) t);
     checkerror t
   }"

definition opt_cpunodebind :: "'w os \<Rightarrow> 'w resolver \<Rightarrow> string \<Rightarrow> 'w ctl \<Rightarrow> 'w ctl option" where
  "opt_cpunodebind K f optarg t = do {
     t \<leftarrow> dontshm t;
     t \<leftarrow> checknuma K t;
     (m, t) \<leftarrow> node_argument K f optarg t;
     t \<leftarrow> check_cpubind (do_shm t) t;
     let t = t\<lparr>did_cpubind := True, did_node_cpu_parse := True\<rparr>;
     t \<leftarrow> on_lib (\<lambda>s. map_option snd (numa_run_on_node_mask_all K m s)) t;
     checkerror t
   }"

definition opt_physcpubind :: "'w os \<Rightarrow> string \<Rightarrow> 'w ctl \<Rightarrow> 'w ctl option" where
  "opt_physcpubind K optarg t = do {
     t \<leftarrow> dontshm t;
     (cpubuf, s) \<leftarrow> (if parse_all t then numa_parse_cpustring_all K optarg (lib t) else numa_parse_cpustring K optarg (lib t));
     cpubuf \<leftarrow> cpubuf;
     let t = clear_errno (t\<lparr>lib := s\<rparr>);
     t \<leftarrow> check_cpubind (do_shm t) t;
     let t = t\<lparr>did_cpubind := True, did_node_cpu_parse := True\<rparr>;
     t \<leftarrow> on_lib (\<lambda>s. Some (snd (numa_sched_setaffinity_v2 K 0 cpubuf s))) t;
     checkerror t
   }"

definition opt_membind :: "'w os \<Rightarrow> 'w resolver \<Rightarrow> string \<Rightarrow> 'w ctl \<Rightarrow> 'w ctl option" where
  "opt_membind K f optarg t = do {
     t \<leftarrow> checknuma K t;
     t \<leftarrow> setpolicy MPOL_BIND t;
     (m, t) \<leftarrow> node_argument K f optarg t;
     let t = t\<lparr>did_node_cpu_parse := True\<rparr>;
     t \<leftarrow> on_lib (numa_set_bind_policy K True) t;
     t \<leftarrow> (if attached t then on_lib (numa_tonodemask_memory_v2 K (shmptr (segment t)) (shmlen (segment t)) m) t
           else if numa_balancing t then on_lib (numa_set_membind_balancing K m) t
           else on_lib (numa_set_membind_v2 K m) t);
     t \<leftarrow> on_lib (numa_set_bind_policy K False) t;
     checkerror t
   }"

text \<open>\<open>-P\<close> tests the kernel first and then falls through to \<open>-p\<close>.\<close>

definition opt_preferred :: "'w os \<Rightarrow> 'w resolver \<Rightarrow> bool \<Rightarrow> string \<Rightarrow> 'w ctl \<Rightarrow> 'w ctl option" where
  "opt_preferred K f many optarg t = do {
     t \<leftarrow> (if many then do {
             (r, s) \<leftarrow> numa_has_preferred_many K (lib t);
             if r = 0 then None else Some (t\<lparr>lib := s\<rparr>)
           }
           else Some t);
     t \<leftarrow> checknuma K t;
     (m, t) \<leftarrow> node_argument K f optarg t;
     let t = t\<lparr>did_node_cpu_parse := True\<rparr>;
     t \<leftarrow> on_lib (numa_set_bind_policy K False) t;
     t \<leftarrow> (if attached t then do {
             t \<leftarrow> on_lib (numa_tonode_memory K (shmptr (segment t)) (shmlen (segment t)) (find_first m)) t;
             (r, s) \<leftarrow> numa_has_preferred_many K (lib t);
             let t = t\<lparr>lib := s\<rparr>;
             setpolicy (if r \<noteq> 0 then MPOL_PREFERRED_MANY else MPOL_PREFERRED) t
           }
           else if \<not> many then
             if numa_bitmask_weight m \<noteq> 1 then None
             else do {
               t \<leftarrow> setpolicy MPOL_PREFERRED t;
               on_lib (numa_set_preferred K (find_first m)) t
             }
           else do {
             t \<leftarrow> setpolicy MPOL_PREFERRED_MANY t;
             on_lib (numa_set_preferred_many K m) t
           });
     checkerror t
   }"

definition opt_local :: "'w os \<Rightarrow> 'w ctl \<Rightarrow> 'w ctl option" where
  "opt_local K t = do {
     t \<leftarrow> checknuma K t;
     t \<leftarrow> setpolicy MPOL_LOCAL t;
     let t = clear_errno t;
     t \<leftarrow> (if attached t then on_lib (numa_setlocal_memory K (shmptr (segment t)) (shmlen (segment t))) t
           else on_lib (numa_set_localalloc K) t);
     checkerror t
   }"

section \<open>The options for shared memory\<close>

definition opt_shm :: "'w os \<Rightarrow> 'w shm_os \<Rightarrow> bool \<Rightarrow> string \<Rightarrow> 'w ctl \<Rightarrow> 'w ctl option" where
  "opt_shm K H sysv optarg t = do {
     t \<leftarrow> check_cpubind (did_cpubind t) t;
     t \<leftarrow> nopolicy t;
     t \<leftarrow> on_segment (if sysv then attach_sysvshm K H optarg else attach_shared H optarg) t;
     Some (t\<lparr>shmattached := True\<rparr>)
   }"

text \<open>A number that takes up the whole argument.\<close>

definition whole_number :: "string \<Rightarrow> nat \<Rightarrow> nat option" where
  "whole_number optarg base =
     (let (v, end) = strtoul optarg base in if end = optarg \<or> end \<noteq> [] then None else Some v)"

definition opt_dump :: "'w os \<Rightarrow> bool \<Rightarrow> 'w ctl \<Rightarrow> 'w ctl option" where
  "opt_dump K pols t = do {
     t \<leftarrow> (if attached t then Some t else None);
     t \<leftarrow> on_segment (if pols then dump_shm K else dump_shm_nodes K) t;
     Some (t\<lparr>do_dump := True\<rparr>)
   }"

definition opt_touch :: "'w os \<Rightarrow> 'w ctl \<Rightarrow> 'w ctl option" where
  "opt_touch K t = do {
     t \<leftarrow> needshm t;
     t \<leftarrow> check_shmbeyond t;
     on_lib (numa_police_memory K (shmptr (segment t)) (shmlen (segment t))) t
   }"

definition opt_verify :: "'w os \<Rightarrow> 'w ctl \<Rightarrow> 'w ctl option" where
  "opt_verify K t = do {
     t \<leftarrow> needshm t;
     t \<leftarrow> (if set_policy t < 0 then None else Some t);
     t \<leftarrow> check_shmbeyond t;
     t \<leftarrow> on_lib (numa_police_memory K (shmptr (segment t)) (shmlen (segment t))) t;
     m \<leftarrow> node_mask t;
     on_segment (verify_shm K (set_policy t) m) t
   }"

section \<open>The loop over the options\<close>

datatype flow = Go | Exit int

definition going :: "'w ctl option \<Rightarrow> (flow \<times> 'w ctl) option" where
  "going = map_option (Pair Go)"

definition opt_step :: "'w os \<Rightarrow> 'w shm_os \<Rightarrow> 'w resolver \<Rightarrow> string \<Rightarrow> opt_val \<Rightarrow> string \<Rightarrow> 'w ctl \<Rightarrow> (flow \<times> 'w ctl) option" where
  "opt_step K H f version c optarg t =
     (if c = Opt (CHR ''s'') then do {
        (out, s) \<leftarrow> show_report K (lib t);
        Some (Exit 0, ctl_print out (t\<lparr>lib := s\<rparr>))
      }
      else if c = Opt (CHR ''H'') then going (map_option (\<lambda>t. t\<lparr>do_hardware := True\<rparr>) (nopolicy t))
      else if c = Opt (CHR ''b'') then going (map_option (\<lambda>t. t\<lparr>numa_balancing := True\<rparr>) (nopolicy t))
      else if c = Opt (CHR ''w'') then going (opt_interleave K f optarg (t\<lparr>weighted_interleave := True\<rparr>))
      else if c = Opt (CHR ''i'') then going (opt_interleave K f optarg t)
      else if c = Opt (CHR ''N'') \<or> c = Opt (CHR ''c'') then going (opt_cpunodebind K f optarg t)
      else if c = Opt (CHR ''C'') then going (opt_physcpubind K optarg t)
      else if c = Opt (CHR ''m'') then going (opt_membind K f optarg t)
      else if c = Opt (CHR ''P'') then going (opt_preferred K f True optarg t)
      else if c = Opt (CHR ''p'') then going (opt_preferred K f False optarg t)
      else if c = Opt (CHR ''l'') then going (opt_local K t)
      else if c = Opt (CHR ''S'') then going (opt_shm K H True optarg t)
      else if c = Opt (CHR ''f'') then going (opt_shm K H False optarg t)
      else if c = Opt (CHR ''L'') then
        going (map_option (\<lambda>t. t\<lparr>segment := (segment t)\<lparr>shmlen := c_ulong (memsize optarg)\<rparr>\<rparr>) (noshm ''--length'' t))
      else if c = Opt (CHR ''M'') then do {
        t \<leftarrow> noshm ''--shmmode'' t;
        v \<leftarrow> whole_number optarg 8;
        Some (Go, t\<lparr>segment := (segment t)\<lparr>shmmode := c_uint (int v)\<rparr>\<rparr>)
      }
      else if c = Opt (CHR ''d'') then going (opt_dump K True t)
      else if c = Opt (CHR ''D'') then going (opt_dump K False t)
      else if c = Opt (CHR ''t'') then Some (Go, t\<lparr>did_strict := True, lib := numa_set_strict 1 (lib t)\<rparr>)
      else if c = Opt (CHR ''I'') then do {
        v \<leftarrow> whole_number optarg 0;
        Some (Go, t\<lparr>segment := (segment t)\<lparr>shmid := c_long (int v)\<rparr>\<rparr>)
      }
      else if c = Opt (CHR ''u'') then
        going (map_option (\<lambda>t. t\<lparr>segment := (segment t)\<lparr>shmflags := shmflags (segment t) OR SHM_HUGETLB\<rparr>\<rparr>) (noshm ''--huge'' t))
      else if c = Opt (CHR ''o'') then
        going (map_option (\<lambda>t. t\<lparr>segment := (segment t)\<lparr>shmoffset := c_ulong (memsize optarg)\<rparr>\<rparr>) (noshm ''--offset'' t))
      else if c = Opt (CHR ''T'') then going (opt_touch K t)
      else if c = Opt (CHR ''V'') then going (opt_verify K t)
      else if c = Opt (CHR ''a'') then
        going (map_option (\<lambda>t. t\<lparr>parse_all := True\<rparr>) (check_all_parse (did_node_cpu_parse t) t))
      else if c = CPU_COMPRESS then Some (Go, t\<lparr>cpu_compress := True\<rparr>)
      else if c = OPT_VERSION then do {
        t \<leftarrow> nopolicy t;
        Some (Exit 0, ctl_print (version @ [CHR 0x0A]) t)
      }
      else None)"

fun opt_loop :: "'w os \<Rightarrow> 'w shm_os \<Rightarrow> 'w resolver \<Rightarrow> string \<Rightarrow> (opt_val \<times> string) list \<Rightarrow> 'w ctl \<Rightarrow> (flow \<times> 'w ctl) option" where
  "opt_loop K H f version [] t = Some (Go, t)"
| "opt_loop K H f version ((c, optarg) # args) t =
     (case opt_step K H f version c optarg t of
        None \<Rightarrow> None
      | Some (Exit n, t) \<Rightarrow> Some (Exit n, t)
      | Some (Go, t) \<Rightarrow> opt_loop K H f version args t)"

text \<open>How the process ends: with a status, or by running the command.\<close>

datatype outcome = Exited int | Executed "string list"

definition main :: "'w os \<Rightarrow> 'w shm_os \<Rightarrow> 'w resolver \<Rightarrow> string \<Rightarrow> (opt_val \<times> string) list \<Rightarrow> string list \<Rightarrow> 'w numa \<Rightarrow>
    (outcome \<times> 'w ctl) option" where
  "main K H f version args av s = do {
     (fl, t) \<leftarrow> opt_loop K H f version args (initial_ctl s);
     case fl of
       Exit n \<Rightarrow> Some (Exited n, t)
     | Go \<Rightarrow>
         if do_hardware t then do {
           (out, s) \<leftarrow> hardware K (cpu_compress t) (lib t);
           Some (Exited 0, ctl_print out (t\<lparr>lib := s\<rparr>))
         }
         else if attached t then (if av \<noteq> [] then None else Some (Exited (exitcode (segment t)), t))
         else if do_dump t then None
         else if shmoption t \<noteq> None then None
         else if av = [] then None
         else Some (Executed av, t)
   }"

end
