(* ===== verification/ReportFacts.thy ===== *)
theory ReportFacts
  imports Report NodeStringFacts
begin

unbundle bit_operations_syntax

text \<open>
  The reports are readable: the list of nodes that \<open>--hardware\<close> prints is a node list in the syntax of the
  parser, and the compressed list of CPUs consists of the maximal ranges of the mask.
\<close>

section \<open>The list of nodes\<close>

definition range_item :: "nat \<times> nat \<Rightarrow> nr_item" where
  "range_item = (\<lambda>(a, b). (a, if a < b then Some b else None))"

definition closed_ranges :: "(nat \<times> nat) list \<Rightarrow> string" where
  "closed_ranges rs = concat (map (\<lambda>r. show_item (range_item r) @ '','') rs)"

definition ranges_set :: "(nat \<times> nat) list \<Rightarrow> nat set" where
  "ranges_set rs = (\<Union>(a, b) \<in> set rs. {a..b})"

lemma show_items_closed: "show_items (map range_item (rs @ [r])) = closed_ranges rs @ show_item (range_item r)"
  by (induction rs rule: induct_list012) (simp_all add: closed_ranges_def)

lemma closed_ranges_snoc: "closed_ranges (rs @ [r]) = closed_ranges rs @ show_item (range_item r) @ '',''"
  by (simp add: closed_ranges_def)

lemma ranges_set_snoc [simp]: "ranges_set (rs @ [(a, b)]) = ranges_set rs \<union> {a..b}"
  by (auto simp: ranges_set_def)

text \<open>After the nodes below \<open>k\<close>: nothing printed, or closed ranges and an open one from \<open>a\<close> to \<open>p\<close>.\<close>

definition open_range :: "bitmask \<Rightarrow> nat \<Rightarrow> int \<times> bool \<times> string \<Rightarrow> (nat \<times> nat) list \<Rightarrow> nat \<Rightarrow> nat \<Rightarrow> bool" where
  "open_range nodes k st rs a p \<longleftrightarrow>
     (\<forall>(a, b) \<in> set rs. a \<le> b) \<and> a \<le> p \<and> p < k \<and> st = (int p, a < p, closed_ranges rs @ dec_nat a @ (if a < p then ''-'' else [])) \<and>
     ranges_set rs \<union> {a..p} = {i \<in> bm_bits nodes. i < k}"

lemma open_rangeD:
  assumes "open_range nodes k st rs a p"
  shows "\<forall>(a, b) \<in> set rs. a \<le> b" "a \<le> p" "p < k"
    "st = (int p, a < p, closed_ranges rs @ dec_nat a @ (if a < p then ''-'' else []))"
    "ranges_set rs \<union> {a..p} = {i \<in> bm_bits nodes. i < k}"
  using assms unfolding open_range_def by blast+

definition node_list_inv :: "bitmask \<Rightarrow> nat \<Rightarrow> int \<times> bool \<times> string \<Rightarrow> bool" where
  "node_list_inv nodes k st \<longleftrightarrow>
     st = (- 1, False, []) \<and> {i \<in> bm_bits nodes. i < k} = {} \<or> (\<exists>rs a p. open_range nodes k st rs a p)"

lemma below_Suc: "{i \<in> A. i < Suc k} = {i \<in> A. i < k} \<union> (if k \<in> A then {k} else {})"
  by (auto simp: less_Suc_eq)

lemma show_open: "a \<le> p \<Longrightarrow> show_item (range_item (a, p)) = (if a < p then dec_nat a @ ''-'' @ dec_nat p else dec_nat a)"
  by (simp add: range_item_def)

lemma show_open_end: "a \<le> p \<Longrightarrow>
    show_item (range_item (a, p)) = dec_nat a @ (if a < p then ''-'' @ dec_nat p else [])"
  by (simp add: range_item_def)

lemma dec_int_nat: "dec_int (int p) = dec_nat p"
  by (simp add: dec_int_def)

lemma node_list_step_inv:
  assumes "node_list_inv nodes k st" "int k \<noteq> maxnode"
  shows "node_list_inv nodes (Suc k) (node_list_step maxnode nodes k st)"
proof (cases "k \<in> bm_bits nodes")
  case False
  then have same: "{i \<in> bm_bits nodes. i < Suc k} = {i \<in> bm_bits nodes. i < k}" by (simp only: below_Suc if_False Un_empty_right)
  have stay: "node_list_step maxnode nodes k st = st" using False by (cases st) (simp add: node_list_step_def)
  have "open_range nodes k st rs a p \<Longrightarrow> open_range nodes (Suc k) st rs a p" for rs a p
    unfolding open_range_def same by (simp only: less_SucI) blast
  then show ?thesis using assms(1) unfolding node_list_inv_def same stay by (elim disjE exE) (intro disjI1, assumption, intro disjI2 exI)
next
  case True
  then have new: "{i \<in> bm_bits nodes. i < Suc k} = {i \<in> bm_bits nodes. i < k} \<union> {k}" by (simp only: below_Suc if_True)
  have bit: "numa_bitmask_isbitset nodes k" using True by simp
  from assms(1) consider "st = (- 1, False, [])" "{i \<in> bm_bits nodes. i < k} = {}"
    | rs a p where "open_range nodes k st rs a p" unfolding node_list_inv_def by blast
  then show ?thesis
  proof cases
    case 1
    have "open_range nodes (Suc k) (node_list_step maxnode nodes k st) [] k k"
      unfolding open_range_def new 1(2) using bit by (simp add: node_list_step_def 1(1) closed_ranges_def ranges_set_def)
    then show ?thesis unfolding node_list_inv_def by blast
  next
    case (2 rs a p)
    have rs: "\<forall>(a, b) \<in> set rs. a \<le> b" and st: "a \<le> p" "p < k" "st = (int p, a < p, closed_ranges rs @ dec_nat a @ (if a < p then ''-'' else []))"
      and bits: "ranges_set rs \<union> {a..p} = {i \<in> bm_bits nodes. i < k}" by (fact open_rangeD [OF 2])+
    show ?thesis
    proof (cases "k = Suc p")
      case True
      have "{a..p} \<union> {k} = {a..k}" using st(1) True by auto
      then have "ranges_set rs \<union> {a..k} = {i \<in> bm_bits nodes. i < Suc k}" unfolding new bits [symmetric] by blast
      then have "open_range nodes (Suc k) (node_list_step maxnode nodes k st) rs a k"
        using bit rs st(1) True assms(2) unfolding open_range_def by (simp add: node_list_step_def st(3))
      then show ?thesis unfolding node_list_inv_def by blast
    next
      case False
      then have gap: "int k > int p + 1" using st(2) by linarith
      have "ranges_set (rs @ [(a, p)]) \<union> {k..k} = {i \<in> bm_bits nodes. i < Suc k}" unfolding new bits [symmetric] by auto
      moreover have "node_list_step maxnode nodes k st =
          (int k, False, closed_ranges (rs @ [(a, p)]) @ dec_nat k)"
        using bit gap st(1) by (simp add: node_list_step_def st(3) closed_ranges_snoc show_open dec_int_nat)
      ultimately have "open_range nodes (Suc k) (node_list_step maxnode nodes k st) (rs @ [(a, p)]) k k"
        using rs st(1) unfolding open_range_def by simp
      then show ?thesis unfolding node_list_inv_def by blast
    qed
  qed
qed

lemma node_list_loop:
  assumes "int k \<le> maxnode"
  shows "node_list_inv nodes k (fold (node_list_step maxnode nodes) [0..<k] (- 1, False, []))"
  using assms
proof (induction k)
  case 0
  then show ?case by (simp add: node_list_inv_def)
next
  case (Suc k)
  then show ?case using node_list_step_inv [of nodes k _ maxnode] by simp
qed

text \<open>The last node closes the open range.\<close>

lemma node_list_ranges:
  assumes "0 \<le> maxnode" "nat maxnode \<in> bm_bits nodes"
  shows "\<exists>rs. rs \<noteq> [] \<and> node_list maxnode nodes = show_items (map range_item rs) \<and>
    ranges_set rs = {i \<in> bm_bits nodes. int i \<le> maxnode} \<and> (\<forall>(a, b) \<in> set rs. a \<le> b)"
proof -
  obtain m where m: "maxnode = int m" using assms(1) nonneg_int_cases by blast
  let ?st = "fold (node_list_step maxnode nodes) [0..<m] (- 1, False, [])"
  have bit: "numa_bitmask_isbitset nodes m" using assms(2) m by simp
  have new: "{i \<in> bm_bits nodes. int i \<le> maxnode} = {i \<in> bm_bits nodes. i < m} \<union> {m}"
    using bit m by (auto simp: le_less)
  have list: "node_list maxnode nodes = (case node_list_step maxnode nodes m ?st of (_, _, out) \<Rightarrow> out)"
    by (simp add: node_list_def m nat_add_distrib)
  from node_list_loop [of m maxnode nodes] m consider
      "?st = (- 1, False, [])" "{i \<in> bm_bits nodes. i < m} = {}"
    | rs a p where "open_range nodes m ?st rs a p" unfolding node_list_inv_def by auto
  then show ?thesis
  proof cases
    case 1
    have "node_list maxnode nodes = show_items (map range_item [(m, m)])"
      unfolding list 1(1) using bit by (simp add: node_list_step_def range_item_def)
    moreover have "ranges_set [(m, m)] = {i \<in> bm_bits nodes. int i \<le> maxnode}" unfolding new 1(2) by (simp add: ranges_set_def)
    ultimately show ?thesis by (intro exI [of _ "[(m, m)]"]) simp
  next
    case (2 rs a p)
    have rs: "\<forall>(a, b) \<in> set rs. a \<le> b" and st: "a \<le> p" "p < m"
      "?st = (int p, a < p, closed_ranges rs @ dec_nat a @ (if a < p then ''-'' else []))"
      and bits: "ranges_set rs \<union> {a..p} = {i \<in> bm_bits nodes. i < m}" by (fact open_rangeD [OF 2])+
    show ?thesis
    proof (cases "m = Suc p")
      case True
      have p1: "nat (1 + int p) = Suc p" by linarith
      have "node_list maxnode nodes = closed_ranges rs @ show_item (range_item (a, m))"
        unfolding list st(3) using bit st(1) True m by (simp add: node_list_step_def range_item_def dec_int_def p1)
      moreover have "ranges_set (rs @ [(a, m)]) = {i \<in> bm_bits nodes. int i \<le> maxnode}"
        unfolding new bits [symmetric] ranges_set_snoc using st(1) True by auto
      ultimately show ?thesis
        using rs st(1) True unfolding show_items_closed [symmetric] by (intro exI [of _ "rs @ [(a, m)]"]) simp
    next
      case False
      then have gap: "int m > int p + 1" using st(2) by linarith
      have "node_list maxnode nodes = closed_ranges (rs @ [(a, p)]) @ show_item (range_item (m, m))"
        unfolding list st(3) using bit gap st(1)
        by (simp add: node_list_step_def closed_ranges_snoc show_open dec_int_nat range_item_def)
      moreover have "ranges_set ((rs @ [(a, p)]) @ [(m, m)]) = {i \<in> bm_bits nodes. int i \<le> maxnode}"
        unfolding new bits [symmetric] ranges_set_snoc by auto
      ultimately show ?thesis
        using rs st(1) unfolding show_items_closed [symmetric] by (intro exI [of _ "(rs @ [(a, p)]) @ [(m, m)]"]) simp
    qed
  qed
qed


lemma range_items_parse:
  assumes "ranges_set rs \<subseteq> bm_bits al" "\<forall>(a, b) \<in> set rs. a \<le> b" "bm_size al < 2 ^ 31"
  shows "\<forall>x \<in> set (map range_item rs). item_ok False al x"
    "spec_nodes False False al (map range_item rs) n = ranges_set rs"
proof -
  have r: "{a..b} \<subseteq> bm_bits al \<and> a \<le> b" if "(a, b) \<in> set rs" for a b
    using assms(1,2) that unfolding ranges_set_def by blast
  have small: "i \<in> bm_bits al \<Longrightarrow> i < 2 ^ 63" for i
  proof -
    assume "i \<in> bm_bits al"
    then have "i < bm_size al" using bm_bits_below by blast
    also have "\<dots> < 2 ^ 63" using assms(3) by simp
    finally show "i < 2 ^ 63" .
  qed
  show "\<forall>x \<in> set (map range_item rs). item_ok False al x"
  proof
    fix x
    assume "x \<in> set (map range_item rs)"
    then obtain a b where x: "(a, b) \<in> set rs" "x = range_item (a, b)" by auto
    have "a \<in> bm_bits al" "b \<in> bm_bits al" using r [OF x(1)] by auto
    then show "item_ok False al x" using small unfolding x(2) by (auto simp: item_ok_def range_item_def node_of_nr_def)
  qed
  have item: "item_nodes False al (range_item (a, b)) = {a..b}" if "(a, b) \<in> set rs" for a b
    using r [OF that] by (auto simp: range_item_def node_of_nr_def simp del: mem_bm_bits)
  have "\<Union> (item_nodes False al ` set (map range_item rs)) = (\<Union>(a, b) \<in> set rs. item_nodes False al (range_item (a, b)))" by auto
  also have "\<dots> = ranges_set rs" unfolding ranges_set_def using item by (intro SUP_cong) auto
  finally show "spec_nodes False False al (map range_item rs) n = ranges_set rs" by (simp add: spec_nodes_def)
qed

section \<open>The ranges of CPUs\<close>

fun print_ranges :: "nat \<Rightarrow> (nat \<times> nat) list \<Rightarrow> string" where
  "print_ranges segment [] = []"
| "print_ranges segment ((a, b) # rs) = range_text segment a b @ print_ranges (Suc segment) rs"

lemma run_end_spec:
  assumes "i \<le> bm_size cpus"
  shows "{i..<run_end cpus i} \<subseteq> bm_bits cpus" "run_end cpus i \<notin> bm_bits cpus" "run_end cpus i \<le> bm_size cpus"
proof -
  have "{i..<run_end cpus i} \<subseteq> bm_bits cpus \<and> run_end cpus i \<notin> bm_bits cpus \<and> run_end cpus i \<le> bm_size cpus"
    using assms
  proof (induction cpus i rule: run_end.induct)
    case (1 cpus i)
    show ?case
    proof (cases "i < bm_size cpus \<and> numa_bitmask_isbitset cpus i")
      case True
      then have "run_end cpus i = run_end cpus (Suc i)" by (simp add: run_end.simps [of cpus i])
      moreover have "{i..<run_end cpus (Suc i)} \<subseteq> insert i {Suc i..<run_end cpus (Suc i)}" by auto
      ultimately show ?thesis using 1 True by (auto simp del: mem_bm_bits simp: mem_bm_bits [of i])
    next
      case False
      then have e: "run_end cpus i = i" by (subst run_end.simps) (rule if_not_P)
      moreover have "i \<notin> bm_bits cpus" using False bm_bits_below [of cpus] by auto
      ultimately show ?thesis using 1(2) by simp
    qed
  qed
  then show "{i..<run_end cpus i} \<subseteq> bm_bits cpus" "run_end cpus i \<notin> bm_bits cpus" "run_end cpus i \<le> bm_size cpus"
    by blast+
qed

text \<open>The loop from \<open>start\<close> on prints the maximal ranges of the members that are left and counts them.\<close>

definition maximal_ranges :: "nat set \<Rightarrow> (nat \<times> nat) list \<Rightarrow> bool" where
  "maximal_ranges A rs \<longleftrightarrow>
     ranges_set rs = A \<and> (\<forall>(a, b) \<in> set rs. a \<le> b) \<and> successively (\<lambda>(_, b) (c, _). Suc b < c) rs"

lemma maximal_ranges_Cons:
  assumes "maximal_ranges A rs" "a \<le> b" "\<forall>i \<in> A. Suc b < i"
  shows "maximal_ranges ({a..b} \<union> A) ((a, b) # rs)"
proof -
  have "Suc b < fst (hd rs)" if "rs \<noteq> []"
  proof -
    obtain c d rs' where rs: "rs = (c, d) # rs'" using \<open>rs \<noteq> []\<close> by (cases rs) auto
    then have "c \<in> A" using assms(1) by (auto simp: maximal_ranges_def ranges_set_def)
    then show ?thesis using assms(3) rs by auto
  qed
  then show ?thesis
    using assms(1,2) by (cases rs) (auto simp: maximal_ranges_def ranges_set_def successively_Cons)
qed

lemma cpu_ranges_run:
  assumes "start \<le> bm_size cpus"
  shows "\<exists>rs. cpu_ranges cpus start segment count out =
      (out @ print_ranges segment rs, count + card {i \<in> bm_bits cpus. start \<le> i}) \<and>
    maximal_ranges {i \<in> bm_bits cpus. start \<le> i} rs"
  using assms
proof (induction cpus start segment count out rule: cpu_ranges.induct)
  case (1 cpus start segment count out)
  let ?A = "\<lambda>k. {i \<in> bm_bits cpus. k \<le> i}" and ?r = "run_end cpus start"
  note spec = run_end_spec [OF 1(3)]
  show ?case
  proof (cases "start < bm_size cpus")
    case False
    then have "?A start = {}" using bm_bits_below [of cpus] by fastforce
    moreover have "cpu_ranges cpus start segment count out = (out, count)" using False by (simp add: cpu_ranges.simps)
    ultimately show ?thesis by (intro exI [of _ "[]"]) (simp only: card.empty, simp add: maximal_ranges_def ranges_set_def)
  next
    case True
    show ?thesis
    proof (cases "?r = start")
      case same: True
      then have "?A start = ?A (Suc start)" using spec(2) by (auto simp: Suc_le_eq le_less simp del: mem_bm_bits)
      moreover have "cpu_ranges cpus start segment count out = cpu_ranges cpus (Suc start) segment count out"
        using True same by (simp add: cpu_ranges.simps [of cpus start])
      ultimately show ?thesis using 1(1) [OF True same] True by simp
    next
      case F: False
      then have r: "start < ?r" using run_end_le [of start cpus] by linarith
      obtain rs where rs: "cpu_ranges cpus ?r (segment + 1) (count + (?r - 1 - start) + 1) (out @ range_text segment start (?r - 1)) =
          ((out @ range_text segment start (?r - 1)) @ print_ranges (segment + 1) rs, count + (?r - 1 - start) + 1 + card (?A ?r))"
        "maximal_ranges (?A ?r) rs"
        using 1(2) [OF True F spec(3)] by blast
      have "{start..?r - 1} = {start..<?r}" using r by auto
      then have split: "?A start = {start..?r - 1} \<union> ?A ?r" using spec(1) r by (auto simp del: mem_bm_bits)
      have fin: "finite (?A ?r)" by (rule finite_subset [OF _ finite_bm_bits [of cpus]]) blast
      have "card (?A start) = card {start..?r - 1} + card (?A ?r)"
        unfolding split using fin r by (intro card_Un_disjoint) auto
      moreover have "\<forall>i \<in> ?A ?r. Suc (?r - 1) < i" using spec(2) r by (auto simp: le_less simp del: mem_bm_bits)
      then have "maximal_ranges (?A start) ((start, ?r - 1) # rs)"
        unfolding split using maximal_ranges_Cons [OF rs(2)] r by simp
      moreover have "cpu_ranges cpus start segment count out =
          cpu_ranges cpus ?r (segment + 1) (count + (?r - 1 - start) + 1) (out @ range_text segment start (?r - 1))"
        using True F by (simp add: cpu_ranges.simps [of cpus start])
      ultimately show ?thesis using rs(1) r by (intro exI [of _ "(start, ?r - 1) # rs"]) simp
    qed
  qed
qed

end
