(* ===== verification/NumactlFacts.thy ===== *)
theory NumactlFacts
  imports Numactl ReportFacts PolicyFacts
begin

unbundle bit_operations_syntax

text \<open>
  What the steps of \<open>numactl\<close> leave alone, the guards between its options, and the library state behind the
  options that set a policy.
\<close>

section \<open>Frames\<close>

text \<open>What matters below: the flag \<open>do_shm\<close> and the policy.\<close>

definition sets_policy :: "'w ctl \<Rightarrow> 'w ctl \<Rightarrow> bool" where
  "sets_policy t t' \<longleftrightarrow> do_shm t' = do_shm t \<and> set_policy t = - 1 \<and> 0 \<le> set_policy t'"

definition keeps_policy :: "'w ctl \<Rightarrow> 'w ctl \<Rightarrow> bool" where
  "keeps_policy t t' \<longleftrightarrow> do_shm t' = do_shm t \<and> set_policy t' = set_policy t"

named_theorems ctl_frame \<open>what a guard or a call leaves alone in the state of the command\<close>

lemma on_lib_frame [ctl_frame]: "on_lib f t = Some t' \<Longrightarrow> keeps_policy t t'"
  by (auto simp: on_lib_def keeps_policy_def)

lemma on_segment_frame [ctl_frame]: "on_segment f t = Some t' \<Longrightarrow> keeps_policy t t'"
  by (auto simp: on_segment_def keeps_policy_def)

lemma checknuma_frame [ctl_frame]: "checknuma K t = Some t' \<Longrightarrow> keeps_policy t t'"
  by (auto simp: checknuma_def keeps_policy_def Let_def bind_Some_iff split: if_splits prod.splits)

lemma setpolicy_frame: "setpolicy pol t = Some t' \<Longrightarrow> 0 \<le> pol \<Longrightarrow> sets_policy t t'"
  by (auto simp: setpolicy_def sets_policy_def split: if_splits)

lemma guard_frame [ctl_frame]:
  "checkerror t = Some t' \<Longrightarrow> keeps_policy t t'"
  "nopolicy t = Some t' \<Longrightarrow> keeps_policy t t'"
  "check_cpubind b t = Some t' \<Longrightarrow> keeps_policy t t'"
  "noshm n t = Some t' \<Longrightarrow> keeps_policy t t'"
  "dontshm t = Some t' \<Longrightarrow> keeps_policy t t'"
  "needshm t = Some t' \<Longrightarrow> keeps_policy t t'"
  "check_all_parse b t = Some t' \<Longrightarrow> keeps_policy t t'"
  "check_shmbeyond t = Some t' \<Longrightarrow> keeps_policy t t'"
  by (auto simp: checkerror_def nopolicy_def check_cpubind_def noshm_def dontshm_def needshm_def check_all_parse_def
      check_shmbeyond_def keeps_policy_def split: if_splits)

lemma parse_frame: "numactl_parse_nodestring K f a all t = Some (m, t') \<Longrightarrow> keeps_policy t t'"
  unfolding numactl_parse_nodestring_def keeps_policy_def
  by (cases all) (clarsimp simp: bind_Some_iff split: if_splits)+

lemma node_argument_frame [ctl_frame]: "node_argument K f a t = Some (m, t') \<Longrightarrow> keeps_policy t t'"
  using parse_frame [of K f a "parse_all t" t]
  unfolding node_argument_def by (clarsimp simp: bind_Some_iff keeps_policy_def)

lemma field_frame [simp]:
  "keeps_policy (t\<lparr>did_cpubind := b\<rparr>) t' = keeps_policy t t'" "keeps_policy (t\<lparr>did_node_cpu_parse := b\<rparr>) t' = keeps_policy t t'"
  "keeps_policy (t\<lparr>lib := s\<rparr>) t' = keeps_policy t t'" "keeps_policy (t\<lparr>weighted_interleave := b\<rparr>) t' = keeps_policy t t'"
  "sets_policy (t\<lparr>did_node_cpu_parse := b\<rparr>) t' = sets_policy t t'" "sets_policy (t\<lparr>lib := s\<rparr>) t' = sets_policy t t'"
  "sets_policy (t\<lparr>weighted_interleave := b\<rparr>) t' = sets_policy t t'"
  "keeps_policy (clear_errno t) t' = keeps_policy t t'" "sets_policy (clear_errno t) t' = sets_policy t t'"
  "keeps_policy t (t'\<lparr>do_dump := b\<rparr>) = keeps_policy t t'" "keeps_policy t (t'\<lparr>shmattached := b\<rparr>) = keeps_policy t t'"
  "keeps_policy t (t'\<lparr>segment := h\<rparr>) = keeps_policy t t'" "keeps_policy t (t'\<lparr>lib := s\<rparr>) = keeps_policy t t'"
  "keeps_policy t (t'\<lparr>did_strict := b\<rparr>) = keeps_policy t t'" "keeps_policy t (t'\<lparr>parse_all := b\<rparr>) = keeps_policy t t'"
  "keeps_policy t (t'\<lparr>cpu_compress := b\<rparr>) = keeps_policy t t'" "keeps_policy t (t'\<lparr>do_hardware := b\<rparr>) = keeps_policy t t'"
  "keeps_policy t (t'\<lparr>numa_balancing := b\<rparr>) = keeps_policy t t'"
  by (simp_all add: keeps_policy_def sets_policy_def clear_errno_def)

lemma keeps_refl [simp]: "keeps_policy t t"
  by (simp add: keeps_policy_def)

text \<open>Sequences of steps: in a \<open>do\<close> block every step keeps the policy, or one of them sets it.\<close>

definition all_keep :: "'w ctl \<Rightarrow> 'w ctl option \<Rightarrow> bool" where
  "all_keep t r \<longleftrightarrow> (\<forall>t'. r = Some t' \<longrightarrow> keeps_policy t t')"

definition one_sets :: "'w ctl \<Rightarrow> 'w ctl option \<Rightarrow> bool" where
  "one_sets t r \<longleftrightarrow> (\<forall>t'. r = Some t' \<longrightarrow> sets_policy t t')"

lemma all_keep_bind: "all_keep t r \<Longrightarrow> (\<And>t1. all_keep t1 (g t1)) \<Longrightarrow> all_keep t (Option.bind r g)"
  by (auto simp: all_keep_def keeps_policy_def bind_Some_iff)

lemma one_sets_bind: "all_keep t r \<Longrightarrow> (\<And>t1. one_sets t1 (g t1)) \<Longrightarrow> one_sets t (Option.bind r g)"
  by (auto simp: all_keep_def one_sets_def keeps_policy_def sets_policy_def bind_Some_iff)

lemma one_sets_then: "one_sets t r \<Longrightarrow> (\<And>t1. all_keep t1 (g t1)) \<Longrightarrow> one_sets t (Option.bind r g)"
  by (auto simp: all_keep_def one_sets_def keeps_policy_def sets_policy_def bind_Some_iff)

lemma argument_bind:
  "(\<And>m t1. all_keep t1 (g m t1)) \<Longrightarrow> all_keep t (Option.bind (node_argument K f a t) (\<lambda>(m, t). g m t))"
  "(\<And>m t1. one_sets t1 (g m t1)) \<Longrightarrow> one_sets t (Option.bind (node_argument K f a t) (\<lambda>(m, t). g m t))"
  using node_argument_frame [of K f a t]
  by (auto simp: all_keep_def one_sets_def keeps_policy_def sets_policy_def bind_Some_iff)

section \<open>The policy options\<close>

definition policy_options :: "opt_val set" where
  "policy_options = Opt ` set ''iwmpPl''"

lemma value_bind:
  "(\<And>x. r = Some x \<Longrightarrow> all_keep t (g x)) \<Longrightarrow> all_keep t (Option.bind r g)"
  "(\<And>x. r = Some x \<Longrightarrow> one_sets t (g x)) \<Longrightarrow> one_sets t (Option.bind r g)"
  by (auto simp: all_keep_def one_sets_def bind_Some_iff)

lemma keep_if:
  "(c \<Longrightarrow> all_keep t a) \<Longrightarrow> (\<not> c \<Longrightarrow> all_keep t b) \<Longrightarrow> all_keep t (if c then a else b)"
  "(c \<Longrightarrow> one_sets t a) \<Longrightarrow> (\<not> c \<Longrightarrow> one_sets t b) \<Longrightarrow> one_sets t (if c then a else b)"
  by simp_all

lemma from_kept:
  "keeps_policy t u \<Longrightarrow> all_keep u r \<Longrightarrow> all_keep t r" "keeps_policy t u \<Longrightarrow> one_sets u r \<Longrightarrow> one_sets t r"
  by (auto simp: all_keep_def one_sets_def keeps_policy_def sets_policy_def)

lemma field_kept [simp]:
  "keeps_policy t (t\<lparr>did_cpubind := b\<rparr>)" "keeps_policy t (t\<lparr>did_node_cpu_parse := b\<rparr>)" "keeps_policy t (clear_errno t)"
  by (simp_all add: keeps_policy_def clear_errno_def)

lemma all_keep_Some [simp]: "all_keep t (Some t') = keeps_policy t t'"
  by (simp add: all_keep_def)

lemma all_keep_frame [simp]:
  "all_keep t (on_lib h t)" "all_keep t (on_segment g t)" "all_keep t (checknuma K t)" "all_keep t (checkerror t)"
  "all_keep t (nopolicy t)" "all_keep t (check_cpubind b t)" "all_keep t (noshm n t)" "all_keep t (dontshm t)"
  "all_keep t (needshm t)" "all_keep t (check_all_parse b t)" "all_keep t (check_shmbeyond t)"
  "all_keep t None" "one_sets t None" "0 \<le> pol \<Longrightarrow> one_sets t (setpolicy pol t)"
  by (auto simp: all_keep_def one_sets_def dest: ctl_frame setpolicy_frame)

lemma opt_sets_policy:
  "one_sets t (opt_interleave K f a t)"
  "one_sets t (opt_membind K f a t)"
  "one_sets t (opt_local K t)"
proof -
  show "one_sets t (opt_interleave K f a t)"
    unfolding opt_interleave_def Let_def
    apply (rule one_sets_bind, simp)
    apply (rule argument_bind)
    apply (rule from_kept(2), rule field_kept(2) [of _ True])
    apply (rule one_sets_then, simp add: mpol_defs)
    apply (rule all_keep_bind)
     apply simp
    apply simp
    done
  show "one_sets t (opt_membind K f a t)"
    unfolding opt_membind_def Let_def
    apply (rule one_sets_bind, simp)
    apply (rule one_sets_then, simp add: mpol_defs)
    apply (rule argument_bind)
    apply (rule from_kept(1), rule field_kept(2) [of _ True])
    apply (rule all_keep_bind, simp)+
    apply simp
    done
  show "one_sets t (opt_local K t)"
    unfolding opt_local_def Let_def
    apply (rule one_sets_bind, simp)
    apply (rule one_sets_then, simp add: mpol_defs)
    apply (rule from_kept(1), rule field_kept(3))
    apply (rule all_keep_bind, simp)+
    apply simp
    done
qed


lemma opt_preferred_sets: "one_sets t (opt_preferred K f many a t)"
proof -
  have probe: "all_keep t (do { (r, s) \<leftarrow> numa_has_preferred_many K (lib t); if r = 0 then None else Some (t\<lparr>lib := s\<rparr>) })"
    for t :: "'a ctl"
    by (auto simp: all_keep_def keeps_policy_def bind_Some_iff split: if_splits)
  have answer: "one_sets t (do { (r, s) \<leftarrow> numa_has_preferred_many K (lib t);
      setpolicy (if r \<noteq> 0 then MPOL_PREFERRED_MANY else MPOL_PREFERRED) (t\<lparr>lib := s\<rparr>) })" for t :: "'a ctl"
    by (auto simp: one_sets_def bind_Some_iff mpol_defs dest!: setpolicy_frame)
  have set: "one_sets t (Option.bind (setpolicy p t) (on_lib h))" if "0 \<le> p" for p h and t :: "'a ctl"
    using that by (intro one_sets_then) simp_all
  show ?thesis
    unfolding opt_preferred_def Let_def
    apply (rule one_sets_bind)
     apply (simp add: probe)
    apply (rule one_sets_bind, simp)
    apply (rule argument_bind)
    apply (rule from_kept(2), rule field_kept(2) [of _ True])
    apply (rule one_sets_bind, simp)
    apply (rule one_sets_then)
     apply (intro keep_if)
        apply (rule one_sets_bind, simp, rule answer)
       apply (simp_all add: set mpol_defs)
    done
qed

lemma opt_keeps_policy:
  "all_keep t (opt_cpunodebind K f a t)"
  "all_keep t (opt_physcpubind K a t)"
  "all_keep t (opt_shm K H sysv a t)"
  "all_keep t (opt_dump K pols t)"
  "all_keep t (opt_touch K t)"
  "all_keep t (opt_verify K t)"
proof -
  show "all_keep t (opt_cpunodebind K f a t)"
    unfolding opt_cpunodebind_def Let_def
    apply (rule all_keep_bind, simp)+
    apply (rule argument_bind)
    apply (rule all_keep_bind, simp)
    apply (rule all_keep_bind)
     apply (simp_all add: all_keep_def keeps_policy_def on_lib_def)
    by (auto simp: checkerror_def split: if_splits)
  show "all_keep t (opt_physcpubind K a t)"
  proof -
    have bind: "all_keep t (do { (b, s) \<leftarrow> r; b \<leftarrow> b;
        t \<leftarrow> check_cpubind (do_shm (clear_errno (t\<lparr>lib := s\<rparr>))) (clear_errno (t\<lparr>lib := s\<rparr>));
        t \<leftarrow> on_lib (\<lambda>s. Some (snd (numa_sched_setaffinity_v2 K 0 b s))) (t\<lparr>did_cpubind := True, did_node_cpu_parse := True\<rparr>);
        checkerror t })" for r and t :: "'a ctl"
      by (auto simp: all_keep_def bind_Some_iff check_cpubind_def checkerror_def on_lib_def keeps_policy_def clear_errno_def
          split: if_splits)
    show ?thesis
      unfolding opt_physcpubind_def Let_def by (rule all_keep_bind, simp) (rule bind)
  qed
  show "all_keep t (opt_shm K H sysv a t)"
    unfolding opt_shm_def by (intro all_keep_bind) simp_all
  show "all_keep t (opt_dump K pols t)"
    unfolding opt_dump_def by (intro all_keep_bind) simp_all
  show "all_keep t (opt_touch K t)"
    unfolding opt_touch_def by (intro all_keep_bind) simp_all
  show "all_keep t (opt_verify K t)"
    unfolding opt_verify_def by (intro all_keep_bind value_bind) simp_all
qed


text \<open>An option that is not one of them keeps the policy, also when it ends the process.\<close>

lemma going_snd [simp]: "map_option snd (going r) = r"
  by (cases r) (simp_all add: going_def)

lemma all_keep_map: "all_keep t r \<Longrightarrow> (\<And>u. keeps_policy u (g u)) \<Longrightarrow> all_keep t (map_option g r)"
  by (auto simp: all_keep_def keeps_policy_def)

lemma print_kept [simp]: "keeps_policy t (ctl_print out u) = keeps_policy t u"
  by (simp add: ctl_print_def)

lemma all_keep_snd: "all_keep t (map_option snd (Option.bind r g)) = all_keep t (Option.bind r (\<lambda>x. map_option snd (g x)))"
  by (cases r) simp_all

lemma opt_step_keeps:
  assumes "c \<notin> policy_options"
  shows "all_keep t (map_option snd (opt_step K H f version c a t))"
proof -
  have no: "c \<noteq> Opt (CHR ''i'')" "c \<noteq> Opt (CHR ''w'')" "c \<noteq> Opt (CHR ''m'')" "c \<noteq> Opt (CHR ''p'')"
    "c \<noteq> Opt (CHR ''P'')" "c \<noteq> Opt (CHR ''l'')" using assms by (auto simp: policy_options_def)
  show ?thesis
    unfolding opt_step_def if_distrib [of "map_option snd"] going_snd all_keep_snd
    apply (intro keep_if all_keep_map)
    apply (simp_all add: no opt_keeps_policy all_keep_snd)
       apply (rule value_bind(1), simp split: prod.split)
      apply (rule all_keep_bind, simp, simp add: all_keep_snd, rule value_bind(1), simp)
     apply (rule value_bind(1), simp)
    apply (rule all_keep_bind, simp_all)
    done
qed

lemma opt_step_policy:
  assumes "opt_step K H f version c a t = Some (fl, t')"
  shows "if c \<in> policy_options then sets_policy t t' else keeps_policy t t'"
proof (cases "c \<in> policy_options")
  case True
  have goes: "map_option (Pair Go) r = Some (fl, t') \<Longrightarrow> r = Some t'" for r by auto
  from True consider "c = Opt (CHR ''i'')" | "c = Opt (CHR ''w'')" | "c = Opt (CHR ''m'')" | "c = Opt (CHR ''p'')"
    | "c = Opt (CHR ''P'')" | "c = Opt (CHR ''l'')" by (auto simp: policy_options_def)
  then have "sets_policy t t'"
    by cases (use assms opt_sets_policy(1) [of t K f a] opt_sets_policy(1) [of "t\<lparr>weighted_interleave := True\<rparr>" K f a]
        opt_sets_policy(2) [of t K f a] opt_sets_policy(3) [of t K] opt_preferred_sets [of t K f _ a]
      in \<open>auto simp: opt_step_def going_def one_sets_def dest!: goes\<close>)
  then show ?thesis using True by simp
next
  case False
  then show ?thesis using opt_step_keeps [OF False, of t K H f version a] assms by (simp add: all_keep_def)
qed

lemma opt_loop_policy:
  assumes "opt_loop K H f version args t = Some (fl, t')"
  shows "do_shm t' = do_shm t"
  using assms
proof (induction args arbitrary: t)
  case (Cons x args)
  obtain c a where x: "x = (c, a)" by force
  from Cons.prems obtain fl1 t1 where s: "opt_step K H f version c a t = Some (fl1, t1)"
    unfolding x by (auto split: option.splits)
  then have "do_shm t1 = do_shm t" using opt_step_policy [OF s] by (auto simp: sets_policy_def keeps_policy_def split: if_splits)
  then show ?case using Cons.IH [of t1] Cons.prems s by (cases fl1) (auto simp: x)
qed simp

definition policy_count :: "(opt_val \<times> string) list \<Rightarrow> nat" where
  "policy_count args = length (filter (\<lambda>(c, _). c \<in> policy_options) args)"

text \<open>A run that comes to its end has seen at most one policy option, and none when a policy was set before.\<close>

lemma opt_loop_one_policy:
  assumes "opt_loop K H f version args t = Some (Go, t')" "- 1 \<le> set_policy t"
  shows "policy_count args + (if set_policy t = - 1 then 0 else 1) = (if set_policy t' = - 1 then 0 else 1)"
  using assms
proof (induction args arbitrary: t)
  case (Cons x args)
  obtain c a where x: "x = (c, a)" by force
  from Cons.prems obtain t1 where s: "opt_step K H f version c a t = Some (Go, t1)"
    and l: "opt_loop K H f version args t1 = Some (Go, t')"
    unfolding x by (auto split: option.splits flow.splits prod.splits)
  note step = opt_step_policy [OF s]
  then have "- 1 \<le> set_policy t1" using Cons.prems(2) by (auto simp: sets_policy_def keeps_policy_def split: if_splits)
  from Cons.IH [OF l this] show ?case
    using step by (auto simp: x policy_count_def sets_policy_def keeps_policy_def split: if_splits)
qed (simp add: policy_count_def)


section \<open>Binding memory from the command line\<close>

text \<open>The probe for MPOL_PREFERRED_MANY changes none of the sizes and masks, and runs when nothing ends the
  process.\<close>

definition same_setup :: "'w numa \<Rightarrow> 'w numa \<Rightarrow> bool" where
  "same_setup s t \<longleftrightarrow>
     nodemask_sz t = nodemask_sz s \<and> cpumask_sz t = cpumask_sz s \<and> maxconfigurednode t = maxconfigurednode s \<and>
     maxconfiguredcpu t = maxconfiguredcpu s \<and> numa_no_nodes_ptr t = numa_no_nodes_ptr s \<and>
     numa_all_nodes_ptr t = numa_all_nodes_ptr s \<and> numa_possible_nodes_ptr t = numa_possible_nodes_ptr s \<and>
     numa_all_cpus_ptr t = numa_all_cpus_ptr s \<and> numa_possible_cpus_ptr t = numa_possible_cpus_ptr s \<and>
     numa_nodes_ptr t = numa_nodes_ptr s \<and> numa_memnode_ptr t = numa_memnode_ptr s \<and>
     numa_exit_on_error t = numa_exit_on_error s"

lemma same_setup_wf: "same_setup s t \<Longrightarrow> numa_wf t = numa_wf s"
  by (simp add: same_setup_def numa_wf_def)

lemma same_setup_fields [simp]:
  "same_setup s (t\<lparr>errno := e\<rparr>) = same_setup s t" "same_setup s (t\<lparr>world := w\<rparr>) = same_setup s t"
  "same_setup s (t\<lparr>has_preferred_many := h\<rparr>) = same_setup s t" "same_setup s (t\<lparr>err_out := o'\<rparr>) = same_setup s t"
  "same_setup s (t\<lparr>bind_policy := p\<rparr>) = same_setup s t" "same_setup s s"
  by (simp_all add: same_setup_def)

lemma available_setup: "numa_available K s = (r, t) \<Longrightarrow> same_setup s t"
  by (auto simp: numa_available_def get_mempolicy_def Let_def split: sum.splits if_splits)

lemma probe_setup:
  assumes K: "malloc_succeeds K" and wf: "numa_wf s" and ex: "\<not> numa_exit_on_error s"
  shows "\<exists>t. set_preferred_many K s = Some t \<and> same_setup s t"
proof (cases "0 \<le> has_preferred_many s")
  case True
  then show ?thesis by (simp add: set_preferred_many_def)
next
  case False
  have sz: "0 < nodemask_sz s" "nodemask_sz s < 2 ^ 31" using wf by (simp_all add: numa_wf_def)
  let ?s0 = "s\<lparr>has_preferred_many := 0\<rparr>" and ?b = "new_bitmask (nat (nodemask_sz s))"
  have al: "numa_allocate_nodemask K ?s0 = Some (Some ?b, ?s0)" using allocate_nodemask_run [OF K, of ?s0] sz by simp
  have "\<exists>tmp s1. numa_get_mems_allowed K ?s0 = Some (Some tmp, s1) \<and> same_setup s s1"
    by (cases "os_get_mempolicy K (world s) (maskp ?b) (nat (nodemask_sz s)) 0 MPOL_F_MEMS_ALLOWED")
      (use ex in \<open>auto simp: numa_get_mems_allowed_def al get_mempolicy_def numa_error_unfold\<close>)
  then obtain tmp s1 where ma: "numa_get_mems_allowed K ?s0 = Some (Some tmp, s1)" "same_setup s s1" by blast
  show ?thesis
    using False ma by (auto simp: set_preferred_many_def al get_mempolicy_def set_mempolicy_def Let_def split: sum.splits)
qed

lemma set_bind_policy_run:
  assumes "malloc_succeeds K" "numa_wf s" "\<not> numa_exit_on_error s" "errno s = E0"
  shows "\<exists>t. numa_set_bind_policy K b s = Some t \<and> same_setup s t \<and> errno t = E0 \<and> 0 \<le> has_preferred_many t"
proof -
  obtain t where t: "set_preferred_many K s = Some t" "same_setup s t" using probe_setup [OF assms(1-3)] by blast
  have "errno t = E0" "0 \<le> has_preferred_many t"
    using set_preferred_many_errno [OF t(1)] assms(4) by (cases "has_preferred_many s < 0"; auto)+
  then show ?thesis using t by (simp add: numa_set_bind_policy_def)
qed

lemma set_bind_policy_cached:
  "0 \<le> has_preferred_many s \<Longrightarrow> \<exists>p. numa_set_bind_policy K False s = Some (s\<lparr>bind_policy := p\<rparr>)"
  by (auto simp: numa_set_bind_policy_def set_preferred_many_def)

text \<open>The option \<open>-m\<close> as the only one: the list is parsed, the policy is set on what the parser returns, and
  everything else is decided by the answer of the kernel.\<close>

lemma main_membind:
  fixes f :: "'w resolver"
  assumes K: "malloc_succeeds K" and wf: "numa_wf s" and ex: "\<not> numa_exit_on_error s"
    and al: "numa_all_nodes_ptr s = Some al" "\<forall>x \<in> set xs. item_ok relative al x" "xs \<noteq> []"
    and av: "av \<noteq> []" "0 \<le> fst (numa_available K s)"
  shows "\<exists>m n s3 p. numa_num_configured_nodes s = Some n \<and> bm_inv m \<and> int (bm_size m) = nodemask_sz s \<and>
    bm_bits m = spec_nodes invert relative al xs (nat n) \<and> numa_wf s3 \<and> nodemask_sz s3 = nodemask_sz s \<and>
    (case os_set_mempolicy K (world s3) MPOL_BIND (maskp m) (bm_size m) of
       Inl e \<Rightarrow> e \<noteq> E0 \<longrightarrow> main K H f version [(Opt (CHR ''m''), show_spec invert relative xs)] av s = None
     | Inr w \<Rightarrow> \<exists>t. main K H f version [(Opt (CHR ''m''), show_spec invert relative xs)] av s = Some (Executed av, t) \<and>
         lib t = s3\<lparr>world := w, bind_policy := p\<rparr>)"
proof -
  let ?arg = "show_spec invert relative xs" and ?t0 = "initial_ctl s"
  let ?main = "main K H f version [(Opt (CHR ''m''), ?arg)] av s"
  obtain r s1 where s1: "numa_available K s = (r, s1)" "0 \<le> r" using av(2) by (cases "numa_available K s") auto
  note setup1 = available_setup [OF s1(1)]
  then have wf1: "numa_wf s1" and al1: "numa_all_nodes_ptr s1 = Some al" and sz1: "nodemask_sz s1 = nodemask_sz s"
    and conf1: "numa_num_configured_nodes s1 = numa_num_configured_nodes s" and ex1: "\<not> numa_exit_on_error s1"
    using wf al(1) ex same_setup_wf [OF setup1] by (simp_all add: same_setup_def numa_num_configured_nodes_def)
  have sz: "bm_size al \<le> nat (nodemask_sz s1)" using wf1 al1 by (auto simp: numa_wf_def elim: mask_okE)
  obtain m n where m: "numa_parse_nodestring K f ?arg s1 = Some (Some m, s1)" "numa_num_configured_nodes s = Some n"
    "bm_inv m" "int (bm_size m) = nodemask_sz s" "bm_bits m = spec_nodes invert relative al xs (nat n)"
    using parse_nodestring_show [OF wf1 K sz al(2,3), of f invert] unfolding conf1 sz1
    by (auto simp: numa_parse_nodestring_def al1)
  define s2 where "s2 = s1\<lparr>errno := E0\<rparr>"
  have "numa_wf s2" using wf1 by (simp add: s2_def numa_wf_def)
  then obtain s3 where s3: "numa_set_bind_policy K True s2 = Some s3" "same_setup s2 s3" "errno s3 = E0" "0 \<le> has_preferred_many s3"
    using set_bind_policy_run [OF K, of s2 True] ex1 by (auto simp: s2_def)
  have wf3: "numa_wf s3" "nodemask_sz s3 = nodemask_sz s" "\<not> numa_exit_on_error s3"
    using same_setup_wf [OF s3(2)] s3(2) \<open>numa_wf s2\<close> sz1 ex1 by (simp_all add: same_setup_def s2_def)
  define t where "t = ?t0\<lparr>set_policy := MPOL_BIND, did_node_cpu_parse := True, last_nodes := Some ?arg,
    numa_checked := True, node_mask := Some m, lib := s3\<rparr>"
  have "checknuma K ?t0 = Some (?t0\<lparr>lib := s1, numa_checked := True\<rparr>)"
    using s1 by (simp add: checknuma_def initial_ctl_def)
  note numa = this
  have arg: "?arg \<noteq> ''same''"
  proof -
    obtain c cs where c: "show_items xs = c # cs" "is_digit_of 10 c" using show_items_digit [OF al(3)] by blast
    have "c \<noteq> CHR ''s''" using c(2) by (auto simp: is_digit_of_def digit_val_def char_code_def)
    then show ?thesis using c(1) by (simp add: show_spec_def)
  qed
  have na: "node_argument K f ?arg u = Some (m, u\<lparr>last_nodes := Some ?arg, node_mask := Some m, lib := s2\<rparr>)"
    if "lib u = s1" "\<not> parse_all u" for u
    using that arg m(1) by (simp add: node_argument_def numactl_parse_nodestring_def s2_def)
  have t: "lib t = s3" "\<not> attached t" "\<not> numa_balancing t" "\<not> do_hardware t" "\<not> do_dump t" "shmoption t = None"
    by (simp_all add: t_def initial_ctl_def attached_def initial_shm_def)
  have run: "opt_membind K f ?arg ?t0 = do {
      t \<leftarrow> on_lib (numa_set_membind_v2 K m) t; t \<leftarrow> on_lib (numa_set_bind_policy K False) t; checkerror t }"
    unfolding opt_membind_def numa Option.bind.simps Let_def
    by (simp add: setpolicy_def na initial_ctl_def on_lib_def s3(1) t_def attached_def initial_shm_def)
  have none: "opt_membind K f ?arg ?t0 = None \<Longrightarrow> ?main = None"
    by (simp add: main_def opt_step_def going_def)
  have main: "?main = Some (Executed av, t\<lparr>lib := s'\<rparr>)" if "opt_membind K f ?arg ?t0 = Some (t\<lparr>lib := s'\<rparr>)" for s'
    using that t av(1) by (simp add: main_def opt_step_def going_def attached_def)
  have "\<exists>p. case os_set_mempolicy K (world s3) MPOL_BIND (maskp m) (bm_size m) of
       Inl e \<Rightarrow> e \<noteq> E0 \<longrightarrow> ?main = None
     | Inr w \<Rightarrow> \<exists>t. ?main = Some (Executed av, t) \<and> lib t = s3\<lparr>world := w, bind_policy := p\<rparr>"
  proof (cases "os_set_mempolicy K (world s3) MPOL_BIND (maskp m) (bm_size m)")
    case (Inl e)
    define s4 where "s4 = s3\<lparr>errno := e, err_out := ''set_mempolicy'' # err_out s3\<rparr>"
    have "numa_set_membind_v2 K m s3 = Some s4"
      using Inl wf3(3) by (simp add: numa_set_membind_v2_def setpol_def set_mempolicy_def numa_error_unfold s4_def)
    moreover obtain p where "numa_set_bind_policy K False s4 = Some (s4\<lparr>bind_policy := p\<rparr>)"
      using set_bind_policy_cached [of s4 K] s3(4) by (auto simp: s4_def)
    ultimately have "e \<noteq> E0 \<Longrightarrow> opt_membind K f ?arg ?t0 = None"
      unfolding run by (simp add: on_lib_def t checkerror_def) (simp add: s4_def)
    then show ?thesis using none Inl by simp
  next
    case (Inr w)
    define s4 where "s4 = s3\<lparr>world := w\<rparr>"
    have "numa_set_membind_v2 K m s3 = Some s4"
      using Inr by (simp add: numa_set_membind_v2_def setpol_def set_mempolicy_def s4_def)
    moreover obtain p where "numa_set_bind_policy K False s4 = Some (s4\<lparr>bind_policy := p\<rparr>)"
      using set_bind_policy_cached [of s4 K] s3(4) by (auto simp: s4_def)
    moreover have "errno s4 = E0" using s3(3) by (simp add: s4_def)
    ultimately have "opt_membind K f ?arg ?t0 = Some (t\<lparr>lib := s4\<lparr>bind_policy := p\<rparr>\<rparr>)"
      unfolding run by (simp add: on_lib_def t checkerror_def)
    from main [OF this] show ?thesis using Inr by (auto simp: s4_def)
  qed
  then show ?thesis using m wf3 by blast
qed


section \<open>Interleaving shared memory\<close>

lemma checknuma_weighted:
  "checknuma K (t\<lparr>weighted_interleave := b\<rparr>) = map_option (\<lambda>t. t\<lparr>weighted_interleave := b\<rparr>) (checknuma K t)"
  by (simp add: checknuma_def Let_def split: prod.split)

lemma last_nodes_same: "last_nodes t = Some l \<Longrightarrow> t\<lparr>last_nodes := Some l\<rparr> = t"
  by (cases t) simp

lemma node_argument_eq:
  "node_argument K f a t =
    (case (if a = ''same'' then last_nodes t else Some a) of
       None \<Rightarrow> None
     | Some l \<Rightarrow>
         case (if parse_all t then numa_parse_nodestring_all K f l (lib t) else numa_parse_nodestring K f l (lib t)) of
           Some (Some m, s) \<Rightarrow> Some (m, t\<lparr>last_nodes := Some l, node_mask := Some m, lib := s\<lparr>errno := E0\<rparr>\<rparr>)
         | _ \<Rightarrow> None)"
  by (auto simp: node_argument_def numactl_parse_nodestring_def last_nodes_same split: option.split)

lemma argument_weighted:
  "node_argument K f a (t\<lparr>weighted_interleave := b\<rparr>) =
    map_option (\<lambda>(m, t). (m, t\<lparr>weighted_interleave := b\<rparr>)) (node_argument K f a t)"
  unfolding node_argument_eq by (simp split: option.split)

text \<open>Neither step touches the segment.\<close>

lemma checknuma_segment: "checknuma K t = Some t' \<Longrightarrow> segment t' = segment t"
  by (auto simp: checknuma_def Let_def bind_Some_iff split: if_splits prod.splits)

lemma argument_segment: "node_argument K f a t = Some (m, t') \<Longrightarrow> segment t' = segment t"
  unfolding node_argument_eq by (auto split: option.splits)

lemma opt_interleave_attached:
  assumes "attached t"
  shows "opt_interleave K f a (t\<lparr>weighted_interleave := b\<rparr>) = do {
    t \<leftarrow> checknuma K t;
    (m, t) \<leftarrow> node_argument K f a t;
    t \<leftarrow> setpolicy (if b then MPOL_WEIGHTED_INTERLEAVE else MPOL_INTERLEAVE)
      (t\<lparr>weighted_interleave := b, did_node_cpu_parse := True\<rparr>);
    t \<leftarrow> on_lib (numa_interleave_memory_v2 K (shmptr (segment t)) (shmlen (segment t)) m) t;
    checkerror t }"
proof (cases "checknuma K t")
  case None
  then show ?thesis by (simp add: opt_interleave_def checknuma_weighted)
next
  case (Some u)
  show ?thesis
  proof (cases "node_argument K f a u")
    case None
    then show ?thesis by (simp add: opt_interleave_def checknuma_weighted argument_weighted Some)
  next
    case arg: (Some x)
    obtain m v where x: "x = (m, v)" by force
    have "attached v" using assms checknuma_segment [OF Some] argument_segment [OF arg [unfolded x]] by (simp add: attached_def)
    then show ?thesis
      unfolding opt_interleave_def checknuma_weighted Some option.map Option.bind.simps argument_weighted arg x
      by (simp add: setpolicy_def attached_def)
  qed
qed

end
