(* ===== verification/PropsNumactl.thy ===== *)
theory PropsNumactl
  imports NumactlFacts PropsShm
begin

unbundle bit_operations_syntax

text \<open>
  Properties of the \<open>numactl\<close> command: what its options amount to, which combinations it refuses, and that its
  report of the nodes can be given back to it.
\<close>

section \<open>Running a command under a policy\<close>

definition no_device :: "'w resolver" where
  "no_device = (\<lambda>i m s. Some ((NO_IO_AFFINITY, m), s))"

lemma toy_isbitset: "numa_bitmask_isbitset (toy_mask n xs) i \<longleftrightarrow> i \<in> set xs \<and> i < n"
  using toy_mask_bits(3) [of n xs] unfolding mem_bm_bits [symmetric] by simp

lemma toy_available: "numa_available (toy_os r) s = (0, s)"
  by (simp add: numa_available_def get_mempolicy_def toy_os_def)

text \<open>C2: \<open>numactl -m nodes command\<close>: the list is turned into the mask of the nodes it spells, and this mask is what
  the kernel is asked to bind the process to.  If the kernel refuses, whatever the reason, the command is not executed
  and the process ends.  If it accepts, the process goes on to execute the command, in the world that the kernel has left,
  and at that point \<open>numa_get_membind\<close> returns the nodes of the mask that the task may use, among the bits that reach the
  kernel.  The kernel is assumed to support NUMA, to keep policies as its manual says (\<open>policy_kernel\<close>), and to give a
  reason when it refuses; the list names nodes of the task, memory does not run out, and the library is set up with
  masks that have room for the nodes of the system and with errors that do not end the process.\<close>

theorem membind_command:
  assumes "malloc_succeeds K" "policy_kernel K u (\<lambda>_. A) N" "numa_wf s" "int N \<le> nodemask_sz s" "\<not> numa_exit_on_error s"
    and "numa_all_nodes_ptr s = Some al" "\<forall>x \<in> set xs. item_ok relative al x" "xs \<noteq> []"
    and "av \<noteq> []" "0 \<le> fst (numa_available K s)" "\<forall>w ws n. os_set_mempolicy K w MPOL_BIND ws n \<noteq> Inl E0"
  shows "\<exists>n m w. numa_num_configured_nodes s = Some n \<and>
    bm_inv m \<and> int (bm_size m) = nodemask_sz s \<and> bm_bits m = spec_nodes invert relative al xs (nat n) \<and>
    (case os_set_mempolicy K w MPOL_BIND (maskp m) (bm_size m) of
       Inl e \<Rightarrow> main K H f version [(Opt (CHR ''m''), show_spec invert relative xs)] av s = None
     | Inr w' \<Rightarrow> \<exists>t b. main K H f version [(Opt (CHR ''m''), show_spec invert relative xs)] av s = Some (Executed av, t) \<and>
         world (lib t) = w' \<and> numa_get_membind_v2 K (lib t) = Some (Some b, lib t) \<and>
         bm_bits b = {i \<in> bm_bits m. i < u (bm_size m) \<and> i \<in> A})"
proof -
  let ?main = "main K H f version [(Opt (CHR ''m''), show_spec invert relative xs)] av s"
  from main_membind [OF assms(1,3,5-10), of invert H f version] obtain m n s3 p where
    m: "numa_num_configured_nodes s = Some n" "bm_inv m" "int (bm_size m) = nodemask_sz s"
      "bm_bits m = spec_nodes invert relative al xs (nat n)" "numa_wf s3" "nodemask_sz s3 = nodemask_sz s" and
    run: "case os_set_mempolicy K (world s3) MPOL_BIND (maskp m) (bm_size m) of
       Inl e \<Rightarrow> e \<noteq> E0 \<longrightarrow> ?main = None
     | Inr w \<Rightarrow> \<exists>t. ?main = Some (Executed av, t) \<and> lib t = s3\<lparr>world := w, bind_policy := p\<rparr>" by blast
  have "case os_set_mempolicy K (world s3) MPOL_BIND (maskp m) (bm_size m) of
       Inl e \<Rightarrow> ?main = None
     | Inr w' \<Rightarrow> \<exists>t b. ?main = Some (Executed av, t) \<and> world (lib t) = w' \<and>
         numa_get_membind_v2 K (lib t) = Some (Some b, lib t) \<and> bm_bits b = {i \<in> bm_bits m. i < u (bm_size m) \<and> i \<in> A}"
  proof (cases "os_set_mempolicy K (world s3) MPOL_BIND (maskp m) (bm_size m)")
    case (Inl e)
    then have "e \<noteq> E0" using assms(11) by metis
    then show ?thesis using run Inl by simp
  next
    case (Inr w)
    with run obtain t where t: "?main = Some (Executed av, t)" "lib t = s3\<lparr>world := w, bind_policy := p\<rparr>" by auto
    let ?s = "s3\<lparr>bind_policy := p\<rparr>"
    have set: "numa_set_membind_v2 K m ?s = Some (lib t)" "err_out (lib t) = err_out ?s"
      using Inr t(2) by (simp_all add: numa_set_membind_v2_def setpol_def set_mempolicy_def)
    have wf: "numa_wf ?s" "int N \<le> nodemask_sz ?s" "int (bm_size m) = nodemask_sz ?s"
      using m(3,5,6) assms(4) by (simp_all add: numa_wf_def)
    obtain b where "numa_get_membind_v2 K (lib t) = Some (Some b, lib t)"
      "bm_bits b = {i \<in> bm_bits m. i < u (bm_size m) \<and> i \<in> A}"
      using membind_read_back [OF assms(2,1) wf(1,2) m(2) wf(3) set] by blast
    then show ?thesis using t Inr by (auto simp del: mem_bm_bits)
  qed
  then show ?thesis using m(1-4) by blast
qed

lemma membind_command_witness:
  "\<exists>t b. main (toy_os True) segment_os no_device ''2.0.19'' [(Opt (CHR ''m''), show_spec False False [(0, Some 1)])] [''ls''] toy_numa =
      Some (Executed [''ls''], t) \<and>
    numa_get_membind_v2 (toy_os True) (lib t) = Some (Some b, lib t) \<and> bm_bits b = {0, 1}"
proof -
  let ?al = "toy_mask 64 [0, 1]"
  have ok: "\<forall>x \<in> set [(0, Some 1)]. item_ok False ?al x"
    by (simp add: item_ok_def node_of_nr_def toy_isbitset)
  have nodes: "spec_nodes False False ?al [(0, Some 1)] k = {0, 1}" for k
    unfolding spec_nodes_def Let_def by (auto simp: node_of_nr_def toy_mask_bits(3) toy_isbitset)
  have acc: "\<exists>w'. os_set_mempolicy (toy_os True) w MPOL_BIND ws n = Inr w'" for w ws n
    by (simp add: toy_set_mempolicy mpol_defs)
  then have noE: "\<forall>w ws n. os_set_mempolicy (toy_os True) w MPOL_BIND ws n \<noteq> Inl E0" by (metis sum.distinct(1))
  from membind_command [OF toy_malloc [of True] toy_policy_kernel toy_wf _ _ toy_numa_fields(13) ok _ _ _ noE,
      where av = "[''ls'']" and H = segment_os and f = no_device and version = "''2.0.19''" and invert = False]
  obtain n m w where m: "int (bm_size m) = 64" "bm_bits m = {0, 1}"
    and run: "case os_set_mempolicy (toy_os True) w MPOL_BIND (maskp m) (bm_size m) of
       Inl e \<Rightarrow> main (toy_os True) segment_os no_device ''2.0.19'' [(Opt (CHR ''m''), show_spec False False [(0, Some 1)])] [''ls''] toy_numa = None
     | Inr w' \<Rightarrow> \<exists>t b. main (toy_os True) segment_os no_device ''2.0.19''
           [(Opt (CHR ''m''), show_spec False False [(0, Some 1)])] [''ls''] toy_numa = Some (Executed [''ls''], t) \<and>
         world (lib t) = w' \<and> numa_get_membind_v2 (toy_os True) (lib t) = Some (Some b, lib t) \<and>
         bm_bits b = {i \<in> bm_bits m. i < bm_size m - 1 \<and> i \<in> {..<64}}"
    unfolding nodes by (auto simp: toy_available)
  have "{i \<in> bm_bits m. i < bm_size m - 1 \<and> i \<in> {..<64}} = {0, 1}" unfolding m(2) using m(1) by auto
  then show ?thesis using run acc [of w "maskp m" "bm_size m"] by auto
qed

text \<open>A binding that the kernel refuses is not ignored: the command is never executed.\<close>

theorem refused_membind_stops:
  assumes "malloc_succeeds K" "numa_wf s" "\<not> numa_exit_on_error s"
    and "numa_all_nodes_ptr s = Some al" "\<forall>x \<in> set xs. item_ok relative al x" "xs \<noteq> []"
    and "av \<noteq> []" "0 \<le> fst (numa_available K s)"
    and "\<forall>w ws n. \<exists>e. os_set_mempolicy K w MPOL_BIND ws n = Inl e \<and> e \<noteq> E0"
  shows "main K H f version [(Opt (CHR ''m''), show_spec invert relative xs)] av s = None"
proof -
  from main_membind [OF assms(1-8), of invert H f version] obtain m n s3 p where
    "numa_num_configured_nodes s = Some n" "bm_inv m" "int (bm_size m) = nodemask_sz s"
      "bm_bits m = spec_nodes invert relative al xs (nat n)" "numa_wf s3" "nodemask_sz s3 = nodemask_sz s" and
    run: "case os_set_mempolicy K (world s3) MPOL_BIND (maskp m) (bm_size m) of
       Inl e \<Rightarrow> e \<noteq> E0 \<longrightarrow> main K H f version [(Opt (CHR ''m''), show_spec invert relative xs)] av s = None
     | Inr w \<Rightarrow> \<exists>t. main K H f version [(Opt (CHR ''m''), show_spec invert relative xs)] av s = Some (Executed av, t) \<and>
         lib t = s3\<lparr>world := w, bind_policy := p\<rparr>" by blast
  obtain e where "os_set_mempolicy K (world s3) MPOL_BIND (maskp m) (bm_size m) = Inl e" "e \<noteq> E0"
    using assms(9) by blast
  with run show ?thesis by simp
qed

lemma refused_membind_stops_witness:
  "main ((toy_os True)\<lparr>os_set_mempolicy := \<lambda>w mode ws n. Inl EPERM\<rparr>) segment_os no_device ''2.0.19''
     [(Opt (CHR ''m''), show_spec False False [(0, Some 1)])] [''ls''] toy_numa = None"
proof -
  let ?K = "(toy_os True)\<lparr>os_set_mempolicy := \<lambda>w mode ws n. Inl EPERM\<rparr>"
  have ok: "\<forall>x \<in> set [(0, Some 1)]. item_ok False (toy_mask 64 [0, 1]) x"
    by (simp add: item_ok_def node_of_nr_def toy_isbitset)
  have "malloc_succeeds ?K" by (simp add: malloc_succeeds_def toy_os_def)
  moreover have "numa_available ?K toy_numa = (0, toy_numa)"
    by (simp add: numa_available_def get_mempolicy_def toy_os_def)
  ultimately show ?thesis
    by (intro refused_membind_stops [OF _ toy_wf _ toy_numa_fields(13) ok]) simp_all
qed

section \<open>Combinations of options\<close>

text \<open>C23: a command is executed under at most one policy: when the process goes on to execute a command, it is the
  command given, and at most one of the options that set a policy was among the options.\<close>

theorem one_policy:
  assumes "main K H f version args av s = Some (Executed cmd, t)"
  shows "cmd = av \<and> av \<noteq> [] \<and> policy_count args \<le> 1"
proof -
  from assms obtain fl t1 where run: "opt_loop K H f version args (initial_ctl s) = Some (fl, t1)"
    by (auto simp: main_def bind_Some_iff)
  then have fl: "fl = Go" and c: "cmd = av" "av \<noteq> []"
    using assms by (cases fl; auto simp: main_def bind_Some_iff split: if_splits)+
  then have l: "opt_loop K H f version args (initial_ctl s) = Some (Go, t1)" using run by simp
  have "policy_count args = (if set_policy t1 = - 1 then 0 else 1)"
    using opt_loop_one_policy [OF l] by (simp add: initial_ctl_def)
  then show ?thesis using c by simp
qed

lemma one_policy_witness:
  "\<exists>t. main (toy_os True) segment_os no_device ''2.0.19'' [] [''ls''] toy_numa = Some (Executed [''ls''], t) \<and>
    policy_count ([] :: (opt_val \<times> string) list) \<le> 1"
proof -
  have r: "main (toy_os True) segment_os no_device ''2.0.19'' [] [''ls''] toy_numa = Some (Executed [''ls''], initial_ctl toy_numa)"
    by (simp add: main_def initial_ctl_def attached_def initial_shm_def)
  from one_policy [OF r] r show ?thesis by blast
qed

text \<open>The flag that is to keep CPU binding away from shared memory is never set: whatever the options, it is
  false, so that the message "cannot do --cpubind on shared memory" can only be given for the other order.\<close>

theorem do_shm_never_set:
  assumes "opt_loop K H f version args (initial_ctl s) = Some (fl, t)"
  shows "\<not> do_shm t \<and> check_cpubind (do_shm t) t = Some t"
  using opt_loop_policy [OF assms] by (simp add: initial_ctl_def check_cpubind_def)

lemma do_shm_never_set_witness:
  "\<exists>t. opt_loop (toy_os True) segment_os no_device ''2.0.19'' [(Opt (CHR ''t''), [])] (initial_ctl toy_numa) = Some (Go, t) \<and> \<not> do_shm t"
proof -
  obtain t where t: "opt_loop (toy_os True) segment_os no_device ''2.0.19'' [(Opt (CHR ''t''), [])] (initial_ctl toy_numa) = Some (Go, t)"
    by (simp add: opt_step_def)
  from do_shm_never_set [OF t] t show ?thesis by blast
qed

text \<open>\<open>--weighted-interleave\<close> on shared memory is plain interleaving: the calls made and the state of the
  library are those of \<open>--interleave\<close>; only the policy that is remembered for \<open>--verify\<close> differs.\<close>

theorem weighted_shm_is_plain:
  assumes "opt_interleave K f a (t\<lparr>weighted_interleave := True\<rparr>) = Some t1" "attached t"
  shows "\<exists>t2. opt_interleave K f a (t\<lparr>weighted_interleave := False\<rparr>) = Some t2 \<and> lib t1 = lib t2 \<and>
    segment t1 = segment t2 \<and> set_policy t1 = MPOL_WEIGHTED_INTERLEAVE \<and> set_policy t2 = MPOL_INTERLEAVE"
proof -
  note c = opt_interleave_attached [OF assms(2), of K f a]
  obtain t0 m u where u: "checknuma K t = Some t0" "node_argument K f a t0 = Some (m, u)"
    using assms(1) unfolding c by (auto simp: bind_Some_iff)
  from assms(1) obtain s where s: "set_policy u = - 1" "numa_interleave_memory_v2 K (shmptr (segment u)) (shmlen (segment u)) m (lib u) = Some s"
    "errno s = E0" "lib t1 = s" "segment t1 = segment u" "set_policy t1 = MPOL_WEIGHTED_INTERLEAVE"
    unfolding c using u by (auto simp: setpolicy_def on_lib_def checkerror_def bind_Some_iff split: if_splits)
  show ?thesis
    unfolding c using u s by (simp add: setpolicy_def on_lib_def checkerror_def)
qed

text \<open>The sample library with a segment of one page attached.\<close>

definition attached_ctl :: "toy ctl" where
  "attached_ctl = (initial_ctl toy_numa)\<lparr>segment := initial_shm\<lparr>shmfd := 3, shmlen := 4096\<rparr>\<rparr>"

lemma toy_list: "\<exists>m. numa_parse_nodestring (toy_os True) no_device (show_spec False False [(0, None)]) toy_numa = Some (Some m, toy_numa)"
proof -
  have "\<forall>x \<in> set [(0, None)]. item_ok False (toy_mask 64 [0, 1]) x" by (simp add: item_ok_def node_of_nr_def toy_isbitset)
  from parse_nodestring_show [OF toy_wf toy_malloc [of True] _ this, of no_device False] show ?thesis
    by (auto simp: numa_parse_nodestring_def toy_mask_bits)
qed

lemma weighted_shm_is_plain_witness:
  "\<exists>t1 t2. opt_interleave (toy_os True) no_device (show_spec False False [(0, None)]) (attached_ctl\<lparr>weighted_interleave := True\<rparr>) = Some t1 \<and>
    opt_interleave (toy_os True) no_device (show_spec False False [(0, None)]) (attached_ctl\<lparr>weighted_interleave := False\<rparr>) = Some t2 \<and>
    lib t1 = lib t2 \<and> set_policy t1 = MPOL_WEIGHTED_INTERLEAVE \<and> set_policy t2 = MPOL_INTERLEAVE"
proof -
  let ?a = "show_spec False False [(0, None)]"
  obtain m where m: "numa_parse_nodestring (toy_os True) no_device ?a toy_numa = Some (Some m, toy_numa)" using toy_list by blast
  have att: "attached attached_ctl" by (simp add: attached_def attached_ctl_def)
  have arg: "?a \<noteq> ''same''" by (simp add: show_spec_def) code_simp
  have fields: "lib attached_ctl = toy_numa" "\<not> parse_all attached_ctl" "\<not> numa_checked attached_ctl" "set_policy attached_ctl = - 1"
    "shmlen (segment attached_ctl) = 4096" by (simp_all add: attached_ctl_def initial_ctl_def)
  have bind: "os_mbind (toy_os True) w a 4096 p ws n fl = Inr w" for w a p ws n fl by (simp add: toy_os_def)
  have "\<exists>t1. opt_interleave (toy_os True) no_device ?a (attached_ctl\<lparr>weighted_interleave := True\<rparr>) = Some t1"
    unfolding opt_interleave_attached [OF att]
    using m arg by (simp add: checknuma_def toy_available fields node_argument_eq setpolicy_def on_lib_def
        numa_interleave_memory_v2_def dombind_def mbind_def bind checkerror_def)
  then obtain t1 where t1: "opt_interleave (toy_os True) no_device ?a (attached_ctl\<lparr>weighted_interleave := True\<rparr>) = Some t1" by blast
  from weighted_shm_is_plain [OF t1 att] t1 show ?thesis by blast
qed

section \<open>Reports\<close>

text \<open>C12: the list of nodes in the report of the hardware is a node list: given back to the parser it denotes
  the nodes that were listed, when the task may use them.\<close>

theorem node_list_parses:
  assumes "numa_wf s" "malloc_succeeds K" "numa_all_nodes_ptr s = Some al" "bm_bits nodes \<subseteq> bm_bits al"
    and "0 \<le> maxnode" "nat maxnode \<in> bm_bits nodes" "\<forall>i \<in> bm_bits nodes. int i \<le> maxnode"
  shows "\<exists>m. numa_parse_nodestring K f (node_list maxnode nodes) s = Some (Some m, s) \<and> bm_bits m = bm_bits nodes"
proof -
  from node_list_ranges [OF assms(5,6)] obtain rs where rs: "rs \<noteq> []" "node_list maxnode nodes = show_items (map range_item rs)"
    "ranges_set rs = {i \<in> bm_bits nodes. int i \<le> maxnode}" "\<forall>(a, b) \<in> set rs. a \<le> b" by blast
  have set: "ranges_set rs = bm_bits nodes" unfolding rs(3) using assms(7) by blast
  have al: "bm_size al \<le> nat (nodemask_sz s)" "int (bm_size al) = nodemask_sz s" "nodemask_sz s < 2 ^ 31"
    using assms(1,3) by (auto simp: numa_wf_def elim: mask_okE)
  then have "int (bm_size al) < 2 ^ 31" by linarith
  then have "bm_size al < 2 ^ 31" by simp
  note items = range_items_parse [OF _ rs(4) this, unfolded set, OF assms(4)]
  have shown: "show_spec False False (map range_item rs) = node_list maxnode nodes"
    by (simp add: show_spec_def rs(2))
  from parse_nodestring_show [OF assms(1,2) al(1) items(1), of f False] rs(1) show ?thesis
    unfolding shown items(2) by (auto simp: numa_parse_nodestring_def assms(3))
qed

lemma node_list_parses_witness:
  "\<exists>m. numa_parse_nodestring (toy_os True) no_device (node_list 1 (toy_mask 64 [0, 1])) toy_numa = Some (Some m, toy_numa) \<and>
    bm_bits m = bm_bits (toy_mask 64 [0, 1])"
  by (rule node_list_parses [OF toy_wf toy_malloc toy_numa_fields(13)]) (auto simp: toy_mask_bits(3) simp del: mem_bm_bits)

text \<open>C30: the compressed list of CPUs consists of the maximal ranges of the mask, and the count that follows it
  is the number of CPUs.\<close>

theorem cpu_ranges_exact:
  "\<exists>rs. cpu_ranges cpus 0 0 0 [] = (print_ranges 0 rs, card (bm_bits cpus)) \<and> maximal_ranges (bm_bits cpus) rs"
  using cpu_ranges_run [of 0 cpus 0 0 "[]"] by (simp del: mem_bm_bits)

text \<open>The short option string fits the buffer that \<open>main\<close> gives it, two characters per entry of the table
  (with its end marker) and one more, whatever the table.\<close>

theorem short_opts_fit: "length (get_short_opts l) + 1 \<le> (length l + 1) * 2 + 1 \<and>
    get_short_opts opts = ''+ai:w:p:P:c:N:C:m:slbHS:f:o:L:tM:dDI:uTV''"
proof -
  have two: "length (short_opt r) \<le> 2" for r by (simp split: opt_val.split)
  have "length (concat (map short_opt l)) \<le> 2 * length l"
  proof (induction l)
    case (Cons r l)
    then show ?case using two [of r] by (simp del: short_opt.simps)
  qed simp
  moreover have "get_short_opts opts = ''+ai:w:p:P:c:N:C:m:slbHS:f:o:L:tM:dDI:uTV''" by code_simp
  ultimately show ?thesis by (simp add: get_short_opts_def)
qed

end
