(* ===== verification/Stdio.thy ===== *)
theory Stdio
  imports CString Complex_Main "HOL-Library.Log_Nat"
begin

text \<open>
  The part of the C library that \<open>numastat\<close> reads and prints with: \<open>fgets\<close> into a buffer of a given size,
  \<open>strtok\<close>, \<open>atoi\<close>, and the type \<open>double\<close>.  A double is the rational number it stands for; every
  operation rounds its exact result to 53 bits, to the nearest, ties to even.  The range of the exponent is not
  limited: the numbers of the program are counts of pages and bytes.  Zero has no sign.
\<close>

section \<open>Reading lines\<close>

text \<open>\<open>fgets\<close> reads at most one character less than the size of the buffer, and stops after a newline.  What
  the program then sees as a string ends at the first NUL.\<close>

fun chunk :: "nat \<Rightarrow> string \<Rightarrow> string \<times> string" where
  "chunk n [] = ([], [])"
| "chunk n (c # cs) =
     (if n = 0 then ([], c # cs)
      else if c = CHR 0x0A then ([c], cs) else let (a, b) = chunk (n - 1) cs in (c # a, b))"

lemma chunk_append: "chunk n s = (a, b) \<Longrightarrow> a @ b = s"
  by (induction n s arbitrary: a b rule: chunk.induct) (auto split: if_splits prod.splits)

lemma chunk_length: "chunk n s = (a, b) \<Longrightarrow> length a \<le> n"
  by (induction n s arbitrary: a b rule: chunk.induct) (auto split: if_splits prod.splits)

lemma chunk_progress: "chunk (Suc n) (c # cs) = (a, b) \<Longrightarrow> length b < Suc (length cs)"
  using chunk_append [of "Suc n" "c # cs" a b] by (auto split: if_splits prod.splits dest: chunk_append)

function fgets_chunks :: "nat \<Rightarrow> string \<Rightarrow> string list" where
  "fgets_chunks n s =
     (if n = 0 \<or> s = [] then [] else let (a, b) = chunk n s in a # fgets_chunks n b)"
  by pat_completeness auto
termination
proof (relation "measure (\<lambda>(n, s). length s)")
  show "wf (measure (\<lambda>(n, s :: string). length s))" by simp
  fix n :: nat and s x a b
  assume "\<not> (n = 0 \<or> s = [])" "x = chunk n s" "(a, b) = x"
  then show "((n, b), n, s) \<in> measure (\<lambda>(n, s). length s)"
    by (cases n; cases s) (auto dest!: chunk_progress [OF sym] simp del: chunk.simps)
qed

declare fgets_chunks.simps [simp del]

definition c_string :: "string \<Rightarrow> string" where
  "c_string = takeWhile (\<lambda>c. c \<noteq> CHR 0x00)"

definition fgets_lines :: "nat \<Rightarrow> string \<Rightarrow> string list" where
  "fgets_lines n s = map c_string (fgets_chunks (n - 1) s)"

lemma length_c_string: "length (c_string s) \<le> length s"
  by (simp add: c_string_def length_takeWhile_le)

lemma fgets_chunks_length: "l \<in> set (fgets_chunks n s) \<Longrightarrow> length l \<le> n"
proof (induction n s rule: fgets_chunks.induct)
  case (1 n s)
  then show ?case
    by (subst (asm) (2) fgets_chunks.simps) (auto split: if_splits prod.splits dest: chunk_length [OF sym] chunk_length)
qed

lemma fgets_lines_length: "l \<in> set (fgets_lines n s) \<Longrightarrow> length l \<le> n - 1"
  unfolding fgets_lines_def
  by (auto dest!: fgets_chunks_length intro: order_trans [OF length_c_string])

text \<open>A line that fits into the buffer is read in one piece.\<close>

lemma chunk_line:
  assumes "CHR 0x0A \<notin> set l" "length l < n"
  shows "chunk n (l @ CHR 0x0A # rest) = (l @ [CHR 0x0A], rest)"
  using assms
proof (induction l arbitrary: n)
  case Nil
  then show ?case by (cases n) auto
next
  case (Cons c l)
  then show ?case by (cases n) auto
qed

lemma fgets_chunks_line:
  assumes "CHR 0x0A \<notin> set l" "length l < n"
  shows "fgets_chunks n (l @ CHR 0x0A # rest) = (l @ [CHR 0x0A]) # fgets_chunks n rest"
  using assms by (subst fgets_chunks.simps) (auto simp: chunk_line)

lemma fgets_lines_concat:
  assumes "\<And>l. l \<in> set ls \<Longrightarrow> CHR 0x0A \<notin> set l \<and> CHR 0x00 \<notin> set l \<and> length l < n - 1"
  shows "fgets_lines n (concat (map (\<lambda>l. l @ [CHR 0x0A]) ls)) = map (\<lambda>l. l @ [CHR 0x0A]) ls"
  using assms
proof (induction ls)
  case Nil
  then show ?case by (simp add: fgets_lines_def fgets_chunks.simps)
next
  case (Cons l ls)
  have "takeWhile (\<lambda>c. c \<noteq> CHR 0x00) (l @ [CHR 0x0A]) = l @ [CHR 0x0A]"
    using Cons.prems [of l] by (auto simp: takeWhile_eq_all_conv)
  then show ?case
    using Cons by (simp add: fgets_lines_def fgets_chunks_line c_string_def)
qed

section \<open>Tokens\<close>

text \<open>The tokens that repeated calls of \<open>strtok\<close> with the same delimiters deliver.\<close>

function strtok_all :: "(char \<Rightarrow> bool) \<Rightarrow> string \<Rightarrow> string list" where
  "strtok_all d s =
     (let s' = dropWhile d s in
      if s' = [] then [] else takeWhile (Not \<circ> d) s' # strtok_all d (dropWhile (Not \<circ> d) s'))"
  by pat_completeness auto
termination
proof (relation "measure (\<lambda>(d, s). length s)")
  show "wf (measure (\<lambda>(d :: char \<Rightarrow> bool, s :: string). length s))" by simp
  fix d and s s' :: string
  assume "s' = dropWhile d s" "s' \<noteq> []"
  then have "length (dropWhile (Not \<circ> d) s') < length s'"
    by (intro length_dropWhile_less) (auto simp: hd_dropWhile)
  also have "length s' \<le> length s" using \<open>s' = dropWhile d s\<close> by (simp add: length_dropWhile_le)
  finally show "((d, dropWhile (Not \<circ> d) s'), d, s) \<in> measure (\<lambda>(d, s). length s)" by simp
qed

declare strtok_all.simps [simp del]

lemma strtok_all_unfold:
  "strtok_all d s =
     (if dropWhile d s = [] then []
      else takeWhile (Not \<circ> d) (dropWhile d s) # strtok_all d (dropWhile (Not \<circ> d) (dropWhile d s)))"
  by (subst strtok_all.simps) (simp only: Let_def)

lemma strtok_all_token:
  assumes "t \<in> set (strtok_all d s)"
  shows "t \<noteq> [] \<and> (\<forall>c \<in> set t. \<not> d c)"
  using assms
proof (induction d s rule: strtok_all.induct)
  case (1 d s)
  let ?s = "dropWhile d s"
  from 1(2) have ne: "?s \<noteq> []" by (subst (asm) strtok_all_unfold) (metis empty_iff list.set(1))
  then have t: "t = takeWhile (Not \<circ> d) ?s \<or> t \<in> set (strtok_all d (dropWhile (Not \<circ> d) ?s))"
    using 1(2) by (subst (asm) strtok_all_unfold) (simp only: if_False set_simps insert_iff)
  have "\<not> d (hd ?s)" using ne by (rule hd_dropWhile)
  then have "takeWhile (Not \<circ> d) ?s \<noteq> []" using ne by (cases ?s) simp_all
  moreover have "\<forall>c \<in> set (takeWhile (Not \<circ> d) ?s). \<not> d c" by (auto dest: set_takeWhileD)
  ultimately show ?case using t 1(1) [OF refl ne] by metis
qed

lemma strtok_all_one:
  assumes "t \<noteq> []" "\<forall>c \<in> set t. \<not> d c" "d c"
  shows "strtok_all d (t @ c # rest) = t # strtok_all d (c # rest)"
proof -
  have "dropWhile d (t @ c # rest) = t @ c # rest" using assms by (cases t) auto
  moreover have "takeWhile (Not \<circ> d) (t @ c # rest) = t" "dropWhile (Not \<circ> d) (t @ c # rest) = c # rest"
    using assms by (auto simp: takeWhile_append2 dropWhile_append2)
  ultimately show ?thesis using assms by (subst strtok_all_unfold) auto
qed

lemma strtok_all_skip: "d c \<Longrightarrow> strtok_all d (c # rest) = strtok_all d rest"
  by (subst (1 2) strtok_all_unfold) simp

lemma strtok_all_Nil [simp]: "strtok_all d [] = []"
  by (subst strtok_all_unfold) simp

text \<open>\<open>strtok\<close> leaves out at least one character between two tokens.\<close>

lemma strtok_all_count: "2 * length (strtok_all d s) \<le> length s + 1"
proof (induction "length s" arbitrary: s rule: less_induct)
  case less
  let ?s = "dropWhile d s"
  let ?r = "dropWhile (Not \<circ> d) ?s"
  have le: "length ?s \<le> length s" by (simp add: length_dropWhile_le)
  show ?case
  proof (cases "?s = []")
    case True
    then show ?thesis by (subst strtok_all_unfold) simp
  next
    case False
    have ne: "length ?r < length ?s"
      using False by (intro length_dropWhile_less) (auto simp: hd_dropWhile)
    have e: "strtok_all d s = takeWhile (Not \<circ> d) ?s # strtok_all d ?r"
      using False by (subst strtok_all_unfold) (simp only: if_False)
    show ?thesis
    proof (cases ?r)
      case Nil
      then have "strtok_all d ?r = []" by (simp only: strtok_all_Nil)
      then show ?thesis using e le ne by simp
    next
      case (Cons c r)
      have "d c" using Cons hd_dropWhile [of "Not \<circ> d" ?s] by simp
      then have "strtok_all d ?r = strtok_all d r" using Cons by (simp add: strtok_all_skip)
      then show ?thesis using e le ne Cons less [of r] by simp
    qed
  qed
qed

section \<open>Strings and numbers\<close>

definition starts_with :: "string \<Rightarrow> string \<Rightarrow> bool" where
  "starts_with key s \<longleftrightarrow> take (length key) s = key"

definition atol :: "string \<Rightarrow> int" where
  "atol s = fst (strtol s 10)"

definition atoi :: "string \<Rightarrow> int" where
  "atoi s = c_int (atol s)"

section \<open>Double\<close>

text \<open>The exponent of the leading bit, and the nearest whole number.\<close>

definition top_exp :: "rat \<Rightarrow> int" where
  "top_exp x = (if 1 \<le> x then bitlen \<lfloor>x\<rfloor> - 1 else - bitlen (\<lceil>1 / x\<rceil> - 1))"

definition nearest_even :: "rat \<Rightarrow> int" where
  "nearest_even x =
     (let f = \<lfloor>x\<rfloor>; d = x - of_int f in
      if d < 1 / 2 then f else if 1 / 2 < d then f + 1 else if even f then f else f + 1)"

definition dbl :: "rat \<Rightarrow> rat" where
  "dbl x =
     (if x = 0 then 0
      else let k = top_exp \<bar>x\<bar> - 52 in
        (if 0 \<le> k then of_int (nearest_even (x / 2 ^ nat k)) * 2 ^ nat k
         else of_int (nearest_even (x * 2 ^ nat (- k))) / 2 ^ nat (- k)))"

definition double_of :: "int \<Rightarrow> rat" where
  "double_of n = dbl (of_int n)"

text \<open>\<open>%.*f\<close>.\<close>

fun pad_dec :: "nat \<Rightarrow> nat \<Rightarrow> string" where
  "pad_dec 0 n = []"
| "pad_dec (Suc k) n = pad_dec k (n div 10) @ [digit_char (n mod 10)]"

definition fmt_double :: "nat \<Rightarrow> rat \<Rightarrow> string" where
  "fmt_double places x =
     (let n = nat (nearest_even (\<bar>x\<bar> * 10 ^ places)) in
      (if x < 0 then ''-'' else []) @ dec_nat (n div 10 ^ places) @
      (if places = 0 then [] else CHR ''.'' # pad_dec places (n mod 10 ^ places)))"

text \<open>A quotient may be infinite or no number at all; the default NaN of the platform is printed with a sign.\<close>

datatype fp = Finite rat | Infinite bool | NaN

definition fdiv :: "rat \<Rightarrow> rat \<Rightarrow> fp" where
  "fdiv x y = (if y \<noteq> 0 then Finite (dbl (x / y)) else if x = 0 then NaN else Infinite (x < 0))"

primrec fmt_fp :: "nat \<Rightarrow> fp \<Rightarrow> string" where
  "fmt_fp places (Finite x) = fmt_double places x"
| "fmt_fp places (Infinite neg) = (if neg then ''-inf'' else ''inf'')"
| "fmt_fp places NaN = ''-nan''"

text \<open>The conversion to \<open>int\<close> truncates, and is undefined outside the range.\<close>

definition int_of_double :: "rat \<Rightarrow> int option" where
  "int_of_double x =
     (let n = (if 0 \<le> x then \<lfloor>x\<rfloor> else \<lceil>x\<rceil>) in if - (2 ^ 31) \<le> n \<and> n < 2 ^ 31 then Some n else None)"

section \<open>Exact doubles\<close>

lemma nearest_even_int [simp]: "nearest_even (of_int n) = n"
  by (simp add: nearest_even_def Let_def)

text \<open>A multiple of a power of two with at most 53 binary digits is not rounded.\<close>

lemma dbl_exact:
  assumes "x = of_int m / 2 ^ j" "\<bar>x\<bar> < 2 ^ (53 - j)" "j \<le> 52"
  shows "dbl x = x"
proof (cases "x = 0")
  case False
  have t: "top_exp \<bar>x\<bar> \<le> 52 - int j"
  proof (cases "1 \<le> \<bar>x\<bar>")
    case True
    have "\<lfloor>\<bar>x\<bar>\<rfloor> < 2 ^ (53 - j)" using assms(2) by (simp add: floor_less_iff)
    then have "bitlen \<lfloor>\<bar>x\<bar>\<rfloor> \<le> int (53 - j)" using True by (subst bitlen_le_iff_power) simp_all
    then show ?thesis using True assms(3) by (simp add: top_exp_def)
  next
    case less: False
    show ?thesis using less assms(3) bitlen_nonneg [of "\<lceil>1 / \<bar>x\<bar>\<rceil> - 1"] by (simp add: top_exp_def)
  qed
  let ?k = "top_exp \<bar>x\<bar> - 52"
  show ?thesis
  proof (cases "0 \<le> ?k")
    case True
    then have "j = 0" "?k = 0" using t by simp_all
    then show ?thesis using False assms(1) by (simp add: dbl_def Let_def)
  next
    case neg: False
    have "j \<le> nat (- ?k)" using t by simp
    then obtain d where d: "nat (- ?k) = j + d" using le_Suc_ex by blast
    have "x * 2 ^ (j + d) = of_int (m * 2 ^ d)" by (simp add: assms(1) power_add)
    then have "x * 2 ^ nat (- ?k) = of_int (m * 2 ^ d)" by (simp only: d)
    then have "nearest_even (x * 2 ^ nat (- ?k)) = m * 2 ^ d" by (simp only: nearest_even_int)
    then have "of_int (nearest_even (x * 2 ^ nat (- ?k))) / 2 ^ nat (- ?k) = x"
      unfolding d by (simp add: assms(1) power_add)
    then show ?thesis using neg False by (simp add: dbl_def Let_def)
  qed
qed (simp add: dbl_def)

end
