(* ===== verification/Table.thy ===== *)
theory Table
  imports Stdio "HOL-Library.Multiset"
begin

unbundle bit_operations_syntax

text \<open>
  The table code of \<open>numastat\<close> (\<open>numastat.c\<close> lines 146-576): cells of several types, flags of rows and columns,
  the order of the rows, and the display that folds the columns to the width of the screen.  A table is the record
  of its arrays; a cell is addressed through one array of all cells, so a column index past the end is a cell of
  the next row, as in the source.  An access outside an array is \<open>None\<close>.
\<close>

section \<open>Cells\<close>

text \<open>The type and the union are one datatype.  The string of a cell is a pointer that may be NULL; the eight
  characters of a \<open>CHAR8\<close> cell are kept as they are.\<close>

datatype cell_data =
    CELL_NULL | CELL_LONG int | CELL_DOUBLE rat | CELL_STRING "string option" | CELL_CHAR8 string
  | CELL_REPCHAR char | CELL_OTHER nat

record cell =
  content :: cell_data
  flags :: uint

definition CELL_FLAG_FREEABLE :: uint where "CELL_FLAG_FREEABLE = 1"

definition SMALL_BUF_SIZE :: nat where "SMALL_BUF_SIZE = 128"
definition USUAL_GUTTER_WIDTH :: nat where "USUAL_GUTTER_WIDTH = 1"

definition COL_JUSTIFY_LEFT :: "8 word" where "COL_JUSTIFY_LEFT = 1"
definition COL_JUSTIFY_RIGHT :: "8 word" where "COL_JUSTIFY_RIGHT = 2"
definition COL_JUSTIFY_MASK :: "8 word" where "COL_JUSTIFY_MASK = 3"
definition FLAG_SEEN_DATA :: "8 word" where "FLAG_SEEN_DATA = 4"
definition FLAG_NON_ZERO_DATA :: "8 word" where "FLAG_NON_ZERO_DATA = 8"
definition FLAG_ALWAYS_SHOW :: "8 word" where "FLAG_ALWAYS_SHOW = 16"

text \<open>The cell that \<open>memset(0)\<close> and the assignment of a type number leave.\<close>

definition zero_content :: "nat \<Rightarrow> cell_data" where
  "zero_content type =
     (if type = 0 then CELL_NULL else if type = 1 then CELL_LONG 0 else if type = 2 then CELL_DOUBLE 0
      else if type = 3 then CELL_STRING None else if type = 4 then CELL_CHAR8 (replicate 8 (CHR 0x00))
      else if type = 5 then CELL_REPCHAR (CHR 0x00) else CELL_OTHER type)"

definition zero_cell :: "nat \<Rightarrow> cell" where
  "zero_cell type = \<lparr>content = zero_content type, flags = 0\<rparr>"

record vtab =
  header_rows :: nat
  header_cols :: nat
  data_rows :: nat
  data_cols :: nat
  cells :: "cell list"
  row_ix_map :: "nat list"
  row_flags :: "8 word list"
  col_flags :: "8 word list"
  col_width :: "nat list"
  col_decimal_places :: "nat list"

definition all_rows :: "vtab \<Rightarrow> nat" where
  "all_rows t = header_rows t + data_rows t"

definition all_cols :: "vtab \<Rightarrow> nat" where
  "all_cols t = header_cols t + data_cols t"

section \<open>Arrays\<close>

definition elem :: "'a list \<Rightarrow> nat \<Rightarrow> 'a option" where
  "elem xs i = (if i < length xs then Some (xs ! i) else None)"

definition store :: "'a list \<Rightarrow> nat \<Rightarrow> 'a \<Rightarrow> 'a list option" where
  "store xs i x = (if i < length xs then Some (xs[i := x]) else None)"

definition cell_at :: "vtab \<Rightarrow> nat \<Rightarrow> nat \<Rightarrow> cell option" where
  "cell_at t row col = elem (cells t) (row * all_cols t + col)"

definition put_cell :: "nat \<Rightarrow> nat \<Rightarrow> cell \<Rightarrow> vtab \<Rightarrow> vtab option" where
  "put_cell row col c t = do {
     cs \<leftarrow> store (cells t) (row * all_cols t + col) c;
     Some (t\<lparr>cells := cs\<rparr>)
   }"

section \<open>Attributes and assignments\<close>

definition set_row_flag :: "nat \<Rightarrow> 8 word \<Rightarrow> vtab \<Rightarrow> vtab option" where
  "set_row_flag row flag t = do {
     f \<leftarrow> elem (row_flags t) row;
     Some (t\<lparr>row_flags := (row_flags t)[row := f OR flag]\<rparr>)
   }"

definition set_col_flag :: "nat \<Rightarrow> 8 word \<Rightarrow> vtab \<Rightarrow> vtab option" where
  "set_col_flag col flag t = do {
     f \<leftarrow> elem (col_flags t) col;
     Some (t\<lparr>col_flags := (col_flags t)[col := f OR flag]\<rparr>)
   }"

definition test_row_flag :: "vtab \<Rightarrow> nat \<Rightarrow> 8 word \<Rightarrow> bool option" where
  "test_row_flag t row flag = map_option (\<lambda>f. f AND flag \<noteq> 0) (elem (row_flags t) row)"

definition test_col_flag :: "vtab \<Rightarrow> nat \<Rightarrow> 8 word \<Rightarrow> bool option" where
  "test_col_flag t col flag = map_option (\<lambda>f. f AND flag \<noteq> 0) (elem (col_flags t) col)"

definition set_col_justification :: "nat \<Rightarrow> 8 word \<Rightarrow> vtab \<Rightarrow> vtab option" where
  "set_col_justification col justify t = do {
     f \<leftarrow> elem (col_flags t) col;
     Some (t\<lparr>col_flags := (col_flags t)[col := (f AND NOT COL_JUSTIFY_MASK) OR (justify AND COL_JUSTIFY_MASK)]\<rparr>)
   }"

definition set_col_width :: "nat \<Rightarrow> nat \<Rightarrow> vtab \<Rightarrow> vtab option" where
  "set_col_width col width t = do {
     w \<leftarrow> store (col_width t) col (if SMALL_BUF_SIZE \<le> width then SMALL_BUF_SIZE - 1 else width);
     Some (t\<lparr>col_width := w\<rparr>)
   }"

definition set_col_decimal_places :: "nat \<Rightarrow> nat \<Rightarrow> vtab \<Rightarrow> vtab option" where
  "set_col_decimal_places col places t = do {
     d \<leftarrow> store (col_decimal_places t) col places;
     Some (t\<lparr>col_decimal_places := d\<rparr>)
   }"

definition set_cell_flag :: "nat \<Rightarrow> nat \<Rightarrow> uint \<Rightarrow> vtab \<Rightarrow> vtab option" where
  "set_cell_flag row col flag t = do {
     c \<leftarrow> cell_at t row col;
     put_cell row col (c\<lparr>flags := flags c OR flag\<rparr>) t
   }"

definition cell_assign :: "nat \<Rightarrow> nat \<Rightarrow> cell_data \<Rightarrow> vtab \<Rightarrow> vtab option" where
  "cell_assign row col d t = do {
     c \<leftarrow> cell_at t row col;
     put_cell row col (c\<lparr>content := d\<rparr>) t
   }"

definition string_assign :: "nat \<Rightarrow> nat \<Rightarrow> string \<Rightarrow> vtab \<Rightarrow> vtab option" where
  "string_assign row col s = cell_assign row col (CELL_STRING (Some s))"

definition repchar_assign :: "nat \<Rightarrow> nat \<Rightarrow> char \<Rightarrow> vtab \<Rightarrow> vtab option" where
  "repchar_assign row col c = cell_assign row col (CELL_REPCHAR c)"

definition double_assign :: "nat \<Rightarrow> nat \<Rightarrow> rat \<Rightarrow> vtab \<Rightarrow> vtab option" where
  "double_assign row col d = cell_assign row col (CELL_DOUBLE d)"

text \<open>The member \<open>d\<close> of the union: of a cell that is all zeros it is 0.0, of one that holds something else than
  a double it has no meaning.\<close>

definition double_member :: "cell_data \<Rightarrow> rat option" where
  "double_member d =
     (case d of CELL_DOUBLE x \<Rightarrow> Some x | CELL_NULL \<Rightarrow> Some 0
      | CELL_LONG i \<Rightarrow> if i = 0 then Some 0 else None | CELL_STRING None \<Rightarrow> Some 0 | _ \<Rightarrow> None)"

definition double_addto :: "nat \<Rightarrow> nat \<Rightarrow> rat \<Rightarrow> vtab \<Rightarrow> vtab option" where
  "double_addto row col d t = do {
     c \<leftarrow> cell_at t row col;
     x \<leftarrow> double_member (content c);
     put_cell row col (c\<lparr>content := CELL_DOUBLE (dbl (x + d))\<rparr>) t
   }"

text \<open>The two loops that set every data cell to zero; all rows and columns are the sizes the table has.\<close>

definition zero_table_data :: "nat \<Rightarrow> vtab \<Rightarrow> vtab option" where
  "zero_table_data type t =
     foldM (\<lambda>row. foldM (\<lambda>col. put_cell row col (zero_cell type)) [header_cols t..<all_cols t])
       [header_rows t..<all_rows t] t"

section \<open>Tables\<close>

text \<open>The arrays are allocated and cleared; memory is taken not to run out.\<close>

definition init_table :: "nat \<Rightarrow> nat \<Rightarrow> nat \<Rightarrow> nat \<Rightarrow> vtab" where
  "init_table hr hc dr dc =
     \<lparr>header_rows = hr, header_cols = hc, data_rows = dr, data_cols = dc,
      cells = replicate ((hr + dr) * (hc + dc)) (zero_cell 0), row_ix_map = [0..<hr + dr],
      row_flags = replicate (hr + dr) 0, col_flags = replicate (hc + dc) 0,
      col_width = replicate (hc + dc) 0, col_decimal_places = replicate (hc + dc) 0\<rparr>"

text \<open>Freeing gives back the strings that were marked, and leaves zeros behind.\<close>

definition free_cell :: "nat \<Rightarrow> nat \<Rightarrow> string list \<times> vtab \<Rightarrow> (string list \<times> vtab) option" where
  "free_cell row col = (\<lambda>(freed, t). do {
     c \<leftarrow> cell_at t row col;
     let freed = (case content c of
         CELL_STRING (Some s) \<Rightarrow> if flags c AND CELL_FLAG_FREEABLE \<noteq> 0 then freed @ [s] else freed | _ \<Rightarrow> freed);
     t \<leftarrow> put_cell row col (zero_cell 0) t;
     Some (freed, t)
   })"

definition free_table :: "vtab \<Rightarrow> (string list \<times> vtab) option" where
  "free_table t =
     foldM (\<lambda>row. foldM (free_cell row) [0..<all_cols t]) [0..<all_rows t] ([], t)"

section \<open>Sorting the rows\<close>

text \<open>The inner loop keeps the position of the biggest value so far and the value.\<close>

definition row_key :: "vtab \<Rightarrow> nat \<Rightarrow> nat \<Rightarrow> rat option" where
  "row_key t col ix = do {
     row \<leftarrow> elem (row_ix_map t) ix;
     c \<leftarrow> cell_at t row col;
     double_member (content c)
   }"

definition biggest_step :: "vtab \<Rightarrow> nat \<Rightarrow> nat \<Rightarrow> nat \<times> rat \<Rightarrow> (nat \<times> rat) option" where
  "biggest_step t col iy = (\<lambda>(biggest_ix, biggest). do {
     d \<leftarrow> row_key t col iy;
     Some (if biggest < d then (iy, d) else (biggest_ix, biggest))
   })"

definition sort_step :: "nat \<Rightarrow> nat \<Rightarrow> nat \<Rightarrow> vtab \<Rightarrow> vtab option" where
  "sort_step stop_row col ix t = do {
     d \<leftarrow> row_key t col ix;
     (biggest_ix, _) \<leftarrow> foldM (biggest_step t col) [Suc ix..<Suc stop_row] (ix, d);
     Some (if biggest_ix \<noteq> ix
           then t\<lparr>row_ix_map := (row_ix_map t)[ix := row_ix_map t ! biggest_ix, biggest_ix := row_ix_map t ! ix]\<rparr>
           else t)
   }"

definition sort_rows_descending_by_col :: "nat \<Rightarrow> nat \<Rightarrow> nat \<Rightarrow> vtab \<Rightarrow> vtab option" where
  "sort_rows_descending_by_col start_row stop_row col t =
     foldM (sort_step stop_row col) [start_row..<Suc stop_row] t"

section \<open>Formatting a cell\<close>

text \<open>The result is the contents of the static buffer of 128 characters, cut off at \<open>max_width\<close>.  A width of 0
  makes the length that \<open>memset\<close> gets for a repeated character negative; a width that is not below the size of
  the buffer writes behind it.  \<open>%s\<close> with NULL has no meaning.\<close>

definition fmt_cell_data :: "cell \<Rightarrow> nat \<Rightarrow> nat \<Rightarrow> string option" where
  "fmt_cell_data c max_width decimal_places =
     (if SMALL_BUF_SIZE \<le> max_width then None
      else map_option (take max_width)
        (case content c of
           CELL_NULL \<Rightarrow> Some []
         | CELL_LONG l \<Rightarrow> Some (take (SMALL_BUF_SIZE - 1) (dec_int l))
         | CELL_DOUBLE d \<Rightarrow> Some (take (SMALL_BUF_SIZE - 1) (fmt_double decimal_places d))
         | CELL_STRING s \<Rightarrow> map_option (take (SMALL_BUF_SIZE - 1)) s
         | CELL_CHAR8 s \<Rightarrow> Some (c_string (take 8 s))
         | CELL_REPCHAR ch \<Rightarrow>
             if max_width < USUAL_GUTTER_WIDTH then None
             else Some (c_string (replicate (max_width - USUAL_GUTTER_WIDTH) ch))
         | CELL_OTHER _ \<Rightarrow> Some ''Unknown''))"

definition width_step :: "nat \<Rightarrow> nat \<Rightarrow> vtab \<Rightarrow> nat \<Rightarrow> nat \<Rightarrow> nat option" where
  "width_step col max_width t row width = do {
     c \<leftarrow> cell_at t row col;
     case content c of
       CELL_REPCHAR _ \<Rightarrow> Some width
     | _ \<Rightarrow> do {
         places \<leftarrow> elem (col_decimal_places t) col;
         p \<leftarrow> fmt_cell_data c max_width places;
         Some (if width < length p then length p else width)
       }
   }"

definition auto_set_col_width :: "nat \<Rightarrow> nat \<Rightarrow> nat \<Rightarrow> vtab \<Rightarrow> vtab option" where
  "auto_set_col_width col min_width max_width t = do {
     width \<leftarrow> foldM (width_step col max_width t) [0..<all_rows t] min_width;
     let width = width + USUAL_GUTTER_WIDTH;
     let width = (if max_width < width then max_width else width);
     w \<leftarrow> store (col_width t) col (width mod 256);
     Some (t\<lparr>col_width := w\<rparr>)
   }"

text \<open>The row flags are passed and not used.\<close>

definition display_justified_cell :: "cell \<Rightarrow> 8 word \<Rightarrow> 8 word \<Rightarrow> nat \<Rightarrow> nat \<Rightarrow> string option" where
  "display_justified_cell c rflags cflags width decimal_places = do {
     p \<leftarrow> fmt_cell_data c width decimal_places;
     let l = length p;
     let justify = cflags AND COL_JUSTIFY_MASK;
     Some (if justify = COL_JUSTIFY_LEFT then p @ replicate (width - l) (CHR '' '')
           else if justify = COL_JUSTIFY_RIGHT then replicate (width - l) (CHR '' '') @ p
           else let off = (width - l + 1) div 2 in
             replicate off (CHR '' '') @ p @ replicate (width - l - off) (CHR '' ''))
   }"

section \<open>Displaying a table\<close>

text \<open>The flags of rows and columns: data of any type but a repeated character has been seen, and is not all zero
  bits (a string is a pointer).\<close>

definition non_zero_content :: "cell_data \<Rightarrow> bool" where
  "non_zero_content d =
     (case d of CELL_NULL \<Rightarrow> False | CELL_LONG i \<Rightarrow> i \<noteq> 0 | CELL_DOUBLE x \<Rightarrow> x \<noteq> 0 | CELL_STRING s \<Rightarrow> s \<noteq> None
      | CELL_CHAR8 s \<Rightarrow> s \<noteq> replicate 8 (CHR 0x00) | CELL_REPCHAR c \<Rightarrow> c \<noteq> CHR 0x00 | CELL_OTHER _ \<Rightarrow> False)"

definition is_data :: "cell_data \<Rightarrow> bool" where
  "is_data d = (case d of CELL_NULL \<Rightarrow> False | CELL_REPCHAR _ \<Rightarrow> False | _ \<Rightarrow> True)"

definition mark_step :: "nat \<Rightarrow> nat \<Rightarrow> bool \<times> bool \<times> vtab \<Rightarrow> (bool \<times> bool \<times> vtab) option" where
  "mark_step row col = (\<lambda>(some_seen, some_non_zero, t). do {
     c \<leftarrow> cell_at t row col;
     if is_data (content c) then do {
       t \<leftarrow> set_row_flag row FLAG_SEEN_DATA t;
       t \<leftarrow> set_col_flag col FLAG_SEEN_DATA t;
       if non_zero_content (content c) then do {
         t \<leftarrow> set_row_flag row FLAG_NON_ZERO_DATA t;
         t \<leftarrow> set_col_flag col FLAG_NON_ZERO_DATA t;
         Some (True, True, t)
       }
       else Some (True, some_non_zero, t)
     }
     else Some (some_seen, some_non_zero, t)
   })"

definition mark_data :: "vtab \<Rightarrow> (bool \<times> bool \<times> vtab) option" where
  "mark_data t =
     foldM (\<lambda>row. foldM (mark_step row) [header_cols t..<all_cols t]) [header_rows t..<all_rows t] (False, False, t)"

text \<open>What the caller asks for: the four flags of \<open>display_table\<close> and the width of the screen.\<close>

record display =
  screen :: nat
  unseen_rows :: bool
  unseen_cols :: bool
  zero_rows :: bool
  zero_cols :: bool

definition col_shown :: "display \<Rightarrow> vtab \<Rightarrow> nat \<Rightarrow> bool option" where
  "col_shown D t col = do {
     always \<leftarrow> test_col_flag t col FLAG_ALWAYS_SHOW;
     seen \<leftarrow> test_col_flag t col FLAG_SEEN_DATA;
     non_zero \<leftarrow> test_col_flag t col FLAG_NON_ZERO_DATA;
     Some (always \<or> (unseen_cols D \<or> seen) \<and> (zero_cols D \<or> non_zero))
   }"

definition row_shown :: "display \<Rightarrow> vtab \<Rightarrow> nat \<Rightarrow> bool option" where
  "row_shown D t row =
     (if row < header_rows t then Some True
      else do {
        always \<leftarrow> test_row_flag t row FLAG_ALWAYS_SHOW;
        seen \<leftarrow> test_row_flag t row FLAG_SEEN_DATA;
        non_zero \<leftarrow> test_row_flag t row FLAG_NON_ZERO_DATA;
        Some (always \<or> (unseen_rows D \<or> seen) \<and> (zero_rows D \<or> non_zero))
      })"

text \<open>One cell of a line, and the width of the line with it.\<close>

definition line_cell :: "vtab \<Rightarrow> nat \<Rightarrow> nat \<Rightarrow> string \<times> nat \<Rightarrow> (string \<times> nat) option" where
  "line_cell t row col = (\<lambda>(out, cur_line_width). do {
     c \<leftarrow> cell_at t row col;
     rf \<leftarrow> elem (row_flags t) row;
     cf \<leftarrow> elem (col_flags t) col;
     w \<leftarrow> elem (col_width t) col;
     places \<leftarrow> elem (col_decimal_places t) col;
     p \<leftarrow> display_justified_cell c rf cf w places;
     Some (out @ p, cur_line_width + w)
   })"

text \<open>The data columns of a line, from \<open>col\<close> on: the column after the last one that was tried, and the text.\<close>

function line_cells :: "display \<Rightarrow> vtab \<Rightarrow> nat \<Rightarrow> nat \<Rightarrow> string \<times> nat \<Rightarrow> (nat \<times> string) option" where
  "line_cells D t row col ow = do {
     shown \<leftarrow> col_shown D t col;
     ow \<leftarrow> (if shown then line_cell t row col ow else Some ow);
     if all_cols t \<le> col + 1 then Some (col + 1, fst ow)
     else do {
       w \<leftarrow> elem (col_width t) (col + 1);
       if screen D < snd ow + w then Some (col + 1, fst ow) else line_cells D t row (col + 1) ow
     }
   }"
  by pat_completeness auto
termination by (relation "measure (\<lambda>(D, t, row, col, ow). all_cols t - col)") auto

declare line_cells.simps [simp del]

text \<open>One row of a section; \<open>col\<close> is the variable the rows leave the next column in.\<close>

definition section_row :: "display \<Rightarrow> vtab \<Rightarrow> nat \<Rightarrow> nat \<Rightarrow> int \<times> string \<Rightarrow> (int \<times> string) option" where
  "section_row D t data_col row_ix = (\<lambda>(col, out). do {
     row \<leftarrow> elem (row_ix_map t) row_ix;
     shown \<leftarrow> row_shown D t row;
     if \<not> shown then Some (col, out)
     else do {
       ow \<leftarrow> foldM (line_cell t row) [0..<header_cols t] (out, 0);
       (col, out) \<leftarrow> line_cells D t row data_col ow;
       Some (int col, out @ [CHR 0x0A])
     }
   })"

text \<open>The sections.  When no row is displayed, \<open>col\<close> still has its old value, -1 in the first section, and the
  flags of a column -1 are tested.\<close>

partial_function (option) display_sections :: "display \<Rightarrow> vtab \<Rightarrow> int \<Rightarrow> int \<Rightarrow> string \<Rightarrow> string option" where
  "display_sections D t col data_col out =
     (if int (all_cols t) \<le> data_col then Some out
      else if data_col < 0 then None
      else do {
        shown \<leftarrow> col_shown D t (nat data_col);
        if \<not> shown then display_sections D t col (data_col + 1) out
        else do {
          (col, out) \<leftarrow> foldM (section_row D t (nat data_col)) [0..<all_rows t]
            (col, if 0 < col then out @ [CHR 0x0A] else out);
          display_sections D t col col out
        }
      })"

declare display_sections.simps [code]

definition display_table :: "display \<Rightarrow> vtab \<Rightarrow> (string \<times> vtab) option" where
  "display_table D t = do {
     (some_seen, some_non_zero, t) \<leftarrow> mark_data t;
     if \<not> some_seen then Some (''Table has no data.'' @ [CHR 0x0A], t)
     else if \<not> some_non_zero \<and> \<not> zero_rows D \<and> \<not> zero_cols D then
       Some (''Table has no non-zero data.'' @ [CHR 0x0A], t)
     else do {
       out \<leftarrow> display_sections D t (- 1) (int (header_cols t)) [];
       Some (out, t)
     }
   }"

end
