(* ===== verification/TokenIndex.thy ===== *)
theory TokenIndex
  imports Prelude "HOL-Library.Char_ord"
begin

unbundle bit_operations_syntax

text \<open>
  The hash index of \<open>numastat\<close> (\<open>numastat.c\<close> lines 88-140): open addressing with linear probing over a fixed
  number of buckets, from the name of a row to its index.  A bucket is empty or holds a name and an index.  The
  loops have no bound of their own: on a full table they may not end, which is \<open>None\<close>.

  The contract the table is used under is the locale \<open>token_index\<close>; its interpretation discharges the laws for
  the table of the program.
\<close>

definition HASH_TABLE_SIZE :: nat where
  "HASH_TABLE_SIZE = 151"

type_synonym bucket = "(string \<times> int) option"

record hash_state =
  hash_table :: "bucket list"
  hash_collisions :: nat

definition initial_hash :: hash_state where
  "initial_hash = \<lparr>hash_table = replicate HASH_TABLE_SIZE None, hash_collisions = 0\<rparr>"

definition init_hash_table :: "hash_state \<Rightarrow> hash_state" where
  "init_hash_table h = h\<lparr>hash_table := replicate HASH_TABLE_SIZE None\<rparr>"

text \<open>\<open>*s\<close> is a \<open>char\<close>, signed on this platform, and is extended to \<open>unsigned int\<close>.\<close>

definition char_uint :: "char \<Rightarrow> uint" where
  "char_uint c = scast (of_nat (of_char c) :: 8 word)"

definition hash_ix :: "string \<Rightarrow> nat" where
  "hash_ix s = unat (fold (\<lambda>c h. (push_bit 5 h + h) + char_uint c) s 17) mod HASH_TABLE_SIZE"

definition next_bucket :: "nat \<Rightarrow> nat" where
  "next_bucket ix = (let ix = ix + 1 in if HASH_TABLE_SIZE \<le> ix then 0 else ix)"

partial_function (option) lookup_loop :: "bucket list \<Rightarrow> string \<Rightarrow> nat \<Rightarrow> int option" where
  "lookup_loop b s ix =
     (case b ! ix of
        None \<Rightarrow> Some (- 1)
      | Some (name, i) \<Rightarrow> if s = name then Some i else lookup_loop b s (next_bucket ix))"

declare lookup_loop.simps [code]

definition hash_lookup :: "string \<Rightarrow> hash_state \<Rightarrow> int option" where
  "hash_lookup s h = lookup_loop (hash_table h) s (hash_ix s)"

partial_function (option) insert_loop :: "bucket list \<Rightarrow> nat \<Rightarrow> nat \<Rightarrow> (nat \<times> nat) option" where
  "insert_loop b collisions ix =
     (case b ! ix of
        None \<Rightarrow> Some (ix, collisions)
      | Some _ \<Rightarrow> insert_loop b (collisions + 1) (next_bucket ix))"

declare insert_loop.simps [code]

definition hash_insert :: "string \<Rightarrow> int \<Rightarrow> hash_state \<Rightarrow> (nat \<times> hash_state) option" where
  "hash_insert s i h = do {
     (ix, collisions) \<leftarrow> insert_loop (hash_table h) (hash_collisions h) (hash_ix s);
     Some (ix, h\<lparr>hash_table := (hash_table h)[ix := Some (s, i)], hash_collisions := collisions\<rparr>)
   }"

section \<open>The contract\<close>

text \<open>An index over some kind of table: how many more names it takes, the partial map it stands for, and the
  laws of the two operations.  A name that is inserted again keeps its first index.\<close>

locale token_index =
  fixes room :: "'h \<Rightarrow> nat"
    and entries :: "'h \<Rightarrow> string \<Rightarrow> int option"
    and inv :: "'h \<Rightarrow> bool"
    and insert :: "string \<Rightarrow> int \<Rightarrow> 'h \<Rightarrow> 'h option"
    and lookup :: "string \<Rightarrow> 'h \<Rightarrow> int option"
  assumes insert_ok: "inv h \<Longrightarrow> 0 < room h \<Longrightarrow> \<exists>h'. insert s i h = Some h' \<and> inv h' \<and> room h' = room h - 1 \<and>
      entries h' = (entries h)(s := if entries h s = None then Some i else entries h s)"
    and lookup_ok: "inv h \<Longrightarrow> 0 < room h \<Longrightarrow> lookup s h = Some (case entries h s of None \<Rightarrow> - 1 | Some i \<Rightarrow> i)"
begin

lemma insert_all:
  assumes "inv h" "length ts \<le> room h"
  shows "\<exists>h'. foldM (\<lambda>(i, t) h. insert t i h) ts h = Some h' \<and> inv h' \<and> room h' = room h - length ts \<and>
    entries h' = (\<lambda>s. case entries h s of Some i \<Rightarrow> Some i | None \<Rightarrow> map_of (map (\<lambda>(i, t). (t, i)) ts) s)"
  using assms
proof (induction ts arbitrary: h)
  case Nil
  then show ?case by (auto split: option.splits)
next
  case (Cons x ts)
  obtain i t where x: "x = (i, t)" by force
  from Cons.prems have "0 < room h" by simp
  with Cons.prems(1) obtain h1 where h1: "insert t i h = Some h1" "inv h1" "room h1 = room h - 1"
    "entries h1 = (entries h)(t := if entries h t = None then Some i else entries h t)"
    using insert_ok by blast
  have "length ts \<le> room h1" using Cons.prems(2) h1(3) by simp
  from Cons.IH [OF h1(2) this] obtain h2 where "foldM (\<lambda>(i, t) h. insert t i h) ts h1 = Some h2" "inv h2"
    "room h2 = room h1 - length ts"
    "entries h2 = (\<lambda>s. case entries h1 s of Some i \<Rightarrow> Some i | None \<Rightarrow> map_of (map (\<lambda>(i, t). (t, i)) ts) s)"
    by blast
  then show ?case
    using h1 x by (intro exI [of _ h2]) (auto simp: fun_eq_iff split: option.splits)
qed

end

section \<open>The table of the program under the contract\<close>

text \<open>The buckets in the order a name visits them, and the first one on that way that has the name.\<close>

definition way :: "bucket list \<Rightarrow> string \<Rightarrow> bucket list" where
  "way b s = map (\<lambda>k. b ! ((hash_ix s + k) mod HASH_TABLE_SIZE)) [0..<HASH_TABLE_SIZE]"

fun first_match :: "string \<Rightarrow> bucket list \<Rightarrow> int option" where
  "first_match s [] = None"
| "first_match s (None # bs) = None"
| "first_match s (Some (name, i) # bs) = (if s = name then Some i else first_match s bs)"

definition hash_entries :: "hash_state \<Rightarrow> string \<Rightarrow> int option" where
  "hash_entries h s = first_match s (way (hash_table h) s)"

text \<open>The entries on a way; and no bucket before one that holds the name is empty.\<close>

fun somes :: "bucket list \<Rightarrow> (string \<times> int) list" where
  "somes [] = []"
| "somes (None # w) = somes w"
| "somes (Some e # w) = e # somes w"

fun way_ok :: "string \<Rightarrow> bucket list \<Rightarrow> bool" where
  "way_ok s [] = True"
| "way_ok s (None # w) = (s \<notin> fst ` set (somes w))"
| "way_ok s (Some e # w) = way_ok s w"

definition hash_inv :: "hash_state \<Rightarrow> bool" where
  "hash_inv h \<longleftrightarrow> length (hash_table h) = HASH_TABLE_SIZE \<and> (\<forall>s. way_ok s (way (hash_table h) s))"

definition hash_room :: "hash_state \<Rightarrow> nat" where
  "hash_room h = length (filter (\<lambda>x. x = None) (hash_table h))"

lemma HASH_pos [simp]: "0 < HASH_TABLE_SIZE"
  by (simp add: HASH_TABLE_SIZE_def)

lemma hash_ix_less: "hash_ix s < HASH_TABLE_SIZE"
  by (simp add: hash_ix_def)

lemma length_way [simp]: "length (way b s) = HASH_TABLE_SIZE"
  by (simp add: way_def)

lemma nth_way [simp]: "k < HASH_TABLE_SIZE \<Longrightarrow> way b s ! k = b ! ((hash_ix s + k) mod HASH_TABLE_SIZE)"
  by (simp add: way_def)

lemma next_bucket_mod: "next_bucket (n mod HASH_TABLE_SIZE) = Suc n mod HASH_TABLE_SIZE"
proof -
  have "n mod HASH_TABLE_SIZE < HASH_TABLE_SIZE" by simp
  then show ?thesis unfolding next_bucket_def Let_def mod_Suc by (auto simp del: mod_less_divisor)
qed

text \<open>The way of a name visits every bucket once.\<close>

lemma way_index_inj:
  assumes "j < HASH_TABLE_SIZE" "k < HASH_TABLE_SIZE"
    and "(h + j) mod HASH_TABLE_SIZE = (h + k) mod HASH_TABLE_SIZE"
  shows "j = k"
proof -
  have "j = k" if "j \<le> k" "k < HASH_TABLE_SIZE" "(h + k) mod HASH_TABLE_SIZE = (h + j) mod HASH_TABLE_SIZE" for j k
  proof -
    have "HASH_TABLE_SIZE dvd (h + k) - (h + j)" using that by (subst mod_eq_dvd_iff_nat [symmetric]) simp_all
    then have "HASH_TABLE_SIZE dvd k - j" by simp
    moreover have "k - j < HASH_TABLE_SIZE" using that by simp
    ultimately show "j = k" using that(1) by (metis diff_is_0_eq dvd_imp_le le_antisym linorder_not_less neq0_conv)
  qed
  from this [of j k] this [of k j] assms show ?thesis by (metis nle_le)
qed

lemma way_index_ex: "ix < HASH_TABLE_SIZE \<Longrightarrow> \<exists>k < HASH_TABLE_SIZE. (hash_ix s + k) mod HASH_TABLE_SIZE = ix"
proof -
  assume ix: "ix < HASH_TABLE_SIZE"
  let ?k = "(ix + (HASH_TABLE_SIZE - hash_ix s)) mod HASH_TABLE_SIZE"
  have "(hash_ix s + ?k) mod HASH_TABLE_SIZE = (hash_ix s + (ix + (HASH_TABLE_SIZE - hash_ix s))) mod HASH_TABLE_SIZE"
    by (simp add: mod_add_right_eq)
  also have "hash_ix s + (ix + (HASH_TABLE_SIZE - hash_ix s)) = ix + HASH_TABLE_SIZE"
    using hash_ix_less [of s] by simp
  finally show ?thesis using ix by (intro exI [of _ ?k]) simp
qed

lemma set_way:
  assumes "length b = HASH_TABLE_SIZE"
  shows "set (way b s) = set b"
proof
  show "set (way b s) \<subseteq> set b" using assms by (auto simp: way_def intro!: nth_mem)
  show "set b \<subseteq> set (way b s)"
  proof
    fix x
    assume "x \<in> set b"
    then obtain ix where "ix < HASH_TABLE_SIZE" "b ! ix = x" using assms by (auto simp: in_set_conv_nth)
    then show "x \<in> set (way b s)" using way_index_ex [of ix s] by (force simp: way_def)
  qed
qed

lemma first_match_stop: "first_match s (xs @ None # ys) = first_match s xs"
  by (induction s xs rule: first_match.induct) simp_all

lemma way_drop:
  "k < HASH_TABLE_SIZE \<Longrightarrow>
   drop k (way b s) = b ! ((hash_ix s + k) mod HASH_TABLE_SIZE) # drop (Suc k) (way b s)"
  using Cons_nth_drop_Suc [of k "way b s"] by simp

text \<open>A lookup follows the way of the name up to the first empty bucket.\<close>

lemma lookup_loop_way:
  assumes "None \<in> set (drop k (way b s))"
  shows "lookup_loop b s ((hash_ix s + k) mod HASH_TABLE_SIZE) =
    Some (case first_match s (drop k (way b s)) of None \<Rightarrow> - 1 | Some i \<Rightarrow> i)"
  using assms
proof (induction "HASH_TABLE_SIZE - k" arbitrary: k)
  case 0
  then show ?case by simp
next
  case (Suc n)
  then have k: "k < HASH_TABLE_SIZE" by linarith
  note d = way_drop [OF k, of b s]
  have n: "next_bucket ((hash_ix s + k) mod HASH_TABLE_SIZE) = (hash_ix s + Suc k) mod HASH_TABLE_SIZE"
    by (simp add: next_bucket_mod)
  show ?case
  proof (cases "b ! ((hash_ix s + k) mod HASH_TABLE_SIZE)")
    case None
    then show ?thesis by (subst lookup_loop.simps) (simp add: d)
  next
    case (Some e)
    then have "None \<in> set (drop (Suc k) (way b s))" using Suc.prems d by auto
    with Suc.hyps have "lookup_loop b s ((hash_ix s + Suc k) mod HASH_TABLE_SIZE) =
        Some (case first_match s (drop (Suc k) (way b s)) of None \<Rightarrow> - 1 | Some i \<Rightarrow> i)"
      by (metis Suc_diff_Suc diff_Suc_Suc k nat.inject)
    moreover obtain name i where "e = (name, i)" by force
    ultimately show ?thesis using Some by (subst lookup_loop.simps) (simp add: d n)
  qed
qed

text \<open>An insertion follows it to the first empty bucket.\<close>

lemma insert_loop_way:
  assumes "m < HASH_TABLE_SIZE" "way b s ! m = None" "\<forall>j < m. way b s ! j \<noteq> None" "k \<le> m"
  shows "insert_loop b c ((hash_ix s + k) mod HASH_TABLE_SIZE) =
    Some ((hash_ix s + m) mod HASH_TABLE_SIZE, c + (m - k))"
  using assms
proof (induction "m - k" arbitrary: k c)
  case 0
  then show ?case by (subst insert_loop.simps) simp
next
  case (Suc n)
  then have k: "k < m" by linarith
  then obtain e where e: "b ! ((hash_ix s + k) mod HASH_TABLE_SIZE) = Some e"
    using Suc.prems by fastforce
  have "insert_loop b (c + 1) ((hash_ix s + Suc k) mod HASH_TABLE_SIZE) =
      Some ((hash_ix s + m) mod HASH_TABLE_SIZE, c + 1 + (m - Suc k))"
    using Suc k by (intro Suc.hyps(1)) simp_all
  then show ?case using e k by (subst insert_loop.simps) (simp add: next_bucket_mod)
qed

lemma first_empty:
  assumes "None \<in> set w"
  obtains m where "m < length w" "w ! m = None" "\<forall>j < m. w ! j \<noteq> None"
proof -
  from assms obtain n where "n < length w \<and> w ! n = None" by (auto simp: in_set_conv_nth)
  then obtain m where m: "m < length w \<and> w ! m = None" and "\<forall>j < m. \<not> (j < length w \<and> w ! j = None)"
    using exists_least_iff [of "\<lambda>n. n < length w \<and> w ! n = None"] by blast
  then have "\<forall>j < m. w ! j \<noteq> None" by (meson order_less_trans)
  with m that show ?thesis by blast
qed

text \<open>What an update of one bucket does to a way.\<close>

lemma way_update:
  assumes "length b = HASH_TABLE_SIZE" "m < HASH_TABLE_SIZE"
  shows "way (b[(hash_ix s + m) mod HASH_TABLE_SIZE := x]) s = (way b s)[m := x]"
proof (rule nth_equalityI)
  fix k
  assume "k < length (way (b[(hash_ix s + m) mod HASH_TABLE_SIZE := x]) s)"
  then have k: "k < HASH_TABLE_SIZE" by simp
  show "way (b[(hash_ix s + m) mod HASH_TABLE_SIZE := x]) s ! k = (way b s)[m := x] ! k"
  proof (cases "k = m")
    case True
    then show ?thesis using assms k by simp
  next
    case False
    then have "(hash_ix s + m) mod HASH_TABLE_SIZE \<noteq> (hash_ix s + k) mod HASH_TABLE_SIZE"
      using way_index_inj [OF assms(2) k] by blast
    then show ?thesis using False k by simp
  qed
qed simp

lemma way_update_other:
  assumes "length b = HASH_TABLE_SIZE" "ix < HASH_TABLE_SIZE"
  obtains m where "m < HASH_TABLE_SIZE" "way b t ! m = b ! ix" "way (b[ix := x]) t = (way b t)[m := x]"
proof -
  obtain m where "m < HASH_TABLE_SIZE" "(hash_ix t + m) mod HASH_TABLE_SIZE = ix"
    using way_index_ex [OF assms(2)] by blast
  with way_update [OF assms(1), of m t x] that [of m] show ?thesis by simp
qed

text \<open>Where no empty bucket comes before the name, empty buckets can be ignored.\<close>

lemma somes_append [simp]: "somes (v @ w) = somes v @ somes w"
  by (induction v rule: somes.induct) simp_all

lemma first_match_somes: "way_ok s w \<Longrightarrow> first_match s w = map_of (somes w) s"
  by (induction s w rule: first_match.induct) (auto simp: map_of_eq_None_iff [symmetric])

text \<open>Filling an empty bucket with another name, and the first empty one with the name itself.\<close>

lemma way_ok_other:
  assumes "way_ok t (v @ None # w)" "s \<noteq> t"
  shows "way_ok t (v @ Some (s, i) # w) \<and>
    map_of (somes (v @ Some (s, i) # w)) t = map_of (somes (v @ None # w)) t"
proof
  have "t \<notin> fst ` set (somes w) \<Longrightarrow> way_ok t w" for w
    by (induction t w rule: way_ok.induct) auto
  with assms show "way_ok t (v @ Some (s, i) # w)"
    by (induction t v rule: way_ok.induct) auto
  show "map_of (somes (v @ Some (s, i) # w)) t = map_of (somes (v @ None # w)) t"
    using assms(2) by (auto simp: map_add_def split: option.split)
qed

lemma way_ok_full: "None \<notin> set v \<Longrightarrow> way_ok s (v @ w) = way_ok s w"
  by (induction s v rule: way_ok.induct) auto

lemma first_match_full:
  "None \<notin> set v \<Longrightarrow> first_match s (v @ Some (s, i) # w) = (case first_match s v of None \<Rightarrow> Some i | Some k \<Rightarrow> Some k)"
  by (induction s v rule: first_match.induct) auto

lemma way_ok_same:
  assumes "way_ok s (v @ None # w)" "None \<notin> set v"
  shows "way_ok s (v @ Some (s, i) # w)"
proof -
  from assms have "s \<notin> fst ` set (somes w)" by (simp add: way_ok_full)
  then have "way_ok s w" by (induction s w rule: way_ok.induct) auto
  then show ?thesis using assms(2) by (simp add: way_ok_full)
qed

lemma room_empty: "0 < hash_room h \<Longrightarrow> None \<in> set (hash_table h)"
  unfolding hash_room_def length_greater_0_conv filter_empty_conv by metis

lemma count_empty_update:
  assumes "k < length b" "b ! k = None"
  shows "length (filter (\<lambda>x. x = None) b) = Suc (length (filter (\<lambda>x. x = None) (b[k := Some e])))"
  using assms
proof (induction b arbitrary: k)
  case (Cons x b)
  then show ?case by (cases k) auto
qed simp

text \<open>One insertion into a table that is not full.\<close>

lemma hash_insert_run:
  assumes "hash_inv h" "0 < hash_room h"
  shows "\<exists>ix h'. hash_insert s i h = Some (ix, h') \<and> hash_inv h' \<and> hash_room h' = hash_room h - 1 \<and>
    hash_entries h' = (hash_entries h)(s := if hash_entries h s = None then Some i else hash_entries h s)"
proof -
  let ?b = "hash_table h"
  from assms have len: "length ?b = HASH_TABLE_SIZE" and ok: "\<And>t. way_ok t (way ?b t)" by (auto simp: hash_inv_def)
  have "None \<in> set ?b" by (rule room_empty [OF assms(2)])
  then have "None \<in> set (way ?b s)" using set_way [OF len] by blast
  then obtain m where m: "m < HASH_TABLE_SIZE" "way ?b s ! m = None" "\<forall>j < m. way ?b s ! j \<noteq> None"
    by (rule first_empty) simp
  define ix where "ix = (hash_ix s + m) mod HASH_TABLE_SIZE"
  have ix: "ix < HASH_TABLE_SIZE" "?b ! ix = None" using m by (simp_all add: ix_def)
  let ?b' = "?b[ix := Some (s, i)]"
  obtain c where ins: "insert_loop ?b (hash_collisions h) (hash_ix s) = Some (ix, c)"
    using insert_loop_way [OF m, of 0 "hash_collisions h"] hash_ix_less [of s] by (simp add: ix_def)
  let ?h = "h\<lparr>hash_table := ?b', hash_collisions := c\<rparr>"
  let ?v = "take m (way ?b s)" and ?w = "drop (Suc m) (way ?b s)"
  have s0: "way ?b s = ?v @ None # ?w" using id_take_nth_drop [of m "way ?b s"] m by simp
  have s1: "way ?b' s = ?v @ Some (s, i) # ?w"
    using way_update [OF len m(1)] upd_conv_take_nth_drop [of m "way ?b s"] m(1) by (simp add: ix_def)
  have full: "None \<notin> set ?v" using m by (auto simp: in_set_conv_nth)
  have other: "way_ok t (way ?b' t) \<and> hash_entries ?h t = hash_entries h t" if t: "t \<noteq> s" for t
  proof -
    obtain k where k: "k < HASH_TABLE_SIZE" "way ?b t ! k = None" "way ?b' t = (way ?b t)[k := Some (s, i)]"
      using way_update_other [OF len ix(1), of t "Some (s, i)"] ix(2) by metis
    have t0: "way ?b t = take k (way ?b t) @ None # drop (Suc k) (way ?b t)"
      using id_take_nth_drop [of k "way ?b t"] k by simp
    have t1: "way ?b' t = take k (way ?b t) @ Some (s, i) # drop (Suc k) (way ?b t)"
      using upd_conv_take_nth_drop [of k "way ?b t"] k by simp
    have "way_ok t (way ?b' t) \<and> map_of (somes (way ?b' t)) t = map_of (somes (way ?b t)) t"
      using way_ok_other [of t "take k (way ?b t)" "drop (Suc k) (way ?b t)" s i] ok [of t] t t0 t1 by metis
    then show ?thesis using ok [of t] by (simp add: hash_entries_def first_match_somes)
  qed
  have same: "way_ok s (way ?b' s)" using way_ok_same [OF _ full] ok [of s] s0 s1 by metis
  have "hash_entries h s = first_match s ?v" unfolding hash_entries_def by (subst s0) (rule first_match_stop)
  then have this_one: "hash_entries ?h s = (if hash_entries h s = None then Some i else hash_entries h s)"
    using first_match_full [OF full, of s i ?w] s1 by (auto simp: hash_entries_def)
  have "way_ok t (way ?b' t)" for t using other [of t] same by (cases "t = s") simp_all
  then have "hash_inv ?h" using len by (simp add: hash_inv_def)
  moreover have "hash_room ?h = hash_room h - 1"
  proof -
    have "length (filter (\<lambda>x. x = None) ?b) = Suc (length (filter (\<lambda>x. x = None) ?b'))"
      using count_empty_update [of ix ?b "(s, i)"] ix len by simp
    then show ?thesis by (simp add: hash_room_def)
  qed
  moreover have "hash_entries ?h = (hash_entries h)(s := if hash_entries h s = None then Some i else hash_entries h s)"
    using other this_one by (auto simp: fun_eq_iff)
  moreover have "hash_insert s i h = Some (ix, ?h)" using ins by (simp add: hash_insert_def)
  ultimately show ?thesis by blast
qed

lemma hash_lookup_run:
  assumes "hash_inv h" "0 < hash_room h"
  shows "hash_lookup s h = Some (case hash_entries h s of None \<Rightarrow> - 1 | Some i \<Rightarrow> i)"
proof -
  have "None \<in> set (hash_table h)" by (rule room_empty [OF assms(2)])
  then have "None \<in> set (drop 0 (way (hash_table h) s))"
    using set_way assms(1) by (auto simp: hash_inv_def)
  from lookup_loop_way [OF this] show ?thesis
    using hash_ix_less [of s] by (simp add: hash_lookup_def hash_entries_def)
qed

interpretation ht: token_index hash_room hash_entries hash_inv "\<lambda>s i h. map_option snd (hash_insert s i h)" hash_lookup
proof
  fix h s i
  assume "hash_inv h" "0 < hash_room h"
  then show "\<exists>h'. map_option snd (hash_insert s i h) = Some h' \<and> hash_inv h' \<and> hash_room h' = hash_room h - 1 \<and>
      hash_entries h' = (hash_entries h)(s := if hash_entries h s = None then Some i else hash_entries h s)"
    using hash_insert_run [of h s i] by force
qed (rule hash_lookup_run)

text \<open>The empty table.\<close>

lemma way_init: "way (replicate HASH_TABLE_SIZE None) s = replicate HASH_TABLE_SIZE None"
  by (rule nth_equalityI) simp_all

lemma somes_replicate [simp]: "somes (replicate n None) = []"
  by (induction n) simp_all

lemma init_hash_table_ok:
  "hash_inv (init_hash_table h) \<and> hash_room (init_hash_table h) = HASH_TABLE_SIZE \<and>
   hash_entries (init_hash_table h) = (\<lambda>s. None)"
proof -
  have "way_ok t (replicate n None)" for t n by (cases n) simp_all
  moreover have "first_match t (replicate n None) = None" for t n by (cases n) simp_all
  ultimately show ?thesis
    by (simp add: hash_inv_def hash_room_def hash_entries_def init_hash_table_def way_init fun_eq_iff)
qed

text \<open>On a full table the search for a name that is not in it never comes to an end.\<close>

lemma next_bucket_less: "next_bucket ix < HASH_TABLE_SIZE"
  by (simp add: next_bucket_def Let_def)

lemma lookup_loop_diverges:
  assumes "length b = HASH_TABLE_SIZE" "\<forall>x \<in> set b. \<exists>name i. x = Some (name, i) \<and> name \<noteq> s" "ix < HASH_TABLE_SIZE"
  shows "lookup_loop b s ix = None"
proof (rule ccontr)
  let ?P = "\<lambda>b s ix (y :: int). \<not> (length b = HASH_TABLE_SIZE \<and>
    (\<forall>x \<in> set b. \<exists>name i. x = Some (name, i) \<and> name \<noteq> s) \<and> ix < HASH_TABLE_SIZE)"
  assume "lookup_loop b s ix \<noteq> None"
  then obtain y where y: "lookup_loop b s ix = Some y" by auto
  have "?P b s ix y"
  proof (rule lookup_loop.raw_induct [of ?P, OF _ y])
    fix f b s ix y
    assume IH: "\<And>b s ix y. f b s ix = Some y \<Longrightarrow> ?P b s ix y"
      and body: "(case b ! ix of None \<Rightarrow> Some (- 1)
        | Some (name, i) \<Rightarrow> if s = name then Some i else f b s (next_bucket ix)) = Some y"
    show "?P b s ix y"
    proof
      assume a: "length b = HASH_TABLE_SIZE \<and>
        (\<forall>x \<in> set b. \<exists>name i. x = Some (name, i) \<and> name \<noteq> s) \<and> ix < HASH_TABLE_SIZE"
      then have "b ! ix \<in> set b" by simp
      with a obtain name i where "b ! ix = Some (name, i)" "name \<noteq> s" by blast
      with body have "f b s (next_bucket ix) = Some y" by simp
      with IH a next_bucket_less show False by blast
    qed
  qed
  with assms show False by blast
qed

lemma somes_set: "set (somes w) = {e. Some e \<in> set w}"
  by (induction w rule: somes.induct) auto

text \<open>A table without room holds a name in every bucket.\<close>

lemma full_lookup_diverges:
  assumes "hash_inv h" "hash_room h = 0" "hash_entries h s = None"
  shows "hash_lookup s h = None"
proof -
  let ?b = "hash_table h"
  from assms(1) have len: "length ?b = HASH_TABLE_SIZE" and ok: "way_ok s (way ?b s)" by (auto simp: hash_inv_def)
  have "map_of (somes (way ?b s)) s = None"
    using assms(3) first_match_somes [OF ok] by (simp add: hash_entries_def)
  then have absent: "Some (s, i) \<notin> set ?b" for i
    using set_way [OF len, of s] by (force simp: map_of_eq_None_iff somes_set)
  have full: "None \<notin> set ?b"
    using assms(2) unfolding hash_room_def length_0_conv filter_empty_conv by blast
  have "\<exists>name i. x = Some (name, i) \<and> name \<noteq> s" if "x \<in> set ?b" for x
  proof (cases x)
    case None
    then show ?thesis using that full by metis
  next
    case (Some e)
    obtain name i where "e = (name, i)" by force
    then show ?thesis using that absent [of i] Some by blast
  qed
  with len show ?thesis
    unfolding hash_lookup_def by (intro lookup_loop_diverges) (simp_all add: hash_ix_less)
qed

end
