(* ===== verification/NumaStat.thy ===== *)
theory NumaStat
  imports Table TokenIndex
begin

unbundle bit_operations_syntax

text \<open>
  The \<open>numastat\<close> command (\<open>numastat.c\<close> lines 577-1475): the options and arguments, the map of the nodes, the
  report of a file of every node, and the report of processes.  The files, directories and the terminal are the
  record \<open>stat_os\<close>; they do not change while the command runs.  The global variables of the file are the record
  \<open>stat\<close>; \<open>stdout\<close> is what has been printed to standard output.  \<open>None\<close> is a process that ends with a failure
  status, does not end, or runs into undefined behaviour; memory is taken not to run out.
\<close>

definition KILOBYTE :: int where "KILOBYTE = 1024"
definition MEGABYTE :: int where "MEGABYTE = 1024 * 1024"
definition BUF_SIZE :: nat where "BUF_SIZE = 2048"
definition PATH_LEN :: nat where "PATH_LEN = 128"
definition DNAME_LEN :: nat where "DNAME_LEN = 64"

text \<open>\<open>st_scandir\<close> delivers names in the order of the directory, \<open>st_opendir\<close> the names with the answer to
  \<open>d_type == DT_DIR\<close>; \<open>st_read_error\<close> tells that \<open>ferror\<close> is set at the end of a file; \<open>st_popen\<close> is the
  output of a command, \<open>st_error\<close> the message of the error that opening a path sets.\<close>

record stat_os =
  st_file :: "string \<Rightarrow> string option"
  st_read_error :: "string \<Rightarrow> bool"
  st_scandir :: "string \<Rightarrow> string list option"
  st_isdir :: "string \<Rightarrow> bool"
  st_opendir :: "string \<Rightarrow> (string \<times> bool) list option"
  st_getenv :: "string \<Rightarrow> string option"
  st_isatty :: bool
  st_popen :: "string \<Rightarrow> string option"
  st_error :: "string \<Rightarrow> string"
  st_getpid :: int
  st_pagesize :: int

record stat =
  node_ix_map :: "int list"
  node_header :: "string list"
  hash_state :: hash_state
  verbose :: bool
  num_pids :: nat
  pid_array :: "int list"
  pid_array_max_pids :: nat
  screen_width :: nat
  show_zero_data :: bool
  compress_display :: bool
  sort_table :: bool
  sort_table_node :: int
  compatibility_mode :: bool
  page_size_in_bytes :: rat
  huge_page_size_in_bytes :: rat
  stdout :: string

definition initial_stat :: stat where
  "initial_stat = \<lparr>node_ix_map = [], node_header = [], hash_state = initial_hash, verbose = False, num_pids = 0,
     pid_array = [], pid_array_max_pids = 0, screen_width = 0, show_zero_data = True, compress_display = False,
     sort_table = False, sort_table_node = - 1, compatibility_mode = False, page_size_in_bytes = 0,
     huge_page_size_in_bytes = 0, stdout = []\<rparr>"

definition num_nodes :: "stat \<Rightarrow> nat" where
  "num_nodes g = length (node_ix_map g)"

definition put_out :: "string \<Rightarrow> stat \<Rightarrow> stat" where
  "put_out out g = g\<lparr>stdout := stdout g @ out\<rparr>"

section \<open>Small readers\<close>

text \<open>With a terminal the width is to come from the first line of \<open>resize\<close>, read with the size of a pointer.\<close>

definition width_of :: "string \<Rightarrow> int" where
  "width_of p = (let width = atoi p in if width < 1 \<or> 10000000 < width then 80 else width)"

definition get_screen_width :: "stat_os \<Rightarrow> nat" where
  "get_screen_width K =
     (let width =
        (case st_getenv K ''NUMASTAT_WIDTH'' of
           Some p \<Rightarrow> width_of p
         | None \<Rightarrow>
             if st_isatty K then
               (case st_popen K ''resize 2>/dev/null'' of
                  None \<Rightarrow> 80
                | Some r \<Rightarrow>
                    (case fgets_lines 8 r of
                       [] \<Rightarrow> 80
                     | columns # _ \<Rightarrow> if starts_with ''COLUMNS='' columns then width_of (drop 8 columns) else 80))
             else 10000000)
      in nat (if width < 32 then 32 else width))"

definition proc_file :: "int \<Rightarrow> string \<Rightarrow> string" where
  "proc_file pid name = ''/proc/'' @ dec_int pid @ ''/'' @ name"

text \<open>The name field of the status file: white space is skipped, a newline at the end removed.\<close>

fun name_field :: "string list \<Rightarrow> string option" where
  "name_field [] = None"
| "name_field (buf # lines) =
     (if starts_with ''Name:'' buf then
        (let p = dropWhile c_isspace (drop 5 buf)
         in Some (if p \<noteq> [] \<and> last p = CHR 0x0A then butlast p else p))
      else name_field lines)"

definition command_name_for_pid :: "stat_os \<Rightarrow> int \<Rightarrow> string option" where
  "command_name_for_pid K pid =
     (case st_file K (proc_file pid ''status'') of
        None \<Rightarrow> None
      | Some t \<Rightarrow> name_field (fgets_lines SMALL_BUF_SIZE t))"

text \<open>\<open>%s\<close> of a null pointer is what glibc prints for it.\<close>

definition pct_s :: "string option \<Rightarrow> string" where
  "pct_s s = (case s of None \<Rightarrow> ''(null)'' | Some s \<Rightarrow> s)"

text \<open>\<open>strtod\<close> of a line of \<open>/proc/meminfo\<close>: decimal digits, at most as many as the pointer has skipped to.  A
  number that goes on with a point, an exponent or as hexadecimal is not modelled.\<close>

definition strtod_digits :: "string \<Rightarrow> rat option" where
  "strtod_digits s =
     (let (v, r) = digits_value 10 0 s in
      if take 1 r \<in> {''.'', ''e'', ''E'', ''x'', ''X''} then None else Some (double_of (int v)))"

fun hugepagesize_lines :: "string list \<Rightarrow> rat option" where
  "hugepagesize_lines [] = Some 0"
| "hugepagesize_lines (buf # lines) =
     (if starts_with ''Hugepagesize'' buf then
        (let p = dropWhile (\<lambda>c. \<not> c_isdigit c) (drop 12 buf) in if p = [] then None else strtod_digits p)
      else hugepagesize_lines lines)"

definition get_huge_page_size_in_bytes :: "stat_os \<Rightarrow> rat option" where
  "get_huge_page_size_in_bytes K = do {
     t \<leftarrow> st_file K ''/proc/meminfo'';
     h \<leftarrow> hugepagesize_lines (fgets_lines SMALL_BUF_SIZE t);
     Some (dbl (h * of_int KILOBYTE))
   }"

section \<open>The report of a file of every node\<close>

text \<open>A directory entry is skipped or adds its pages.  The second call of \<open>strtok\<close> gets the first token, the word
  hugepages, as its delimiters.  A name of 64 characters or more does not fit the copy.\<close>

definition hugepage_kb :: "string \<Rightarrow> string option" where
  "hugepage_kb name = do {
     let d = (\<lambda>c. c \<in> set ''hugepages'');
     let pagesz_str = takeWhile (Not \<circ> d) (dropWhile d (drop 10 name));
     end \<leftarrow> strstr pagesz_str ''kB'';
     Some (take end pagesz_str)
   }"

definition hugepages_entry :: "stat_os \<Rightarrow> string \<Rightarrow> string \<Rightarrow> string \<times> bool \<Rightarrow> rat \<times> stat \<Rightarrow> (rat \<times> stat) option" where
  "hugepages_entry K top_path fname = (\<lambda>(name, is_dir) (sum, g).
     if starts_with ''.'' name \<or> \<not> is_dir \<or> \<not> starts_with ''hugepages-'' name then Some (sum, g)
     else if DNAME_LEN \<le> length name then None
     else do {
       let fpath = take (PATH_LEN - 1) (top_path @ ''/'' @ name @ ''/'' @ fname);
       pagesz_str \<leftarrow> hugepage_kb name;
       let hugepage_size = of_int (fst (strtol pagesz_str 10)) * (of_int KILOBYTE :: ulong);
       case st_file K fpath of
         None \<Rightarrow> Some (sum, put_out (''cannot open '' @ fpath @ '': '' @ st_error K fpath @ [CHR 0x0A]) g)
       | Some t \<Rightarrow>
           let nr_pages = (case fgets_lines SMALL_BUF_SIZE t of
               [] \<Rightarrow> 0 | buf # _ \<Rightarrow> (of_nat (fst (strtoul buf 10)) :: ulong))
           in Some (dbl (sum + double_of (uint (nr_pages * hugepage_size))), g)
     })"

definition update_hugepages_info :: "stat_os \<Rightarrow> int \<Rightarrow> string \<Rightarrow> stat \<Rightarrow> (rat \<times> stat) option" where
  "update_hugepages_info K node_ix token g =
     (case (if starts_with ''HugePages_Total'' token then Some ''nr_hugepages''
            else if starts_with ''HugePages_Free'' token then Some ''free_hugepages''
            else if starts_with ''HugePages_Surp'' token then Some ''surplus_hugepages''
            else None) of
        None \<Rightarrow> Some (- 22, g)
      | Some fname \<Rightarrow>
          let top_path = ''/sys/devices/system/node/node'' @ dec_int node_ix @ ''/hugepages'' in
          if \<not> st_isdir K top_path then Some (- 2, put_out (''invalid path: '' @ top_path @ [CHR 0x0A]) g)
          else (case st_opendir K top_path of
              None \<Rightarrow> Some (- 2, g)
            | Some entries \<Rightarrow> foldM (hugepages_entry K top_path fname) entries (0, g)))"

definition node_file :: "int \<Rightarrow> string \<Rightarrow> string" where
  "node_file node name = ''/sys/devices/system/node/node'' @ dec_int node @ ''/'' @ name"

text \<open>The value of a line in the unit of the report.  With exactly four tokens \<open>tok[4]\<close> has not been set.\<close>

definition info_value :: "stat_os \<Rightarrow> int \<Rightarrow> string list \<Rightarrow> nat \<Rightarrow> stat \<Rightarrow> (rat \<times> stat) option" where
  "info_value K node tok tok_offset g = do {
     num \<leftarrow> elem tok (1 + tok_offset);
     let v = double_of (atol num);
     if compatibility_mode g then Some (v, g)
     else do {
       (v, multiplier, g) \<leftarrow>
         (if length tok < 4 then Some (v, page_size_in_bytes g, g)
          else do {
            tok2 \<leftarrow> elem tok 2;
            if starts_with ''HugePages'' tok2 then do {
              (new, g) \<leftarrow> update_hugepages_info K node tok2 g;
              Some (if 0 < new then (new, 1, g) else (v, huge_page_size_in_bytes g, g))
            }
            else do {
              tok4 \<leftarrow> elem tok 4;
              Some (v, if starts_with ''kB'' tok4 then of_int KILOBYTE else 1, g)
            }
          });
       Some (dbl (dbl (v * multiplier) / of_int MEGABYTE), g)
     }
   }"

text \<open>The label of a row: the first letter and the letters after an underscore are capitals.\<close>

fun capitalize :: "bool \<Rightarrow> string \<Rightarrow> string" where
  "capitalize up [] = []"
| "capitalize up (c # cs) = (let c = (if up then c_toupper c else c) in c # capitalize (c = CHR ''_'') cs)"

definition info_delims :: "char \<Rightarrow> bool" where
  "info_delims c \<longleftrightarrow> c \<in> {CHR '' '', CHR 0x09, CHR 0x0D, CHR 0x0A, CHR '':''}"

text \<open>A line of the file of the first node also makes a row: its name goes into the index and into the left
  column.\<close>

definition first_node_row :: "string \<Rightarrow> string \<Rightarrow> nat \<Rightarrow> vtab \<times> stat \<Rightarrow> (vtab \<times> stat) option" where
  "first_node_row file_name name row = (\<lambda>(t, g). do {
     (_, h) \<leftarrow> hash_insert name (int row) (hash_state g);
     let label = (if compatibility_mode g \<or> starts_with ''meminfo'' file_name then name else capitalize True name);
     t \<leftarrow> string_assign (header_rows t + row) 0 label t;
     Some (t, g\<lparr>hash_state := h\<rparr>)
   })"

definition info_row :: "stat_os \<Rightarrow> string \<Rightarrow> nat \<Rightarrow> nat \<Rightarrow> string \<Rightarrow> nat \<times> vtab \<times> stat \<Rightarrow> (nat \<times> vtab \<times> stat) option" where
  "info_row K file_name tok_offset node_ix buf = (\<lambda>(row, t, g).
     let tok = strtok_all info_delims buf in
     if tok = [] then Some (row, t, g)
     else do {
       name \<leftarrow> elem tok tok_offset;
       (t, g) \<leftarrow> (if node_ix = 0 then first_node_row file_name name row (t, g) else Some (t, g));
       index \<leftarrow> hash_lookup name (hash_state g);
       if index < 0 then Some (row + 1, t, put_out (''Token '' @ name @ '' not in hash table.'' @ [CHR 0x0A]) g)
       else do {
         node \<leftarrow> elem (node_ix_map g) node_ix;
         (v, g) \<leftarrow> info_value K node tok tok_offset g;
         t \<leftarrow> double_assign (header_rows t + nat index) (header_cols t + node_ix) v t;
         t \<leftarrow> double_addto (header_rows t + nat index) (header_cols t + num_nodes g) v t;
         Some (row + 1, t, g)
       }
     })"

definition info_header :: "nat \<Rightarrow> vtab \<times> stat \<Rightarrow> vtab option" where
  "info_header node_ix = (\<lambda>(t, g). do {
     let col = header_cols t + node_ix;
     label \<leftarrow> elem (node_header g) node_ix;
     t \<leftarrow> string_assign 0 col label t;
     t \<leftarrow> (if \<not> compatibility_mode g then do {
              t \<leftarrow> repchar_assign 1 col (CHR ''-'') t;
              set_col_decimal_places col (if compress_display g then 0 else 2) t
            }
            else Some t);
     t \<leftarrow> set_col_width col 16 t;
     set_col_justification col COL_JUSTIFY_RIGHT t
   })"

definition info_node :: "stat_os \<Rightarrow> string \<Rightarrow> nat \<Rightarrow> nat \<Rightarrow> vtab \<times> stat \<Rightarrow> (vtab \<times> stat) option" where
  "info_node K file_name tok_offset node_ix = (\<lambda>(t, g). do {
     t \<leftarrow> info_header node_ix (t, g);
     if node_ix = num_nodes g then Some (t, g)
     else do {
       node \<leftarrow> elem (node_ix_map g) node_ix;
       contents \<leftarrow> st_file K (node_file node file_name);
       (row, t, g) \<leftarrow> foldM (info_row K file_name tok_offset node_ix) (fgets_lines SMALL_BUF_SIZE contents) (0, t, g);
       Some (t, g)
     }
   })"

text \<open>The column to sort by: the option is tested against the number of nodes and then looked up in the map.\<close>

definition sort_col :: "nat \<Rightarrow> stat \<Rightarrow> nat" where
  "sort_col hc g =
     (if sort_table_node g < 0 \<or> int (num_nodes g) \<le> sort_table_node g then hc + num_nodes g
      else nat (int hc + node_ix_map g ! nat (sort_table_node g)))"

definition stat_display :: "stat \<Rightarrow> display" where
  "stat_display g = \<lparr>screen = screen_width g, unseen_rows = False, unseen_cols = False,
     zero_rows = show_zero_data g, zero_cols = show_zero_data g\<rparr>"

definition show_info_from_system_file :: "stat_os \<Rightarrow> string \<Rightarrow> nat \<Rightarrow> stat \<Rightarrow> stat option" where
  "show_info_from_system_file K file_name tok_offset g = do {
     node0 \<leftarrow> elem (node_ix_map g) 0;
     contents \<leftarrow> st_file K (node_file node0 file_name);
     let meminfo_rows = length (fgets_lines SMALL_BUF_SIZE contents);
     let old_style = (if compatibility_mode g then 1 else 0);
     let t = init_table (2 - old_style) 1 meminfo_rows (num_nodes g + 1);
     let g = g\<lparr>hash_state := init_hash_table (hash_state g)\<rparr>;
     t \<leftarrow> set_col_width 0 16 t;
     t \<leftarrow> set_col_justification 0 COL_JUSTIFY_LEFT t;
     (t, g) \<leftarrow> foldM (info_node K file_name tok_offset) [0..<num_nodes g + (1 - old_style)] (t, g);
     t \<leftarrow> (if compress_display g then foldM (\<lambda>col. auto_set_col_width col 4 16) [0..<1 + num_nodes g + 1] t
            else Some t);
     t \<leftarrow> (if sort_table g then
              sort_rows_descending_by_col (header_rows t) (header_rows t + meminfo_rows - 1) (sort_col 1 g) t
            else Some t);
     (out, t) \<leftarrow> display_table (stat_display g) t;
     Some (put_out out g)
   }"

definition show_numastat_info :: "stat_os \<Rightarrow> stat \<Rightarrow> stat option" where
  "show_numastat_info K g =
     show_info_from_system_file K ''numastat'' 0
       (if \<not> compatibility_mode g then put_out ([CHR 0x0A] @ ''Per-node numastat info (in MBs):'' @ [CHR 0x0A]) g else g)"

definition show_system_info :: "stat_os \<Rightarrow> stat \<Rightarrow> stat option" where
  "show_system_info K g =
     show_info_from_system_file K ''meminfo'' 2
       (put_out ([CHR 0x0A] @ ''Per-node system memory usage (in MBs):'' @ [CHR 0x0A]) g)"

section \<open>The report of processes\<close>

text \<open>\<open>process_meminfo\<close>: the categories of memory with the token that marks them and their label.\<close>

definition process_meminfo :: "(string \<times> string) list" where
  "process_meminfo = [(''huge'', ''Huge''), (''heap'', ''Heap''), (''stack'', ''Stack''), (''N'', ''Private'')]"

definition PROCESS_HUGE_INDEX :: nat where "PROCESS_HUGE_INDEX = 0"
definition PROCESS_PRIVATE_INDEX :: nat where "PROCESS_PRIVATE_INDEX = 3"

definition proc_delims :: "char \<Rightarrow> bool" where
  "proc_delims c \<longleftrightarrow> c \<in> {CHR '' '', CHR 0x09, CHR 0x0D, CHR 0x0A}"

definition token_category :: "string \<Rightarrow> nat \<Rightarrow> nat" where
  "token_category p category =
     (if category = PROCESS_PRIVATE_INDEX then
        (case List.find (\<lambda>ix. starts_with (fst (process_meminfo ! ix)) p) [0..<PROCESS_PRIVATE_INDEX] of
           Some ix \<Rightarrow> ix | None \<Rightarrow> category)
      else category)"

text \<open>The search for the node has no bound: past the end of the map it has no meaning.\<close>

definition node_index :: "stat \<Rightarrow> int \<Rightarrow> nat option" where
  "node_index g node = List.find (\<lambda>i. node_ix_map g ! i = node) [0..<num_nodes g]"

text \<open>An amount is added to its cell, to the total of the row, to the total of the column and to the grand
  total.\<close>

definition add_amount :: "nat \<Rightarrow> nat \<Rightarrow> nat \<Rightarrow> nat \<Rightarrow> rat \<Rightarrow> vtab \<Rightarrow> vtab option" where
  "add_amount row col total_row total_col v t = do {
     t \<leftarrow> double_addto row col v t;
     t \<leftarrow> double_addto row total_col v t;
     t \<leftarrow> double_addto total_row col v t;
     double_addto total_row total_col v t
   }"

record line_state =
  category :: nat
  vm_pagesz :: rat

text \<open>A token that begins with N is a node number, an equals sign and a number of pages; it ends the process when
  it is not.  The result is the column of the node and the amount of memory.\<close>

definition token_amount :: "stat \<Rightarrow> string \<Rightarrow> line_state \<Rightarrow> (line_state \<times> (nat \<times> rat) option) option" where
  "token_amount g p l = do {
     let l = l\<lparr>category := token_category p (category l)\<rparr>;
     if take 1 p \<noteq> ''N'' then Some (l, None)
     else do {
       let (n, q) = strtol (drop 1 p) 10;
       if take 1 q \<noteq> ''='' then None
       else do {
         let pages = double_of (fst (strtol (drop 1 q) 10));
         let l = (if vm_pagesz l = 0 then
                    l\<lparr>vm_pagesz := (if category l = PROCESS_HUGE_INDEX then huge_page_size_in_bytes g
                                     else page_size_in_bytes g)\<rparr>
                  else l);
         let v = dbl (dbl (pages * vm_pagesz l) / of_int MEGABYTE);
         i \<leftarrow> node_index g (c_int n);
         Some (l, Some (i, v))
       }
     }
   }"

text \<open>\<open>row_of\<close> is the row of a category.\<close>

definition maps_token :: "stat \<Rightarrow> nat \<Rightarrow> (nat \<Rightarrow> nat) \<Rightarrow> string \<Rightarrow> line_state \<times> vtab \<Rightarrow> (line_state \<times> vtab) option" where
  "maps_token g total_row row_of p = (\<lambda>(l, t). do {
     (l, a) \<leftarrow> token_amount g p l;
     case a of
       None \<Rightarrow> Some (l, t)
     | Some (i, v) \<Rightarrow> do {
         t \<leftarrow> add_amount (row_of (category l)) (header_cols t + i) total_row (header_cols t + num_nodes g) v t;
         Some (l, t)
       }
   })"

definition VM_PGSZ_STR :: string where "VM_PGSZ_STR = ''kernelpagesize_kB=''"

definition line_pagesz :: "string \<Rightarrow> rat" where
  "line_pagesz buf =
     (case strstr buf VM_PGSZ_STR of
        None \<Rightarrow> 0
      | Some k \<Rightarrow> dbl (double_of (fst (strtol (drop (k + length VM_PGSZ_STR) buf) 10)) * of_int KILOBYTE))"

definition maps_line :: "stat \<Rightarrow> nat \<Rightarrow> (nat \<Rightarrow> nat) \<Rightarrow> string \<Rightarrow> vtab \<Rightarrow> vtab option" where
  "maps_line g total_row row_of buf t = do {
     (l, t) \<leftarrow> foldM (maps_token g total_row row_of) (strtok_all proc_delims buf)
       (\<lparr>category = PROCESS_PRIVATE_INDEX, vm_pagesz = line_pagesz buf\<rparr>, t);
     Some t
   }"

definition process_header :: "nat \<Rightarrow> vtab \<times> stat \<Rightarrow> vtab option" where
  "process_header node_ix = (\<lambda>(t, g). do {
     let col = header_cols t + node_ix;
     label \<leftarrow> elem (node_header g) node_ix;
     t \<leftarrow> string_assign 0 col label t;
     t \<leftarrow> repchar_assign 1 col (CHR ''-'') t;
     t \<leftarrow> set_col_width col 16 t;
     t \<leftarrow> set_col_decimal_places col (if compress_display g then 0 else 2) t;
     set_col_justification col COL_JUSTIFY_RIGHT t
   })"

definition show_sub_categories :: "stat \<Rightarrow> bool" where
  "show_sub_categories g \<longleftrightarrow> verbose g \<or> num_pids g = 1"

definition process_rows :: "stat \<Rightarrow> nat" where
  "process_rows g = (if show_sub_categories g then length process_meminfo else num_pids g)"

text \<open>The table of \<open>show_process_info\<close> before the first process: labels, headers, zeros.\<close>

definition process_table :: "stat \<Rightarrow> (vtab \<times> stat) option" where
  "process_table g = do {
     let data_rows = process_rows g;
     let t = init_table 2 1 (data_rows + 2) (num_nodes g + 1);
     t \<leftarrow> string_assign (2 + data_rows + 1) 0 ''Total'' t;
     (t, g) \<leftarrow>
       (if show_sub_categories g then do {
          t \<leftarrow> foldM (\<lambda>row. string_assign (2 + row) 0 (snd (process_meminfo ! row))) [0..<length process_meminfo] t;
          Some (t, g)
        }
        else do {
          t \<leftarrow> string_assign 0 0 ''PID'' t;
          t \<leftarrow> repchar_assign 1 0 (CHR ''-'') t;
          Some (t, put_out ([CHR 0x0A] @ ''Per-node process memory usage (in MBs)'' @ [CHR 0x0A]) g)
        });
     t \<leftarrow> set_col_width 0 16 t;
     t \<leftarrow> set_col_justification 0 COL_JUSTIFY_LEFT t;
     t \<leftarrow> foldM (\<lambda>node_ix t. process_header node_ix (t, g)) [0..<num_nodes g + 1] t;
     t \<leftarrow> zero_table_data 2 t;
     Some (t, g)
   }"

text \<open>What is done for a process before its map is read.\<close>

definition process_label :: "stat_os \<Rightarrow> nat \<Rightarrow> int \<Rightarrow> vtab \<times> stat \<Rightarrow> (vtab \<times> stat) option" where
  "process_label K pid_ix pid = (\<lambda>(t, g).
     let who = dec_int pid @ '' ('' @ pct_s (command_name_for_pid K pid) @ '')'' in
     if show_sub_categories g then do {
       let g = put_out ([CHR 0x0A] @ ''Per-node process memory usage (in MBs) for PID '' @ who @ [CHR 0x0A]) g;
       t \<leftarrow> (if 0 < pid_ix then zero_table_data 2 t else Some t);
       Some (t, g)
     }
     else do {
       t \<leftarrow> string_assign (header_rows t + pid_ix) 0 (take 63 who) t;
       t \<leftarrow> set_cell_flag (header_rows t + pid_ix) 0 CELL_FLAG_FREEABLE t;
       Some (t, g)
     })"

text \<open>Widths, the dashes above the totals, the order of the rows, and the display.\<close>

definition process_display :: "vtab \<times> stat \<Rightarrow> (vtab \<times> stat) option" where
  "process_display = (\<lambda>(t, g). do {
     let data_rows = process_rows g;
     let dash_row = header_rows t + data_rows;
     t \<leftarrow> (if compress_display g then foldM (\<lambda>col. auto_set_col_width col 4 16) [0..<1 + num_nodes g + 1] t
            else auto_set_col_width 0 16 24 t);
     t \<leftarrow> set_row_flag dash_row FLAG_ALWAYS_SHOW t;
     t \<leftarrow> foldM (\<lambda>col. repchar_assign dash_row col (CHR ''-'')) [0..<1 + num_nodes g + 1] t;
     t \<leftarrow> (if sort_table g then
              sort_rows_descending_by_col (header_rows t) (header_rows t + data_rows - 1) (sort_col 1 g) t
            else Some t);
     (out, t) \<leftarrow> display_table (stat_display g) t;
     Some (t, put_out out g)
   })"

text \<open>The body of the loop over the processes.  A process whose map cannot be opened is skipped, with all that is
  left to do in the iteration.\<close>

definition process_pid :: "stat_os \<Rightarrow> nat \<Rightarrow> vtab \<times> stat \<Rightarrow> (vtab \<times> stat) option" where
  "process_pid K pid_ix = (\<lambda>(t, g). do {
     pid \<leftarrow> elem (pid_array g) pid_ix;
     (t, g) \<leftarrow> process_label K pid_ix pid (t, g);
     case st_file K (proc_file pid ''numa_maps'') of
       None \<Rightarrow> Some (t, g)
     | Some contents \<Rightarrow> do {
         let total_row = header_rows t + process_rows g + 1;
         let row_of = (\<lambda>c. if show_sub_categories g then header_rows t + c else header_rows t + pid_ix);
         t \<leftarrow> foldM (maps_line g total_row row_of) (fgets_lines BUF_SIZE contents) t;
         if st_read_error K (proc_file pid ''numa_maps'') then None
         else if show_sub_categories g \<or> pid_ix + 1 = num_pids g then process_display (t, g)
         else Some (t, g)
       }
   })"

definition show_process_info :: "stat_os \<Rightarrow> stat \<Rightarrow> stat option" where
  "show_process_info K g = do {
     (t, g) \<leftarrow> process_table g;
     (t, g) \<leftarrow> foldM (process_pid K) [0..<num_pids g] (t, g);
     Some g
   }"

section \<open>The nodes\<close>

text \<open>\<open>node_and_digits\<close>: the name is the word node and at least one digit, and nothing else.\<close>

definition node_and_digits :: "string \<Rightarrow> bool" where
  "node_and_digits name \<longleftrightarrow> starts_with ''node'' name \<and> drop 4 name \<noteq> [] \<and> list_all c_isdigit (drop 4 name)"

definition smallest_step :: "int list \<Rightarrow> nat \<Rightarrow> nat \<Rightarrow> nat" where
  "smallest_step m iy smallest_ix = (if m ! iy < m ! smallest_ix then iy else smallest_ix)"

definition node_sort_step :: "nat \<Rightarrow> int list \<Rightarrow> int list" where
  "node_sort_step ix m =
     (let smallest_ix = fold (smallest_step m) [Suc ix..<length m] ix in
      if smallest_ix \<noteq> ix then m[ix := m ! smallest_ix, smallest_ix := m ! ix] else m)"

definition sort_nodes :: "int list \<Rightarrow> int list" where
  "sort_nodes m = fold node_sort_step [0..<length m] m"

definition node_label :: "bool \<Rightarrow> int list \<Rightarrow> nat \<Rightarrow> string" where
  "node_label old_style m node_ix =
     (if node_ix = length m then ''Total''
      else if old_style then ''node'' @ dec_int (m ! node_ix) else ''Node '' @ dec_int (m ! node_ix))"

definition init_node_ix_map_and_header :: "stat_os \<Rightarrow> stat \<Rightarrow> stat option" where
  "init_node_ix_map_and_header K g = do {
     entries \<leftarrow> st_scandir K ''/sys/devices/system/node'';
     let names = filter node_and_digits entries;
     if names = [] then None
     else do {
       let m = sort_nodes (map (\<lambda>n. atoi (drop 4 n)) names);
       Some (g\<lparr>node_ix_map := m, node_header := map (node_label (compatibility_mode g) m) [0..<length m + 1]\<rparr>)
     }
   }"

definition free_node_ix_map_and_header :: "stat \<Rightarrow> stat" where
  "free_node_ix_map_and_header g = g\<lparr>node_ix_map := [], node_header := []\<rparr>"

section \<open>Process numbers\<close>

definition all_digits :: "string option \<Rightarrow> bool" where
  "all_digits p = (case p of None \<Rightarrow> False | Some s \<Rightarrow> list_all c_isdigit s)"

definition starts_with_digit :: "string \<Rightarrow> bool" where
  "starts_with_digit name = (case name of [] \<Rightarrow> False | c # _ \<Rightarrow> c_isdigit c)"

text \<open>The array is the list of the numbers stored so far; its capacity doubles, from 32, when it is full.\<close>

definition add_pid_to_list :: "int \<Rightarrow> stat \<Rightarrow> stat" where
  "add_pid_to_list pid g =
     (let g = (if num_pids g < pid_array_max_pids g then g
               else g\<lparr>pid_array_max_pids := 2 * (if pid_array_max_pids g = 0 then 32 else pid_array_max_pids g)\<rparr>)
      in g\<lparr>pid_array := take (num_pids g) (pid_array g) @ [pid], num_pids := num_pids g + 1\<rparr>)"

text \<open>\<open>qsort\<close> with the difference as comparison; where a difference does not fit an \<open>int\<close> it has no meaning.\<close>

definition qsort_pids :: "int list \<Rightarrow> int list option" where
  "qsort_pids xs =
     (if \<forall>a \<in> set xs. \<forall>b \<in> set xs. c_int (a - b) = a - b then Some (sort xs) else None)"

definition dedup_step :: "nat \<Rightarrow> nat \<times> int list \<Rightarrow> nat \<times> int list" where
  "dedup_step ix2 = (\<lambda>(ix1, a).
     if a ! ix2 = a ! ix1 then (ix1, a)
     else let ix1 = ix1 + 1 in (ix1, if ix1 < ix2 then a[ix1 := a ! ix2] else a))"

definition sort_pids_and_remove_duplicates :: "stat \<Rightarrow> stat option" where
  "sort_pids_and_remove_duplicates g =
     (if 1 < num_pids g then do {
        a \<leftarrow> qsort_pids (take (num_pids g) (pid_array g));
        let (ix1, a) = fold dedup_step [1..<num_pids g] (0, a);
        Some (g\<lparr>pid_array := a, num_pids := ix1 + 1\<rparr>)
      }
      else Some g)"

text \<open>The text that is searched: the name of the command, and the command line with blanks for its NULs.\<close>

definition search_text :: "stat_os \<Rightarrow> string \<Rightarrow> string" where
  "search_text K name =
     (let p = (case command_name_for_pid K (atoi name) of None \<Rightarrow> [] | Some p \<Rightarrow> p) in
      case st_file K (''/proc/'' @ name @ ''/cmdline'') of
        None \<Rightarrow> p
      | Some t \<Rightarrow> take (BUF_SIZE - 1) (p @ '' '' @ map (\<lambda>c. if c = CHR 0x00 then CHR '' '' else c) t))"

definition search_step :: "stat_os \<Rightarrow> string \<Rightarrow> string \<Rightarrow> nat \<times> stat \<Rightarrow> nat \<times> stat" where
  "search_step K pattern name = (\<lambda>(found, g).
     if strstr (search_text K name) pattern \<noteq> None \<and> atoi name \<noteq> st_getpid K
     then (found + 1, add_pid_to_list (atoi name) g) else (found, g))"

text \<open>When \<open>/proc\<close> cannot be scanned, the pointer that is freed at the end has no value.\<close>

definition add_pids_from_pattern_search :: "stat_os \<Rightarrow> string \<Rightarrow> stat \<Rightarrow> stat option" where
  "add_pids_from_pattern_search K pattern g = do {
     entries \<leftarrow> st_scandir K ''/proc'';
     let (found, g) = fold (search_step K pattern) (filter starts_with_digit entries) (0, g);
     Some (if found = 0
           then put_out (''Found no processes containing pattern: '' @ [CHR 0x22] @ pattern @ [CHR 0x22, CHR 0x0A]) g
           else g)
   }"

definition add_process_argument :: "stat_os \<Rightarrow> string \<Rightarrow> stat \<Rightarrow> stat option" where
  "add_process_argument K arg g =
     (if all_digits (Some arg) then Some (add_pid_to_list (atoi arg) g) else add_pids_from_pattern_search K arg g)"

section \<open>The command\<close>

text \<open>One option; \<open>Inl\<close> is a process that has ended with success.\<close>

definition stat_option :: "stat_os \<Rightarrow> string \<Rightarrow> char \<times> string option \<Rightarrow> bool \<times> bool \<times> stat \<Rightarrow>
    (string + bool \<times> bool \<times> stat) option" where
  "stat_option K version = (\<lambda>(opt, optarg) (sys, num, g).
     if opt = CHR ''c'' then Some (Inr (sys, num, g\<lparr>compress_display := True\<rparr>))
     else if opt = CHR ''m'' then Some (Inr (True, num, g))
     else if opt = CHR ''n'' then Some (Inr (sys, True, g))
     else if opt = CHR ''p'' then do {
       arg \<leftarrow> optarg;
       g \<leftarrow> add_process_argument K arg g;
       Some (Inr (sys, num, g))
     }
     else if opt = CHR ''s'' then
       let g = g\<lparr>sort_table := True\<rparr> in
       Some (Inr (sys, num, case optarg of
           Some a \<Rightarrow> if all_digits optarg then g\<lparr>sort_table_node := atoi a\<rparr> else g | None \<Rightarrow> g))
     else if opt = CHR ''v'' then Some (Inr (sys, num, g\<lparr>verbose := True\<rparr>))
     else if opt = CHR ''V'' then Some (Inl (stdout g @ version))
     else if opt = CHR ''z'' then Some (Inr (sys, num, g\<lparr>show_zero_data := False\<rparr>))
     else None)"

fun stat_options :: "stat_os \<Rightarrow> string \<Rightarrow> (char \<times> string option) list \<Rightarrow> bool \<times> bool \<times> stat \<Rightarrow>
    (string + bool \<times> bool \<times> stat) option" where
  "stat_options K version [] s = Some (Inr s)"
| "stat_options K version (x # xs) s = do {
     r \<leftarrow> stat_option K version x s;
     case r of Inl out \<Rightarrow> Some (Inl out) | Inr s \<Rightarrow> stat_options K version xs s
   }"

text \<open>The reports, after the options and the arguments have been read.\<close>

definition stat_reports :: "stat_os \<Rightarrow> bool \<Rightarrow> bool \<Rightarrow> stat \<Rightarrow> string option" where
  "stat_reports K sys num g = do {
     g \<leftarrow> init_node_ix_map_and_header K g;
     if compatibility_mode g then do {
       g \<leftarrow> show_numastat_info K g;
       Some (stdout (free_node_ix_map_and_header g))
     }
     else do {
       let g = g\<lparr>page_size_in_bytes := double_of (st_pagesize K)\<rparr>;
       h \<leftarrow> get_huge_page_size_in_bytes K;
       let g = g\<lparr>huge_page_size_in_bytes := h\<rparr>;
       g \<leftarrow> (if 0 < num_pids g then do {
                g \<leftarrow> sort_pids_and_remove_duplicates g;
                show_process_info K g
              }
              else Some g);
       g \<leftarrow> (if sys then show_system_info K g else Some g);
       g \<leftarrow> (if num \<or> num_pids g = 0 \<and> \<not> sys then show_numastat_info K g else Some g);
       Some (stdout (free_node_ix_map_and_header g))
     }
   }"

text \<open>\<open>main\<close>: the output of a process that ends with status 0.  \<open>argc\<close> is the number of arguments with the name of
  the program, \<open>opts\<close> what \<open>getopt_long\<close> delivers, \<open>args\<close> the arguments that are left.\<close>

definition numastat_main :: "stat_os \<Rightarrow> string \<Rightarrow> nat \<Rightarrow> (char \<times> string option) list \<Rightarrow> string list \<Rightarrow> string option" where
  "numastat_main K version argc opts args = do {
     r \<leftarrow> stat_options K version opts (False, False, initial_stat);
     case r of
       Inl out \<Rightarrow> Some out
     | Inr (sys, num, g) \<Rightarrow> do {
         let g = g\<lparr>screen_width := get_screen_width K\<rparr>;
         g \<leftarrow> foldM (add_process_argument K) args g;
         stat_reports K sys num (g\<lparr>compatibility_mode := argc = 1\<rparr>)
       }
   }"

end
