(* ===== verification/Selection.thy ===== *)
theory Selection
  imports Main "HOL-Library.Multiset"
begin

text \<open>
  Selection sort in place, the algorithm of the two sorting loops of \<open>numastat\<close> (the map of the nodes and the order
  of the rows), over any relation that compares two elements.  The locale holds what the loops promise for a
  strict weak order; the theories of the two loops interpret it.
\<close>

text \<open>The position of the best element, the first of equals, of the positions \<open>iys\<close> and a start position; the
  exchange it is found for; and the sort of the positions from \<open>start\<close> to \<open>stop\<close>.\<close>

definition pick :: "('a \<Rightarrow> 'a \<Rightarrow> bool) \<Rightarrow> 'a list \<Rightarrow> nat list \<Rightarrow> nat \<Rightarrow> nat" where
  "pick beats m iys b = fold (\<lambda>iy b. if beats (m ! iy) (m ! b) then iy else b) iys b"

definition exchange :: "('a \<Rightarrow> 'a \<Rightarrow> bool) \<Rightarrow> nat \<Rightarrow> nat \<Rightarrow> 'a list \<Rightarrow> 'a list" where
  "exchange beats stop ix m = (let b = pick beats m [Suc ix..<stop] ix in m[ix := m ! b, b := m ! ix])"

definition selection_sort :: "('a \<Rightarrow> 'a \<Rightarrow> bool) \<Rightarrow> nat \<Rightarrow> nat \<Rightarrow> 'a list \<Rightarrow> 'a list" where
  "selection_sort beats start stop m = fold (exchange beats stop) [start..<stop] m"

lemma length_exchange [simp]: "length (exchange beats stop ix m) = length m"
  by (simp add: exchange_def Let_def)

lemma pick_in: "pick beats m iys b \<in> insert b (set iys)"
  unfolding pick_def by (induction iys arbitrary: b) auto

lemma mset_exchange:
  assumes "ix < length m" "stop \<le> length m"
  shows "mset (exchange beats stop ix m) = mset m"
proof -
  have "pick beats m [Suc ix..<stop] ix < length m"
    using pick_in [of beats m "[Suc ix..<stop]" ix] assms by auto
  then show ?thesis using assms(1) by (simp add: exchange_def Let_def mset_swap)
qed

text \<open>Which values are where after the exchange.\<close>

lemma nth_exchange:
  assumes "ix < stop" "stop \<le> length m" "i < length m"
  shows "exchange beats stop ix m ! i =
    (let b = pick beats m [Suc ix..<stop] ix in if i = b then m ! ix else if i = ix then m ! b else m ! i)"
  using assms by (auto simp: exchange_def Let_def nth_list_update)

locale selection =
  fixes beats :: "'a \<Rightarrow> 'a \<Rightarrow> bool"
  assumes beats_irrefl: "\<not> beats x x"
    and beats_neg_trans: "\<not> beats x y \<Longrightarrow> \<not> beats y z \<Longrightarrow> \<not> beats x z"
    and beats_asym: "beats x y \<Longrightarrow> \<not> beats y x"
begin

lemma pick_best: "j \<in> insert b (set iys) \<Longrightarrow> \<not> beats (m ! j) (m ! pick beats m iys b)"
proof (induction iys arbitrary: b j)
  case Nil
  then show ?case by (simp add: pick_def beats_irrefl)
next
  case (Cons iy iys)
  let ?b = "if beats (m ! iy) (m ! b) then iy else b"
  have p: "pick beats m (iy # iys) b = pick beats m iys ?b" by (simp add: pick_def)
  have best: "\<not> beats (m ! ?b) (m ! pick beats m iys ?b)" using Cons.IH [of ?b ?b] by simp
  have "\<not> beats (m ! b) (m ! ?b)" by (auto simp: beats_irrefl dest: beats_asym)
  from beats_neg_trans [OF this best] have 1: "\<not> beats (m ! b) (m ! pick beats m iys ?b)" .
  have "\<not> beats (m ! iy) (m ! ?b)" by (auto simp: beats_irrefl)
  from beats_neg_trans [OF this best] have 2: "\<not> beats (m ! iy) (m ! pick beats m iys ?b)" .
  from 1 2 show ?case using Cons.IH [of j ?b] Cons.prems p by auto
qed

text \<open>The loop invariant: the positions below \<open>k\<close> hold elements that no later one beats.\<close>

definition sorted_below :: "nat \<Rightarrow> nat \<Rightarrow> nat \<Rightarrow> 'a list \<Rightarrow> bool" where
  "sorted_below start stop k m \<longleftrightarrow> (\<forall>i j. start \<le> i \<and> i < k \<and> i < j \<and> j < stop \<longrightarrow> \<not> beats (m ! j) (m ! i))"

lemma exchange_step:
  assumes "sorted_below start stop k m" "start \<le> k" "k < stop" "stop \<le> length m"
  shows "sorted_below start stop (Suc k) (exchange beats stop k m)"
proof -
  let ?b = "pick beats m [Suc k..<stop] k"
  have b: "k \<le> ?b" "?b < stop" using pick_in [of beats m "[Suc k..<stop]" k] assms(3) by auto
  have best: "\<not> beats (m ! j) (m ! ?b)" if "k \<le> j" "j < stop" for j
    using that by (intro pick_best) auto
  have nth: "exchange beats stop k m ! i = (if i = ?b then m ! k else if i = k then m ! ?b else m ! i)" if "i < stop" for i
    using that assms by (simp add: nth_exchange Let_def)
  show ?thesis
    unfolding sorted_below_def
  proof (intro allI impI)
    fix i j
    assume ij: "start \<le> i \<and> i < Suc k \<and> i < j \<and> j < stop"
    obtain j' where j': "exchange beats stop k m ! j = m ! j'" "j' < stop" "i < k \<longrightarrow> k \<le> j \<longrightarrow> k \<le> j'" "j < k \<longrightarrow> j' = j" "i = k \<longrightarrow> k \<le> j'"
      using nth [of j] b ij by (cases "j = ?b"; cases "j = k") (auto intro: that)
    show "\<not> beats (exchange beats stop k m ! j) (exchange beats stop k m ! i)"
    proof (cases "i < k")
      case True
      then have "exchange beats stop k m ! i = m ! i" using nth [of i] b ij by auto
      moreover have "i < j'" using True j' ij by (cases "j < k") auto
      ultimately show ?thesis using assms(1) j' ij True unfolding sorted_below_def by metis
    next
      case False
      then have "i = k" using ij by simp
      then have "exchange beats stop k m ! i = m ! ?b" using nth [of k] assms(3) by auto
      then show ?thesis using best [of j'] j' \<open>i = k\<close> by simp
    qed
  qed
qed

lemma selection_sort_steps:
  assumes "start \<le> k" "k \<le> stop" "stop \<le> length m"
  shows "let m' = fold (exchange beats stop) [start..<k] m in
    length m' = length m \<and> mset m' = mset m \<and> (\<forall>i < length m. i < start \<or> stop \<le> i \<longrightarrow> m' ! i = m ! i) \<and>
    sorted_below start stop k m'"
  using assms(1,2)
proof (induction k rule: dec_induct)
  case base
  then show ?case by (auto simp: sorted_below_def)
next
  case (step k)
  let ?m = "fold (exchange beats stop) [start..<k] m"
  from step have ih: "length ?m = length m" "mset ?m = mset m"
    "\<forall>i < length m. i < start \<or> stop \<le> i \<longrightarrow> ?m ! i = m ! i" "sorted_below start stop k ?m"
    by (simp_all add: Let_def)
  have b: "k \<le> pick beats ?m [Suc k..<stop] k" "pick beats ?m [Suc k..<stop] k < stop"
    using pick_in [of beats ?m "[Suc k..<stop]" k] step by auto
  have "fold (exchange beats stop) [start..<Suc k] m = exchange beats stop k ?m" using step by simp
  moreover have "mset (exchange beats stop k ?m) = mset m"
    using ih step assms(3) by (simp add: mset_exchange)
  moreover have "exchange beats stop k ?m ! i = m ! i" if "i < length m" "i < start \<or> stop \<le> i" for i
  proof -
    have "i \<noteq> k" "i \<noteq> pick beats ?m [Suc k..<stop] k" using that b step by auto
    then have "exchange beats stop k ?m ! i = ?m ! i"
      using nth_exchange [of k stop ?m i beats] step assms(3) ih(1) that(1) by (simp add: Let_def)
    also have "?m ! i = m ! i" using ih(3) that by blast
    finally show ?thesis .
  qed
  moreover have "sorted_below start stop (Suc k) (exchange beats stop k ?m)"
    using ih step assms(3) by (intro exchange_step) simp_all
  ultimately show ?case using ih(1) by (simp add: Let_def)
qed

text \<open>What the sort promises.\<close>

lemma selection_sort_ok:
  assumes "start \<le> stop" "stop \<le> length m"
  shows "length (selection_sort beats start stop m) = length m"
    and "mset (selection_sort beats start stop m) = mset m"
    and "\<And>i. i < length m \<Longrightarrow> i < start \<or> stop \<le> i \<Longrightarrow> selection_sort beats start stop m ! i = m ! i"
    and "\<And>i j. start \<le> i \<Longrightarrow> i < j \<Longrightarrow> j < stop \<Longrightarrow>
      \<not> beats (selection_sort beats start stop m ! j) (selection_sort beats start stop m ! i)"
  using selection_sort_steps [OF assms(1) order_refl assms(2)]
  unfolding selection_sort_def sorted_below_def Let_def by auto

end

end
