(* ===== verification/TableFacts.thy ===== *)
theory TableFacts
  imports Table
begin

unbundle bit_operations_syntax

text \<open>
  Facts about the display of a table: a cell is as wide as its column, a row of a section is the text of the
  columns of that section, and the sections are the displayed columns in groups.
\<close>

section \<open>Well-formed tables\<close>

text \<open>The arrays have the sizes of the table, the rows are in range, the widths leave room in the buffer, and every
  cell can be printed: no NULL string, and no repeated character in a column of width 0.\<close>

definition printable :: "nat \<Rightarrow> cell_data \<Rightarrow> bool" where
  "printable w d \<longleftrightarrow> d \<noteq> CELL_STRING None \<and> (\<forall>ch. d = CELL_REPCHAR ch \<longrightarrow> 0 < w)"

definition table_ok :: "vtab \<Rightarrow> bool" where
  "table_ok t \<longleftrightarrow>
     length (cells t) = all_rows t * all_cols t \<and> length (row_ix_map t) = all_rows t \<and>
     (\<forall>r \<in> set (row_ix_map t). r < all_rows t) \<and> length (row_flags t) = all_rows t \<and>
     length (col_flags t) = all_cols t \<and> length (col_width t) = all_cols t \<and>
     length (col_decimal_places t) = all_cols t \<and> (\<forall>w \<in> set (col_width t). w < SMALL_BUF_SIZE) \<and>
     (\<forall>r < all_rows t. \<forall>c < all_cols t. printable (col_width t ! c) (content (cells t ! (r * all_cols t + c))))"

lemma index_in_table: "r < R \<Longrightarrow> c < C \<Longrightarrow> r * C + c < R * (C :: nat)"
  by (metis add.commute add_less_cancel_left less_le_trans mult_Suc mult_le_mono1 Suc_leI)

lemma cell_at_ok:
  "table_ok t \<Longrightarrow> r < all_rows t \<Longrightarrow> c < all_cols t \<Longrightarrow> cell_at t r c = Some (cells t ! (r * all_cols t + c))"
  using index_in_table [of r "all_rows t" c "all_cols t"] by (simp add: cell_at_def elem_def table_ok_def)

section \<open>Cells and lines\<close>

lemma fmt_cell_total:
  assumes "printable w (content c)" "w < SMALL_BUF_SIZE"
  shows "\<exists>p. fmt_cell_data c w places = Some p \<and> length p \<le> w"
  using assms by (cases "content c") (auto simp: fmt_cell_data_def printable_def USUAL_GUTTER_WIDTH_def not_less)

text \<open>Whatever the justification, a displayed cell has exactly the width of its column.\<close>

lemma display_justified_width:
  assumes "printable w (content c)" "w < SMALL_BUF_SIZE"
  shows "\<exists>p. display_justified_cell c rf cf w places = Some p \<and> length p = w"
proof -
  obtain p where p: "fmt_cell_data c w places = Some p" "length p \<le> w" using fmt_cell_total [OF assms] by blast
  have "(w - length p + 1) div 2 \<le> w - length p" by linarith
  then show ?thesis using p by (simp add: display_justified_cell_def Let_def)
qed

definition cell_text :: "vtab \<Rightarrow> nat \<Rightarrow> nat \<Rightarrow> string" where
  "cell_text t r c = the (display_justified_cell (cells t ! (r * all_cols t + c)) (row_flags t ! r) (col_flags t ! c)
     (col_width t ! c) (col_decimal_places t ! c))"

definition row_text :: "vtab \<Rightarrow> nat \<Rightarrow> nat list \<Rightarrow> string" where
  "row_text t r cols = concat (map (cell_text t r) cols)"

definition cols_width :: "vtab \<Rightarrow> nat list \<Rightarrow> nat" where
  "cols_width t cols = sum_list (map (\<lambda>c. col_width t ! c) cols)"

lemma line_cell_run:
  assumes "table_ok t" "r < all_rows t" "c < all_cols t"
  shows "line_cell t r c (out, w) = Some (out @ cell_text t r c, w + col_width t ! c) \<and>
    length (cell_text t r c) = col_width t ! c"
proof -
  from assms have len: "r < length (row_flags t)" "c < length (col_flags t)" "c < length (col_width t)"
    "c < length (col_decimal_places t)" "col_width t ! c < SMALL_BUF_SIZE"
    "printable (col_width t ! c) (content (cells t ! (r * all_cols t + c)))"
    by (simp_all add: table_ok_def)
  from display_justified_width [OF len(6,5)] obtain p where
    "display_justified_cell (cells t ! (r * all_cols t + c)) (row_flags t ! r) (col_flags t ! c)
      (col_width t ! c) (col_decimal_places t ! c) = Some p" "length p = col_width t ! c" by blast
  then show ?thesis using len cell_at_ok [OF assms] by (simp add: line_cell_def elem_def cell_text_def)
qed

lemma line_cells_fold:
  assumes "table_ok t" "r < all_rows t" "\<forall>c \<in> set cs. c < all_cols t"
  shows "foldM (line_cell t r) cs (out, w) = Some (out @ row_text t r cs, w + cols_width t cs)"
  using assms(3)
proof (induction cs arbitrary: out w)
  case (Cons c cs)
  then show ?case using line_cell_run [OF assms(1,2), of c out w] by (simp add: row_text_def cols_width_def)
qed (simp add: row_text_def cols_width_def)

lemma length_row_text:
  assumes "table_ok t" "r < all_rows t" "\<forall>c \<in> set cs. c < all_cols t"
  shows "length (row_text t r cs) = cols_width t cs"
  using assms(3)
proof (induction cs)
  case (Cons c cs)
  then show ?case using line_cell_run [OF assms(1,2), of c] by (simp add: row_text_def cols_width_def)
qed (simp add: row_text_def cols_width_def)

section \<open>The columns of a section\<close>

definition shows_col :: "display \<Rightarrow> vtab \<Rightarrow> nat \<Rightarrow> bool" where
  "shows_col D t c \<longleftrightarrow> col_shown D t c = Some True"

definition shows_row :: "display \<Rightarrow> vtab \<Rightarrow> nat \<Rightarrow> bool" where
  "shows_row D t r \<longleftrightarrow> row_shown D t r = Some True"

lemma col_shown_ok: "table_ok t \<Longrightarrow> c < all_cols t \<Longrightarrow> col_shown D t c = Some (shows_col D t c)"
  by (simp add: col_shown_def shows_col_def test_col_flag_def elem_def table_ok_def)

lemma row_shown_ok: "table_ok t \<Longrightarrow> r < all_rows t \<Longrightarrow> row_shown D t r = Some (shows_row D t r)"
  by (simp add: row_shown_def shows_row_def test_row_flag_def elem_def table_ok_def)

text \<open>Where a section that starts with column \<open>c\<close> behind \<open>w\<close> characters ends.\<close>

function section_end :: "display \<Rightarrow> vtab \<Rightarrow> nat \<Rightarrow> nat \<Rightarrow> nat" where
  "section_end D t c w =
     (let w = (if shows_col D t c then w + col_width t ! c else w) in
      if all_cols t \<le> c + 1 \<or> screen D < w + col_width t ! (c + 1) then c + 1 else section_end D t (c + 1) w)"
  by pat_completeness auto
termination
proof (relation "measure (\<lambda>(D, t, c, w). all_cols t - c)")
  fix D :: display and t c w x
  assume "\<not> (all_cols t \<le> c + 1 \<or> screen D < x + col_width t ! (c + 1))"
  then show "((D, t, c + 1, x), D, t, c, w) \<in> measure (\<lambda>(D, t, c, w). all_cols t - c)" by auto
qed simp

declare section_end.simps [simp del]

lemma section_end_bounds: "c < all_cols t \<Longrightarrow> c < section_end D t c w \<and> section_end D t c w \<le> all_cols t"
proof (induction D t c w rule: section_end.induct)
  case (1 D t c w)
  let ?w = "if shows_col D t c then w + col_width t ! c else w"
  show ?case
  proof (cases "all_cols t \<le> c + 1 \<or> screen D < ?w + col_width t ! (c + 1)")
    case True
    then have "section_end D t c w = c + 1" by (subst section_end.simps) (simp only: Let_def if_True)
    then show ?thesis using 1(2) by simp
  next
    case False
    have "section_end D t c w = section_end D t (c + 1) ?w"
      using False by (subst section_end.simps) (simp only: Let_def if_False)
    moreover have "c + 1 < all_cols t" using False by (simp only: de_Morgan_disj not_le)
    note 1(1) [OF refl False this]
    ultimately show ?thesis by (metis add_lessD1 less_trans less_add_one)
  qed
qed

definition section_cols :: "display \<Rightarrow> vtab \<Rightarrow> nat \<Rightarrow> nat \<Rightarrow> nat list" where
  "section_cols D t c e = filter (shows_col D t) [c..<e]"

lemma section_cols_Cons:
  "c < e \<Longrightarrow> section_cols D t c e = (if shows_col D t c then [c] else []) @ section_cols D t (c + 1) e"
  by (simp add: section_cols_def upt_conv_Cons)

text \<open>A section is not wider than the screen, unless already its first column is.\<close>

lemma section_width:
  "c < all_cols t \<Longrightarrow> w + cols_width t (section_cols D t c (section_end D t c w)) \<le>
     max (screen D) (w + (if shows_col D t c then col_width t ! c else 0))"
proof (induction D t c w rule: section_end.induct)
  case (1 D t c w)
  let ?w = "if shows_col D t c then w + col_width t ! c else w"
  show ?case
  proof (cases "all_cols t \<le> c + 1 \<or> screen D < ?w + col_width t ! (c + 1)")
    case True
    then have "section_end D t c w = c + 1" by (subst section_end.simps) (simp only: Let_def if_True)
    then show ?thesis by (simp add: section_cols_def cols_width_def)
  next
    case False
    let ?e = "section_end D t (c + 1) ?w"
    have e: "section_end D t c w = ?e" using False by (subst section_end.simps) (simp only: Let_def if_False)
    have c1: "c + 1 < all_cols t" using False by (simp only: de_Morgan_disj not_le)
    then have "c + 1 < ?e" using section_end_bounds by blast
    then have "c < ?e" by (rule add_lessD1)
    then have "w + cols_width t (section_cols D t c ?e) = ?w + cols_width t (section_cols D t (c + 1) ?e)"
      by (simp add: section_cols_Cons cols_width_def)
    moreover have "?w + cols_width t (section_cols D t (c + 1) ?e) \<le>
        max (screen D) (?w + (if shows_col D t (c + 1) then col_width t ! (c + 1) else 0))"
      by (rule 1(1) [OF refl False c1])
    moreover have "?w + (if shows_col D t (c + 1) then col_width t ! (c + 1) else 0) \<le> screen D"
      using False by (simp only: de_Morgan_disj not_le not_less) (simp split: if_split)
    ultimately show ?thesis unfolding e by linarith
  qed
qed

lemma line_cells_run:
  assumes "table_ok t" "r < all_rows t"
  shows "c < all_cols t \<Longrightarrow> line_cells D t r c (out, w) =
    Some (section_end D t c w, out @ row_text t r (section_cols D t c (section_end D t c w)))"
proof (induction "all_cols t - c" arbitrary: c out w rule: less_induct)
  case less
  let ?w = "if shows_col D t c then w + col_width t ! c else w"
  let ?out = "if shows_col D t c then out @ cell_text t r c else out"
  note c = less.prems
  have cell: "(if shows_col D t c then line_cell t r c (out, w) else Some (out, w)) = Some (?out, ?w)"
    using line_cell_run [OF assms c] by simp
  have step: "line_cells D t r c (out, w) =
      (if all_cols t \<le> c + 1 \<or> screen D < ?w + col_width t ! (c + 1) then Some (c + 1, ?out)
       else line_cells D t r (c + 1) (?out, ?w))"
    using assms(1) by (subst line_cells.simps)
      (auto simp: col_shown_ok [OF assms(1) c] line_cell_run [OF assms c] elem_def table_ok_def)
  show ?case
  proof (cases "all_cols t \<le> c + 1 \<or> screen D < ?w + col_width t ! (c + 1)")
    case True
    then have "section_end D t c w = c + 1" by (subst section_end.simps) (simp only: Let_def if_True)
    moreover have "line_cells D t r c (out, w) = Some (c + 1, ?out)" using step True by (simp only: if_True)
    ultimately show ?thesis by (simp add: section_cols_def row_text_def)
  next
    case False
    let ?e = "section_end D t (c + 1) ?w"
    have e: "section_end D t c w = ?e" using False by (subst section_end.simps) (simp only: Let_def if_False)
    have c1: "c + 1 < all_cols t" using False by (simp only: de_Morgan_disj not_le)
    then have "c + 1 < ?e" using section_end_bounds by blast
    then have "c < ?e" by (rule add_lessD1)
    then have "?out @ row_text t r (section_cols D t (c + 1) ?e) = out @ row_text t r (section_cols D t c ?e)"
      by (simp add: section_cols_Cons row_text_def)
    moreover have "line_cells D t r c (out, w) = line_cells D t r (c + 1) (?out, ?w)"
      using step False by (simp only: if_False)
    moreover have "line_cells D t r (c + 1) (?out, ?w) =
        Some (?e, ?out @ row_text t r (section_cols D t (c + 1) ?e))"
      using False c by (intro less.hyps) auto
    ultimately show ?thesis unfolding e by simp
  qed
qed

section \<open>Sections\<close>

text \<open>The text of a section: one line for every displayed row, in the order of the rows.\<close>

definition line_text :: "vtab \<Rightarrow> nat list \<Rightarrow> nat \<Rightarrow> string" where
  "line_text t cols r = row_text t r ([0..<header_cols t] @ cols) @ [CHR 0x0A]"

definition section_text :: "display \<Rightarrow> vtab \<Rightarrow> nat list \<Rightarrow> string" where
  "section_text D t cols = concat (map (line_text t cols) (filter (shows_row D t) (row_ix_map t)))"

abbreviation head_width :: "vtab \<Rightarrow> nat" where
  "head_width t \<equiv> cols_width t [0..<header_cols t]"

lemma section_row_run:
  assumes "table_ok t" "ix < all_rows t" "c < all_cols t"
  shows "section_row D t c ix (col, out) =
    (let r = row_ix_map t ! ix; e = section_end D t c (head_width t) in
     Some (if shows_row D t r then (int e, out @ line_text t (section_cols D t c e) r) else (col, out)))"
proof -
  let ?r = "row_ix_map t ! ix"
  have ix: "ix < length (row_ix_map t)" using assms by (simp add: table_ok_def)
  then have r: "?r < all_rows t" using assms by (auto simp: table_ok_def)
  have "\<forall>c \<in> set [0..<header_cols t]. c < all_cols t" by (auto simp: all_cols_def)
  note head = line_cells_fold [OF assms(1) r this, of out 0]
  show ?thesis
    unfolding section_row_def
    by (simp add: elem_def ix row_shown_ok [OF assms(1) r] head line_cells_run [OF assms(1) r assms(3)]
        Let_def line_text_def row_text_def)
qed

lemma section_rows_run:
  assumes "table_ok t" "c < all_cols t" "\<forall>ix \<in> set ixs. ix < all_rows t"
  shows "foldM (section_row D t c) ixs (col, out) =
    (let e = section_end D t c (head_width t); rs = filter (shows_row D t) (map (\<lambda>ix. row_ix_map t ! ix) ixs) in
     Some (if rs = [] then col else int e, out @ concat (map (line_text t (section_cols D t c e)) rs)))"
  using assms(3)
proof (induction ixs arbitrary: col out)
  case (Cons ix ixs)
  then show ?case
    using section_row_run [OF assms(1) _ assms(2), of ix D col out] by (simp add: Let_def)
qed simp

lemma section_run:
  assumes "table_ok t" "c < all_cols t" "\<exists>r \<in> set (row_ix_map t). shows_row D t r"
  shows "foldM (section_row D t c) [0..<all_rows t] (col, out) =
    (let e = section_end D t c (head_width t) in Some (int e, out @ section_text D t (section_cols D t c e)))"
proof -
  have "map (\<lambda>ix. row_ix_map t ! ix) [0..<all_rows t] = row_ix_map t"
    using assms(1) map_nth [of "row_ix_map t"] by (simp add: table_ok_def)
  moreover have "filter (shows_row D t) (row_ix_map t) \<noteq> []" using assms(3) by (auto simp: filter_empty_conv)
  ultimately show ?thesis
    using section_rows_run [OF assms(1,2), of "[0..<all_rows t]" D col out] by (simp add: section_text_def Let_def)
qed

text \<open>The groups of columns, one for each section, and the text of a list of sections: a blank line comes before
  each but the first.\<close>

function col_groups :: "display \<Rightarrow> vtab \<Rightarrow> nat \<Rightarrow> nat list list" where
  "col_groups D t c =
     (if all_cols t \<le> c then []
      else if \<not> shows_col D t c then col_groups D t (c + 1)
      else section_cols D t c (section_end D t c (head_width t)) # col_groups D t (section_end D t c (head_width t)))"
  by pat_completeness auto
termination
proof (relation "measure (\<lambda>(D, t, c). all_cols t - c)")
  fix D t c
  assume "\<not> all_cols t \<le> c"
  then have "c < section_end D t c (head_width t)" "c < all_cols t" using section_end_bounds by auto
  then show "((D, t, section_end D t c (head_width t)), D, t, c) \<in> measure (\<lambda>(D, t, c). all_cols t - c)" by auto
qed auto

declare col_groups.simps [simp del]

fun sections_text :: "display \<Rightarrow> vtab \<Rightarrow> bool \<Rightarrow> nat list list \<Rightarrow> string" where
  "sections_text D t blank [] = []"
| "sections_text D t blank (g # gs) =
     (if blank then [CHR 0x0A] else []) @ section_text D t g @ sections_text D t True gs"

lemma display_sections_run:
  assumes "table_ok t" "\<exists>r \<in> set (row_ix_map t). shows_row D t r"
  shows "display_sections D t col (int c) out = Some (out @ sections_text D t (0 < col) (col_groups D t c))"
proof (induction "all_cols t - c" arbitrary: c col out rule: less_induct)
  case less
  consider "all_cols t \<le> c" | "c < all_cols t" "\<not> shows_col D t c" | "c < all_cols t" "shows_col D t c" by linarith
  then show ?case
  proof cases
    case 1
    then show ?thesis by (subst display_sections.simps) (simp add: col_groups.simps)
  next
    case 2
    then have "display_sections D t col (int c) out = display_sections D t col (int (c + 1)) out"
      by (subst display_sections.simps) (simp add: col_shown_ok [OF assms(1)] add.commute)
    moreover have "col_groups D t c = col_groups D t (c + 1)" using 2 by (subst col_groups.simps) simp
    ultimately show ?thesis using less [of "c + 1" col out] 2 by simp
  next
    case 3
    let ?e = "section_end D t c (head_width t)"
    let ?g = "section_cols D t c ?e"
    have e: "c < ?e" "?e \<le> all_cols t" using section_end_bounds [OF 3(1)] by auto
    have "display_sections D t col (int c) out =
        display_sections D t (int ?e) (int ?e) ((if 0 < col then out @ [CHR 0x0A] else out) @ section_text D t ?g)"
      using 3 section_run [OF assms(1) 3(1) assms(2)]
      by (subst display_sections.simps) (simp add: col_shown_ok [OF assms(1)] Let_def)
    also have "\<dots> = Some (((if 0 < col then out @ [CHR 0x0A] else out) @ section_text D t ?g) @
        sections_text D t (0 < int ?e) (col_groups D t ?e))"
      using e by (intro less) auto
    also have "0 < int ?e" using e(1) by simp
    moreover have "col_groups D t c = ?g # col_groups D t ?e" using 3 by (subst col_groups.simps) simp
    ultimately show ?thesis by simp
  qed
qed

text \<open>The groups are the displayed columns, in order; none is empty, and none is wider than the screen unless its
  first column is.\<close>

lemma section_cols_append:
  "c \<le> e \<Longrightarrow> e \<le> f \<Longrightarrow> section_cols D t c e @ section_cols D t e f = section_cols D t c f"
  by (metis filter_append le_Suc_ex section_cols_def upt_add_eq_append)

lemma col_groups_concat: "concat (col_groups D t c) = section_cols D t c (all_cols t)"
proof (induction D t c rule: col_groups.induct)
  case (1 D t c)
  consider "all_cols t \<le> c" | "c < all_cols t" "\<not> shows_col D t c" | "c < all_cols t" "shows_col D t c" by linarith
  then show ?case
  proof cases
    case 1
    then show ?thesis by (simp add: col_groups.simps section_cols_def)
  next
    case 2
    then show ?thesis using 1(1) by (subst col_groups.simps) (simp add: section_cols_Cons)
  next
    case 3
    have "c \<le> section_end D t c (head_width t)" "section_end D t c (head_width t) \<le> all_cols t"
      using section_end_bounds [OF 3(1), of D "head_width t"] by auto
    then show ?thesis using 3 1(2) by (subst col_groups.simps) (simp add: section_cols_append)
  qed
qed

lemma col_groups_each:
  "g \<in> set (col_groups D t c) \<Longrightarrow>
   g \<noteq> [] \<and> head_width t + cols_width t g \<le> max (screen D) (head_width t + col_width t ! hd g)"
proof (induction D t c rule: col_groups.induct)
  case (1 D t c)
  consider "all_cols t \<le> c" | "c < all_cols t" "\<not> shows_col D t c" | "c < all_cols t" "shows_col D t c" by linarith
  then show ?case
  proof cases
    case 1
    then show ?thesis using \<open>g \<in> set (col_groups D t c)\<close> by (simp add: col_groups.simps)
  next
    case 2
    then have "col_groups D t c = col_groups D t (c + 1)" by (subst col_groups.simps) simp
    then show ?thesis using 1(1,3) 2 by simp
  next
    case 3
    let ?e = "section_end D t c (head_width t)"
    have e: "c < ?e" using section_end_bounds [OF 3(1)] by blast
    have g: "col_groups D t c = section_cols D t c ?e # col_groups D t ?e" using 3 by (subst col_groups.simps) simp
    have "section_cols D t c ?e \<noteq> [] \<and> hd (section_cols D t c ?e) = c" using 3 e by (simp add: section_cols_Cons)
    then show ?thesis using section_width [OF 3(1), of "head_width t" D] 3 1(2,3) g by auto
  qed
qed

lemma shows_header: "r < header_rows t \<Longrightarrow> shows_row D t r"
  by (simp add: shows_row_def row_shown_def)

section \<open>Marking what has data\<close>

definition data_cell :: "vtab \<Rightarrow> nat \<times> nat \<Rightarrow> bool" where
  "data_cell t = (\<lambda>(r, c). is_data (content (cells t ! (r * all_cols t + c))))"

definition non_zero_cell :: "vtab \<Rightarrow> nat \<times> nat \<Rightarrow> bool" where
  "non_zero_cell t = (\<lambda>(r, c). data_cell t (r, c) \<and> non_zero_content (content (cells t ! (r * all_cols t + c))))"

definition data_region :: "vtab \<Rightarrow> (nat \<times> nat) set" where
  "data_region t = {header_rows t..<all_rows t} \<times> {header_cols t..<all_cols t}"

lemma foldM_product:
  "foldM (\<lambda>r. foldM (f r) cs) rs s = foldM (\<lambda>(r, c). f r c) (List.product rs cs) s"
proof (induction rs arbitrary: s)
  case (Cons r rs)
  have "foldM (\<lambda>(r, c). f r c) (map (Pair r) cs) s = foldM (f r) cs s" for s
  proof (induction cs arbitrary: s)
    case (Cons c cs)
    have "foldM (\<lambda>(r, c). f r c) (map (Pair r) cs) = foldM (f r) cs" by (rule ext) (rule Cons)
    then show ?case by simp
  qed simp
  moreover have "foldM (\<lambda>r. foldM (f r) cs) rs = foldM (\<lambda>(r, c). f r c) (List.product rs cs)"
    by (rule ext) (rule Cons)
  ultimately show ?case by (simp add: foldM_append)
qed simp

text \<open>The flags that the cells \<open>P\<close> add to the flags \<open>f\<close> of a row or a column they are in.\<close>

definition add_flags :: "bool \<Rightarrow> bool \<Rightarrow> 8 word \<Rightarrow> 8 word" where
  "add_flags seen non_zero f =
     (f OR (if seen then FLAG_SEEN_DATA else 0)) OR (if non_zero then FLAG_NON_ZERO_DATA else 0)"

definition marked :: "(nat \<times> nat) set \<Rightarrow> vtab \<Rightarrow> vtab \<Rightarrow> bool" where
  "marked P t t' \<longleftrightarrow>
     (\<exists>rf cf. t' = t\<lparr>row_flags := rf, col_flags := cf\<rparr> \<and> length rf = all_rows t \<and> length cf = all_cols t \<and>
       (\<forall>r < all_rows t. rf ! r = add_flags (\<exists>c. (r, c) \<in> P \<and> data_cell t (r, c)) (\<exists>c. (r, c) \<in> P \<and> non_zero_cell t (r, c)) (row_flags t ! r)) \<and>
       (\<forall>c < all_cols t. cf ! c = add_flags (\<exists>r. (r, c) \<in> P \<and> data_cell t (r, c)) (\<exists>r. (r, c) \<in> P \<and> non_zero_cell t (r, c)) (col_flags t ! c)))"

lemma add_flags_again:
  "add_flags s n f OR FLAG_SEEN_DATA = add_flags True n f"
  "add_flags s n f OR FLAG_NON_ZERO_DATA = add_flags s True f"
  by (simp_all add: add_flags_def or.assoc or.commute [of _ FLAG_SEEN_DATA] or.left_commute [of _ FLAG_SEEN_DATA]
      or.left_commute [of _ FLAG_NON_ZERO_DATA])

lemma add_flags_cong: "s = s' \<Longrightarrow> n = n' \<Longrightarrow> add_flags s n f = add_flags s' n' f"
  by simp

lemma mark_step_run:
  assumes "table_ok t" "marked P t t'" "r < all_rows t" "c < all_cols t"
  shows "\<exists>t''. mark_step r c (s, n, t') = Some (s \<or> data_cell t (r, c), n \<or> non_zero_cell t (r, c), t'') \<and>
    marked (insert (r, c) P) t t''"
proof -
  from assms(2) obtain rf cf where t': "t' = t\<lparr>row_flags := rf, col_flags := cf\<rparr>" "length rf = all_rows t" "length cf = all_cols t"
    "\<forall>r < all_rows t. rf ! r = add_flags (\<exists>c. (r, c) \<in> P \<and> data_cell t (r, c)) (\<exists>c. (r, c) \<in> P \<and> non_zero_cell t (r, c)) (row_flags t ! r)"
    "\<forall>c < all_cols t. cf ! c = add_flags (\<exists>r. (r, c) \<in> P \<and> data_cell t (r, c)) (\<exists>r. (r, c) \<in> P \<and> non_zero_cell t (r, c)) (col_flags t ! c)"
    unfolding marked_def by blast
  have cell: "cell_at t' r c = Some (cells t ! (r * all_cols t + c))"
    using cell_at_ok [OF assms(1,3,4)] t'(1) by (simp add: cell_at_def all_cols_def)
  have sz: "all_rows t' = all_rows t" "all_cols t' = all_cols t" by (simp_all add: t'(1) all_rows_def all_cols_def)
  define ff where "ff x = add_flags (data_cell t (r, c)) (non_zero_cell t (r, c)) x" for x :: "8 word"
  have merge: "add_flags s' n' (add_flags s n f) = add_flags (s \<or> s') (n \<or> n') f" for s n s' n' f
    using add_flags_again [of s n f] add_flags_again [of True n f] by (cases s'; cases n') (simp_all add: add_flags_def)
  let ?t = "t\<lparr>row_flags := rf[r := ff (rf ! r)], col_flags := cf[c := ff (cf ! c)]\<rparr>"
  have run: "mark_step r c (s, n, t') = Some (s \<or> data_cell t (r, c), n \<or> non_zero_cell t (r, c), ?t)"
    using assms(3,4) t'(2,3) cell
    by (simp add: mark_step_def set_row_flag_def set_col_flag_def elem_def t'(1) ff_def add_flags_def
        data_cell_def non_zero_cell_def)
  have "marked (insert (r, c) P) t ?t"
    unfolding marked_def
    by (rule exI [of _ "rf[r := ff (rf ! r)]"], rule exI [of _ "cf[c := ff (cf ! c)]"])
      (insert t'(2-5) assms(3,4), auto simp: nth_list_update ff_def merge intro!: add_flags_cong)
  with run show ?thesis by blast
qed

lemma marked_empty: "table_ok t \<Longrightarrow> marked {} t t"
  unfolding marked_def table_ok_def add_flags_def
  by (rule exI [of _ "row_flags t"], rule exI [of _ "col_flags t"]) simp

lemma mark_cells_run:
  assumes "table_ok t" "marked P t t'" "\<forall>(r, c) \<in> set ps. r < all_rows t \<and> c < all_cols t"
  shows "\<exists>t''. foldM (\<lambda>(r, c). mark_step r c) ps (s, n, t') =
      Some (s \<or> (\<exists>p \<in> set ps. data_cell t p), n \<or> (\<exists>p \<in> set ps. non_zero_cell t p), t'') \<and> marked (P \<union> set ps) t t''"
  using assms(2,3)
proof (induction ps arbitrary: P s n t')
  case (Cons p ps)
  obtain r c where p: "p = (r, c)" by force
  with Cons.prems have "r < all_rows t" "c < all_cols t" by auto
  from mark_step_run [OF assms(1) Cons.prems(1) this, of s n] obtain t1 where
    t1: "mark_step r c (s, n, t') = Some (s \<or> data_cell t p, n \<or> non_zero_cell t p, t1)" "marked (insert p P) t t1"
    unfolding p by blast
  have "\<forall>(r, c) \<in> set ps. r < all_rows t \<and> c < all_cols t" using Cons.prems(2) by simp
  from Cons.IH [OF t1(2) this, of "s \<or> data_cell t p" "n \<or> non_zero_cell t p"] show ?case
    using t1(1) p by (simp add: disj_assoc)
qed simp

lemma mark_data_run:
  assumes "table_ok t"
  shows "\<exists>t'. mark_data t = Some (\<exists>p \<in> data_region t. data_cell t p, \<exists>p \<in> data_region t. non_zero_cell t p, t') \<and>
    marked (data_region t) t t'"
proof -
  let ?ps = "List.product [header_rows t..<all_rows t] [header_cols t..<all_cols t]"
  have set: "set ?ps = data_region t" by (auto simp: data_region_def)
  have "\<forall>(r, c) \<in> set ?ps. r < all_rows t \<and> c < all_cols t" by auto
  from mark_cells_run [OF assms marked_empty [OF assms] this, of False False] show ?thesis
    unfolding mark_data_def foldM_product set by simp
qed

lemma marked_fields:
  assumes "marked P t t'"
  shows "header_rows t' = header_rows t" "header_cols t' = header_cols t" "all_rows t' = all_rows t"
    "all_cols t' = all_cols t" "cells t' = cells t" "row_ix_map t' = row_ix_map t" "col_width t' = col_width t"
    "col_decimal_places t' = col_decimal_places t"
  using assms by (auto simp: marked_def all_rows_def all_cols_def)

lemma marked_table_ok: "table_ok t \<Longrightarrow> marked P t t' \<Longrightarrow> table_ok t'"
  by (auto simp: marked_def table_ok_def all_rows_def all_cols_def)

text \<open>Which columns are displayed, in terms of the table before the marking.\<close>

definition col_displayed :: "display \<Rightarrow> vtab \<Rightarrow> nat \<Rightarrow> bool" where
  "col_displayed D t c \<longleftrightarrow>
     col_flags t ! c AND FLAG_ALWAYS_SHOW \<noteq> 0 \<or>
     (unseen_cols D \<or> col_flags t ! c AND FLAG_SEEN_DATA \<noteq> 0 \<or> (\<exists>r. (r, c) \<in> data_region t \<and> data_cell t (r, c))) \<and>
     (zero_cols D \<or> col_flags t ! c AND FLAG_NON_ZERO_DATA \<noteq> 0 \<or> (\<exists>r. (r, c) \<in> data_region t \<and> non_zero_cell t (r, c)))"

lemma and_bit_flag: "(f :: 8 word) AND 2 ^ k \<noteq> 0 \<longleftrightarrow> bit f k"
proof -
  have "bit (f AND 2 ^ k) j \<longleftrightarrow> j = k \<and> bit f k" for j
    using bit_imp_le_length [of f j] by (auto simp: bit_and_iff bit_exp_iff)
  then show ?thesis by (metis bit_0_eq bit_eqI bot_apply bot_bool_def)
qed

lemma flag_bits:
  "f AND FLAG_SEEN_DATA \<noteq> 0 \<longleftrightarrow> bit f 2" "f AND FLAG_NON_ZERO_DATA \<noteq> 0 \<longleftrightarrow> bit f 3"
  "f AND FLAG_ALWAYS_SHOW \<noteq> 0 \<longleftrightarrow> bit f 4"
  using and_bit_flag [of f 2] and_bit_flag [of f 3] and_bit_flag [of f 4]
  by (simp_all add: FLAG_SEEN_DATA_def FLAG_NON_ZERO_DATA_def FLAG_ALWAYS_SHOW_def)

lemma add_flags_bits:
  "bit (add_flags s n f) 2 \<longleftrightarrow> bit f 2 \<or> s" "bit (add_flags s n f) 3 \<longleftrightarrow> bit f 3 \<or> n"
  "bit (add_flags s n f) 4 \<longleftrightarrow> bit f 4"
proof -
  have w: "(4 :: 8 word) = 2 ^ 2" "(8 :: 8 word) = 2 ^ 3" by simp_all
  have "bit (4 :: 8 word) 2" "\<not> bit (8 :: 8 word) 2" "\<not> bit (4 :: 8 word) 3" "bit (8 :: 8 word) 3"
    "\<not> bit (4 :: 8 word) 4" "\<not> bit (8 :: 8 word) 4"
    unfolding w by (simp_all only: bit_exp_iff, simp_all)
  then show "bit (add_flags s n f) 2 \<longleftrightarrow> bit f 2 \<or> s" "bit (add_flags s n f) 3 \<longleftrightarrow> bit f 3 \<or> n"
    "bit (add_flags s n f) 4 \<longleftrightarrow> bit f 4"
    by (auto simp: add_flags_def bit_or_iff FLAG_SEEN_DATA_def FLAG_NON_ZERO_DATA_def)
qed

lemma marked_shows_col:
  assumes "table_ok t" "marked (data_region t) t t'" "c < all_cols t"
  shows "shows_col D t' c \<longleftrightarrow> col_displayed D t c"
proof -
  from assms(2) obtain f where f: "elem (col_flags t') c = Some f"
    "f = add_flags (\<exists>r. (r, c) \<in> data_region t \<and> data_cell t (r, c)) (\<exists>r. (r, c) \<in> data_region t \<and> non_zero_cell t (r, c)) (col_flags t ! c)"
    using assms(3) by (auto simp: marked_def elem_def)
  show ?thesis
    unfolding shows_col_def col_shown_def test_col_flag_def f(1) col_displayed_def
    by (simp add: flag_bits f(2) add_flags_bits)
qed

end
