(* ===== verification/NumaStatFacts.thy ===== *)
theory NumaStatFacts
  imports NumaStat Selection TableFacts
begin

unbundle bit_operations_syntax

text \<open>
  Facts about the parts of \<open>numastat\<close>: the two sorting loops under the contract of selection sort, the tokens of a
  line, the process numbers, the display of a table, and the sums of the report of processes.
\<close>

section \<open>The map of the nodes\<close>

interpretation node_order: selection "\<lambda>a b :: int. a < b"
  by unfold_locales auto

lemma node_sort_step_exchange: "node_sort_step ix m = exchange (<) (length m) ix m"
proof -
  have "fold (smallest_step m) xs b = pick (<) m xs b" for xs b
    unfolding pick_def smallest_step_def ..
  then show ?thesis by (auto simp: node_sort_step_def exchange_def Let_def)
qed

lemma sort_nodes_selection: "sort_nodes m = selection_sort (<) 0 (length m) m"
proof -
  have "fold node_sort_step xs m' = fold (exchange (<) (length m)) xs m'" if "length m' = length m" for xs m'
    using that by (induction xs arbitrary: m') (simp_all add: node_sort_step_exchange)
  then show ?thesis by (simp add: sort_nodes_def selection_sort_def)
qed

lemma sort_nodes_ok: "sort_nodes m = sort m"
proof (rule properties_for_sort [symmetric])
  note ok = node_order.selection_sort_ok [of 0 "length m" m]
  show "mset (sort_nodes m) = mset m" using ok(2) by (simp add: sort_nodes_selection)
  show "sorted (sort_nodes m)"
    using ok(1,4) by (auto simp: sort_nodes_selection sorted_iff_nth_mono_less not_less)
qed

section \<open>The order of the rows\<close>

definition row_val :: "vtab \<Rightarrow> nat \<Rightarrow> nat \<Rightarrow> rat option" where
  "row_val t col row = do { c \<leftarrow> cell_at t row col; double_member (content c) }"

interpretation row_order: selection "\<lambda>a b. (key b :: rat) < key a" for key :: "nat \<Rightarrow> rat"
  by unfold_locales auto

lemma row_key_val: "ix < length (row_ix_map t) \<Longrightarrow> row_key t col ix = row_val t col (row_ix_map t ! ix)"
  by (simp add: row_key_def row_val_def elem_def)

text \<open>The inner loop picks the position of the biggest value.\<close>

lemma biggest_run:
  assumes "\<forall>i \<in> insert b (set iys). i < length (row_ix_map t) \<and> row_val t col (row_ix_map t ! i) \<noteq> None"
  shows "foldM (biggest_step t col) iys (b, the (row_val t col (row_ix_map t ! b))) =
    Some (let p = pick (\<lambda>a b. the (row_val t col b) < the (row_val t col a)) (row_ix_map t) iys b
          in (p, the (row_val t col (row_ix_map t ! p))))"
  using assms
proof (induction iys arbitrary: b)
  case Nil
  then show ?case by (simp add: pick_def)
next
  case (Cons iy iys)
  let ?v = "\<lambda>i. the (row_val t col (row_ix_map t ! i))"
  have "row_key t col iy = Some (?v iy)" using Cons.prems by (simp add: row_key_val)
  then have step: "biggest_step t col iy (b, ?v b) = Some (if ?v b < ?v iy then (iy, ?v iy) else (b, ?v b))"
    by (simp add: biggest_step_def)
  show ?case
    using Cons.IH [of "if ?v b < ?v iy then iy else b"] Cons.prems by (auto simp: step pick_def)
qed

lemma sort_step_run:
  assumes "ix \<le> stop" "stop < length (row_ix_map t)"
    and "\<forall>i \<in> {ix..stop}. row_val t col (row_ix_map t ! i) \<noteq> None"
  shows "sort_step stop col ix t =
    Some (t\<lparr>row_ix_map := exchange (\<lambda>a b. the (row_val t col b) < the (row_val t col a)) (Suc stop) ix (row_ix_map t)\<rparr>)"
proof -
  let ?beats = "\<lambda>a b. the (row_val t col b) < the (row_val t col a)"
  have "row_key t col ix = Some (the (row_val t col (row_ix_map t ! ix)))"
    using assms by (simp add: row_key_val)
  moreover have "\<forall>i \<in> insert ix (set [Suc ix..<Suc stop]). i < length (row_ix_map t) \<and> row_val t col (row_ix_map t ! i) \<noteq> None"
    using assms by auto
  note biggest_run [OF this]
  ultimately show ?thesis by (auto simp: sort_step_def exchange_def Let_def)
qed

lemma row_val_map [simp]: "row_val (t\<lparr>row_ix_map := m\<rparr>) col = row_val t col"
  by (simp add: row_val_def cell_at_def all_cols_def fun_eq_iff)

lemma sort_rows_run:
  assumes "start \<le> Suc stop" "stop < length (row_ix_map t)"
    and "\<forall>i \<in> {start..stop}. row_val t col (row_ix_map t ! i) \<noteq> None"
  shows "sort_rows_descending_by_col start stop col t =
    Some (t\<lparr>row_ix_map := selection_sort (\<lambda>a b. the (row_val t col b) < the (row_val t col a)) start (Suc stop) (row_ix_map t)\<rparr>)"
proof -
  let ?beats = "\<lambda>a b. the (row_val t col b) < the (row_val t col a)"
  have "foldM (sort_step stop col) [start..<k] t = Some (t\<lparr>row_ix_map := fold (exchange ?beats (Suc stop)) [start..<k] (row_ix_map t)\<rparr> )
      \<and> (\<forall>i \<in> {start..stop}. row_val t col (fold (exchange ?beats (Suc stop)) [start..<k] (row_ix_map t) ! i) \<noteq> None)"
    if "start \<le> k" "k \<le> Suc stop" for k
    using that
  proof (induction k rule: dec_induct)
    case base
    then show ?case using assms(3) by simp
  next
    case (step k)
    let ?m = "fold (exchange ?beats (Suc stop)) [start..<k] (row_ix_map t)"
    let ?t = "t\<lparr>row_ix_map := ?m\<rparr>"
    have len: "length ?m = length (row_ix_map t)"
      using row_order.selection_sort_steps [of start k "Suc stop" "row_ix_map t" "\<lambda>r. the (row_val t col r)"] step assms(2)
      by (simp add: Let_def)
    have vals: "\<forall>i \<in> {start..stop}. row_val t col (?m ! i) \<noteq> None" using step by simp
    have s: "sort_step stop col k ?t = Some (?t\<lparr>row_ix_map := exchange ?beats (Suc stop) k ?m\<rparr>)"
      using sort_step_run [of k stop ?t col] step vals assms(2) len by simp
    have p: "pick ?beats ?m [Suc k..<Suc stop] k \<in> {start..stop}"
      using pick_in [of ?beats ?m "[Suc k..<Suc stop]" k] step by auto
    have "row_val t col (exchange ?beats (Suc stop) k ?m ! i) \<noteq> None" if "i \<in> {start..stop}" for i
      using nth_exchange [of k "Suc stop" ?m i ?beats] that vals p step assms(2) len
      by (auto simp: Let_def simp del: upt_Suc)
    then show ?case using s step by (simp add: foldM_append)
  qed
  from this [of "Suc stop"] assms(1) show ?thesis
    by (simp add: sort_rows_descending_by_col_def selection_sort_def)
qed

section \<open>Process numbers\<close>

text \<open>The loop invariant: the numbers up to \<open>ix1\<close> are those seen so far, once each, in order.\<close>

definition dedup_inv :: "int list \<Rightarrow> nat \<Rightarrow> nat \<times> int list \<Rightarrow> bool" where
  "dedup_inv a k = (\<lambda>(ix1, b). length b = length a \<and> ix1 < k \<and> drop k b = drop k a \<and>
     set (take (Suc ix1) b) = set (take k a) \<and> sorted_wrt (<) (take (Suc ix1) b) \<and> b ! ix1 = a ! (k - 1))"

lemma dedup_step_inv:
  assumes inv: "dedup_inv a k (ix1, b)" and "sorted a" "0 < k" "k < length a"
  shows "dedup_inv a (Suc k) (dedup_step k (ix1, b))"
proof -
  from inv have b: "length b = length a" "ix1 < k" "drop k b = drop k a" "set (take (Suc ix1) b) = set (take k a)"
    "sorted_wrt (<) (take (Suc ix1) b)" "b ! ix1 = a ! (k - 1)" by (simp_all add: dedup_inv_def)
  have bk: "b ! k = a ! k" using b(1,3) assms(4) by (metis hd_drop_conv_nth)
  have drop: "drop (Suc k) b = drop (Suc k) a" using b(3) by (metis drop_Suc drop_tl)
  have take: "take (Suc k) a = take k a @ [a ! k]" using assms(4) by (simp add: take_Suc_conv_app_nth)
  have last: "a ! (k - 1) \<in> set (take k a)" using assms(3,4) by (auto simp: in_set_conv_nth intro!: exI [of _ "k - 1"])
  show ?thesis
  proof (cases "b ! k = b ! ix1")
    case True
    then show ?thesis using b bk drop take last by (auto simp: dedup_inv_def dedup_step_def)
  next
    case False
    define b' where "b' = b[Suc ix1 := a ! k]"
    have "dedup_step k (ix1, b) = (Suc ix1, b')"
      using False b(2) bk list_update_id [of b k]
      by (cases "Suc ix1 = k") (auto simp: dedup_step_def b'_def Let_def simp del: list_update_id)
    moreover have tk: "take (Suc (Suc ix1)) b' = take (Suc ix1) b @ [a ! k]"
      using b(1,2) assms(4) by (simp add: b'_def take_Suc_conv_app_nth)
    moreover have "\<forall>x \<in> set (take k a). x < a ! k"
    proof
      fix x
      assume "x \<in> set (take k a)"
      then obtain i where "i < k" "x = a ! i" by (auto simp: in_set_conv_nth)
      then have "x \<le> a ! (k - 1)" using assms(2,4) by (auto intro!: sorted_nth_mono)
      moreover have "a ! (k - 1) \<le> a ! k" using assms(2,4) by (auto intro!: sorted_nth_mono)
      ultimately show "x < a ! k" using False bk b(6) by linarith
    qed
    moreover have "drop (Suc k) b' = drop (Suc k) a" using drop b(2) by (simp add: b'_def)
    moreover have "b' ! Suc ix1 = a ! k" using b(1,2) assms(4) by (simp add: b'_def)
    ultimately show ?thesis
      using b take by (simp add: dedup_inv_def sorted_wrt_append b'_def del: take_Suc_conv_app_nth)
  qed
qed

lemma dedup_run:
  assumes "sorted a" "a \<noteq> []"
  shows "dedup_inv a (length a) (fold dedup_step [1..<length a] (0, a))"
proof -
  have "dedup_inv a k (fold dedup_step [1..<k] (0, a))" if "1 \<le> k" "k \<le> length a" for k
    using that
  proof (induction k rule: dec_induct)
    case base
    then show ?case using assms(2) by (simp add: dedup_inv_def take_Suc_conv_app_nth)
  next
    case (step k)
    obtain ix1 b where "fold dedup_step [1..<k] (0, a) = (ix1, b)" by force
    then show ?case using step dedup_step_inv [of a k ix1 b] assms(1) by simp
  qed
  then show ?thesis using assms(2) by (simp add: Suc_leI)
qed

lemma strict_sorted_unique:
  assumes "sorted_wrt (<) (xs :: int list)" "set xs = A"
  shows "xs = sorted_list_of_set A"
  using assms by (metis sorted_list_of_set.idem_if_sorted_distinct strict_sorted_iff)

section \<open>The tokens of a line\<close>

text \<open>A line in the buffer of 128 characters has at most 64 tokens, the size of the array they are stored in.\<close>

lemma tokens_bound:
  assumes "buf \<in> set (fgets_lines SMALL_BUF_SIZE s)"
  shows "length (strtok_all d buf) \<le> 64"
  using strtok_all_count [of d buf] fgets_lines_length [OF assms] by (simp add: SMALL_BUF_SIZE_def)

end
