(* ===== verification/ProcessSums.thy ===== *)
theory ProcessSums
  imports NumaStat TableFacts
begin

unbundle bit_operations_syntax

text \<open>
  The sums in the report of processes of \<open>numastat\<close>: doubles that are multiples of a byte in units of a megabyte
  and not too large are added without rounding, so the totals of the table are the sums of its rows and columns.
\<close>

section \<open>Amounts\<close>

text \<open>The values of the report: whole bytes, counted in megabytes.\<close>

definition on_grid :: "rat \<Rightarrow> bool" where
  "on_grid x \<longleftrightarrow> (\<exists>m. x = of_int m / 2 ^ 20)"

lemma on_grid_add: "on_grid x \<Longrightarrow> on_grid y \<Longrightarrow> on_grid (x + y)"
  unfolding on_grid_def by (metis add_divide_distrib of_int_add)

lemma on_grid_0 [simp]: "on_grid 0"
  by (auto simp: on_grid_def intro: exI [of _ 0])

lemma dbl_grid: "on_grid x \<Longrightarrow> \<bar>x\<bar> < 2 ^ 33 \<Longrightarrow> dbl x = x"
  by (auto simp: on_grid_def intro: dbl_exact [where j = 20])

section \<open>Tables of doubles\<close>

definition val :: "vtab \<Rightarrow> nat \<Rightarrow> nat \<Rightarrow> rat" where
  "val t r c = (case content (cells t ! (r * all_cols t + c)) of CELL_DOUBLE x \<Rightarrow> x | _ \<Rightarrow> 0)"

text \<open>The part of the table the sums are about: the rows \<open>rs\<close> and the row \<open>tr\<close> of totals, the columns of \<open>n\<close>
  nodes and the column of totals after them.  All cells hold doubles on the grid.\<close>

definition sum_region :: "nat set \<Rightarrow> nat \<Rightarrow> nat \<Rightarrow> vtab \<Rightarrow> bool" where
  "sum_region rs tr n t \<longleftrightarrow>
     header_cols t = 1 \<and> all_cols t = n + 2 \<and> length (cells t) = all_rows t * all_cols t \<and>
     (\<forall>r \<in> insert tr rs. r < all_rows t \<and>
       (\<forall>c. 1 \<le> c \<and> c \<le> n + 1 \<longrightarrow> (\<exists>x. content (cells t ! (r * all_cols t + c)) = CELL_DOUBLE x \<and> on_grid x \<and> 0 \<le> x)))"

text \<open>The totals are the sums: of every row over the nodes, and of every column over the rows.\<close>

definition totals_ok :: "nat set \<Rightarrow> nat \<Rightarrow> nat \<Rightarrow> vtab \<Rightarrow> bool" where
  "totals_ok rs tr n t \<longleftrightarrow>
     (\<forall>r \<in> insert tr rs. val t r (n + 1) = (\<Sum>i<n. val t r (1 + i))) \<and>
     (\<forall>c. 1 \<le> c \<and> c \<le> n + 1 \<longrightarrow> val t tr c = (\<Sum>r\<in>rs. val t r c))"

lemma cell_index_inj:
  assumes "r * C + c = r' * C + c'" "c < C" "c' < (C :: nat)"
  shows "r = r' \<and> c = c'"
proof -
  have "(r * C + c) div C = r" "(r' * C + c') div C = r'" using assms(2,3) by simp_all
  then show ?thesis using assms(1) by simp
qed

text \<open>One addition changes one value, where the sum needs no rounding.\<close>

lemma double_addto_run:
  assumes "sum_region rs tr n t" "r \<in> insert tr rs" "1 \<le> c" "c \<le> n + 1" "on_grid v" "0 \<le> v" "val t r c + v < 2 ^ 33"
  shows "\<exists>t'. double_addto r c v t = Some t' \<and> sum_region rs tr n t' \<and>
    (\<forall>r' c'. c' < all_cols t \<longrightarrow> val t' r' c' = val t r' c' + (if r' = r \<and> c' = c then v else 0))"
proof -
  let ?i = "r * all_cols t + c"
  from assms(1-4) obtain x where x: "content (cells t ! ?i) = CELL_DOUBLE x" "on_grid x" "0 \<le> x"
    unfolding sum_region_def by blast
  have r: "r < all_rows t" and C: "c < all_cols t" and len: "length (cells t) = all_rows t * all_cols t"
    using assms(1-4) by (auto simp: sum_region_def)
  have "r * all_cols t + c < (r + 1) * all_cols t" using C by simp
  also have "\<dots> \<le> all_rows t * all_cols t" using r by (intro mult_le_mono1) simp
  finally have i: "?i < length (cells t)" by (simp add: len)
  have vx: "val t r c = x" by (simp add: val_def x)
  have "dbl (x + v) = x + v"
    using assms(5-7) x on_grid_add vx by (intro dbl_grid) auto
  let ?t = "t\<lparr>cells := (cells t)[?i := (cells t ! ?i)\<lparr>content := CELL_DOUBLE (x + v)\<rparr>]\<rparr>"
  have "double_addto r c v t = Some ?t"
    using i \<open>dbl (x + v) = x + v\<close>
    by (simp add: double_addto_def cell_at_def elem_def x double_member_def put_cell_def store_def)
  moreover have same: "header_cols ?t = header_cols t" "all_cols ?t = all_cols t" "all_rows ?t = all_rows t"
    by (simp_all add: all_cols_def all_rows_def)
  have cell: "content (cells ?t ! (r' * all_cols t + c')) =
      (if r' = r \<and> c' = c then CELL_DOUBLE (x + v) else content (cells t ! (r' * all_cols t + c')))"
    if "c' < all_cols t" for r' c'
    using cell_index_inj [of r "all_cols t" c r' c'] that C i by (auto simp: nth_list_update)
  have "sum_region rs tr n ?t"
    unfolding sum_region_def same
  proof (intro conjI ballI allI impI)
    fix r' c'
    assume a: "r' \<in> insert tr rs" "1 \<le> c' \<and> c' \<le> n + 1"
    then obtain y where "content (cells t ! (r' * all_cols t + c')) = CELL_DOUBLE y" "on_grid y" "0 \<le> y"
      using assms(1) unfolding sum_region_def by blast
    moreover have "c' < all_cols t" using a(2) assms(1) by (simp add: sum_region_def)
    ultimately show "\<exists>x. content (cells ?t ! (r' * all_cols t + c')) = CELL_DOUBLE x \<and> on_grid x \<and> 0 \<le> x"
      using cell x assms(5,6) on_grid_add by (cases "r' = r \<and> c' = c") auto
  qed (use assms(1) in \<open>auto simp: sum_region_def\<close>)
  moreover have "val ?t r' c' = val t r' c' + (if r' = r \<and> c' = c then v else 0)" if "c' < all_cols t" for r' c'
    unfolding val_def same(2) cell [OF that] using x(1) by simp
  ultimately show ?thesis by blast
qed

section \<open>One amount\<close>

lemma val_nonneg:
  assumes "sum_region rs tr n t" "r \<in> insert tr rs" "1 \<le> c" "c \<le> n + 1"
  shows "0 \<le> val t r c"
proof -
  from assms obtain x where "content (cells t ! (r * all_cols t + c)) = CELL_DOUBLE x" "0 \<le> x"
    unfolding sum_region_def by blast
  then show ?thesis by (simp add: val_def)
qed

lemma totals_bound:
  assumes "sum_region rs tr n t" "totals_ok rs tr n t" "finite rs" "r \<in> insert tr rs" "1 \<le> c" "c \<le> n + 1"
  shows "val t r c \<le> val t tr (n + 1)"
proof -
  note nonneg = val_nonneg [OF assms(1)]
  have 1: "val t r' c' \<le> val t r' (n + 1)" if "r' \<in> insert tr rs" "1 \<le> c'" "c' \<le> n + 1" for r' c'
  proof (cases "c' = n + 1")
    case False
    define i where "i = c' - 1"
    have i: "c' = 1 + i" "i < n" using False that(2,3) by (simp_all add: i_def)
    have "val t r' (1 + i) \<le> (\<Sum>i<n. val t r' (1 + i))"
      using nonneg that(1) i(2) by (intro member_le_sum) auto
    then show ?thesis using assms(2) that(1) i(1) by (auto simp: totals_ok_def)
  qed simp
  have 2: "val t r' (n + 1) \<le> val t tr (n + 1)" if "r' \<in> insert tr rs" for r'
  proof (cases "r' = tr")
    case False
    then have "r' \<in> rs" using that by simp
    then have "val t r' (n + 1) \<le> (\<Sum>r\<in>rs. val t r (n + 1))"
      using nonneg assms(3) by (intro member_le_sum) auto
    also have "\<dots> = val t tr (n + 1)" using assms(2) unfolding totals_ok_def by (metis le_add2 order_refl)
    finally show ?thesis .
  qed simp
  from 1 [OF assms(4-6)] 2 [OF assms(4)] show ?thesis by simp
qed

lemma add_amount_run:
  assumes reg: "sum_region rs tr n t" and tot: "totals_ok rs tr n t" and rs: "finite rs" "tr \<notin> rs" "r \<in> rs"
    and i: "i < n" and v: "on_grid v" "0 \<le> v" "val t tr (n + 1) + v < 2 ^ 33"
  shows "\<exists>t'. add_amount r (1 + i) tr (1 + n) v t = Some t' \<and> sum_region rs tr n t' \<and> totals_ok rs tr n t' \<and>
    val t' tr (n + 1) = val t tr (n + 1) + v \<and>
    (\<forall>r' \<in> rs. \<forall>j < n. val t' r' (1 + j) = val t r' (1 + j) + (if r' = r \<and> j = i then v else 0))"
proof -
  have C: "all_cols t' = n + 2" if "sum_region rs tr n t'" for t' using that by (simp add: sum_region_def)
  have ne: "r \<noteq> tr" using rs by blast
  have less: "val t r' c' + v < 2 ^ 33" if "r' \<in> {r, tr}" "1 \<le> c'" "c' \<le> n + 1" for r' c'
    using totals_bound [OF reg tot rs(1), of r' c'] that rs(3) v(3) by auto
  obtain t1 where t1: "double_addto r (1 + i) v t = Some t1" "sum_region rs tr n t1"
    "\<forall>r' c'. c' < n + 2 \<longrightarrow> val t1 r' c' = val t r' c' + (if r' = r \<and> c' = 1 + i then v else 0)"
    using double_addto_run [OF reg _ _ _ v(1,2), of r "1 + i"] less [of r "1 + i"] rs i C [OF reg] by auto
  obtain t2 where t2: "double_addto r (1 + n) v t1 = Some t2" "sum_region rs tr n t2"
    "\<forall>r' c'. c' < n + 2 \<longrightarrow> val t2 r' c' = val t1 r' c' + (if r' = r \<and> c' = 1 + n then v else 0)"
    using double_addto_run [OF t1(2) _ _ _ v(1,2), of r "1 + n"] t1(3) less [of r "1 + n"] rs i C [OF t1(2)] by auto
  obtain t3 where t3: "double_addto tr (1 + i) v t2 = Some t3" "sum_region rs tr n t3"
    "\<forall>r' c'. c' < n + 2 \<longrightarrow> val t3 r' c' = val t2 r' c' + (if r' = tr \<and> c' = 1 + i then v else 0)"
    using double_addto_run [OF t2(2) _ _ _ v(1,2), of tr "1 + i"] t1(3) t2(3) less [of tr "1 + i"] ne rs i C [OF t2(2)] by auto
  obtain t4 where t4: "double_addto tr (1 + n) v t3 = Some t4" "sum_region rs tr n t4"
    "\<forall>r' c'. c' < n + 2 \<longrightarrow> val t4 r' c' = val t3 r' c' + (if r' = tr \<and> c' = 1 + n then v else 0)"
    using double_addto_run [OF t3(2) _ _ _ v(1,2), of tr "1 + n"] t1(3) t2(3) t3(3) less [of tr "1 + n"] ne rs i C [OF t3(2)] by auto
  have run: "add_amount r (1 + i) tr (1 + n) v t = Some t4"
    using t1(1) t2(1) t3(1) t4(1) by (simp add: add_amount_def)
  have val: "val t4 r' c' = val t r' c' + (if (r' = r \<or> r' = tr) \<and> (c' = 1 + i \<or> c' = 1 + n) then v else 0)"
    if "c' < n + 2" for r' c'
    using t1(3) t2(3) t3(3) t4(3) that ne i by auto
  have "totals_ok rs tr n t4"
    unfolding totals_ok_def
  proof (intro conjI ballI allI impI)
    fix r'
    assume r': "r' \<in> insert tr rs"
    have "(\<Sum>j<n. val t4 r' (1 + j)) = (\<Sum>j<n. val t r' (1 + j) + (if j = i then if r' = r \<or> r' = tr then v else 0 else 0))"
      using val by (intro sum.cong) auto
    also have "\<dots> = (\<Sum>j<n. val t r' (1 + j)) + (if r' = r \<or> r' = tr then v else 0)"
      using i by (simp add: sum.distrib)
    finally show "val t4 r' (n + 1) = (\<Sum>j<n. val t4 r' (1 + j))"
      using val [of "n + 1" r'] tot r' by (auto simp: totals_ok_def)
  next
    fix c
    assume c: "1 \<le> c \<and> c \<le> n + 1"
    have "(\<Sum>r'\<in>rs. val t4 r' c) = (\<Sum>r'\<in>rs. val t r' c + (if r' = r then if c = 1 + i \<or> c = 1 + n then v else 0 else 0))"
      using val rs c by (intro sum.cong) auto
    also have "\<dots> = (\<Sum>r'\<in>rs. val t r' c) + (if c = 1 + i \<or> c = 1 + n then v else 0)"
      using rs by (simp add: sum.distrib)
    finally show "val t4 tr c = (\<Sum>r'\<in>rs. val t4 r' c)"
      using val [of c tr] tot c by (simp add: totals_ok_def)
  qed
  moreover have "val t4 tr (n + 1) = val t tr (n + 1) + v" using val [of "n + 1" tr] by simp
  moreover have "\<forall>r' \<in> rs. \<forall>j < n. val t4 r' (1 + j) = val t r' (1 + j) + (if r' = r \<and> j = i then v else 0)"
    using val rs(2) by auto
  ultimately show ?thesis using run t4(2) by blast
qed

section \<open>The amounts of a file\<close>

text \<open>The category, the column and the value of every amount of a line, and of all lines.\<close>

fun token_amounts :: "stat \<Rightarrow> string list \<Rightarrow> line_state \<Rightarrow> (nat \<times> nat \<times> rat) list option" where
  "token_amounts g [] l = Some []"
| "token_amounts g (p # ps) l = do {
     (l, a) \<leftarrow> token_amount g p l;
     rest \<leftarrow> token_amounts g ps l;
     Some ((case a of None \<Rightarrow> [] | Some (i, v) \<Rightarrow> [(category l, i, v)]) @ rest)
   }"

definition line_amounts :: "stat \<Rightarrow> string \<Rightarrow> (nat \<times> nat \<times> rat) list option" where
  "line_amounts g buf = token_amounts g (strtok_all proc_delims buf)
     \<lparr>category = PROCESS_PRIVATE_INDEX, vm_pagesz = line_pagesz buf\<rparr>"

fun file_amounts :: "stat \<Rightarrow> string list \<Rightarrow> (nat \<times> nat \<times> rat) list option" where
  "file_amounts g [] = Some []"
| "file_amounts g (buf # lines) = do {
     a \<leftarrow> line_amounts g buf;
     rest \<leftarrow> file_amounts g lines;
     Some (a @ rest)
   }"

definition added :: "(nat \<Rightarrow> nat) \<Rightarrow> (nat \<times> nat \<times> rat) list \<Rightarrow> nat \<Rightarrow> nat \<Rightarrow> rat" where
  "added row_of as r i = sum_list (map (\<lambda>(c, j, v). if row_of c = r \<and> j = i then v else 0) as)"

definition sum_amounts :: "(nat \<times> nat \<times> rat) list \<Rightarrow> rat" where
  "sum_amounts as = sum_list (map (\<lambda>(c, j, v). v) as)"

lemma sum_amounts_nonneg: "\<forall>(c, j, v) \<in> set as. 0 \<le> v \<Longrightarrow> 0 \<le> sum_amounts as"
  unfolding sum_amounts_def by (rule sum_list_nonneg) auto

text \<open>Every amount belongs to one of the four categories and to a node of the map.\<close>

lemma token_category_less: "c < 4 \<Longrightarrow> token_category p c < 4"
  by (auto simp: token_category_def PROCESS_PRIVATE_INDEX_def find_Some_iff split: option.splits)

lemma token_amount_range:
  assumes "token_amount g p l = Some (l', a)" "category l < 4"
  shows "category l' < 4 \<and> (\<forall>i v. a = Some (i, v) \<longrightarrow> i < num_nodes g)"
  using assms token_category_less [of "category l" p]
  by (auto simp: token_amount_def node_index_def bind_Some_iff find_Some_iff Let_def split: if_splits prod.splits)

text \<open>What adding a list of amounts does to a table.\<close>

definition adds :: "nat set \<Rightarrow> nat \<Rightarrow> nat \<Rightarrow> (nat \<Rightarrow> nat) \<Rightarrow> (nat \<times> nat \<times> rat) list \<Rightarrow> vtab \<Rightarrow> vtab \<Rightarrow> bool" where
  "adds rs tr n row_of as t t' \<longleftrightarrow>
     sum_region rs tr n t' \<and> totals_ok rs tr n t' \<and> val t' tr (n + 1) = val t tr (n + 1) + sum_amounts as \<and>
     (\<forall>r \<in> rs. \<forall>i < n. val t' r (1 + i) = val t r (1 + i) + added row_of as r i)"

lemma adds_append:
  "adds rs tr n row_of as t t' \<Longrightarrow> adds rs tr n row_of bs t' t'' \<Longrightarrow> adds rs tr n row_of (as @ bs) t t''"
  by (simp add: adds_def added_def sum_amounts_def)

lemma adds_Nil: "sum_region rs tr n t \<Longrightarrow> totals_ok rs tr n t \<Longrightarrow> adds rs tr n row_of [] t t"
  by (simp add: adds_def added_def sum_amounts_def)

definition good_amounts :: "(nat \<times> nat \<times> rat) list \<Rightarrow> bool" where
  "good_amounts as \<longleftrightarrow> (\<forall>(c, i, v) \<in> set as. on_grid v \<and> 0 \<le> v)"

lemma good_amounts_append [simp]: "good_amounts (as @ bs) \<longleftrightarrow> good_amounts as \<and> good_amounts bs"
  by (simp add: good_amounts_def ball_Un)

lemma good_sum: "good_amounts as \<Longrightarrow> 0 \<le> sum_amounts as"
  by (rule sum_amounts_nonneg) (auto simp: good_amounts_def)

lemma maps_tokens_run:
  assumes rs: "finite rs" "tr \<notin> rs" "\<forall>c < 4. row_of c \<in> rs" "n = num_nodes g"
    and am: "token_amounts g ps l = Some as" "good_amounts as" "category l < 4"
    and t: "sum_region rs tr n t" "totals_ok rs tr n t" "val t tr (n + 1) + sum_amounts as < 2 ^ 33"
  shows "\<exists>l' t'. foldM (maps_token g tr row_of) ps (l, t) = Some (l', t') \<and> adds rs tr n row_of as t t'"
  using am t
proof (induction ps arbitrary: l as t)
  case Nil
  then show ?case by (simp add: adds_Nil)
next
  case (Cons p ps)
  from Cons.prems(1) obtain l1 a bs where a: "token_amount g p l = Some (l1, a)" "token_amounts g ps l1 = Some bs"
    "as = (case a of None \<Rightarrow> [] | Some (i, v) \<Rightarrow> [(category l1, i, v)]) @ bs"
    by (auto simp: bind_Some_iff split: prod.splits)
  have cat: "category l1 < 4" using token_amount_range [OF a(1) Cons.prems(3)] by blast
  show ?case
  proof (cases a)
    case None
    then have "as = bs" using a(3) by simp
    then show ?thesis using Cons.IH [OF a(2) _ cat Cons.prems(4,5)] Cons.prems(2,6) a(1) None
      by (simp add: maps_token_def)
  next
    case (Some iv)
    obtain i v where iv: "iv = (i, v)" by force
    have as: "as = [(category l1, i, v)] @ bs" using a(3) Some iv by simp
    have i: "i < n" using token_amount_range [OF a(1) Cons.prems(3)] Some iv rs(4) by blast
    have v: "on_grid v" "0 \<le> v" "good_amounts bs" using Cons.prems(2) as by (auto simp: good_amounts_def)
    have s: "sum_amounts as = v + sum_amounts bs" by (simp add: as sum_amounts_def)
    have "val t tr (n + 1) + v < 2 ^ 33" using Cons.prems(6) s good_sum [OF v(3)] by linarith
    from add_amount_run [OF Cons.prems(4,5) rs(1,2) _ i v(1,2) this, of "row_of (category l1)"] rs(3) cat
    obtain t1 where t1: "add_amount (row_of (category l1)) (1 + i) tr (1 + n) v t = Some t1"
      "sum_region rs tr n t1" "totals_ok rs tr n t1" "val t1 tr (n + 1) = val t tr (n + 1) + v"
      "\<forall>r' \<in> rs. \<forall>j < n. val t1 r' (1 + j) = val t r' (1 + j) + (if r' = row_of (category l1) \<and> j = i then v else 0)"
      by blast
    have "adds rs tr n row_of [(category l1, i, v)] t t1"
      using t1 by (auto simp: adds_def added_def sum_amounts_def)
    moreover have "val t1 tr (n + 1) + sum_amounts bs < 2 ^ 33" using t1(4) s Cons.prems(6) by simp
    from Cons.IH [OF a(2) v(3) cat t1(2,3) this] obtain l' t' where
      "foldM (maps_token g tr row_of) ps (l1, t1) = Some (l', t')" "adds rs tr n row_of bs t1 t'" by blast
    moreover have "header_cols t = 1" using Cons.prems(4) by (simp add: sum_region_def)
    then have "maps_token g tr row_of p (l, t) = Some (l1, t1)"
      using a(1) Some iv t1(1) rs(4) by (simp add: maps_token_def)
    ultimately show ?thesis unfolding as
      using adds_append [of rs tr n row_of "[(category l1, i, v)]" t t1 bs t'] by auto
  qed
qed

lemma maps_lines_run:
  assumes rs: "finite rs" "tr \<notin> rs" "\<forall>c < 4. row_of c \<in> rs" "n = num_nodes g"
    and am: "file_amounts g lines = Some as" "good_amounts as"
    and t: "sum_region rs tr n t" "totals_ok rs tr n t" "val t tr (n + 1) + sum_amounts as < 2 ^ 33"
  shows "\<exists>t'. foldM (maps_line g tr row_of) lines t = Some t' \<and> adds rs tr n row_of as t t'"
  using am t
proof (induction lines arbitrary: as t)
  case Nil
  then show ?case by (simp add: adds_Nil)
next
  case (Cons buf lines)
  from Cons.prems(1) obtain a bs where a: "line_amounts g buf = Some a" "file_amounts g lines = Some bs" "as = a @ bs"
    by (auto simp: bind_Some_iff)
  have good: "good_amounts a" "good_amounts bs" using Cons.prems(2) a(3) by simp_all
  have s: "sum_amounts as = sum_amounts a + sum_amounts bs" by (simp add: a(3) sum_amounts_def)
  have "val t tr (n + 1) + sum_amounts a < 2 ^ 33" using Cons.prems(5) s good_sum [OF good(2)] by linarith
  from maps_tokens_run [OF rs a(1) [unfolded line_amounts_def] good(1) _ Cons.prems(3,4) this]
  obtain l' t1 where t1: "foldM (maps_token g tr row_of) (strtok_all proc_delims buf)
      (\<lparr>category = PROCESS_PRIVATE_INDEX, vm_pagesz = line_pagesz buf\<rparr>, t) = Some (l', t1)"
    "adds rs tr n row_of a t t1" by (auto simp: PROCESS_PRIVATE_INDEX_def)
  then have "sum_region rs tr n t1" "totals_ok rs tr n t1" "val t1 tr (n + 1) + sum_amounts bs < 2 ^ 33"
    using Cons.prems(5) s by (simp_all add: adds_def)
  from Cons.IH [OF a(2) good(2) this] obtain t2 where
    "foldM (maps_line g tr row_of) lines t1 = Some t2" "adds rs tr n row_of bs t1 t2" by blast
  moreover have "maps_line g tr row_of buf t = Some t1" using t1(1) by (simp add: maps_line_def)
  ultimately show ?case using adds_append [OF t1(2)] a(3) by auto
qed

section \<open>The table before the first process\<close>

text \<open>Setting attributes and assigning cells does not change the shape of a table.\<close>

definition shape_of :: "vtab \<Rightarrow> nat \<times> nat \<times> nat \<times> nat \<times> nat" where
  "shape_of t = (header_rows t, header_cols t, data_rows t, data_cols t, length (cells t))"

abbreviation same_shape :: "vtab \<Rightarrow> vtab \<Rightarrow> bool" where
  "same_shape t t' \<equiv> shape_of t' = shape_of t"

named_theorems shape \<open>operations that keep the shape of a table\<close>

lemma same_shapeD:
  assumes "same_shape t t'"
  shows "header_rows t' = header_rows t" "header_cols t' = header_cols t" "all_rows t' = all_rows t"
    "all_cols t' = all_cols t" "length (cells t') = length (cells t)"
  using assms by (simp_all add: shape_of_def all_rows_def all_cols_def)

lemma put_cell_shape [shape]: "put_cell r c x t = Some t' \<Longrightarrow> same_shape t t'"
  by (auto simp: put_cell_def store_def shape_of_def bind_Some_iff split: if_splits)

lemma assign_shape [shape]:
  "string_assign r c s t = Some t' \<Longrightarrow> same_shape t t'" "repchar_assign r c ch t = Some t' \<Longrightarrow> same_shape t t'"
  by (auto simp: string_assign_def repchar_assign_def cell_assign_def bind_Some_iff dest: put_cell_shape)

lemma attribute_shape [shape]:
  "set_col_width c w t = Some t' \<Longrightarrow> same_shape t t'" "set_col_decimal_places c p t = Some t' \<Longrightarrow> same_shape t t'"
  "set_col_justification c j t = Some t' \<Longrightarrow> same_shape t t'"
  by (auto simp: set_col_width_def set_col_decimal_places_def set_col_justification_def shape_of_def bind_Some_iff)

lemma foldM_shape:
  assumes "\<And>x t t'. x \<in> set xs \<Longrightarrow> f x t = Some t' \<Longrightarrow> same_shape t t'" "foldM f xs t = Some t'"
  shows "same_shape t t'"
  using foldM_invariant [OF assms(2), of "same_shape t"] assms(1) by fastforce

lemma process_header_shape [shape]: "process_header i (t, g) = Some t' \<Longrightarrow> same_shape t t'"
  by (auto simp: process_header_def bind_Some_iff Let_def dest!: shape)

lemma process_loops_shape [shape]:
  "foldM (\<lambda>i t. process_header i (t, g)) is t = Some t' \<Longrightarrow> same_shape t t'"
  "foldM (\<lambda>r. string_assign (h r) 0 (f r)) rs t = Some t' \<Longrightarrow> same_shape t t'"
  by (auto intro: foldM_shape dest: shape)

text \<open>Zeroing puts a zero of the type into every data cell.\<close>

lemma zero_cells_run:
  assumes "foldM (\<lambda>(r, c). put_cell r c z) ps t = Some t'"
  shows "same_shape t t' \<and> (\<forall>i < length (cells t). cells t' ! i =
    (if \<exists>(r, c) \<in> set ps. i = r * all_cols t + c then z else cells t ! i))"
  using assms
proof (induction ps arbitrary: t)
  case (Cons p ps)
  obtain r c where p: "p = (r, c)" by force
  from Cons.prems obtain t1 where t1: "put_cell r c z t = Some t1" "foldM (\<lambda>(r, c). put_cell r c z) ps t1 = Some t'"
    by (auto simp: p bind_Some_iff)
  from t1(1) have "t1 = t\<lparr>cells := (cells t)[r * all_cols t + c := z]\<rparr>"
    by (simp add: put_cell_def store_def split: if_splits)
  then have eq: "cells t1 = (cells t)[r * all_cols t + c := z]" and sh: "same_shape t t1"
    by (simp_all add: shape_of_def)
  have cols: "all_cols t1 = all_cols t" by (rule same_shapeD(4) [OF sh])
  note ih = Cons.IH [OF t1(2), unfolded cols]
  show ?case
  proof (intro conjI allI impI)
    show "same_shape t t'" using ih sh by simp
    fix i
    assume i: "i < length (cells t)"
    have "cells t' ! i = (if \<exists>(r, c) \<in> set ps. i = r * all_cols t + c then z else cells t1 ! i)"
      using ih i eq by (simp only: length_list_update)
    moreover have "cells t1 ! i = (if i = r * all_cols t + c then z else cells t ! i)"
      using i by (simp add: eq nth_list_update)
    ultimately show "cells t' ! i = (if \<exists>(r, c) \<in> set (p # ps). i = r * all_cols t + c then z else cells t ! i)"
      by (auto simp: p)
  qed
qed simp

lemma zero_table_run:
  assumes "zero_table_data k t = Some t'"
  shows "same_shape t t' \<and> (\<forall>r c. header_rows t \<le> r \<and> r < all_rows t \<and> header_cols t \<le> c \<and> c < all_cols t \<and>
    r * all_cols t + c < length (cells t) \<longrightarrow> cells t' ! (r * all_cols t + c) = zero_cell k)"
proof -
  have "foldM (\<lambda>(r, c). put_cell r c (zero_cell k))
      (List.product [header_rows t..<all_rows t] [header_cols t..<all_cols t]) t = Some t'"
    using assms unfolding zero_table_data_def foldM_product .
  note run = zero_cells_run [OF this]
  have "cells t' ! (r * all_cols t + c) = zero_cell k"
    if "header_rows t \<le> r" "r < all_rows t" "header_cols t \<le> c" "c < all_cols t" "r * all_cols t + c < length (cells t)" for r c
  proof -
    have "(r, c) \<in> set (List.product [header_rows t..<all_rows t] [header_cols t..<all_cols t])" using that by simp
    then have "\<exists>(r', c') \<in> set (List.product [header_rows t..<all_rows t] [header_cols t..<all_cols t]).
        r * all_cols t + c = r' * all_cols t + c'" by blast
    then show ?thesis using run that(5) by simp
  qed
  then show ?thesis using run by blast
qed

lemma process_table_sums:
  assumes "process_table g = Some (t, g1)"
  shows "sum_region {2..<2 + process_rows g} (2 + process_rows g + 1) (num_nodes g) t \<and>
    (\<forall>r \<in> {2..<2 + process_rows g + 2}. \<forall>c. 1 \<le> c \<and> c \<le> num_nodes g + 1 \<longrightarrow> val t r c = 0)"
proof -
  let ?k = "process_rows g" and ?n = "num_nodes g"
  let ?t0 = "init_table 2 1 (?k + 2) (?n + 1)"
  from assms obtain t1 where t1: "same_shape ?t0 t1" "zero_table_data 2 t1 = Some t"
    unfolding process_table_def
    by (auto simp: bind_Some_iff Let_def simp del: foldM.simps split: if_splits dest!: shape)
  note sh = same_shapeD [OF t1(1)]
  have dims: "header_rows t1 = 2" "header_cols t1 = 1" "all_rows t1 = ?k + 4" "all_cols t1 = ?n + 2"
    "length (cells t1) = (?k + 4) * (?n + 2)"
    by (simp_all add: sh) (simp_all add: init_table_def all_rows_def all_cols_def algebra_simps)
  note z = zero_table_run [OF t1(2), unfolded dims]
  then have dims': "header_cols t = 1" "all_rows t = ?k + 4" "all_cols t = ?n + 2" "length (cells t) = (?k + 4) * (?n + 2)"
    using same_shapeD [of t1 t] dims by simp_all
  have cell: "cells t ! (r * (?n + 2) + c) = zero_cell 2" if "2 \<le> r" "r < ?k + 4" "1 \<le> c" "c \<le> ?n + 1" for r c
    using z that index_in_table [of r "?k + 4" c "?n + 2"] by simp
  have zero: "content (zero_cell 2) = CELL_DOUBLE 0" by (simp add: zero_cell_def zero_content_def)
  have "sum_region {2..<2 + ?k} (2 + ?k + 1) ?n t"
    unfolding sum_region_def dims'
  proof (intro conjI ballI allI impI)
    fix r c
    assume "r \<in> insert (2 + ?k + 1) {2..<2 + ?k}" "1 \<le> c \<and> c \<le> ?n + 1"
    then have "cells t ! (r * (?n + 2) + c) = zero_cell 2" by (intro cell) auto
    then show "\<exists>x. content (cells t ! (r * (?n + 2) + c)) = CELL_DOUBLE x \<and> on_grid x \<and> 0 \<le> x"
      using zero by simp
  qed auto
  moreover have "val t r c = 0" if "r \<in> {2..<2 + ?k + 2}" "1 \<le> c" "c \<le> ?n + 1" for r c
    using cell [of r c] that zero by (simp add: val_def dims')
  ultimately show ?thesis by blast
qed

end
