(* ===== verification/PropsStat.thy ===== *)
theory PropsStat
  imports NumaStatFacts ProcessSums
begin

unbundle bit_operations_syntax

text \<open>
  Properties of \<open>numastat\<close>: the hash index of the rows, the order of nodes, rows and processes, the display of a
  table, and the sums of the report of processes.
\<close>

section \<open>The index of the rows\<close>

text \<open>The insertion of the names of a file in the order of their rows, as \<open>info_row\<close> does it for the first node.\<close>

definition insert_names :: "string list \<Rightarrow> hash_state \<Rightarrow> hash_state option" where
  "insert_names names h =
     foldM (\<lambda>(i, name) h. map_option snd (hash_insert name i h)) (zip (map int [0..<length names]) names) h"

lemma map_of_names:
  "map_of (map (\<lambda>(i, t). (t, i)) (zip (map int [k..<k + length names]) names)) s =
     map_option (\<lambda>j. int (k + j)) (List.find (\<lambda>j. names ! j = s) [0..<length names])"
proof (induction names arbitrary: k)
  case (Cons x names)
  have "[k..<k + length (x # names)] = k # [Suc k..<Suc k + length names]" by (simp add: upt_conv_Cons del: upt_Suc)
  moreover have "[0..<length (x # names)] = 0 # map Suc [0..<length names]"
    by (simp add: map_Suc_upt upt_conv_Cons del: upt_Suc)
  moreover have "List.find (\<lambda>j. (x # names) ! j = s) (map Suc js) = map_option Suc (List.find (\<lambda>j. names ! j = s) js)" for js
    by (induction js) auto
  ultimately show ?case using Cons.IH [of "Suc k"]
    by (auto simp: option.map_comp comp_def add.left_commute simp del: upt_Suc)
qed simp

lemma insert_names_run:
  assumes "length names \<le> HASH_TABLE_SIZE"
  shows "\<exists>h'. insert_names names (init_hash_table h) = Some h' \<and> hash_inv h' \<and>
    hash_room h' = HASH_TABLE_SIZE - length names \<and>
    (\<forall>s. hash_entries h' s = map_option int (List.find (\<lambda>j. names ! j = s) [0..<length names]))"
proof -
  note init = init_hash_table_ok [of h]
  from ht.insert_all [of "init_hash_table h" "zip (map int [0..<length names]) names"]
  obtain h' where h': "insert_names names (init_hash_table h) = Some h'" "hash_inv h'"
    "hash_room h' = hash_room (init_hash_table h) - length names"
    "hash_entries h' = (\<lambda>s. case hash_entries (init_hash_table h) s of Some i \<Rightarrow> Some i
      | None \<Rightarrow> map_of (map (\<lambda>(i, t). (t, i)) (zip (map int [0..<length names]) names)) s)"
    using init assms unfolding insert_names_def by auto
  then show ?thesis using init map_of_names [of 0 names] by auto
qed

text \<open>C19: As long as at least one bucket stays free, the hash index behaves like the list of the names: looking a
  name up gives the number of the first row that has it, and -1 when there is none.\<close>

theorem index_finds_first_row:
  assumes "length names < HASH_TABLE_SIZE"
  shows "\<exists>h'. insert_names names (init_hash_table h) = Some h' \<and>
    (\<forall>s. hash_lookup s h' = Some (case List.find (\<lambda>j. names ! j = s) [0..<length names] of None \<Rightarrow> - 1 | Some j \<Rightarrow> int j))"
proof -
  from insert_names_run [of names h] assms obtain h' where h': "insert_names names (init_hash_table h) = Some h'"
    "hash_inv h'" "0 < hash_room h'"
    "\<forall>s. hash_entries h' s = map_option int (List.find (\<lambda>j. names ! j = s) [0..<length names])" by auto
  then show ?thesis using ht.lookup_ok [of h'] by (auto split: option.splits)
qed

lemma index_finds_first_row_witness:
  "\<exists>h'. insert_names [''numa_hit'', ''numa_miss'', ''numa_hit''] (init_hash_table initial_hash) = Some h' \<and>
    hash_lookup ''numa_hit'' h' = Some 0 \<and> hash_lookup ''numa_miss'' h' = Some 1 \<and> hash_lookup ''local_node'' h' = Some (- 1)"
proof -
  let ?ns = "[''numa_hit'', ''numa_miss'', ''numa_hit'']"
  have "length ?ns < HASH_TABLE_SIZE" by (simp add: HASH_TABLE_SIZE_def)
  from index_finds_first_row [OF this, of initial_hash] obtain h' where
    h': "insert_names ?ns (init_hash_table initial_hash) = Some h'"
    "\<And>s. hash_lookup s h' = Some (case List.find (\<lambda>j. ?ns ! j = s) [0..<length ?ns] of None \<Rightarrow> - 1 | Some j \<Rightarrow> int j)"
    by blast
  then show ?thesis by (intro exI [of _ h']) (simp add: upt_rec)
qed

text \<open>C39: A file with as many rows as the table has buckets fills it; from then on the search for a name that is
  not in the index does not end (for a node whose file has a line the first node's has not).\<close>

theorem full_index_never_answers:
  assumes "length names = HASH_TABLE_SIZE" "s \<notin> set names"
  shows "\<exists>h'. insert_names names (init_hash_table h) = Some h' \<and> hash_lookup s h' = None"
proof -
  from insert_names_run [of names h] assms(1) obtain h' where h': "insert_names names (init_hash_table h) = Some h'"
    "hash_inv h'" "hash_room h' = 0"
    "hash_entries h' s = map_option int (List.find (\<lambda>j. names ! j = s) [0..<length names])" by auto
  have "List.find (\<lambda>j. names ! j = s) [0..<length names] = None"
    using assms(2) by (auto simp: find_None_iff)
  with h' show ?thesis using full_lookup_diverges [of h' s] by auto
qed

lemma full_index_never_answers_witness:
  "\<exists>h'. insert_names (replicate HASH_TABLE_SIZE ''a'') (init_hash_table initial_hash) = Some h' \<and>
    hash_lookup ''b'' h' = None"
  by (rule full_index_never_answers) (simp_all add: HASH_TABLE_SIZE_def)

section \<open>Nodes, rows and processes in order\<close>

text \<open>The map of the nodes is the sorted list of the numbers in the directory, whatever order the directory
  delivers them in, and the headers of the columns are its nodes in that order with a total at the end.\<close>

theorem node_map_is_sorted:
  assumes "st_scandir K ''/sys/devices/system/node'' = Some entries" "filter node_and_digits entries \<noteq> []"
  shows "\<exists>g'. init_node_ix_map_and_header K g = Some g' \<and>
    node_ix_map g' = sort (map (\<lambda>n. atoi (drop 4 n)) (filter node_and_digits entries)) \<and>
    node_header g' = map (\<lambda>n. (if compatibility_mode g then ''node'' else ''Node '') @ dec_int n) (node_ix_map g') @ [''Total'']"
proof -
  let ?m = "sort_nodes (map (\<lambda>n. atoi (drop 4 n)) (filter node_and_digits entries))"
  have "map (node_label (compatibility_mode g) ?m) [0..<length ?m + 1] =
      map (\<lambda>n. (if compatibility_mode g then ''node'' else ''Node '') @ dec_int n) ?m @ [''Total'']"
    by (rule nth_equalityI) (auto simp: node_label_def nth_append less_Suc_eq)
  then have "init_node_ix_map_and_header K g = Some (g\<lparr>node_ix_map := ?m,
      node_header := map (\<lambda>n. (if compatibility_mode g then ''node'' else ''Node '') @ dec_int n) ?m @ [''Total'']\<rparr>)"
    unfolding init_node_ix_map_and_header_def using assms by (simp only: option.simps bind.simps Let_def if_False)
  then show ?thesis by (simp add: sort_nodes_ok)
qed

definition sparse_os :: stat_os where
  "sparse_os = \<lparr>st_file = (\<lambda>p. None), st_read_error = (\<lambda>p. False),
     st_scandir = (\<lambda>d. Some [''.'', ''node2'', ''has_cpu'', ''node0'']), st_isdir = (\<lambda>d. False),
     st_opendir = (\<lambda>d. None), st_getenv = (\<lambda>v. None), st_isatty = False, st_popen = (\<lambda>c. None),
     st_error = (\<lambda>p. []), st_getpid = 1, st_pagesize = 4096\<rparr>"

lemma node_names_eval:
  "filter node_and_digits [''.'', ''node2'', ''has_cpu'', ''node0''] = [''node2'', ''node0'']"
  "atoi ''2'' = 2" "atoi ''0'' = 0"
  by code_simp+

lemma node_map_is_sorted_witness:
  "\<exists>g'. init_node_ix_map_and_header sparse_os initial_stat = Some g' \<and> node_ix_map g' = [0, 2] \<and>
    node_header g' = [''Node 0'', ''Node 2'', ''Total'']"
proof -
  have "dec_int 0 = ''0''" "dec_int 2 = ''2''" by code_simp+
  moreover have dir: "st_scandir sparse_os ''/sys/devices/system/node'' = Some [''.'', ''node2'', ''has_cpu'', ''node0'']"
    by (simp add: sparse_os_def)
  moreover have ne: "filter node_and_digits [''.'', ''node2'', ''has_cpu'', ''node0''] \<noteq> []"
    unfolding node_names_eval(1) by simp
  moreover have "\<not> compatibility_mode initial_stat" by (simp add: initial_stat_def)
  ultimately show ?thesis
    using node_map_is_sorted [OF dir ne, of initial_stat] unfolding node_names_eval(1)
    by (auto simp: node_names_eval(2,3))
qed

text \<open>C25: Sorting the rows puts the rows of the range into descending order by the value in the column; it only
  exchanges rows of the range, and neither the cells nor the rest of the table change.\<close>

theorem rows_sorted_descending:
  assumes "start \<le> stop" "stop < length (row_ix_map t)"
    and "\<forall>i \<in> {start..stop}. row_val t col (row_ix_map t ! i) \<noteq> None"
  shows "\<exists>m. sort_rows_descending_by_col start stop col t = Some (t\<lparr>row_ix_map := m\<rparr>) \<and>
    mset m = mset (row_ix_map t) \<and> (\<forall>i < length m. i < start \<or> stop < i \<longrightarrow> m ! i = row_ix_map t ! i) \<and>
    (\<forall>i j. start \<le> i \<and> i < j \<and> j \<le> stop \<longrightarrow> the (row_val t col (m ! j)) \<le> the (row_val t col (m ! i)))"
proof -
  let ?key = "\<lambda>r. the (row_val t col r)"
  let ?m = "selection_sort (\<lambda>a b. ?key b < ?key a) start (Suc stop) (row_ix_map t)"
  have "start \<le> Suc stop" "Suc stop \<le> length (row_ix_map t)" using assms by simp_all
  note ok = row_order.selection_sort_ok [OF this, where key = ?key]
  show ?thesis
  proof (intro exI [of _ ?m] conjI allI impI)
    show "sort_rows_descending_by_col start stop col t = Some (t\<lparr>row_ix_map := ?m\<rparr>)"
      using assms by (intro sort_rows_run) simp_all
    show "mset ?m = mset (row_ix_map t)" by (rule ok(2))
    show "?m ! i = row_ix_map t ! i" if "i < length ?m" "i < start \<or> stop < i" for i
      using ok(1,3) that by auto
    show "?key (?m ! j) \<le> ?key (?m ! i)" if "start \<le> i \<and> i < j \<and> j \<le> stop" for i j
      using ok(4) [of i j] that by (simp add: not_less)
  qed
qed

definition two_rows :: vtab where
  "two_rows = (init_table 1 1 2 1)\<lparr>cells := [zero_cell 0, zero_cell 0, zero_cell 0,
     \<lparr>content = CELL_DOUBLE 1, flags = 0\<rparr>, zero_cell 0, \<lparr>content = CELL_DOUBLE 5, flags = 0\<rparr>]\<rparr>"

lemma rows_sorted_descending_witness:
  "\<exists>m. sort_rows_descending_by_col 1 2 1 two_rows = Some (two_rows\<lparr>row_ix_map := m\<rparr>) \<and>
    mset m = {#0, 1, 2#} \<and> the (row_val two_rows 1 (m ! 2)) \<le> the (row_val two_rows 1 (m ! 1))"
proof -
  have two: "row_val two_rows 1 1 = Some 1" "row_val two_rows 1 2 = Some 5" "row_ix_map two_rows = [0, 1, 2]"
    by (simp_all add: row_val_def cell_at_def elem_def two_rows_def init_table_def all_cols_def double_member_def upt_rec)
  have "{1 .. 2 :: nat} = {1, 2}" by auto
  then have "\<forall>i \<in> {1..2}. row_val two_rows 1 (row_ix_map two_rows ! i) \<noteq> None" by (simp add: two [simplified])
  from rows_sorted_descending [OF _ _ this] obtain m where
    "sort_rows_descending_by_col 1 2 1 two_rows = Some (two_rows\<lparr>row_ix_map := m\<rparr>)" "mset m = mset (row_ix_map two_rows)"
    "\<forall>i j. 1 \<le> i \<and> i < j \<and> j \<le> 2 \<longrightarrow> the (row_val two_rows 1 (m ! j)) \<le> the (row_val two_rows 1 (m ! i))"
    using two(3) by auto
  then show ?thesis unfolding two(3) by (intro exI [of _ m]) simp
qed

text \<open>The list of processes that is reported has every process number that was given or found, once, in
  increasing order.\<close>

theorem pids_sorted_once:
  assumes "sort_pids_and_remove_duplicates g = Some g'" "num_pids g \<le> length (pid_array g)"
  shows "take (num_pids g') (pid_array g') = sorted_list_of_set (set (take (num_pids g) (pid_array g)))"
proof (cases "1 < num_pids g")
  case True
  let ?ps = "take (num_pids g) (pid_array g)"
  from True assms(1) have q: "qsort_pids ?ps = Some (sort ?ps)"
    by (auto simp: sort_pids_and_remove_duplicates_def qsort_pids_def split: if_splits)
  have len1: "length (sort ?ps) = num_pids g" using assms(2) by simp
  then have len: "length (sort ?ps) = num_pids g" "sort ?ps \<noteq> []" using True by force+
  obtain ix1 a where f: "fold dedup_step [1..<num_pids g] (0, sort ?ps) = (ix1, a)" by force
  with dedup_run [of "sort ?ps"] len have "dedup_inv (sort ?ps) (num_pids g) (ix1, a)" by simp
  then have "sorted_wrt (<) (take (Suc ix1) a)" "set (take (Suc ix1) a) = set ?ps"
    using len by (simp_all add: dedup_inv_def)
  moreover have "g' = g\<lparr>pid_array := a, num_pids := ix1 + 1\<rparr>"
    using assms(1) True q f by (simp add: sort_pids_and_remove_duplicates_def)
  ultimately show ?thesis by (simp add: strict_sorted_unique)
next
  case False
  then have "g' = g" using assms(1) by (simp add: sort_pids_and_remove_duplicates_def)
  moreover have "num_pids g = 0 \<or> num_pids g = 1" using False by auto
  ultimately show ?thesis by (cases "pid_array g") auto
qed

lemma pids_sorted_once_witness:
  "\<exists>g'. sort_pids_and_remove_duplicates (fold add_pid_to_list [7, 3, 7, 5] initial_stat) = Some g' \<and>
    take (num_pids g') (pid_array g') = [3, 5, 7]"
proof -
  let ?g = "fold add_pid_to_list [7, 3, 7, 5] initial_stat"
  have g: "num_pids ?g = 4" "pid_array ?g = [7, 3, 7, 5]"
    by (simp_all add: add_pid_to_list_def initial_stat_def Let_def)
  obtain ix1 a where "fold dedup_step [1..<4] (0, [3, 5, 7, 7]) = (ix1, a)" by force
  then have "sort_pids_and_remove_duplicates ?g = Some (?g\<lparr>pid_array := a, num_pids := ix1 + 1\<rparr>)"
    using g by (simp add: sort_pids_and_remove_duplicates_def qsort_pids_def c_int_def)
  then obtain g' where g': "sort_pids_and_remove_duplicates ?g = Some g'" by blast
  have "sorted_list_of_set {3, 5, 7 :: int} = [3, 5, 7]" by (simp add: sorted_list_of_set_nonempty)
  moreover have "set [7, 3, 7, 5 :: int] = {3, 5, 7}" by auto
  ultimately show ?thesis using pids_sorted_once [OF g'] g' g by simp
qed

text \<open>With \<open>-s\<close> and a node number that is below the number of nodes, the rows are sorted by the column of that node
  only if no number below it is missing: otherwise the map, which leads from columns to nodes, is applied in the
  wrong direction and another column decides.\<close>

theorem sort_by_node_needs_dense_numbers:
  assumes "sorted_wrt (<) (node_ix_map g)" "\<forall>n \<in> set (node_ix_map g). 0 \<le> n"
    and "sort_table_node g = node_ix_map g ! k" "k < num_nodes g" "sort_table_node g < int (num_nodes g)"
  shows "sort_col 1 g = 1 + nat (node_ix_map g ! nat (sort_table_node g)) \<and>
    (sort_col 1 g = 1 + k \<longleftrightarrow> sort_table_node g = int k)"
proof -
  let ?m = "node_ix_map g"
  have ge: "int i \<le> ?m ! i" if "i < length ?m" for i
    using that
  proof (induction i)
    case 0
    then show ?case using assms(2) nth_mem [OF 0] by simp
  next
    case (Suc i)
    then have "?m ! i < ?m ! Suc i" using sorted_wrt_nth_less [OF assms(1), of i "Suc i"] by simp
    then show ?case using Suc by simp
  qed
  let ?n = "nat (sort_table_node g)"
  have pos: "0 \<le> sort_table_node g" using assms(2-4) nth_mem [of k ?m] by (simp add: num_nodes_def)
  have n: "?n < length ?m" using assms(5) pos by (simp add: num_nodes_def nat_less_iff)
  have col: "sort_col 1 g = 1 + nat (?m ! ?n)"
    using assms(5) pos ge [OF n] by (simp add: sort_col_def nat_add_distrib)
  have "int k \<le> sort_table_node g" using ge [of k] assms(3,4) by (simp add: num_nodes_def)
  moreover have "sort_table_node g \<le> ?m ! ?n" using ge [OF n] pos by simp
  ultimately have "nat (?m ! ?n) = k \<longleftrightarrow> sort_table_node g = int k" using assms(3) pos by auto
  with col show ?thesis by simp
qed

lemma sort_by_node_needs_dense_numbers_witness:
  "sort_col 1 (initial_stat\<lparr>node_ix_map := [0, 2, 3], sort_table_node := 2\<rparr>) = 4"
proof -
  let ?g = "initial_stat\<lparr>node_ix_map := [0, 2, 3], sort_table_node := 2\<rparr>"
  have "sort_col 1 ?g = 1 + nat (node_ix_map ?g ! nat (sort_table_node ?g)) \<and>
    (sort_col 1 ?g = 1 + 1 \<longleftrightarrow> sort_table_node ?g = int 1)"
    by (rule sort_by_node_needs_dense_numbers) (simp_all add: num_nodes_def)
  then show ?thesis by simp
qed

text \<open>A line read into the buffer has at most as many tokens as the array of pointers has elements, whatever the
  file holds.\<close>

theorem tokens_fit_array:
  assumes "buf \<in> set (fgets_lines SMALL_BUF_SIZE contents)"
  shows "length (strtok_all info_delims buf) \<le> 64"
  by (rule tokens_bound [OF assms])

lemma tokens_fit_array_witness: "length (strtok_all info_delims (''numa_hit 5'' @ [CHR 0x0A])) \<le> 64"
proof (rule tokens_fit_array [of _ "''numa_hit 5'' @ [CHR 0x0A]"])
  show "''numa_hit 5'' @ [CHR 0x0A] \<in> set (fgets_lines SMALL_BUF_SIZE (''numa_hit 5'' @ [CHR 0x0A]))"
    using fgets_lines_concat [of "[''numa_hit 5'']" SMALL_BUF_SIZE] by (simp add: SMALL_BUF_SIZE_def)
qed

section \<open>The display of a table\<close>

text \<open>C8: displaying a table that is well formed and has a header row always comes to an end.  A table without data, and,
  unless zero rows or columns are wanted, one without a datum that is not zero, gives one line that says so.  Otherwise
  the output is a sequence of sections with a blank line between them.  The sections share out the columns that are
  displayed, those that are always shown and those with data in some data row, in order and each to exactly one
  section; a section has a line for every displayed row, and all its lines are equally long: the header columns and
  the columns of the section in their widths.  That is not more than the screen has, unless it is already so with the
  first column of the section alone.\<close>

theorem display_folds_columns:
  assumes "table_ok t" "0 < header_rows t" "0 \<in> set (row_ix_map t)"
  shows "\<exists>t' gs. display_table D t = Some
      (if \<not> (\<exists>p \<in> data_region t. data_cell t p) then ''Table has no data.'' @ [CHR 0x0A]
       else if \<not> (\<exists>p \<in> data_region t. non_zero_cell t p) \<and> \<not> zero_rows D \<and> \<not> zero_cols D
       then ''Table has no non-zero data.'' @ [CHR 0x0A]
       else sections_text D t' False gs, t') \<and>
    cells t' = cells t \<and>
    row_ix_map t' = row_ix_map t \<and> concat gs = filter (col_displayed D t) [header_cols t..<all_cols t] \<and>
    (\<forall>g \<in> set gs. g \<noteq> [] \<and>
      head_width t + cols_width t g \<le> max (screen D) (head_width t + col_width t ! hd g) \<and>
      (\<forall>r < all_rows t. length (line_text t' g r) = head_width t + cols_width t g + 1))"
proof -
  from mark_data_run [OF assms(1)] obtain t' where
    m: "mark_data t = Some (\<exists>p \<in> data_region t. data_cell t p, \<exists>p \<in> data_region t. non_zero_cell t p, t')"
    and mk: "marked (data_region t) t t'" by blast
  note ok = marked_table_ok [OF assms(1) mk] and same = marked_fields [OF mk]
  let ?gs = "col_groups D t' (header_cols t)"
  have row: "\<exists>r \<in> set (row_ix_map t'). shows_row D t' r"
    using assms(2,3) shows_header [of 0 t' D] same by auto
  have "display_sections D t' (- 1) (int (header_cols t)) [] = Some (sections_text D t' False ?gs)"
    using display_sections_run [OF ok row, of "- 1" "header_cols t" "[]"] by simp
  then have run: "display_table D t = Some
      (if \<not> (\<exists>p \<in> data_region t. data_cell t p) then ''Table has no data.'' @ [CHR 0x0A]
       else if \<not> (\<exists>p \<in> data_region t. non_zero_cell t p) \<and> \<not> zero_rows D \<and> \<not> zero_cols D
       then ''Table has no non-zero data.'' @ [CHR 0x0A]
       else sections_text D t' False ?gs, t')"
    using m same(2) by (simp add: display_table_def)
  have "concat ?gs = section_cols D t' (header_cols t) (all_cols t)"
    using col_groups_concat [of D t' "header_cols t"] same(4) by simp
  also have "\<dots> = filter (col_displayed D t) [header_cols t..<all_cols t]"
    unfolding section_cols_def by (rule filter_cong) (simp_all add: marked_shows_col [OF assms(1) mk])
  finally have cols: "concat ?gs = filter (col_displayed D t) [header_cols t..<all_cols t]" .
  have wd: "cols_width t' = cols_width t" by (simp add: cols_width_def same fun_eq_iff)
  have each: "g \<noteq> [] \<and> head_width t + cols_width t g \<le> max (screen D) (head_width t + col_width t ! hd g) \<and>
      (\<forall>r < all_rows t. length (line_text t' g r) = head_width t + cols_width t g + 1)" if "g \<in> set ?gs" for g
  proof -
    from that have "set g \<subseteq> set (concat ?gs)" by auto
    then have "\<forall>c \<in> set ([0..<header_cols t] @ g). c < all_cols t" unfolding cols by (auto simp: all_cols_def)
    then have "\<forall>c \<in> set ([0..<header_cols t] @ g). c < all_cols t'" by (simp only: same)
    then have "length (line_text t' g r) = head_width t + cols_width t g + 1" if "r < all_rows t" for r
      using length_row_text [OF ok, of r] that by (simp add: line_text_def same wd) (simp add: cols_width_def)
    then show ?thesis using col_groups_each [OF that] by (simp add: wd same)
  qed
  show ?thesis using run cols each same by blast
qed

lemma two_rows_fields:
  "header_rows two_rows = 1" "header_cols two_rows = 1" "all_rows two_rows = 3" "all_cols two_rows = 2"
  "row_ix_map two_rows = [0, 1, 2]" "length (cells two_rows) = 6" "col_flags two_rows = [0, 0]"
  "content (cells two_rows ! Suc (Suc (Suc 0))) = CELL_DOUBLE 1"
  by (simp_all add: two_rows_def init_table_def all_rows_def all_cols_def upt_rec numeral_2_eq_2)

lemma two_rows_ok: "table_ok two_rows"
proof -
  have "printable 0 (content (cells two_rows ! i))" if "i < 6" for i
    using that by (auto simp: less_Suc_eq numeral_eq_Suc two_rows_def zero_cell_def zero_content_def printable_def)
  moreover have "r * 2 + c < 6" if "r < 3" "c < 2" for r c :: nat using that by simp
  moreover have "col_width two_rows ! c = 0" if "c < 2" for c
    using that by (auto simp: two_rows_def init_table_def less_Suc_eq numeral_2_eq_2)
  ultimately have "\<forall>r < 3. \<forall>c < 2. printable (col_width two_rows ! c) (content (cells two_rows ! (r * 2 + c)))"
    by simp
  then show ?thesis
    using two_rows_fields by (simp add: table_ok_def SMALL_BUF_SIZE_def) (simp add: two_rows_def init_table_def numeral_eq_Suc)
qed

lemma display_folds_columns_witness:
  "\<exists>t' gs out. display_table \<lparr>screen = 80, unseen_rows = False, unseen_cols = False, zero_rows = False, zero_cols = False\<rparr> two_rows =
    Some (out, t') \<and> out = sections_text \<lparr>screen = 80, unseen_rows = False, unseen_cols = False, zero_rows = False, zero_cols = False\<rparr> t' False gs \<and>
    concat gs = [1]"
proof -
  let ?D = "\<lparr>screen = 80, unseen_rows = False, unseen_cols = False, zero_rows = False, zero_cols = False\<rparr>"
  have p: "(1, 1) \<in> data_region two_rows" "non_zero_cell two_rows (1, 1)" "data_cell two_rows (1, 1)"
    using two_rows_fields
    by (simp_all add: data_region_def non_zero_cell_def data_cell_def is_data_def non_zero_content_def)
  then have "\<exists>p \<in> data_region two_rows. non_zero_cell two_rows p" "\<exists>p \<in> data_region two_rows. data_cell two_rows p" by blast+
  with display_folds_columns [OF two_rows_ok, of ?D] two_rows_fields obtain t' gs where
    "display_table ?D two_rows = Some (sections_text ?D t' False gs, t')" "concat gs = filter (col_displayed ?D two_rows) [1..<2]"
    by auto
  moreover have "col_displayed ?D two_rows 1" using p unfolding col_displayed_def by auto
  ultimately show ?thesis by (auto simp: upt_rec)
qed

section \<open>The report of processes\<close>

lemma process_pid_quiet:
  assumes "process_pid K pid_ix (t, g) = Some (t', g')" "\<not> show_sub_categories g"
    and "pid_ix + 1 = num_pids g \<longrightarrow> st_file K (proc_file (pid_array g ! pid_ix) ''numa_maps'') = None"
  shows "g' = g"
  using assms
  by (auto simp: process_pid_def process_label_def elem_def bind_Some_iff split: option.splits if_splits prod.splits)

text \<open>C29: When the map of the last of several processes cannot be opened, the table of all of them is never
  displayed: the output is the heading alone, also for the processes that could be read.\<close>

theorem unreadable_last_process_hides_table:
  assumes "show_process_info K g = Some g'" "\<not> verbose g" "1 < num_pids g"
    and "st_file K (proc_file (pid_array g ! (num_pids g - 1)) ''numa_maps'') = None"
  shows "stdout g' = stdout g @ [CHR 0x0A] @ ''Per-node process memory usage (in MBs)'' @ [CHR 0x0A]"
proof -
  have sub: "\<not> show_sub_categories g" using assms(2,3) by (simp add: show_sub_categories_def)
  let ?head = "[CHR 0x0A] @ ''Per-node process memory usage (in MBs)'' @ [CHR 0x0A]"
  from assms(1) obtain t1 g1 t2 where g1: "process_table g = Some (t1, g1)"
    "foldM (process_pid K) [0..<num_pids g1] (t1, g1) = Some (t2, g')"
    unfolding show_process_info_def
    by (auto simp: bind_Some_iff process_table_def put_out_def sub Let_def split: prod.splits)
  then have h: "g1 = put_out ?head g"
    by (auto simp: process_table_def bind_Some_iff sub Let_def split: prod.splits)
  have "snd (t2, g') = g1"
  proof (rule foldM_invariant [OF g1(2), where P = "\<lambda>s. snd s = g1"])
    fix pid_ix s s'
    assume a: "pid_ix \<in> set [0..<num_pids g1]" "snd s = g1" "process_pid K pid_ix s = Some s'"
    obtain t g2 t' g2' where "s = (t, g2)" "s' = (t', g2')" by (cases s; cases s')
    moreover have "pid_ix + 1 = num_pids g \<Longrightarrow> pid_ix = num_pids g - 1" by simp
    ultimately show "snd s' = g1"
      using a process_pid_quiet [of K pid_ix t g2 t' g2'] sub assms(4) h
      by (auto simp: put_out_def show_sub_categories_def)
  qed simp
  then show ?thesis using h by (simp add: put_out_def)
qed

definition two_pids_os :: stat_os where
  "two_pids_os = sparse_os\<lparr>st_file := (\<lambda>p. if p = ''/proc/3/numa_maps'' then Some (''7f heap N0=2'' @ [CHR 0x0A]) else None)\<rparr>"

definition two_pids :: stat where
  "two_pids = initial_stat\<lparr>node_ix_map := [0], node_header := [''Node 0'', ''Total''], num_pids := 2,
     pid_array := [3, 5], page_size_in_bytes := 4096, screen_width := 80\<rparr>"

lemma two_pids_run: "map_option num_pids (show_process_info two_pids_os two_pids) = Some 2"
  by code_simp

lemma unreadable_last_process_hides_table_witness:
  "\<exists>g'. show_process_info two_pids_os two_pids = Some g' \<and>
    stdout g' = [CHR 0x0A] @ ''Per-node process memory usage (in MBs)'' @ [CHR 0x0A]"
proof -
  obtain g' where g': "show_process_info two_pids_os two_pids = Some g'" using two_pids_run by auto
  have "proc_file 5 ''numa_maps'' = ''/proc/5/numa_maps''" by code_simp
  then have "stdout g' = stdout two_pids @ [CHR 0x0A] @ ''Per-node process memory usage (in MBs)'' @ [CHR 0x0A]"
    by (intro unreadable_last_process_hides_table [OF g'])
      (simp_all add: two_pids_def two_pids_os_def sparse_os_def initial_stat_def)
  with g' show ?thesis by (simp add: two_pids_def initial_stat_def)
qed

text \<open>C13: the report of processes adds up.  Starting from the table of zeros, the lines of a map of a process are
  read; where the amounts are whole bytes and their sum stays below 2\<open>^\<close>33 megabytes, every cell of a category
  (or of the process) and a node is the sum of the amounts of that category and that node, the column of totals is
  the sum over the nodes, and the row of totals the sum over the rows, without any rounding.\<close>

theorem process_amounts_are_totalled:
  assumes "process_table g = Some (t, g1)" "file_amounts g lines = Some as" "good_amounts as" "sum_amounts as < 2 ^ 33"
    and "\<forall>c < 4. row_of c \<in> {2..<2 + process_rows g}"
  shows "\<exists>t'. foldM (maps_line g (2 + process_rows g + 1) row_of) lines t = Some t' \<and>
    totals_ok {2..<2 + process_rows g} (2 + process_rows g + 1) (num_nodes g) t' \<and>
    (\<forall>r \<in> {2..<2 + process_rows g}. \<forall>i < num_nodes g. val t' r (1 + i) = added row_of as r i)"
proof -
  let ?rs = "{2..<2 + process_rows g}" and ?tr = "2 + process_rows g + 1" and ?n = "num_nodes g"
  from process_table_sums [OF assms(1)] have reg: "sum_region ?rs ?tr ?n t"
    and zero: "\<And>r c. r \<in> {2..<2 + process_rows g + 2} \<Longrightarrow> 1 \<le> c \<Longrightarrow> c \<le> ?n + 1 \<Longrightarrow> val t r c = 0" by auto
  have tot: "totals_ok ?rs ?tr ?n t" unfolding totals_ok_def using zero by auto
  have "val t ?tr (?n + 1) + sum_amounts as < 2 ^ 33" using zero assms(4) by simp
  from maps_lines_run [OF _ _ assms(5) refl assms(2,3) reg tot this] obtain t' where
    "foldM (maps_line g ?tr row_of) lines t = Some t'" "adds ?rs ?tr ?n row_of as t t'" by auto
  then show ?thesis using zero by (auto simp: adds_def)
qed

lemma process_amounts_are_totalled_witness:
  "\<exists>t g1 t'. process_table two_pids = Some (t, g1) \<and>
    foldM (maps_line two_pids 5 (\<lambda>c. 2)) [''7f heap N0=2'' @ [CHR 0x0A]] t = Some t' \<and> val t' 2 1 = 1 / 128 \<and>
    val t' 2 2 = 1 / 128 \<and> val t' 5 2 = 1 / 128"
proof -
  let ?as = "[(1, 0, 1 / 128)] :: (nat \<times> nat \<times> rat) list"
  have am: "file_amounts two_pids [''7f heap N0=2'' @ [CHR 0x0A]] = Some ?as" by code_simp
  have "process_table two_pids \<noteq> None" by code_simp
  then obtain t g1 where t: "process_table two_pids = Some (t, g1)" by auto
  have n: "process_rows two_pids = 2" "num_nodes two_pids = 1"
    by (simp_all add: process_rows_def show_sub_categories_def two_pids_def initial_stat_def num_nodes_def)
  have "1 / 128 = (of_int 8192 / 2 ^ 20 :: rat)" by simp
  then have "on_grid (1 / 128)" unfolding on_grid_def by (rule exI)
  then have good: "good_amounts ?as" by (simp add: good_amounts_def)
  from process_amounts_are_totalled [OF t am good, of "\<lambda>c. 2"] obtain t' where
    t': "foldM (maps_line two_pids 5 (\<lambda>c. 2)) [''7f heap N0=2'' @ [CHR 0x0A]] t = Some t'"
    "totals_ok {2..<4} 5 1 t'" "\<forall>r \<in> {2..<4}. \<forall>i < 1. val t' r (1 + i) = added (\<lambda>c. 2) ?as r i"
    by (auto simp: n sum_amounts_def)
  have "val t' 2 (1 + 0) = 1 / 128" "val t' 3 (1 + 0) = 0" using t'(3) by (simp_all add: added_def del: One_nat_def)
  moreover have "{2..<4} = {2, 3 :: nat}" by auto
  ultimately have "val t' 2 2 = 1 / 128" "val t' 3 2 = 0" "val t' 5 2 = val t' 2 2 + val t' 3 2" "val t' 2 1 = 1 / 128"
    using t'(2) by (auto simp: totals_ok_def numeral_2_eq_2)
  then show ?thesis using t t'(1) by (intro exI [of _ t] exI [of _ g1] exI [of _ t']) (simp del: foldM.simps)
qed

end
