(* ===== verification/Migrate.thy ===== *)
theory Migrate
  imports Policy NodeString Util Stdio
begin

text \<open>
  The commands that move memory between nodes: \<open>migratepages\<close> (\<open>migratepages.c\<close>), which moves the pages of a
  process, and \<open>migspeed\<close> (\<open>migspeed.c\<close>), which times the move of its own memory.  \<open>getopt\<close> and the arguments
  behind the options are parameters, as for \<open>numactl\<close>.  \<open>None\<close> is the end of the process with a message and a
  status other than 0, or undefined behaviour; what is printed to the standard output is a string.
\<close>

section \<open>migratepages\<close>

text \<open>The options are those \<open>getopt_long\<close> delivers; the only one there is, and every unknown one, prints the usage.\<close>

definition migratepages_main :: "'w os \<Rightarrow> 'w resolver \<Rightarrow> char list \<Rightarrow> string list \<Rightarrow> 'w numa \<Rightarrow> (int \<times> 'w numa) option" where
  "migratepages_main K f options argv s =
     (if options \<noteq> [] then None
      else case argv of
        [pidstr, fromstr, tostr] \<Rightarrow> do {
          let (avail, s) = numa_available K s;
          if avail < 0 then None
          else do {
            let (v, end) = strtoul pidstr 0;
            let pid = c_int (int v);
            if end \<noteq> [] \<or> end = pidstr then None
            else do {
              (fromnodes, s) \<leftarrow> numa_parse_nodestring K f fromstr s;
              fromnodes \<leftarrow> fromnodes;
              (tonodes, s) \<leftarrow> numa_parse_nodestring K f tostr s;
              tonodes \<leftarrow> tonodes;
              let (rc, s) = numa_migrate_pages K pid fromnodes tonodes s;
              Some (if rc < 0 then 1 else 0, s)
            }
          }
        }
      | _ \<Rightarrow> None)"

section \<open>migspeed\<close>

text \<open>Aligned memory and the clock, whose reading takes time.\<close>

record 'w bench_os =
  bo_memalign :: "'w \<Rightarrow> nat \<Rightarrow> nat \<Rightarrow> (nat \<times> 'w) option"
  bo_clock :: "'w \<Rightarrow> (int \<times> int) \<times> 'w"

definition MPOL_MF_MOVE :: uint where
  "MPOL_MF_MOVE = 2"

definition displaymap :: "'w os \<Rightarrow> 'w numa \<Rightarrow> string option" where
  "displaymap K s =
     (case os_file K (world s) ''/proc/self/numa_maps'' of
        Inl e \<Rightarrow> None
      | Inr t \<Rightarrow> Some (concat (filter (\<lambda>buffer. strstr buffer ''bind'' \<noteq> None) (fgets_lines 2000 t))))"

text \<open>The options change the verbosity and the number of pages.\<close>

definition migspeed_option :: "char \<times> string \<Rightarrow> nat \<times> nat \<Rightarrow> (nat \<times> nat) option" where
  "migspeed_option opt st =
     (case (opt, st) of ((option, optarg), (verbose, pages)) \<Rightarrow>
        if option = CHR ''h'' \<or> option = CHR ''?'' then None
        else if option = CHR ''v'' then Some (verbose + 1, pages)
        else if option = CHR ''p'' then
          (let (v, p) = strtoul optarg 0 in if p = optarg \<or> p \<noteq> [] then None else Some (verbose, v))
        else Some (verbose, pages))"

text \<open>\<open>for (p = memory; p < memory + bytes; p += pagesize) *p = 1\<close>.\<close>

definition dirty_pages :: "'w os \<Rightarrow> nat \<Rightarrow> nat \<Rightarrow> nat \<Rightarrow> 'w \<Rightarrow> 'w" where
  "dirty_pages K memory bytes pgsize w =
     fold (\<lambda>k w. os_touch K w (memory + k * pgsize)) [0..<(bytes + pgsize - 1) div pgsize] w"

definition elapsed :: "int \<times> int \<Rightarrow> int \<times> int \<Rightarrow> int \<times> int" where
  "elapsed start end =
     (let sec = fst end - fst start; nsec = snd end - snd start;
          (sec, nsec) = (if nsec < 0 then (sec - 1, nsec + 1000000000) else (sec, nsec))
      in if 1000000000 \<le> nsec then (sec + 1, nsec - 1000000000) else (sec, nsec))"

definition rate_text :: "nat \<Rightarrow> int \<times> int \<Rightarrow> string" where
  "rate_text bytes result =
     (let duration = dbl (double_of (fst result) + dbl (double_of (snd result) / 1000000000));
          mbytes = dbl (double_of (int bytes) / (1024 * 1024))
      in fmt_double 1 mbytes @ '' Mbyte migrated in '' @ fmt_double 2 duration @ '' secs. '' @
         fmt_fp 1 (fdiv mbytes duration) @
         '' Mbytes/second'' @ [CHR 0x0A])"

text \<open>One of the two node lists: its parse, the test of \<open>errno\<close> and the report.\<close>

definition migspeed_nodes :: "'w os \<Rightarrow> 'w resolver \<Rightarrow> nat \<Rightarrow> string \<Rightarrow> string \<Rightarrow> 'w numa \<Rightarrow>
    ((bitmask \<times> string) \<times> 'w numa) option" where
  "migspeed_nodes K f verbose name arg s = do {
     (m, s) \<leftarrow> numa_parse_nodestring K f arg s;
     m \<leftarrow> m;
     if errno s \<noteq> E0 then None
     else Some ((m, if 0 < verbose then printmask name m else []), s)
   }"

definition line_if :: "bool \<Rightarrow> string \<Rightarrow> string" where
  "line_if b t = (if b then t @ [CHR 0x0A] else [])"

definition mbind_or_error :: "'w os \<Rightarrow> nat \<Rightarrow> nat \<Rightarrow> bitmask \<Rightarrow> uint \<Rightarrow> string \<Rightarrow> 'w numa \<Rightarrow> 'w numa option" where
  "mbind_or_error K memory bytes m flags where s =
     (let (r, s) = mbind K memory bytes MPOL_BIND (Some (maskp m)) (bm_size m) flags s in
      if r < 0 then numa_error where s else Some s)"

definition migspeed_main :: "'w os \<Rightarrow> 'w bench_os \<Rightarrow> 'w resolver \<Rightarrow> (char \<times> string) list \<Rightarrow> string list \<Rightarrow> 'w numa \<Rightarrow>
    (string \<times> 'w numa) option" where
  "migspeed_main K B f options args s = do {
     let pgsize = c_ulong (os_pagesize K (world s));
     (verbose, pages) \<leftarrow> foldM migspeed_option options (0, 1000);
     case args of
       [] \<Rightarrow> None
     | a # args \<Rightarrow> do {
         let out0 = line_if (1 < verbose) (''numa_max_node = '' @ dec_int (numa_max_node s));
         let s = s\<lparr>numa_exit_on_error := True\<rparr>;
         ((from, out1), s) \<leftarrow> migspeed_nodes K f verbose ''From'' a s;
         case args of
           [] \<Rightarrow> None
         | a # _ \<Rightarrow> do {
             ((to, out2), s) \<leftarrow> migspeed_nodes K f verbose ''To'' a s;
             let bytes = c_ulong (int pages * int pgsize);
             let out3 = line_if (0 < verbose) (''Allocating '' @ dec_nat pages @ '' pages of '' @ dec_nat pgsize @ '' bytes of memory'');
             (memory, w) \<leftarrow> bo_memalign B (world s) pgsize bytes;
             s \<leftarrow> mbind_or_error K memory bytes from 0 ''mbind'' (s\<lparr>world := w\<rparr>);
             let out4 = line_if (0 < verbose) ''Dirtying memory....'';
             let s = s\<lparr>world := dirty_pages K memory bytes pgsize (world s)\<rparr>;
             let out5 = line_if (0 < verbose) ''Starting test'';
             out6 \<leftarrow> displaymap K s;
             let (start, w) = bo_clock B (world s);
             s \<leftarrow> mbind_or_error K memory bytes to MPOL_MF_MOVE ''memory move'' (s\<lparr>world := w\<rparr>);
             let (end, w) = bo_clock B (world s);
             let s = s\<lparr>world := w\<rparr>;
             out7 \<leftarrow> displaymap K s;
             Some (out0 @ out1 @ out2 @ out3 @ out4 @ out5 @ out6 @ out7 @ rate_text bytes (elapsed start end), s)
           }
       }
   }"

end
