(* ===== verification/Memhog.thy ===== *)
theory Memhog
  imports Policy NodeString Util Stdio
begin

text \<open>
  The \<open>memhog\<close> command (\<open>memhog.c\<close>): it maps memory, gives it a policy, compares the policy the kernel reports with
  the one asked for, and fills the memory piece by piece.  The parameter \<open>mem_os\<close> stands for the calls that
  the library does not make.  \<open>None\<close> is the end with the usage or a message, or undefined behaviour; otherwise the
  result is the status, the standard output and the state.
\<close>

record 'w mem_os =
  mo_open :: "'w \<Rightarrow> string \<Rightarrow> int"
  mo_mmap :: "'w \<Rightarrow> int \<Rightarrow> nat \<Rightarrow> (nat \<times> 'w) option"
  mo_madvise :: "'w \<Rightarrow> nat \<Rightarrow> nat \<Rightarrow> 'w"
  mo_memset :: "'w \<Rightarrow> nat \<Rightarrow> nat \<Rightarrow> 'w"

section \<open>Filling the memory\<close>

definition UNIT :: int where
  "UNIT = 10 * 1024 * 1024"

text \<open>The counter is a \<open>long\<close>, whose overflow is undefined.\<close>

function hog_loop :: "'w mem_os \<Rightarrow> nat \<Rightarrow> int \<Rightarrow> int \<Rightarrow> string \<times> 'w \<Rightarrow> (string \<times> 'w) option" where
  "hog_loop M addr len i st =
     (if i < len then
        let left = len - i;
            left = (if UNIT < left then UNIT else left);
            st = (fst st @ ''.'', mo_memset M (snd st) (addr + nat i) (nat left))
        in if 2 ^ 63 \<le> i + UNIT then None else hog_loop M addr len (i + UNIT) st
      else Some st)"
  by pat_completeness auto
termination by (relation "measure (\<lambda>(M, addr, len, i, st). nat (len - i))") (auto simp: UNIT_def)

declare hog_loop.simps [simp del]

definition hog :: "'w mem_os \<Rightarrow> nat \<Rightarrow> int \<Rightarrow> string \<times> 'w \<Rightarrow> (string \<times> 'w) option" where
  "hog M addr len st = do {
     (out, w) \<leftarrow> hog_loop M addr len 0 st;
     Some (out @ [CHR 0x0A], w)
   }"

section \<open>The command\<close>

record memhog =
  hog_fd :: int
  disable_hugepage :: bool
  repeat :: int

definition initial_memhog :: memhog where
  "initial_memhog = \<lparr>hog_fd = - 1, disable_hugepage = False, repeat = 1\<rparr>"

fun memhog_options :: "'w mem_os \<Rightarrow> 'w \<Rightarrow> string list \<Rightarrow> memhog \<Rightarrow> (string list \<times> memhog) option" where
  "memhog_options M w [] h = Some ([], h)"
| "memhog_options M w (a # av) h =
     (if head_char a \<noteq> CHR ''-'' then Some (a # av, h)
      else
        let c = head_char (tl a) in
        if c = CHR ''f'' then memhog_options M w av (h\<lparr>hog_fd := mo_open M w (drop 2 a)\<rparr>)
        else if c = CHR ''r'' then memhog_options M w av (h\<lparr>repeat := atoi (drop 2 a)\<rparr>)
        else if c = CHR ''H'' then memhog_options M w av (h\<lparr>disable_hugepage := True\<rparr>)
        else None)"

text \<open>The policy and the nodes that the kernel reports against those asked for: the status and what is printed.\<close>

definition policy_check :: "bool \<Rightarrow> int \<Rightarrow> int \<Rightarrow> bitmask \<Rightarrow> bitmask \<Rightarrow> (int \<times> string) option" where
  "policy_check loose policy gpolicy gnodes nodes = do {
     let (ret, out) =
       (if \<not> loose \<and> policy \<noteq> gpolicy then (1, ''policy '' @ dec_int policy @ '' gpolicy '' @ dec_int gpolicy @ [CHR 0x0A])
        else (0, []));
     if \<not> loose \<and> \<not> numa_bitmask_equal gnodes nodes then
       (if maskp gnodes = [] \<or> maskp nodes = [] then None
        else Some (1, out @ ''nodes differ '' @ hex_nat (unat (maskp gnodes ! 0)) @ '', '' @ hex_nat (unat (maskp nodes ! 0)) @
          ''!'' @ [CHR 0x0A]))
     else Some (ret, out)
   }"

definition memhog_check :: "'w os \<Rightarrow> bool \<Rightarrow> int \<Rightarrow> nat \<Rightarrow> bitmask \<Rightarrow> bitmask option \<Rightarrow> 'w numa \<Rightarrow>
    ((int \<times> string) \<times> 'w numa) option" where
  "memhog_check K loose policy addr nodes gnodes s = do {
     gnodes \<leftarrow> gnodes;
     let ((r, gpolicy, ws), s) = get_mempolicy K (- 1) (maskp gnodes) (bm_size gnodes) addr MPOL_F_ADDR s;
     res \<leftarrow> policy_check loose policy gpolicy (gnodes\<lparr>maskp := ws\<rparr>) nodes;
     Some (res, s)
   }"

text \<open>The part of the command from the mapping on.\<close>

definition memhog_map :: "'w os \<Rightarrow> 'w mem_os \<Rightarrow> memhog \<Rightarrow> bool \<Rightarrow> int \<Rightarrow> int \<Rightarrow> bitmask \<Rightarrow> bitmask option \<Rightarrow> 'w numa \<Rightarrow>
    (int \<times> string \<times> 'w numa) option" where
  "memhog_map K M h loose policy len nodes gnodes s = do {
     (addr, w) \<leftarrow> mo_mmap M (world s) (if 0 \<le> hog_fd h then hog_fd h else - 1) (c_ulong len);
     let (r, s) = mbind K addr (c_ulong len) policy (Some (maskp nodes)) (bm_size nodes) 0 (s\<lparr>world := w\<rparr>);
     let s = (if disable_hugepage h then s\<lparr>world := mo_madvise M (world s) addr (c_ulong len)\<rparr> else s);
     ((ret, out), s) \<leftarrow> memhog_check K loose policy addr nodes gnodes s;
     (out, w) \<leftarrow> foldM (\<lambda>_. hog M addr len) [0..<nat (repeat h)] (out, world s);
     Some (ret, out, s\<lparr>world := w\<rparr>)
   }"

definition arg :: "string list \<Rightarrow> nat \<Rightarrow> string option" where
  "arg av i = (if i < length av then Some (av ! i) else None)"

definition memhog_main :: "'w os \<Rightarrow> 'w mem_os \<Rightarrow> 'w resolver \<Rightarrow> string list \<Rightarrow> 'w numa \<Rightarrow> (int \<times> string \<times> 'w numa) option" where
  "memhog_main K M f av s = do {
     (nodes, s) \<leftarrow> numa_allocate_nodemask K s;
     (gnodes, s) \<leftarrow> numa_allocate_nodemask K s;
     (av, h) \<leftarrow> memhog_options M (world s) av initial_memhog;
     size \<leftarrow> arg av 0;
     let len = memsize size;
     let (avail, s) = (if arg av 1 \<noteq> None then numa_available K s else (0, s));
     let loose = \<not> (arg av 1 \<noteq> None \<and> avail < 0);
     let out = (if loose then [] else ''Kernel doesn't support NUMA policy'' @ [CHR 0x0A]);
     let policy = parse_policy (arg av 1) (arg av 2);
     if policy = MPOL_MAX then None
     else do {
       (nodes, s) \<leftarrow> (if policy \<noteq> MPOL_DEFAULT \<and> policy \<noteq> MPOL_LOCAL then do {
           nodestr \<leftarrow> arg av 2;
           numa_parse_nodestring K f nodestr s
         }
         else Some (nodes, s));
       nodes \<leftarrow> nodes;
       (ret, out', s) \<leftarrow> memhog_map K M h loose policy len nodes gnodes s;
       Some (ret, out @ out', s)
     }
   }"

end
