(* ===== verification/PropsTools.thy ===== *)
theory PropsTools
  imports PropsParse NumactlFacts Migrate Memhog
begin

text \<open>
  Properties of \<open>memhog\<close>, \<open>migratepages\<close> and \<open>migspeed\<close>: which memory is filled, when the policy of the kernel is
  looked at, and which pages are moved.
\<close>

section \<open>memhog\<close>

definition fill_pieces :: "'w mem_os \<Rightarrow> (nat \<times> nat) list \<Rightarrow> 'w \<Rightarrow> 'w" where
  "fill_pieces M cs w = foldl (\<lambda>w (a, n). mo_memset M w a n) w cs"

lemma hog_loop_run:
  assumes "0 \<le> i" "len < 2 ^ 63 - UNIT"
  shows "\<exists>cs. hog_loop M addr len i (out, w) = Some (out @ replicate (length cs) CHR ''.'', fill_pieces M cs w) \<and>
    concat (map (\<lambda>(a, n). [a..<a + n]) cs) = [addr + nat i..<addr + nat len] \<and> (\<forall>(a, n) \<in> set cs. 0 < n \<and> int n \<le> UNIT)"
  using assms
proof (induction "nat (len - i)" arbitrary: i out w rule: less_induct)
  case less
  show ?case
  proof (cases "i < len")
    case False
    then have "hog_loop M addr len i (out, w) = Some (out, w)" by (subst hog_loop.simps) simp
    then show ?thesis using False less.prems by (intro exI [of _ "[]"]) (simp add: fill_pieces_def)
  next
    case True
    let ?n = "if UNIT < len - i then UNIT else len - i"
    have n: "0 < ?n" "?n \<le> UNIT" "i + ?n \<le> len" using True by (simp_all add: UNIT_def)
    have step: "hog_loop M addr len i (out, w) =
        hog_loop M addr len (i + UNIT) (out @ ''.'', mo_memset M w (addr + nat i) (nat ?n))"
      using True less.prems by (subst hog_loop.simps) (simp add: Let_def UNIT_def)
    have "nat (len - (i + UNIT)) < nat (len - i)" "0 \<le> i + UNIT" using True less.prems by (simp_all add: UNIT_def)
    from less.hyps [OF this less.prems(2)] obtain cs where cs:
      "hog_loop M addr len (i + UNIT) (out @ ''.'', mo_memset M w (addr + nat i) (nat ?n)) =
         Some ((out @ ''.'') @ replicate (length cs) CHR ''.'', fill_pieces M cs (mo_memset M w (addr + nat i) (nat ?n)))"
      "concat (map (\<lambda>(a, n). [a..<a + n]) cs) = [addr + nat (i + UNIT)..<addr + nat len]"
      "\<forall>(a, n) \<in> set cs. 0 < n \<and> int n \<le> UNIT" by blast
    have "[addr + nat i..<addr + nat i + nat ?n] @ [addr + nat (i + UNIT)..<addr + nat len] = [addr + nat i..<addr + nat len]"
    proof (cases "UNIT < len - i")
      case True
      then have "addr + nat i + nat ?n = addr + nat (i + UNIT)" "addr + nat (i + UNIT) \<le> addr + nat len"
        using less.prems by (simp_all add: UNIT_def)
      moreover have "addr + nat i \<le> addr + nat (i + UNIT)" using less.prems by (simp add: UNIT_def)
      ultimately show ?thesis by (metis le_add_diff_inverse upt_add_eq_append)
    next
      case False
      then have "addr + nat i + nat ?n = addr + nat len" using less.prems(1) \<open>i < len\<close> by simp
      moreover have "[addr + nat (i + UNIT)..<addr + nat len] = []" using False less.prems(1) by simp
      ultimately show ?thesis by (simp only: append_Nil2)
    qed
    then have "concat (map (\<lambda>(a, n). [a..<a + n]) ((addr + nat i, nat ?n) # cs)) = [addr + nat i..<addr + nat len]"
      by (simp add: cs(2))
    then show ?thesis
      unfolding step cs(1) using cs(3) n
      by (intro exI [of _ "(addr + nat i, nat ?n) # cs"]) (auto simp: fill_pieces_def)
  qed
qed

text \<open>C32: \<open>hog\<close> fills every byte of the mapping exactly once, from the start to the end, in pieces of at most 10
  megabytes, and prints one dot for each piece.\<close>

theorem memhog_fills_memory:
  assumes "len < 2 ^ 63 - UNIT"
  shows "\<exists>cs. hog M addr len (out, w) = Some (out @ replicate (length cs) CHR ''.'' @ [CHR 0x0A], fill_pieces M cs w) \<and>
    concat (map (\<lambda>(a, n). [a..<a + n]) cs) = [addr..<addr + nat len] \<and> (\<forall>(a, n) \<in> set cs. 0 < n \<and> int n \<le> UNIT)"
  using hog_loop_run [of 0 len M addr out w] assms by (auto simp: hog_def)

text \<open>A world that counts the bytes that are written.\<close>

definition counting_mem :: "nat mem_os" where
  "counting_mem = \<lparr>mo_open = \<lambda>w f. - 1, mo_mmap = \<lambda>w fd n. Some (4096, w), mo_madvise = \<lambda>w a n. w, mo_memset = \<lambda>w a n. w + n\<rparr>"

theorem memhog_fills_memory_witness:
  "\<exists>cs. hog counting_mem 4096 26214400 ([], 0) =
      Some ([] @ replicate (length cs) CHR ''.'' @ [CHR 0x0A], fill_pieces counting_mem cs 0) \<and>
    concat (map (\<lambda>(a, n). [a..<a + n]) cs) = [4096..<4096 + nat 26214400] \<and> (\<forall>(a, n) \<in> set cs. 0 < n \<and> int n \<le> UNIT)"
  by (rule memhog_fills_memory) (simp add: UNIT_def)

lemma parse_policy_range: "parse_policy name a \<in> {0..7}"
proof -
  have "p \<in> set policies \<Longrightarrow> pol_policy p \<in> {0..7}" for p by (auto simp: policies_def)
  then show ?thesis by (auto simp: parse_policy_def Let_def split: option.splits simp: find_Some_iff)
qed

lemma allocate_world: "numa_allocate_nodemask K s = Some (m, t) \<Longrightarrow> world t = world s"
  by (auto simp: numa_allocate_nodemask_def numa_bitmask_alloc_def numa_error_def bind_Some_iff split: if_splits)

lemma available_world: "world t = world s \<Longrightarrow> fst (numa_available K t) = fst (numa_available K s)"
  by (auto simp: numa_available_def get_mempolicy_def Let_def split: sum.splits prod.splits)

lemma policy_check_status:
  assumes "policy_check loose policy gpolicy m1 m2 = Some (ret, out)"
  shows "(loose \<longrightarrow> ret = 0) \<and> (\<not> loose \<and> policy \<noteq> gpolicy \<longrightarrow> ret = 1)"
  using assms by (auto simp: policy_check_def Let_def split: if_splits)

lemma memhog_check_status:
  assumes "memhog_check K loose policy addr nodes gnodes s = Some ((ret, out), t)"
  shows "(loose \<longrightarrow> ret = 0) \<and>
    (\<not> loose \<and> (\<forall>w b n a fl. os_get_mempolicy K w b n a fl = Inl ENOSYS) \<and> 0 \<le> policy \<longrightarrow> ret = 1)"
proof -
  obtain m where m: "gnodes = Some m" using assms by (auto simp: memhog_check_def bind_Some_iff)
  obtain r gpolicy ws s2 where g: "get_mempolicy K (- 1) (maskp m) (bm_size m) addr MPOL_F_ADDR s = ((r, gpolicy, ws), s2)"
    by (metis surj_pair)
  have c: "policy_check loose policy gpolicy (m\<lparr>maskp := ws\<rparr>) nodes = Some (ret, out)"
    using assms by (auto simp: memhog_check_def m g bind_Some_iff)
  have "gpolicy = - 1" if "\<forall>w b n a fl. os_get_mempolicy K w b n a fl = Inl ENOSYS"
    using g that by (simp add: get_mempolicy_def)
  then show ?thesis using policy_check_status [OF c] by auto
qed

lemma memhog_map_status:
  assumes "memhog_map K M h loose policy len nodes gnodes s = Some (ret, out, t)"
  shows "\<exists>addr u u' o1. memhog_check K loose policy addr nodes gnodes u = Some ((ret, o1), u')"
proof -
  obtain addr w where m: "mo_mmap M (world s) (if 0 \<le> hog_fd h then hog_fd h else - 1) (c_ulong len) = Some (addr, w)"
    using assms by (auto simp: memhog_map_def bind_Some_iff simp del: split_paired_Ex)
  obtain r s1 where b: "mbind K addr (c_ulong len) policy (Some (maskp nodes)) (bm_size nodes) 0 (s\<lparr>world := w\<rparr>) = (r, s1)"
    by fastforce
  let ?u = "if disable_hugepage h then s1\<lparr>world := mo_madvise M (world s1) addr (c_ulong len)\<rparr> else s1"
  show ?thesis
  proof (cases "memhog_check K loose policy addr nodes gnodes ?u")
    case None
    then show ?thesis using assms by (simp add: memhog_map_def m b)
  next
    case (Some res)
    then obtain ret0 o1 u' where "memhog_check K loose policy addr nodes gnodes ?u = Some ((ret0, o1), u')" by (cases res) auto
    moreover from this have "ret0 = ret" using assms by (simp add: memhog_map_def m b) (auto simp: bind_Some_iff)
    ultimately show ?thesis by blast
  qed
qed

text \<open>C31: The status of \<open>memhog\<close> says nothing about the policy of the memory: where the kernel supports policies it is 0
  whatever policy and nodes the kernel reports, since \<open>loose\<close> is set whenever NUMA is available; the comparison is
  made only where policies are not supported, and there it always fails.\<close>

theorem memhog_status_reversed:
  assumes "memhog_main K M f (sz # pol # av) s = Some (ret, out, t)" "head_char sz \<noteq> CHR ''-''"
  shows "(fst (numa_available K s) = 0 \<longrightarrow> ret = 0) \<and>
    ((\<forall>w b n a fl. os_get_mempolicy K w b n a fl = Inl ENOSYS) \<longrightarrow> ret = 1)"
proof -
  obtain m1 s1 where s1: "numa_allocate_nodemask K s = Some (m1, s1)"
    using assms(1) by (auto simp: memhog_main_def bind_Some_iff)
  then obtain m2 s2 where s2: "numa_allocate_nodemask K s1 = Some (m2, s2)"
    using assms(1) by (auto simp: memhog_main_def bind_Some_iff)
  have "world s2 = world s" using s1 s2 by (auto dest!: allocate_world)
  then have av: "fst (numa_available K s2) = fst (numa_available K s)" by (rule available_world)
  obtain avail s3 where s3: "numa_available K s2 = (avail, s3)" by fastforce
  let ?policy = "parse_policy (Some pol) (arg (sz # pol # av) 2)"
  obtain nodes gnodes h s4 out' where run:
    "memhog_map K M h (\<not> avail < 0) ?policy (memsize sz) nodes gnodes s4 = Some (ret, out', t)"
    using assms s1 s2 s3
    by (auto simp: memhog_main_def arg_def bind_Some_iff Let_def split: if_splits)
  have "0 \<le> ?policy" using parse_policy_range [of "Some pol" "arg (sz # pol # av) 2"] by simp
  moreover have "avail < 0" if "\<forall>w b n a fl. os_get_mempolicy K w b n a fl = Inl ENOSYS"
    using s3 that by (auto simp: numa_available_def get_mempolicy_def)
  ultimately show ?thesis using memhog_map_status [OF run] av s3 by (auto dest!: memhog_check_status)
qed

definition toy_mem :: "toy mem_os" where
  "toy_mem = \<lparr>mo_open = \<lambda>w f. - 1, mo_mmap = \<lambda>w fd n. Some (4096, w), mo_madvise = \<lambda>w a n. w, mo_memset = \<lambda>w a n. w\<rparr>"

text \<open>Memory of one kilobyte with the default policy on the sample system.\<close>

lemma toy_memhog:
  "\<exists>ret out t. memhog_main (toy_os True) toy_mem (\<lambda>s m t. Some ((NO_IO_AFFINITY, m), t)) [''1k'', ''default''] toy_numa =
    Some (ret, out, t)"
proof -
  have opts: "memhog_options toy_mem w [''1k'', ''default''] h = Some ([''1k'', ''default''], h)" for w h
    by (simp add: head_char_def)
  have "strtoul ''1k'' 0 = (1, ''k'')"
    using strtoul_dec_nat [of 1 "''k''"]
    by (simp add: ULONG_MAX_def dec_nat_digits starts_digit_def is_digit_of_def digit_val_def char_code_def)
  moreover have "c_toupper CHR ''k'' = CHR ''K''" by code_simp
  ultimately have sz: "memsize ''1k'' = 1024" by (simp add: memsize_def head_char_def c_long_def)
  have pol: "parse_policy (Some ''default'') None = MPOL_DEFAULT"
    by (simp add: parse_policy_def policies_def MPOL_DEFAULT_def)
  have av: "numa_available (toy_os True) s = (0, s)" for s
    by (simp add: numa_available_def get_mempolicy_def toy_os_def)
  have alloc: "numa_allocate_nodemask (toy_os True) toy_numa = Some (Some (new_bitmask 64), toy_numa)"
    using allocate_nodemask_run [OF toy_malloc, of toy_numa] by simp
  have stop: "hog_loop toy_mem 4096 1024 (0 + UNIT) st = Some st" for st
    by (subst hog_loop.simps) (simp add: UNIT_def)
  have hog: "hog toy_mem 4096 1024 (out, w) = Some (out @ ''.'' @ [CHR 0x0A], w)" for out w
    unfolding hog_def by (subst hog_loop.simps) (simp add: stop [simplified] Let_def UNIT_def [symmetric], simp add: UNIT_def toy_mem_def)
  have mem: "mo_mmap toy_mem w fd n = Some (4096, w)" for w fd n by (simp add: toy_mem_def)
  have bind: "mbind (toy_os True) 4096 1024 p m n 0 s = (0, s)" for p m n s by (simp add: mbind_def toy_os_def)
  have get: "\<exists>g ws. get_mempolicy (toy_os True) (- 1) m n 4096 MPOL_F_ADDR s = ((0, g, ws), s)" for m n s
    by (simp add: get_mempolicy_def toy_os_def)
  have check: "\<exists>res. memhog_check (toy_os True) True p 4096 nodes (Some g) s = Some (res, s)" for p nodes g s
    using get [of "maskp g" "bm_size g" s] by (auto simp: memhog_check_def policy_check_def)
  have map: "\<exists>ret out t. memhog_map (toy_os True) toy_mem initial_memhog True p 1024 nodes (Some g) s = Some (ret, out, t)" for p nodes g s
    using check [of p nodes g s] by (auto simp: memhog_map_def mem bind hog c_ulong_id initial_memhog_def)
  have len: "c_ulong 1024 = 1024" by (simp add: c_ulong_id)
  show ?thesis
    using map [of MPOL_DEFAULT "new_bitmask 64" "new_bitmask 64" toy_numa]
    by (auto simp: memhog_main_def alloc opts arg_def sz pol av MPOL_DEFAULT_def MPOL_MAX_def simp del: memhog_options.simps)
qed

theorem memhog_status_reversed_witness:
  "\<exists>out t. memhog_main (toy_os True) toy_mem (\<lambda>s m t. Some ((NO_IO_AFFINITY, m), t)) [''1k'', ''default''] toy_numa =
    Some (0, out, t)"
proof -
  obtain ret out t where run: "memhog_main (toy_os True) toy_mem (\<lambda>s m t. Some ((NO_IO_AFFINITY, m), t)) [''1k'', ''default''] toy_numa =
    Some (ret, out, t)" using toy_memhog by blast
  have "head_char ''1k'' \<noteq> CHR ''-''" by (simp add: head_char_def)
  moreover have "fst (numa_available (toy_os True) toy_numa) = 0"
    by (simp add: numa_available_def get_mempolicy_def toy_os_def)
  ultimately show ?thesis using memhog_status_reversed [OF run] run by auto
qed

section \<open>migratepages\<close>

lemma available_errno: "numa_available K s = (r, t) \<Longrightarrow> \<exists>e. t = s\<lparr>errno := e\<rparr>"
proof -
  have "s = s\<lparr>errno := errno s\<rparr>" by simp
  moreover assume "numa_available K s = (r, t)"
  ultimately show ?thesis by (auto simp: numa_available_def get_mempolicy_def Let_def split: sum.splits if_splits intro: exI [of _ "errno s"])
qed

lemma migratepages_run:
  fixes f :: "'w resolver"
  assumes "malloc_succeeds K" "numa_wf s" "numa_all_nodes_ptr s = Some al" "0 \<le> fst (numa_available K s)"
    and "\<forall>x \<in> set xs. item_ok r1 al x" "xs \<noteq> []" "\<forall>x \<in> set ys. item_ok r2 al x" "ys \<noteq> []" "pid \<le> ULONG_MAX"
  shows "\<exists>src dst n e. numa_num_configured_nodes s = Some n \<and> bm_inv src \<and> bm_inv dst \<and>
    bm_bits src = spec_nodes i1 r1 al xs (nat n) \<and> bm_bits dst = spec_nodes i2 r2 al ys (nat n) \<and>
    migratepages_main K f [] [dec_nat pid, show_spec i1 r1 xs, show_spec i2 r2 ys] s =
      (case numa_migrate_pages K (c_int (int pid)) src dst (s\<lparr>errno := e\<rparr>) of (rc, t) \<Rightarrow> Some (if rc < 0 then 1 else 0, t))"
proof -
  obtain r s1 where s1: "numa_available K s = (r, s1)" "0 \<le> r" using assms(4) by (cases "numa_available K s") auto
  obtain e where e: "s1 = s\<lparr>errno := e\<rparr>" using available_errno [OF s1(1)] by blast
  have wf1: "numa_wf s1" and al1: "numa_all_nodes_ptr s1 = Some al"
    and conf: "numa_num_configured_nodes s1 = numa_num_configured_nodes s"
    using assms(2,3) by (simp_all add: e numa_wf_def numa_num_configured_nodes_def)
  have sz: "bm_size al \<le> nat (nodemask_sz s1)" using wf1 al1 by (auto simp: numa_wf_def elim: mask_okE)
  note parse = parse_nodestring_show [OF wf1 assms(1) sz]
  obtain src n where m1: "numa_parse_nodestring K f (show_spec i1 r1 xs) s1 = Some (Some src, s1)"
    "numa_num_configured_nodes s = Some n" "bm_inv src" "bm_bits src = spec_nodes i1 r1 al xs (nat n)"
    using parse [OF assms(5,6), of f i1] unfolding conf by (auto simp: numa_parse_nodestring_def al1)
  obtain dst where m2: "numa_parse_nodestring K f (show_spec i2 r2 ys) s1 = Some (Some dst, s1)"
    "bm_inv dst" "bm_bits dst = spec_nodes i2 r2 al ys (nat n)"
    using parse [OF assms(7,8), of f i2] m1(2) unfolding conf by (auto simp: numa_parse_nodestring_def al1)
  have "strtoul (dec_nat pid) 0 = (pid, [])"
    using strtoul_dec_nat [of pid "[]"] assms(9) by (simp add: starts_digit_def)
  moreover have "[] \<noteq> dec_nat pid" by (subst dec_nat.simps) simp
  ultimately have "migratepages_main K f [] [dec_nat pid, show_spec i1 r1 xs, show_spec i2 r2 ys] s =
      (case numa_migrate_pages K (c_int (int pid)) src dst s1 of (rc, t) \<Rightarrow> Some (if rc < 0 then 1 else 0, t))"
    using s1 m1(1) m2(1) by (simp add: migratepages_main_def)
  then show ?thesis using m1(2-4) m2(2,3) unfolding e by blast
qed

text \<open>C24: \<open>migratepages\<close> asks the kernel once to move the pages of the process from the nodes the first list denotes to
  those the second denotes, and passes masks of which the kernel uses all the bits; its status is 0 if and only if
  the kernel does not refuse.\<close>

theorem migratepages_moves:
  fixes f :: "'w resolver"
  assumes "malloc_succeeds K" "numa_wf s" "numa_all_nodes_ptr s = Some al" "0 \<le> fst (numa_available K s)"
    and "\<forall>x \<in> set xs. item_ok r1 al x" "xs \<noteq> []" "\<forall>x \<in> set ys. item_ok r2 al x" "ys \<noteq> []" "pid < 2 ^ 31"
  shows "\<exists>src dst n t. numa_num_configured_nodes s = Some n \<and>
    bm_bits src = spec_nodes i1 r1 al xs (nat n) \<and> bm_bits dst = spec_nodes i2 r2 al ys (nat n) \<and>
    (case os_migrate_pages K (world s) (int pid) (nat (nodemask_sz s + 1)) (maskp src) (maskp dst) of
       Inl e \<Rightarrow> migratepages_main K f [] [dec_nat pid, show_spec i1 r1 xs, show_spec i2 r2 ys] s = Some (1, t) \<and> world t = world s
     | Inr (rc, w) \<Rightarrow> migratepages_main K f [] [dec_nat pid, show_spec i1 r1 xs, show_spec i2 r2 ys] s =
         Some (if rc < 0 then 1 else 0, t) \<and> world t = w)"
proof -
  have pid: "pid \<le> ULONG_MAX" "c_int (int pid) = int pid" using assms(9) by (simp_all add: ULONG_MAX_def c_int_id)
  obtain src dst n e where m: "numa_num_configured_nodes s = Some n"
    "bm_bits src = spec_nodes i1 r1 al xs (nat n)" "bm_bits dst = spec_nodes i2 r2 al ys (nat n)"
    "migratepages_main K f [] [dec_nat pid, show_spec i1 r1 xs, show_spec i2 r2 ys] s =
      (case numa_migrate_pages K (int pid) src dst (s\<lparr>errno := e\<rparr>) of (rc, t) \<Rightarrow> Some (if rc < 0 then 1 else 0, t))"
    using migratepages_run [OF assms(1-8) pid(1), of i1 i2 f] unfolding pid(2) by blast
  have "0 < nodemask_sz s" "nodemask_sz s < 2 ^ 31" using assms(2) by (auto simp: numa_wf_def)
  then have "c_ulong (nodemask_sz s + 1) = nat (nodemask_sz s + 1)" by (simp add: c_ulong_def)
  then have "case os_migrate_pages K (world s) (int pid) (nat (nodemask_sz s + 1)) (maskp src) (maskp dst) of
       Inl e' \<Rightarrow> numa_migrate_pages K (int pid) src dst (s\<lparr>errno := e\<rparr>) = (- 1, s\<lparr>errno := e'\<rparr>)
     | Inr (rc, w) \<Rightarrow> numa_migrate_pages K (int pid) src dst (s\<lparr>errno := e\<rparr>) = (rc, s\<lparr>errno := e, world := w\<rparr>)"
    by (auto simp: numa_migrate_pages_def migrate_pages_def numa_num_possible_nodes_def split: sum.splits)
  then show ?thesis using m
    by (intro exI [of _ src] exI [of _ dst] exI [of _ n])
      (cases "os_migrate_pages K (world s) (int pid) (nat (nodemask_sz s + 1)) (maskp src) (maskp dst)"; fastforce)
qed

lemma migratepages_pid_cong:
  assumes "strtoul p 0 = (v, [])" "[] \<noteq> p" "strtoul q 0 = (w, [])" "[] \<noteq> q" "c_int (int v) = c_int (int w)"
  shows "migratepages_main K f [] [p, a, b] s = migratepages_main K f [] [q, a, b] s"
  using assms by (cases "numa_available K s") (simp add: migratepages_main_def)

theorem migratepages_moves_witness:
  "\<exists>t. migratepages_main (toy_os True) (\<lambda>s m t. Some ((NO_IO_AFFINITY, m), t)) [] [dec_nat 7, show_spec False False [(0, None)],
    show_spec False False [(1, None)]] toy_numa = Some (0, t)"
proof -
  have ok: "\<forall>x \<in> set [(k, None)]. item_ok False (toy_mask 64 [0, 1]) x" if "k < 2" for k
    using that toy_isset [of 64 "[0, 1]" k] by (auto simp: item_ok_def node_of_nr_def)
  have "0 \<le> fst (numa_available (toy_os True) toy_numa)"
    by (simp add: numa_available_def get_mempolicy_def toy_os_def)
  from migratepages_moves [OF toy_malloc [of True] toy_wf toy_numa_fields(13) this ok [of 0] _ ok [of 1], of 7 False False]
  show ?thesis by (simp add: toy_os_def) blast
qed

text \<open>The process number is read as an unsigned long and stored in an int without a test of its size: a number of
  2\<open>^\<close>32 more names the same process.\<close>

theorem migratepages_pid_wraps:
  fixes f :: "'w resolver"
  assumes "pid < 2 ^ 32"
  shows "migratepages_main K f [] [dec_nat (2 ^ 32 + pid), a, b] s = migratepages_main K f [] [dec_nat pid, a, b] s"
proof (rule migratepages_pid_cong)
  have st: "strtoul (dec_nat n) 0 = (n, [])" if "n < 2 ^ 33" for n
    using strtoul_dec_nat [of n "[]"] that by (simp add: starts_digit_def ULONG_MAX_def)
  show "strtoul (dec_nat (2 ^ 32 + pid)) 0 = (2 ^ 32 + pid, [])" by (rule st) (use assms in simp)
  show "strtoul (dec_nat pid) 0 = (pid, [])" by (rule st) (use assms in simp)
  have ne: "[] \<noteq> dec_nat n" for n by (subst dec_nat.simps) simp
  show "[] \<noteq> dec_nat (2 ^ 32 + pid)" "[] \<noteq> dec_nat pid" by (rule ne)+
  have "int (2 ^ 32 + pid) + 2 ^ 31 = (int pid + 2 ^ 31) + 2 ^ 32" by simp
  then show "c_int (int (2 ^ 32 + pid)) = c_int (int pid)" unfolding c_int_def by (simp only: mod_add_self2)
qed

text \<open>On the sample system the numbers 7 and 2\<open>^\<close>32 + 7 name the same process.\<close>

theorem migratepages_pid_wraps_witness:
  "migratepages_main (toy_os True) (\<lambda>s m t. Some ((NO_IO_AFFINITY, m), t)) [] [dec_nat (2 ^ 32 + 7), ''0'', ''1''] toy_numa =
    migratepages_main (toy_os True) (\<lambda>s m t. Some ((NO_IO_AFFINITY, m), t)) [] [dec_nat 7, ''0'', ''1''] toy_numa"
proof -
  have "(7 :: nat) < 2 ^ 32" by simp
  then show ?thesis by (rule migratepages_pid_wraps)
qed

section \<open>migspeed\<close>

text \<open>The time that \<open>migspeed\<close> computes from two readings of the clock is normalised and is their difference.\<close>

theorem migspeed_elapsed:
  assumes "elapsed (s1, n1) (s2, n2) = (s, n)" "0 \<le> n1" "n1 < 1000000000" "0 \<le> n2" "n2 < 1000000000"
  shows "0 \<le> n \<and> n < 1000000000 \<and> s * 1000000000 + n = (s2 * 1000000000 + n2) - (s1 * 1000000000 + n1)"
  using assms by (auto simp: elapsed_def Let_def split: if_splits)

theorem migspeed_elapsed_witness: "elapsed (5, 900000000) (7, 100000000) = (1, 200000000)"
  using migspeed_elapsed [of 5 900000000 7 100000000 1 200000000] by (simp add: elapsed_def)

end
