(* ===== verification/StreamLib.thy ===== *)
theory StreamLib
  imports Policy NodeString Util Stdio
begin

text \<open>
  The STREAM benchmark (\<open>stream_lib.c\<close>) and the command that runs it under a policy (\<open>stream_main.c\<close>).  The three
  arrays lie one behind the other in the memory the caller provides, without overlap, and are three lists here.
  Doubles are rationals that are rounded after every operation.  The clock, which takes time to read, and the
  square root are parameters; \<open>None\<close> is undefined behaviour, a loop that does not end, or the end of the command.
\<close>

section \<open>The state of the library\<close>

definition NTIMES :: nat where "NTIMES = 10"
definition FLT_MAX :: rat where "FLT_MAX = (2 - 1 / 2 ^ 23) * 2 ^ 127"

record stream =
  st_N :: int
  arr_a :: "rat list"
  arr_b :: "rat list"
  arr_c :: "rat list"
  rmstime :: "rat list"
  maxtime :: "rat list"
  mintime :: "rat list"
  st_bytes :: "rat list"
  stream_verbose :: bool
  st_out :: string

definition initial_stream :: stream where
  "initial_stream = \<lparr>st_N = 8000000, arr_a = [], arr_b = [], arr_c = [], rmstime = replicate 4 0, maxtime = replicate 4 0,
     mintime = replicate 4 FLT_MAX, st_bytes = replicate 4 0, stream_verbose = True, st_out = []\<rparr>"

definition stream_names :: "string list" where
  "stream_names = [''Copy'', ''Scale'', ''Add'', ''Triad'']"

definition stream_label :: "string list" where
  "stream_label = [''Copy:      '', ''Scale:     '', ''Add:       '', ''Triad:     '']"

definition HLINE :: string where
  "HLINE = replicate 61 CHR ''-'' @ [CHR 0x0A]"

definition Vprintf :: "string \<Rightarrow> stream \<Rightarrow> stream" where
  "Vprintf t s = (if stream_verbose s then s\<lparr>st_out := st_out s @ t\<rparr> else s)"

lemma Vprintf_frame [simp]:
  "arr_a (Vprintf t s) = arr_a s" "arr_b (Vprintf t s) = arr_b s" "arr_c (Vprintf t s) = arr_c s" "st_N (Vprintf t s) = st_N s"
  "stream_verbose (Vprintf t s) = stream_verbose s"
  by (simp_all add: Vprintf_def)

definition stream_setmem :: "nat \<Rightarrow> stream \<Rightarrow> stream" where
  "stream_setmem sz s = s\<lparr>st_N := c_long (int (sz div (3 * 8)))\<rparr>"

definition stream_memsize :: "stream \<Rightarrow> int" where
  "stream_memsize s = c_long (3 * (8 * st_N s))"

section \<open>The clock\<close>

type_synonym 'w clock = "'w \<Rightarrow> (int \<times> int) \<times> 'w"

definition mysecond :: "'w clock \<Rightarrow> 'w \<Rightarrow> rat \<times> 'w" where
  "mysecond clk w =
     (let ((tv_sec, tv_usec), w) = clk w
      in (dbl (double_of tv_sec + dbl (double_of tv_usec * dbl (1 / 1000000))), w))"

text \<open>\<open>while (((t2 = mysecond()) - t1) < 1.0E-6);\<close>\<close>

partial_function (option) tick_wait :: "'w clock \<Rightarrow> rat \<Rightarrow> 'w \<Rightarrow> (rat \<times> 'w) option" where
  "tick_wait clk t1 w =
     (let (t2, w) = mysecond clk w
      in if dbl (t2 - t1) < dbl (1 / 1000000) then tick_wait clk t1 w else Some (t2, w))"

definition tick_step :: "'w clock \<Rightarrow> rat list \<times> 'w \<Rightarrow> (rat list \<times> 'w) option" where
  "tick_step clk st = do {
     let (timesfound, w) = st;
     let (t1, w) = mysecond clk w;
     (t2, w) \<leftarrow> tick_wait clk t1 w;
     Some (timesfound @ [t2], w)
   }"

definition tick_delta :: "rat list \<Rightarrow> nat \<Rightarrow> int \<Rightarrow> int option" where
  "tick_delta timesfound i minDelta = do {
     Delta \<leftarrow> int_of_double (dbl (1000000 * dbl (timesfound ! i - timesfound ! (i - 1))));
     Some (min minDelta (max Delta 0))
   }"

definition checktick :: "'w clock \<Rightarrow> 'w \<Rightarrow> (int \<times> 'w) option" where
  "checktick clk w = do {
     (timesfound, w) \<leftarrow> foldM (\<lambda>_. tick_step clk) [0..<20] ([], w);
     minDelta \<leftarrow> foldM (tick_delta timesfound) [1..<20] 1000000;
     Some (minDelta, w)
   }"

section \<open>Setting up\<close>

text \<open>The messages with numbers that the verbose mode computes.\<close>

definition check_texts :: "rat \<Rightarrow> int \<Rightarrow> string option" where
  "check_texts t quantum = do {
     n \<leftarrow> int_of_double t;
     ticks \<leftarrow> (if quantum = 0 then None else int_of_double (dbl (t / double_of quantum)));
     Some (''Each test below will take on the order of '' @ dec_int n @ '' microseconds.'' @ [CHR 0x0A] @
       ''   (= '' @ dec_int ticks @ '' clock ticks)'' @ [CHR 0x0A])
   }"

definition stream_check :: "'w clock \<Rightarrow> stream \<Rightarrow> 'w \<Rightarrow> (stream \<times> 'w) option" where
  "stream_check clk s w = do {
     let n = nat (st_N s);
     let s = Vprintf (HLINE @ ''This system uses 8 bytes per DOUBLE PRECISION word.'' @ [CHR 0x0A] @ HLINE @
       ''Array size = '' @ dec_nat (c_ulong (st_N s)) @ '', Offset = 0'' @ [CHR 0x0A] @
       ''Total memory required = '' @ fmt_double 1 (dbl (double_of (c_long (3 * st_N s * 8)) / 1048576)) @ '' MB.'' @ [CHR 0x0A] @
       ''Each test is run '' @ dec_nat NTIMES @ '' times, but only'' @ [CHR 0x0A] @
       ''the *best* time for each is used.'' @ [CHR 0x0A]) s;
     let s = s\<lparr>arr_a := replicate n 1, arr_b := replicate n 2, arr_c := replicate n 0\<rparr>;
     (quantum, w) \<leftarrow> checktick clk w;
     let s = Vprintf (HLINE @
       (if 1 \<le> quantum then ''Your clock granularity/precision appears to be '' @ dec_int quantum @ '' microseconds.''
        else ''Your clock granularity appears to be less than one microsecond.'') @ [CHR 0x0A]) s;
     let (t, w) = mysecond clk w;
     let s = s\<lparr>arr_a := map (\<lambda>x. dbl (2 * x)) (arr_a s)\<rparr>;
     let (t', w) = mysecond clk w;
     let t = dbl (1000000 * dbl (t' - t));
     texts \<leftarrow> (if stream_verbose s then check_texts t quantum else Some []);
     let s = Vprintf (texts @ ''Increase the size of the arrays if this shows that'' @ [CHR 0x0A] @
       ''you are not getting at least 20 clock ticks per test.'' @ [CHR 0x0A] @ HLINE @
       ''WARNING -- The above is only a rough guideline.'' @ [CHR 0x0A] @
       ''For best results, please be sure you know the'' @ [CHR 0x0A] @
       ''precision of your system timer.'' @ [CHR 0x0A] @ HLINE) s;
     Some (s, w)
   }"

definition stream_init :: "'w clock \<Rightarrow> stream \<Rightarrow> 'w \<Rightarrow> (stream \<times> 'w) option" where
  "stream_init clk s w =
     (let two = double_of (int (c_ulong (2 * 8 * st_N s))); three = double_of (int (c_ulong (3 * 8 * st_N s)))
      in stream_check clk (s\<lparr>rmstime := replicate 4 0, maxtime := replicate 4 0, mintime := replicate 4 FLT_MAX,
           st_bytes := [two, two, three, three]\<rparr>) w)"

section \<open>The test\<close>

text \<open>The four kernels.\<close>

definition stream_copy :: "stream \<Rightarrow> stream" where
  "stream_copy s = s\<lparr>arr_c := arr_a s\<rparr>"

definition stream_scale :: "stream \<Rightarrow> stream" where
  "stream_scale s = s\<lparr>arr_b := map (\<lambda>x. dbl (3 * x)) (arr_c s)\<rparr>"

definition stream_add :: "stream \<Rightarrow> stream" where
  "stream_add s = s\<lparr>arr_c := map2 (\<lambda>x y. dbl (x + y)) (arr_a s) (arr_b s)\<rparr>"

definition stream_triad :: "stream \<Rightarrow> stream" where
  "stream_triad s = s\<lparr>arr_a := map2 (\<lambda>x y. dbl (x + dbl (3 * y))) (arr_b s) (arr_c s)\<rparr>"

definition timed :: "'w clock \<Rightarrow> (stream \<Rightarrow> stream) \<Rightarrow> stream \<times> rat list \<times> 'w \<Rightarrow> stream \<times> rat list \<times> 'w" where
  "timed clk f st =
     (let (s, ts, w) = st; (t, w) = mysecond clk w; s = f s; (t', w) = mysecond clk w
      in (s, ts @ [dbl (t' - t)], w))"

text \<open>One round: the four kernels and their times.\<close>

definition stream_round :: "'w clock \<Rightarrow> stream \<times> rat list list \<times> 'w \<Rightarrow> stream \<times> rat list list \<times> 'w" where
  "stream_round clk st =
     (let (s, tss, w) = st;
          (s, ts, w) = fold (timed clk) [stream_copy, stream_scale, stream_add, stream_triad] (s, [], w)
      in (s, tss @ [ts], w))"

text \<open>\<open>MIN\<close> and \<open>MAX\<close> take the second value of two equal ones.\<close>

definition time_step :: "rat list list \<Rightarrow> nat \<times> nat \<Rightarrow> stream \<Rightarrow> stream" where
  "time_step tms kj s =
     (let (k, j) = kj; t = tms ! k ! j in
      s\<lparr>rmstime := (rmstime s)[j := dbl (rmstime s ! j + dbl (t * t))],
        mintime := (mintime s)[j := (if mintime s ! j < t then mintime s ! j else t)],
        maxtime := (maxtime s)[j := (if t < maxtime s ! j then maxtime s ! j else t)]\<rparr>)"

definition pad_left :: "nat \<Rightarrow> string \<Rightarrow> string" where
  "pad_left n t = replicate (n - length t) CHR '' '' @ t"

definition stream_speed :: "stream \<Rightarrow> nat \<Rightarrow> fp" where
  "stream_speed s j = fdiv (dbl (dbl (1 / 1000000) * st_bytes s ! j)) (mintime s ! j)"

definition report_step :: "(rat \<Rightarrow> rat) \<Rightarrow> nat \<Rightarrow> stream \<times> fp list \<Rightarrow> stream \<times> fp list" where
  "report_step c_sqrt j st =
     (let (s, res) = st;
          speed = stream_speed s j;
          s = s\<lparr>rmstime := (rmstime s)[j := c_sqrt (dbl (rmstime s ! j / double_of (int NTIMES)))]\<rparr>;
          s = Vprintf (stream_label ! j @ pad_left 11 (fmt_fp 4 speed) @ ''  '' @ pad_left 11 (fmt_double 4 (rmstime s ! j)) @ ''  '' @
            pad_left 11 (fmt_double 4 (mintime s ! j)) @ ''  '' @ pad_left 11 (fmt_double 4 (maxtime s ! j)) @ [CHR 0x0A]) s
      in (s, res @ [speed]))"

definition stream_test :: "'w clock \<Rightarrow> (rat \<Rightarrow> rat) \<Rightarrow> stream \<Rightarrow> 'w \<Rightarrow> (fp list \<times> stream) \<times> 'w" where
  "stream_test clk c_sqrt s w =
     (let (s, tms, w) = fold (\<lambda>_. stream_round clk) [0..<NTIMES] (s, [], w);
          s = fold (time_step tms) (List.product [0..<NTIMES] [0..<4]) s;
          s = Vprintf (''Function      Rate (MB/s)   RMS time     Min time     Max time'' @ [CHR 0x0A]) s;
          (s, res) = fold (report_step c_sqrt) [0..<4] (s, [])
      in ((res, s), w))"

section \<open>The command\<close>

definition stream_main :: "'w os \<Rightarrow> 'w resolver \<Rightarrow> 'w clock \<Rightarrow> (rat \<Rightarrow> rat) \<Rightarrow> string list \<Rightarrow> 'w numa \<Rightarrow> (stream \<times> 'w numa) option" where
  "stream_main K f clk c_sqrt av s = do {
     let arg = (\<lambda>i. if i < length av then Some (av ! i) else None);
     let policy = parse_policy (arg 0) (arg 1);
     if policy = MPOL_MAX then None
     else do {
       (nodes, s) \<leftarrow> numa_allocate_nodemask K s;
       (nodes, s) \<leftarrow> (if 2 \<le> length av then numa_parse_nodestring K f (av ! 1) s else Some (nodes, s));
       nodes \<leftarrow> nodes;
       let sz = c_ulong (stream_memsize initial_stream);
       (addr, w) \<leftarrow> os_mmap K (world s) sz;
       let (r, s) = mbind K addr sz policy (Some (maskp nodes)) (bm_size nodes) 0 (s\<lparr>world := w\<rparr>);
       if r < 0 then None
       else do {
         (b, w) \<leftarrow> stream_init clk initial_stream (world s);
         let ((res, b), w) = stream_test clk c_sqrt b w;
         Some (b, s\<lparr>world := w\<rparr>)
       }
     }
   }"

section \<open>The values of the arrays\<close>

text \<open>Whole numbers below 2\<open>^\<close>53 are not rounded, and all elements of an array stay equal: one round multiplies
  the first array by 15.\<close>

lemma dbl_whole: "\<bar>n\<bar> < 2 ^ 53 \<Longrightarrow> dbl (of_int n) = of_int n"
  by (rule dbl_exact [of _ n 0]) (simp_all flip: of_int_abs)

lemma map2_replicate [simp]: "map2 f (replicate n x) (replicate n y) = replicate n (f x y)"
  by (induction n) simp_all

lemma timed_frame [simp]: "fst (timed clk f (s, ts, w)) = f s"
  by (simp add: timed_def Let_def split: prod.split)

lemma fold_timed: "fst (fold (timed clk) fs (s, ts, w)) = fold (\<lambda>f. f) fs s"
proof (induction fs arbitrary: s ts w)
  case (Cons f fs)
  obtain s' ts' w' where t: "timed clk f (s, ts, w) = (s', ts', w')" by (metis prod_cases3)
  then have "s' = f s" using timed_frame [of clk f s ts w] by simp
  then show ?case using Cons [of s' ts' w'] by (simp add: t)
qed simp

lemma round_arrays:
  assumes "arr_a s = replicate n (of_int x)" "\<bar>x\<bar> < 2 ^ 49"
  shows "arr_a (fst (stream_round clk (s, tss, w))) = replicate n (of_int (15 * x)) \<and>
    arr_b (fst (stream_round clk (s, tss, w))) = replicate n (of_int (3 * x)) \<and>
    arr_c (fst (stream_round clk (s, tss, w))) = replicate n (of_int (4 * x))"
proof -
  obtain s' ts w' where f: "fold (timed clk) [stream_copy, stream_scale, stream_add, stream_triad] (s, [], w) = (s', ts, w')"
    by (metis prod_cases3)
  then have s': "s' = stream_triad (stream_add (stream_scale (stream_copy s)))"
    using fold_timed [of clk "[stream_copy, stream_scale, stream_add, stream_triad]" s "[]" w] by simp
  have d: "dbl (3 * of_int x) = of_int (3 * x)" "dbl (of_int x + 3 * of_int x) = of_int (4 * x)"
    "dbl (3 * (4 * of_int x)) = of_int (12 * x)" "dbl (3 * of_int x + 12 * of_int x) = of_int (15 * x)"
    using assms(2) dbl_whole [of "3 * x"] dbl_whole [of "4 * x"] dbl_whole [of "12 * x"] dbl_whole [of "15 * x"]
    by (simp_all add: algebra_simps)
  have r: "fst (stream_round clk (s, tss, w)) = s'" by (simp only: stream_round_def Let_def prod.case f fst_conv)
  show ?thesis
    unfolding r s' using assms(1) d
    by (simp add: stream_triad_def stream_add_def stream_scale_def stream_copy_def)
qed

definition stream_values :: "nat \<Rightarrow> int \<Rightarrow> stream \<Rightarrow> bool" where
  "stream_values n x s \<longleftrightarrow> arr_a s = replicate n (of_int (15 * x)) \<and> arr_b s = replicate n (of_int (3 * x)) \<and>
     arr_c s = replicate n (of_int (4 * x))"

lemma rounds_arrays:
  assumes "arr_a s = replicate n 2" "0 < k" "k \<le> 10"
  shows "stream_values n (2 * 15 ^ (k - 1)) (fst (fold (\<lambda>_. stream_round clk) [0..<k] (s, tss, w)))"
  using assms(2,3)
proof (induction k)
  case (Suc k)
  obtain s' tss' w' where f: "fold (\<lambda>_. stream_round clk) [0..<k] (s, tss, w) = (s', tss', w')"
    by (metis prod_cases3)
  have a: "arr_a s' = replicate n (of_int (2 * 15 ^ k))"
  proof (cases "k = 0")
    case True
    then show ?thesis using f assms(1) by simp
  next
    case False
    then have "stream_values n (2 * 15 ^ (k - 1)) s'" using Suc f by simp
    then show ?thesis using False by (cases k) (simp_all add: stream_values_def)
  qed
  have "(15 :: int) ^ k \<le> 15 ^ 9" using Suc.prems by (intro power_increasing) simp_all
  then have "\<bar>2 * 15 ^ k\<bar> < (2 ^ 49 :: int)" by simp
  from round_arrays [OF a this, of clk tss' w'] show ?case
    using f by (simp add: stream_values_def)
qed simp

lemma report_arrays:
  "arr_a (fst (report_step q j st)) = arr_a (fst st) \<and> arr_b (fst (report_step q j st)) = arr_b (fst st) \<and>
   arr_c (fst (report_step q j st)) = arr_c (fst st)"
  by (cases st) (simp add: report_step_def Let_def)

lemma fold_keeps: "(\<And>x st. g (f x st) = g st) \<Longrightarrow> g (fold f xs st) = g st"
  by (induction xs arbitrary: st) simp_all

lemma test_arrays:
  assumes "arr_a s = replicate n 2"
  shows "stream_values n (2 * 15 ^ 9) (snd (fst (stream_test clk q s w)))"
proof -
  obtain s1 tms w1 where f: "fold (\<lambda>_. stream_round clk) [0..<NTIMES] (s, [], w) = (s1, tms, w1)"
    by (metis prod_cases3)
  have v: "stream_values n (2 * 15 ^ 9) s1"
    using rounds_arrays [OF assms, of 10 clk "[]" w] f by (simp add: NTIMES_def)
  define s2 where "s2 = fold (time_step tms) (List.product [0..<NTIMES] [0..<4]) s1"
  define s3 where "s3 = Vprintf (''Function      Rate (MB/s)   RMS time     Min time     Max time'' @ [CHR 0x0A]) s2"
  obtain s4 res where r: "fold (report_step q) [0..<4] (s3, []) = (s4, res)" by fastforce
  have "stream_test clk q s w = ((res, s4), w1)"
    unfolding stream_test_def Let_def f prod.case s2_def [symmetric] s3_def [symmetric] r by simp
  moreover have "arr_a s2 = arr_a s1 \<and> arr_b s2 = arr_b s1 \<and> arr_c s2 = arr_c s1"
    unfolding s2_def by (intro conjI; rule fold_keeps) (simp_all add: time_step_def Let_def split: prod.split)
  moreover have "arr_a s3 = arr_a s2 \<and> arr_b s3 = arr_b s2 \<and> arr_c s3 = arr_c s2" by (simp add: s3_def)
  moreover have "arr_a s4 = arr_a s3 \<and> arr_b s4 = arr_b s3 \<and> arr_c s4 = arr_c s3"
    using fold_keeps [of "\<lambda>st. arr_a (fst st)" "report_step q" "[0..<4]" "(s3, [])"]
      fold_keeps [of "\<lambda>st. arr_b (fst st)" "report_step q" "[0..<4]" "(s3, [])"]
      fold_keeps [of "\<lambda>st. arr_c (fst st)" "report_step q" "[0..<4]" "(s3, [])"] report_arrays unfolding r by simp
  ultimately show ?thesis using v by (simp add: stream_values_def)
qed

lemma init_arrays:
  assumes "stream_init clk s w = Some (s', w')"
  shows "arr_a s' = replicate (nat (st_N s)) 2"
proof -
  have d: "dbl (2 * 1) = 2" using dbl_whole [of 2] by simp
  obtain q w1 where c: "checktick clk w = Some (q, w1)"
    using assms by (cases "checktick clk w") (auto simp: stream_init_def stream_check_def Let_def)
  obtain t w2 t' w3 where m: "mysecond clk w1 = (t, w2)" "mysecond clk w2 = (t', w3)" by (metis surj_pair)
  show ?thesis
    using assms d by (auto simp: stream_init_def stream_check_def c m Let_def bind_Some_iff)
qed

end
