(* ===== verification/Numademo.thy ===== *)
theory Numademo
  imports StreamLib RunNode Meminfo Mt
begin

unbundle bit_operations_syntax

text \<open>
  The \<open>numademo\<close> command (\<open>numademo.c\<close>): it measures memory that is allocated under one policy after the other.
  Parameters are the clock, the accesses to the measured memory, \<open>clearcache\<close> (assembly), \<open>rand\<close> for a seed,
  \<open>qsort\<close> and the square root.  The state is that of the library and of STREAM, and the standard output.  \<open>None\<close> is the
  end with the usage or status 1, an overflow of one of the text buffers, or other undefined behaviour.
\<close>

section \<open>Parameters and state\<close>

datatype test = MEMSET | MEMCPY | FORWARD | BACKWARD | STREAM | RANDOM2 | PTRCHASE

definition testname :: "(string \<times> test) list" where
  "testname = [(''memset'', MEMSET), (''memcpy'', MEMCPY), (''forward'', FORWARD), (''backward'', BACKWARD),
     (''stream'', STREAM), (''random2'', RANDOM2), (''ptrchase'', PTRCHASE)]"

definition test_title :: "test \<Rightarrow> string" where
  "test_title t = fst (the (List.find (\<lambda>p. snd p = t) testname))"

text \<open>\<open>de_bump\<close> adds a number to the element of the given size at an address; \<open>de_store_list\<close> writes an array of
  pointers, given as the indices of its elements; \<open>de_mark\<close> overwrites one pointer.\<close>

record 'w demo_os =
  de_time :: "'w clock"
  de_clearcache :: "'w \<Rightarrow> nat \<Rightarrow> nat \<Rightarrow> 'w"
  de_memset :: "'w \<Rightarrow> nat \<Rightarrow> nat \<Rightarrow> 'w"
  de_memcpy :: "'w \<Rightarrow> nat \<Rightarrow> nat \<Rightarrow> nat \<Rightarrow> 'w"
  de_bump :: "'w \<Rightarrow> nat \<Rightarrow> nat \<Rightarrow> int \<Rightarrow> 'w"
  de_store_list :: "'w \<Rightarrow> nat \<Rightarrow> nat option list \<Rightarrow> 'w"
  de_mark :: "'w \<Rightarrow> nat \<Rightarrow> 'w"
  de_rand :: "nat \<Rightarrow> nat \<Rightarrow> nat"
  de_qsort :: "(nat \<times> nat) list \<Rightarrow> (nat \<times> nat) list"
  de_sqrt :: "rat \<Rightarrow> rat"

record demo_conf =
  delim :: string
  regression_testing :: bool
  fract_nodes :: int
  node_to_use :: "int list"
  numnodes :: int
  msize :: nat

record 'w demo =
  dm_lib :: "'w numa"
  dm_out :: string
  dm_stream :: stream

definition dm_print :: "string \<Rightarrow> 'w demo \<Rightarrow> 'w demo" where
  "dm_print t d = d\<lparr>dm_out := dm_out d @ t\<rparr>"

definition dm_world :: "('w \<Rightarrow> 'w) \<Rightarrow> 'w demo \<Rightarrow> 'w demo" where
  "dm_world g d = d\<lparr>dm_lib := (dm_lib d)\<lparr>world := g (world (dm_lib d))\<rparr>\<rparr>"

definition on_dm :: "('w numa \<Rightarrow> 'w numa option) \<Rightarrow> 'w demo \<Rightarrow> 'w demo option" where
  "on_dm g d = map_option (\<lambda>s. d\<lparr>dm_lib := s\<rparr>) (g (dm_lib d))"

text \<open>A text that is written to a buffer of a given size.\<close>

definition fits :: "nat \<Rightarrow> string \<Rightarrow> string option" where
  "fits n t = (if length t < n then Some t else None)"

definition demo_output :: "demo_conf \<Rightarrow> string \<Rightarrow> string \<Rightarrow> string" where
  "demo_output C title result =
     (if \<not> c_isspace (head_char (delim C)) then title @ delim C @ result @ [CHR 0x0A]
      else title @ replicate (42 - length title) CHR '' '' @ result @ [CHR 0x0A])"

section \<open>STREAM\<close>

definition do_stream :: "'w demo_os \<Rightarrow> demo_conf \<Rightarrow> string \<Rightarrow> nat \<Rightarrow> 'w demo \<Rightarrow> 'w demo option" where
  "do_stream D C name mem d = do {
     let d = dm_world (\<lambda>w. de_clearcache D w mem (c_uint (int (msize C)))) d;
     (st, w) \<leftarrow> stream_init (de_time D) ((dm_stream d)\<lparr>stream_verbose := False\<rparr>) (world (dm_lib d));
     let ((res, st), w) = stream_test (de_time D) (de_sqrt D) st w;
     let d = dm_world (\<lambda>_. w) (d\<lparr>dm_stream := st\<rparr>);
     title \<leftarrow> fits 100 (name @ delim C @ ''STREAM'');
     buf \<leftarrow> fits 100 (concat (map (\<lambda>i. (if i = 0 then [] else delim C) @ stream_names ! i @ delim C @ fmt_fp 2 (res ! i) @
       delim C @ ''MB/s'') [0..<4]));
     Some (dm_world (\<lambda>w. de_clearcache D w mem (c_uint (int (msize C)))) (dm_print (demo_output C title buf) d))
   }"

section \<open>The pointer chase\<close>

text \<open>The elements are created with the index of their successor and a random value, sorted by the value, and the
  indices turned into pointers.\<close>

definition ptrchase_init :: "'w demo_os \<Rightarrow> nat \<Rightarrow> nat option list" where
  "ptrchase_init D sz =
     (let nmemb = sz div 8;
          nodes = map (\<lambda>i. (c_uint (int i + 1), c_uint (int (de_rand D 1234 i)))) [0..<nmemb]
      in map (\<lambda>(nexti, val). if nmemb \<le> nexti then None else Some nexti) (de_qsort D nodes))"

partial_function (option) chase :: "nat option list \<Rightarrow> nat \<Rightarrow> nat option" where
  "chase links p =
     (if p < length links then (case links ! p of None \<Rightarrow> Some p | Some q \<Rightarrow> chase links q) else None)"

section \<open>Random accesses\<close>

function grow_mask :: "nat \<Rightarrow> nat \<Rightarrow> nat" where
  "grow_mask bound msk = (if msk < bound then grow_mask bound (2 * msk + 1) else msk)"
  by pat_completeness auto
termination by (relation "measure (\<lambda>(bound, msk). bound - msk)") auto

declare grow_mask.simps [simp del]

text \<open>The mask is an \<open>unsigned\<close>; it stays below 2\<open>^\<close>32 because the bound does.\<close>

definition random_index :: "nat \<Rightarrow> nat \<Rightarrow> mt \<Rightarrow> nat \<times> mt" where
  "random_index msk bound m =
     (let (r, m) = mt_random m; idx = unat r AND msk in (if bound \<le> idx then idx - bound else idx, m))"

definition random_step :: "'w demo_os \<Rightarrow> nat \<Rightarrow> nat \<Rightarrow> nat \<Rightarrow> mt \<times> 'w \<Rightarrow> mt \<times> 'w" where
  "random_step D mem msk bound st =
     (let (m, w) = st; (idx, m) = random_index msk bound m in (m, de_bump D w (mem + 4 * idx) 4 1))"

definition random_accesses :: "'w demo_os \<Rightarrow> nat \<Rightarrow> nat \<Rightarrow> 'w \<Rightarrow> 'w" where
  "random_accesses D mem bound w =
     snd (fold (\<lambda>_. random_step D mem (grow_mask bound 1) bound) [0..<bound]
       (mt_init (\<lambda>i. of_nat (de_rand D 1 i)), w))"

section \<open>One measurement\<close>

definition CACHELINESIZE :: nat where "CACHELINESIZE = 64"
definition LOOPS :: nat where "LOOPS = 10"

type_synonym timeval = "int \<times> int"

definition time_around :: "'w demo_os \<Rightarrow> ('w \<Rightarrow> 'w) \<Rightarrow> 'w \<Rightarrow> (timeval \<times> timeval) \<times> 'w" where
  "time_around D g w = (let (start, w) = de_time D w; (end, w) = de_time D (g w) in ((start, end), w))"

text \<open>The case for \<open>random2\<close> has no \<open>break\<close>: the clock is read twice more, and these readings count.\<close>

definition run_kernel :: "'w demo_os \<Rightarrow> test \<Rightarrow> nat \<Rightarrow> nat \<Rightarrow> 'w \<Rightarrow> ((timeval \<times> timeval) \<times> 'w) option" where
  "run_kernel D t mem sz w =
     (case t of
        PTRCHASE \<Rightarrow> do {
          let links = ptrchase_init D sz;
          let w = de_store_list D w mem links;
          let (start, w) = de_time D w;
          p \<leftarrow> chase links 0;
          let (end, w) = de_time D w;
          Some ((start, end), de_mark D w (mem + 8 * p))
        }
      | MEMSET \<Rightarrow> Some (time_around D (\<lambda>w. de_memset D w mem sz) w)
      | MEMCPY \<Rightarrow> Some (time_around D (\<lambda>w. de_memcpy D w mem (mem + sz div 2) (sz div 2)) w)
      | FORWARD \<Rightarrow> Some (time_around D (\<lambda>w. fold (\<lambda>k w. de_bump D w (mem + k * CACHELINESIZE) 1 1)
          [0..<(sz + CACHELINESIZE - 1) div CACHELINESIZE] w) w)
      | BACKWARD \<Rightarrow>
          (let k = nat (c_long (int sz - 5))
           in Some (time_around D (\<lambda>w. fold (\<lambda>j w. de_bump D w (mem + (k - j * CACHELINESIZE)) 1 (- 1))
                [0..<(k + CACHELINESIZE - 1) div CACHELINESIZE] w) w))
      | RANDOM2 \<Rightarrow>
          (let (_, w) = time_around D (random_accesses D mem (c_uint (int (sz div 4)))) w
           in Some (time_around D (\<lambda>w. w) w))
      | STREAM \<Rightarrow> Some (time_around D (\<lambda>w. w) w))"

definition timersub :: "timeval \<Rightarrow> timeval \<Rightarrow> timeval" where
  "timersub a b =
     (let sec = fst a - fst b; usec = snd a - snd b in if usec < 0 then (sec - 1, usec + 1000000) else (sec, usec))"

definition timerfold :: "timeval \<Rightarrow> nat" where
  "timerfold tv = c_ulong (fst tv * 1000000 + snd tv)"

text \<open>Pass 0 allocates the pages and is not counted.  The state of the loop: maximum, minimum, sum and world.\<close>

definition memtest_pass :: "'w demo_os \<Rightarrow> test \<Rightarrow> nat \<Rightarrow> nat \<Rightarrow> nat \<Rightarrow> (nat \<times> nat \<times> nat) \<times> 'w \<Rightarrow>
    ((nat \<times> nat \<times> nat) \<times> 'w) option" where
  "memtest_pass D t mem sz i st = do {
     let ((mx, mn, sum), w) = st;
     let w = de_clearcache D w mem (c_uint (int sz));
     ((start, end), w) \<leftarrow> run_kernel D t mem sz w;
     let r = timerfold (timersub end start);
     Some (if i = 0 then ((mx, mn, sum), w) else ((max mx r, min mn r, c_ulong (int (sum + r))), w))
   }"

definition memtest_rate :: "nat \<Rightarrow> nat \<Rightarrow> nat \<Rightarrow> string" where
  "memtest_rate sz factor t = fmt_fp 2 (fdiv (dbl (double_of (int sz) / double_of (int factor))) (double_of (int t)))"

definition memtest :: "'w os \<Rightarrow> 'w demo_os \<Rightarrow> demo_conf \<Rightarrow> test \<Rightarrow> string \<Rightarrow> nat option \<Rightarrow> 'w demo \<Rightarrow> 'w demo option" where
  "memtest K D C t name mem d =
     (case mem of
        None \<Rightarrow> Some d
      | Some mem \<Rightarrow> do {
          d \<leftarrow> (if t = STREAM then do_stream D C name mem d
            else do {
              ((mx, mn, sum), w) \<leftarrow> foldM (memtest_pass D t mem (msize C)) [0..<LOOPS + 1] ((0, ULONG_MAX, 0), world (dm_lib d));
              let d = dm_world (\<lambda>_. w) d;
              title \<leftarrow> fits 128 (name @ delim C @ test_title t);
              let rate = memtest_rate (msize C) (if t = MEMCPY then 2 else 1);
              let gap = delim C @ delim C @ delim C;
              result \<leftarrow> fits 128 (''Avg'' @ delim C @ rate (sum div LOOPS) @ delim C @ ''MB/s'' @ gap @ ''Max'' @ delim C @
                rate mn @ delim C @ ''MB/s'' @ gap @ ''Min'' @ delim C @ rate mx @ delim C @ ''MB/s'');
              Some (dm_print (demo_output C title result) d)
            });
          let d = dm_world (\<lambda>w. de_clearcache D w mem (c_uint (int (msize C)))) d;
          Some (d\<lparr>dm_lib := numa_free K mem (msize C) (dm_lib d)\<rparr>)
        })"

text \<open>\<open>memtest(name, alloc(...))\<close>.\<close>

definition memtest_of :: "'w os \<Rightarrow> 'w demo_os \<Rightarrow> demo_conf \<Rightarrow> test \<Rightarrow> string \<Rightarrow> ('w numa \<Rightarrow> (nat option \<times> 'w numa) option) \<Rightarrow>
    'w demo \<Rightarrow> 'w demo option" where
  "memtest_of K D C t name alloc d = do {
     (mem, s) \<leftarrow> alloc (dm_lib d);
     memtest K D C t name mem (d\<lparr>dm_lib := s\<rparr>)
   }"

section \<open>The nodes\<close>

function popcnt_loop :: "nat \<Rightarrow> nat \<Rightarrow> nat \<Rightarrow> nat" where
  "popcnt_loop val i cnt =
     (if drop_bit i val \<noteq> 0 then popcnt_loop val (Suc i) (if bit val i then cnt + 1 else cnt) else cnt)"
  by pat_completeness auto
termination
proof (relation "measure (\<lambda>(val, i, cnt). drop_bit i val)", goal_cases)
  case (2 val i cnt)
  have "val div 2 ^ Suc i = val div 2 ^ i div 2" by (simp only: power_Suc2 div_mult2_eq)
  then show ?case using 2 by (simp add: drop_bit_eq_div)
qed simp

declare popcnt_loop.simps [simp del]

definition popcnt :: "nat \<Rightarrow> nat" where
  "popcnt val = popcnt_loop val 0 0"

text \<open>The array of the nodes has room for the configured nodes; more nodes with memory overflow it.\<close>

definition node_list_entry :: "'w os \<Rightarrow> int \<Rightarrow> int \<Rightarrow> int list \<times> 'w numa \<Rightarrow> (int list \<times> 'w numa) option" where
  "node_list_entry K n a st = do {
     let (got, s) = st;
     ((sz, _), s) \<leftarrow> numa_node_size K a s;
     if 0 < sz then (if int (length got) < n then Some (got @ [a], s) else None) else Some (got, s)
   }"

text \<open>The result of -1 is \<open>None\<close> in the first component; otherwise it is the list and the number of nodes.\<close>

definition get_node_list :: "'w os \<Rightarrow> 'w numa \<Rightarrow> (int list option \<times> 'w numa) option" where
  "get_node_list K s = do {
     n \<leftarrow> numa_num_configured_nodes s;
     (got, s) \<leftarrow> foldM (node_list_entry K n) (map int [0..<nat (numa_max_node s + 1)]) ([], s);
     Some (if int (length got) \<noteq> n then None else Some got, s)
   }"

section \<open>One test under every policy\<close>

definition set_eoe :: "bool \<Rightarrow> 'w demo \<Rightarrow> 'w demo" where
  "set_eoe b d = d\<lparr>dm_lib := (dm_lib d)\<lparr>numa_exit_on_error := b\<rparr>\<rparr>"

definition nth_node :: "demo_conf \<Rightarrow> nat \<Rightarrow> int option" where
  "nth_node C i = (if i < length (node_to_use C) then Some (node_to_use C ! i) else None)"

definition first_two :: "demo_conf \<Rightarrow> bitmask \<Rightarrow> bitmask option" where
  "first_two C nodes = do {
     a \<leftarrow> nth_node C 0;
     b \<leftarrow> nth_node C 1;
     Some (numa_bitmask_setbit (numa_bitmask_setbit (numa_bitmask_clearall nodes) (c_uint a)) (c_uint b))
   }"

definition one_node :: "bitmask \<Rightarrow> int \<Rightarrow> bitmask" where
  "one_node nodes node = numa_bitmask_setbit (numa_bitmask_clearall nodes) (c_uint node)"

text \<open>The bits of a mask, and the text for it, which names the nodes whose own bit is in the mask.\<close>

definition mask_nodes :: "bitmask \<Rightarrow> nat \<Rightarrow> bitmask" where
  "mask_nodes nodes msk =
     fold (\<lambda>w b. if bit msk w then numa_bitmask_setbit b w else b) [0..<64] (numa_bitmask_clearall nodes)"

definition mask_title :: "demo_conf \<Rightarrow> string \<Rightarrow> nat \<Rightarrow> string option" where
  "mask_title C start msk = do {
     t \<leftarrow> foldM (\<lambda>k t. do {
         node \<leftarrow> nth_node C k;
         if node < 0 \<or> 64 \<le> node then None
         else Some (if bit msk (nat node) then t @ '' '' @ dec_int node else t)
       }) [0..<nat (numnodes C)] start;
     fits 512 t
   }"

text \<open>One mask of the loop over all sets of nodes.\<close>

definition mask_test :: "'w os \<Rightarrow> 'w demo_os \<Rightarrow> demo_conf \<Rightarrow> test \<Rightarrow> bool \<Rightarrow> bitmask \<Rightarrow> nat \<Rightarrow> 'w demo \<Rightarrow> 'w demo option" where
  "mask_test K D C t old_eoe nodes msk d = do {
     let nodes = mask_nodes nodes msk;
     buf \<leftarrow> mask_title C ''memory interleaved on'' msk;
     d \<leftarrow> memtest_of K D C t buf (numa_alloc_interleaved_subset_v2 K (msize C) (Some nodes)) d;
     d \<leftarrow> memtest_of K D C t buf (numa_alloc_weighted_interleaved_subset K (msize C) (Some nodes)) (set_eoe False d);
     let d = set_eoe old_eoe d;
     (r, s) \<leftarrow> numa_has_preferred_many K (dm_lib d);
     let d = d\<lparr>dm_lib := s\<rparr>;
     if r = 0 then Some d
     else do {
       buf \<leftarrow> mask_title C ''memory preferred on'' msk;
       d \<leftarrow> on_dm (numa_set_preferred_many K nodes) d;
       memtest_of K D C t buf (numa_alloc K (msize C)) d
     }
   }"

definition FRACT_NODES :: int where "FRACT_NODES = 8"
definition FRACT_MASKS :: nat where "FRACT_MASKS = 32"

function mask_loop :: "'w os \<Rightarrow> 'w demo_os \<Rightarrow> demo_conf \<Rightarrow> test \<Rightarrow> bool \<Rightarrow> bitmask \<Rightarrow> nat \<Rightarrow> 'w demo \<Rightarrow> 'w demo option" where
  "mask_loop K D C t old_eoe nodes msk d =
     (if msk < 2 ^ nat (numnodes C) then
        let i = msk - 1 in
        if popcnt msk = 1 then mask_loop K D C t old_eoe nodes (Suc msk) d
        else if regression_testing C \<and> 50 < i then Some d
        else if regression_testing C \<and> i mod FRACT_MASKS \<noteq> 0 then mask_loop K D C t old_eoe nodes (Suc msk) d
        else do {
          d \<leftarrow> mask_test K D C t old_eoe nodes msk d;
          mask_loop K D C t old_eoe nodes (Suc msk) d
        }
      else Some d)"
  by pat_completeness auto
termination by (relation "measure (\<lambda>(K, D, C, t, e, nodes, msk, d). 2 ^ nat (numnodes C) - msk)") auto

declare mask_loop.simps [simp del]

text \<open>For regression testing only one of \<open>fract_nodes\<close> is taken.\<close>

definition skipped :: "demo_conf \<Rightarrow> int \<Rightarrow> bool" where
  "skipped C i \<longleftrightarrow> regression_testing C \<and> i mod fract_nodes C \<noteq> 0"

definition test_alloc :: "'w os \<Rightarrow> 'w demo_os \<Rightarrow> demo_conf \<Rightarrow> test \<Rightarrow> bool \<Rightarrow> 'w demo \<Rightarrow> 'w demo option" where
  "test_alloc K D C t old_eoe d = do {
     d \<leftarrow> memtest_of K D C t ''memory with no policy'' (numa_alloc K (msize C)) d;
     d \<leftarrow> memtest_of K D C t ''local memory'' (numa_alloc_local K (msize C)) d;
     d \<leftarrow> memtest_of K D C t ''memory interleaved on all nodes'' (numa_alloc_interleaved K (msize C)) d;
     d \<leftarrow> memtest_of K D C t ''memory weighted interleaved on all nodes'' (numa_alloc_weighted_interleaved K (msize C)) (set_eoe False d);
     let d = set_eoe old_eoe d;
     foldM (\<lambda>i d. if skipped C (int i) then Some d else do {
         node \<leftarrow> nth_node C i;
         memtest_of K D C t (''memory on node '' @ dec_int node) (numa_alloc_onnode K (msize C) node) d
       }) [0..<nat (numnodes C)] d
   }"

definition test_preferred :: "'w os \<Rightarrow> 'w demo_os \<Rightarrow> demo_conf \<Rightarrow> test \<Rightarrow> 'w demo \<Rightarrow> 'w demo option" where
  "test_preferred K D C t d =
     foldM (\<lambda>i d. do {
         node \<leftarrow> nth_node C i;
         if skipped C node then Some d
         else do {
           let d = dm_print (''setting preferred node to '' @ dec_int node @ [CHR 0x0A]) d;
           d \<leftarrow> on_dm (numa_set_preferred K node) d;
           memtest_of K D C t ''memory with preferred policy'' (numa_alloc K (msize C)) d
         }
       }) [0..<nat (numnodes C)] d"

text \<open>The process policies, plain and weighted, on all nodes and on the first two.\<close>

definition test_interleave :: "'w os \<Rightarrow> 'w demo_os \<Rightarrow> demo_conf \<Rightarrow> test \<Rightarrow> (bitmask \<Rightarrow> 'w numa \<Rightarrow> 'w numa option) \<Rightarrow> string \<Rightarrow>
    bitmask \<Rightarrow> 'w demo \<Rightarrow> 'w demo option" where
  "test_interleave K D C t set_mask kind nodes d = do {
     all_nodes \<leftarrow> numa_all_nodes_ptr (dm_lib d);
     d \<leftarrow> on_dm (set_mask all_nodes) d;
     d \<leftarrow> memtest_of K D C t ''manual interleaving to all nodes'' (numa_alloc K (msize C)) d;
     if 0 < numnodes C then do {
       nodes \<leftarrow> first_two C nodes;
       d \<leftarrow> on_dm (set_mask nodes) d;
       d \<leftarrow> memtest_of K D C t (''manual '' @ kind @ ''interleaving on first two nodes'') (numa_alloc K (msize C)) d;
       let (node, s) = numa_get_interleave_node K (dm_lib d);
       Some (dm_print (''current '' @ kind @ ''interleave node '' @ dec_int node @ [CHR 0x0A]) (d\<lparr>dm_lib := s\<rparr>))
     }
     else Some d
   }"

text \<open>The tests while running on one node.\<close>

definition run_bind :: "'w os \<Rightarrow> 'w demo_os \<Rightarrow> demo_conf \<Rightarrow> test \<Rightarrow> bitmask \<Rightarrow> int \<Rightarrow> nat \<Rightarrow> 'w demo \<Rightarrow> 'w demo option" where
  "run_bind K D C t nodes here k d = do {
     node \<leftarrow> nth_node C k;
     if node = here \<or> skipped C node then Some d
     else do {
       d \<leftarrow> on_dm (numa_set_membind_v2 K (one_node nodes node)) d;
       d \<leftarrow> memtest_of K D C t (''alloc on node '' @ dec_int node) (numa_alloc K (msize C)) d;
       all_nodes \<leftarrow> numa_all_nodes_ptr (dm_lib d);
       on_dm (numa_set_membind_v2 K all_nodes) d
     }
   }"

definition run_preferred :: "'w os \<Rightarrow> 'w demo_os \<Rightarrow> demo_conf \<Rightarrow> test \<Rightarrow> bitmask \<Rightarrow> int \<Rightarrow> int \<Rightarrow> 'w demo \<Rightarrow> 'w demo option" where
  "run_preferred K D C t nodes wrong here d = do {
     d \<leftarrow> on_dm (numa_set_preferred K wrong) d;
     d \<leftarrow> memtest_of K D C t ''setting wrong preferred node'' (numa_alloc K (msize C)) d;
     d \<leftarrow> on_dm (numa_set_preferred K here) d;
     d \<leftarrow> memtest_of K D C t ''setting correct preferred node'' (numa_alloc K (msize C)) d;
     (r, s) \<leftarrow> numa_has_preferred_many K (dm_lib d);
     let d = d\<lparr>dm_lib := s\<rparr>;
     if r = 0 then Some d
     else do {
       d \<leftarrow> on_dm (numa_set_preferred_many K (one_node nodes wrong)) d;
       d \<leftarrow> memtest_of K D C t ''setting wrong preferred-many nodes'' (numa_alloc K (msize C)) d;
       d \<leftarrow> on_dm (numa_set_preferred_many K (one_node nodes here)) d;
       memtest_of K D C t ''setting correct preferred-many nodes'' (numa_alloc K (msize C)) d
     }
   }"

definition run_first_two :: "'w os \<Rightarrow> 'w demo_os \<Rightarrow> demo_conf \<Rightarrow> test \<Rightarrow> bitmask \<Rightarrow> 'w demo \<Rightarrow> 'w demo option" where
  "run_first_two K D C t nodes d =
     (if 2 \<le> numnodes C then do {
        nodes \<leftarrow> first_two C nodes;
        d \<leftarrow> memtest_of K D C t ''memory interleaved on first two nodes'' (numa_alloc_interleaved_subset_v2 K (msize C) (Some nodes)) d;
        let old_eoe = numa_exit_on_error (dm_lib d);
        d \<leftarrow> memtest_of K D C t ''memory weighted interleaved on first two nodes''
          (numa_alloc_weighted_interleaved_subset K (msize C) (Some nodes)) (set_eoe False d);
        Some (set_eoe old_eoe d)
      }
      else Some d)"

definition test_run_node :: "'w os \<Rightarrow> 'w demo_os \<Rightarrow> demo_conf \<Rightarrow> test \<Rightarrow> bool \<Rightarrow> bitmask \<Rightarrow> nat \<Rightarrow> 'w demo \<Rightarrow> 'w demo option" where
  "test_run_node K D C t old_eoe nodes i d = do {
     (oldhn, s) \<leftarrow> numa_preferred K (dm_lib d);
     let d = d\<lparr>dm_lib := s\<rparr>;
     if skipped C (int i) then Some d
     else do {
       here \<leftarrow> nth_node C i;
       (_, s) \<leftarrow> numa_run_on_node K here (dm_lib d);
       let d = dm_print (''running on node '' @ dec_int here @ '', preferred node '' @ dec_int oldhn @ [CHR 0x0A]) (d\<lparr>dm_lib := s\<rparr>);
       d \<leftarrow> memtest_of K D C t ''local memory'' (numa_alloc_local K (msize C)) d;
       d \<leftarrow> memtest_of K D C t ''memory interleaved on all nodes'' (numa_alloc_interleaved K (msize C)) d;
       d \<leftarrow> memtest_of K D C t ''memory weighted interleaved on all nodes'' (numa_alloc_weighted_interleaved K (msize C)) (set_eoe False d);
       d \<leftarrow> run_first_two K D C t nodes (set_eoe old_eoe d);
       d \<leftarrow> foldM (run_bind K D C t nodes here) [0..<nat (numnodes C)] d;
       d \<leftarrow> on_dm (numa_set_localalloc K) d;
       d \<leftarrow> memtest_of K D C t ''local allocation'' (numa_alloc K (msize C)) d;
       wrong \<leftarrow> nth_node C (Suc i mod nat (numnodes C));
       d \<leftarrow> run_preferred K D C t nodes wrong here d;
       d \<leftarrow> on_dm (numa_set_localalloc K) d;
       Some (if delim C = [] then dm_print (replicate 3 (CHR 0x0A)) d else d)
     }
   }"

definition run_test :: "'w os \<Rightarrow> 'w demo_os \<Rightarrow> demo_conf \<Rightarrow> test \<Rightarrow> 'w demo \<Rightarrow> 'w demo option" where
  "run_test K D C t d = do {
     let old_eoe = numa_exit_on_error (dm_lib d);
     (nodes, s) \<leftarrow> numa_allocate_nodemask K (dm_lib d);
     let d = d\<lparr>dm_lib := s\<rparr>;
     let d = (if regression_testing C then dm_print ([CHR 0x0A] @ ''Test '' @ test_title t @ '' doing 1 of '' @ dec_int (fract_nodes C) @
       '' nodes and 1 of '' @ dec_nat FRACT_MASKS @ '' masks.'' @ [CHR 0x0A]) d else d);
     d \<leftarrow> test_alloc K D C t old_eoe d;
     nodes \<leftarrow> (if 63 < numnodes C then None else nodes);
     d \<leftarrow> mask_loop K D C t old_eoe nodes 1 d;
     d \<leftarrow> test_preferred K D C t d;
     d \<leftarrow> test_interleave K D C t (numa_set_interleave_mask_v2 K) [] nodes d;
     d \<leftarrow> test_interleave K D C t (numa_set_weighted_interleave_mask K) ''weighted '' nodes (set_eoe False d);
     let d = set_eoe old_eoe d;
     no_nodes \<leftarrow> numa_no_nodes_ptr (dm_lib d);
     d \<leftarrow> on_dm (numa_set_interleave_mask_v2 K no_nodes) d;
     (nodes, s) \<leftarrow> numa_allocate_nodemask K (dm_lib d);
     let d = d\<lparr>dm_lib := s\<rparr>;
     if numnodes C \<le> 0 then Some d
     else do {
       nodes \<leftarrow> nodes;
       foldM (test_run_node K D C t old_eoe nodes) [0..<nat (numnodes C)] d
     }
   }"

section \<open>The command\<close>

record demo_opts =
  do_delim :: string
  do_force :: bool
  simple_tests :: bool
  do_exit :: bool
  do_regress :: bool

definition initial_opts :: demo_opts where
  "initial_opts = \<lparr>do_delim = '' '', do_force = False, simple_tests = False, do_exit = False, do_regress = False\<rparr>"

fun demo_options :: "string list \<Rightarrow> demo_opts \<Rightarrow> (string list \<times> demo_opts) option" where
  "demo_options [] h = Some ([], h)"
| "demo_options (a # av) h =
     (if head_char a \<noteq> CHR ''-'' then Some (a # av, h)
      else
        let c = head_char (tl a) in
        if c = CHR ''c'' then demo_options av (h\<lparr>do_delim := '',''\<rparr>)
        else if c = CHR ''f'' then demo_options av (h\<lparr>do_force := True\<rparr>)
        else if c = CHR ''S'' then demo_options av (h\<lparr>simple_tests := True\<rparr>)
        else if c = CHR ''e'' then demo_options av (h\<lparr>do_exit := True\<rparr>)
        else if c = CHR ''t'' then demo_options av (h\<lparr>do_regress := True\<rparr>)
        else None)"

definition all_tests :: "bool \<Rightarrow> test list" where
  "all_tests simple = [MEMSET, MEMCPY] @ (if simple then [FORWARD, BACKWARD] else []) @ [RANDOM2, STREAM]"

definition run_tests :: "'w os \<Rightarrow> 'w demo_os \<Rightarrow> demo_conf \<Rightarrow> bool \<Rightarrow> string list \<Rightarrow> 'w demo \<Rightarrow> 'w demo option" where
  "run_tests K D C simple names d =
     (if names = [] then do {
        d \<leftarrow> foldM (run_test K D C) (all_tests simple) d;
        if 8 \<le> msize C then run_test K D C PTRCHASE d else None
      }
      else foldM (\<lambda>name d.
        case map_of testname name of
          None \<Rightarrow> None
        | Some t \<Rightarrow> run_test K D C t d) names d)"

definition numademo_main :: "'w os \<Rightarrow> 'w demo_os \<Rightarrow> string list \<Rightarrow> 'w numa \<Rightarrow> (int \<times> 'w demo) option" where
  "numademo_main K D av s = do {
     (av, h) \<leftarrow> demo_options av initial_opts;
     let s = s\<lparr>numa_fail_alloc_on_error := True\<rparr>;
     let s = (if do_exit h then s\<lparr>numa_exit_on_error := True, numa_exit_on_warn := True\<rparr> else s);
     case av of
       [] \<Rightarrow> None
     | szarg # names \<Rightarrow> do {
         let (avail, s) = numa_available K s;
         if avail < 0 \<and> \<not> do_force h then None
         else do {
           (nl, s) \<leftarrow> get_node_list K s;
           nl \<leftarrow> nl;
           let d = \<lparr>dm_lib = s, dm_out = (if avail < 0 then ''your system does not support the numa API.'' @ [CHR 0x0A] else []),
             dm_stream = initial_stream\<rparr>;
           let n = int (length nl);
           if n < 2 then Some (77, dm_print (''A minimum of 2 nodes is required for this test.'' @ [CHR 0x0A]) d)
           else do {
             let d = dm_print (dec_int n @ '' nodes available'' @ [CHR 0x0A]) d;
             let sz = c_ulong (memsize szarg);
             let C = \<lparr>delim = do_delim h, regression_testing = do_regress h \<and> 3 < n, fract_nodes = ((n - 1) div 8) * 2 + FRACT_NODES,
               node_to_use = nl, numnodes = n, msize = sz\<rparr>;
             if sz = 0 then None
             else do {
               d \<leftarrow> run_tests K D C (simple_tests h) names (d\<lparr>dm_stream := stream_setmem sz (dm_stream d)\<rparr>);
               Some (0, d)
             }
           }
         }
       }
   }"

end
