(* ===== verification/PropsDemo.thy ===== *)
theory PropsDemo
  imports Numademo Sample "HOL-Library.Multiset"
begin

unbundle bit_operations_syntax

text \<open>
  Properties of \<open>numademo\<close> and STREAM: what the arrays hold after a run, that the pointer chase ends, that the random
  accesses stay in the memory, and which of the measurements are not what they are meant to be.
\<close>

section \<open>STREAM\<close>

text \<open>C27: After STREAM has been set up and run, every element of the three arrays has the value that ten rounds of the
  kernels give in exact arithmetic: no operation rounds, whatever the size of the arrays and the clock.\<close>

theorem stream_arrays_exact:
  assumes "stream_init clk s w = Some (s', w')"
  shows "arr_a (snd (fst (stream_test clk q s' w'))) = replicate (nat (st_N s)) (2 * 15 ^ 10) \<and>
    arr_b (snd (fst (stream_test clk q s' w'))) = replicate (nat (st_N s)) (6 * 15 ^ 9) \<and>
    arr_c (snd (fst (stream_test clk q s' w'))) = replicate (nat (st_N s)) (8 * 15 ^ 9)"
  using test_arrays [OF init_arrays [OF assms], of clk q w'] by (simp add: stream_values_def)

text \<open>A clock that advances by a second with every reading.\<close>

definition second_clock :: "int clock" where
  "second_clock w = ((w, 0), w + 1)"

lemma second_clock_run:
  assumes "0 \<le> w" "w < 2 ^ 50"
  shows "mysecond second_clock w = (of_int w, w + 1)"
proof -
  have "double_of w = of_int w" "dbl (of_int w) = of_int w" using assms dbl_whole [of w] by (simp_all add: double_of_def)
  moreover have "double_of 0 = 0" "dbl 0 = 0" by (simp_all add: double_of_def dbl_def)
  ultimately show ?thesis by (simp add: mysecond_def second_clock_def)
qed

lemma second_clock_wait:
  assumes "0 \<le> w" "w < 2 ^ 49"
  shows "tick_wait second_clock (of_int w) (w + 1) = Some (of_int (w + 1), w + 2)"
proof -
  have d: "dbl 1 = 1" using dbl_whole [of 1] by simp
  have "dbl (1 / 1000000) < 1" by code_simp
  then show ?thesis
    using assms second_clock_run [of "w + 1"] d by (subst tick_wait.simps) simp
qed

lemma second_clock_ticks:
  assumes "k \<le> 20"
  shows "foldM (\<lambda>_. tick_step second_clock) [0..<k] ([], 0) = Some (map (\<lambda>i. of_int (2 * int i + 1)) [0..<k], 2 * int k)"
  using assms
proof (induction k)
  case (Suc k)
  then have "foldM (\<lambda>_. tick_step second_clock) [0..<k] ([], 0) = Some (map (\<lambda>i. of_int (2 * int i + 1)) [0..<k], 2 * int k)" by simp
  moreover have "tick_step second_clock (ts, 2 * int k) = Some (ts @ [of_int (2 * int k + 1)], 2 * int k + 2)" for ts
    using second_clock_run [of "2 * int k"] second_clock_wait [of "2 * int k"] Suc.prems by (simp add: tick_step_def)
  ultimately show ?case by (simp add: foldM_append)
qed simp

lemma second_clock_checktick: "checktick second_clock 0 = Some (1000000, 40)"
proof -
  let ?ts = "map (\<lambda>i. rat_of_int (2 * int i + 1)) [0..<20]"
  have d: "dbl 2 = 2" "dbl 2000000 = 2000000" using dbl_whole [of 2] dbl_whole [of 2000000] by simp_all
  have step: "tick_delta ?ts i 1000000 = Some 1000000" if "i \<in> set [1..<20]" for i
  proof -
    have "\<exists>j. i = Suc j \<and> j < 19" using that by (intro exI [of _ "i - 1"]) auto
    then obtain j where "i = Suc j" "j < 19" by blast
    then have "?ts ! i - ?ts ! (i - 1) = 2" by (simp del: upt_Suc)
    then show ?thesis using d unfolding tick_delta_def by (simp add: int_of_double_def)
  qed
  have "foldM (tick_delta ?ts) is 1000000 = Some 1000000" if "set is \<subseteq> set [1..<20]" for "is"
    using that by (induction "is") (use step in auto)
  then show ?thesis using second_clock_ticks [of 20] by (simp add: checktick_def)
qed

definition small_stream :: stream where
  "small_stream = initial_stream\<lparr>st_N := 3, stream_verbose := False\<rparr>"

theorem stream_arrays_exact_witness:
  "\<exists>s' w'. stream_init second_clock small_stream 0 = Some (s', w') \<and>
    arr_a (snd (fst (stream_test second_clock (\<lambda>x. x) s' w'))) = replicate 3 (2 * 15 ^ 10)"
proof -
  obtain s' w' where i: "stream_init second_clock small_stream 0 = Some (s', w')"
    by (simp add: stream_init_def stream_check_def second_clock_checktick Let_def mysecond_def second_clock_def
        small_stream_def)
  then show ?thesis using stream_arrays_exact [OF i, of "\<lambda>x. x"] by (simp add: small_stream_def)
qed

section \<open>Random accesses\<close>

lemma grow_mask_bounds:
  assumes "msk < 2 * bound"
  shows "grow_mask bound msk < 2 * bound \<and> bound \<le> grow_mask bound msk"
  using assms
proof (induction bound msk rule: grow_mask.induct)
  case (1 bound msk)
  then show ?case by (subst (1 2) grow_mask.simps) auto
qed

text \<open>The index of a random access is always below the number of elements: the mask is less than twice that number, so
  one subtraction is enough.\<close>

theorem random_index_in_bounds:
  assumes "0 < bound"
  shows "fst (random_index (grow_mask bound 1) bound m) < bound"
proof -
  obtain r m' where r: "mt_random m = (r, m')" by fastforce
  have "int (unat r AND grow_mask bound 1) \<le> int (grow_mask bound 1)" unfolding of_nat_and_eq by (rule AND_upper2) simp
  then have "unat r AND grow_mask bound 1 \<le> grow_mask bound 1" by simp
  also have "\<dots> < 2 * bound" using grow_mask_bounds [of 1 bound] assms by simp
  finally show ?thesis by (auto simp: random_index_def r Let_def)
qed

theorem random_index_in_bounds_witness: "fst (random_index (grow_mask 1000 1) 1000 (mt_init (\<lambda>i. 0xFFFFFFFF))) < 1000"
  by (rule random_index_in_bounds) simp

text \<open>A machine whose world counts the accesses and the readings of the clock, with any sequence of random numbers.\<close>

definition counting_demo :: "(nat \<Rightarrow> nat \<Rightarrow> nat) \<Rightarrow> int demo_os" where
  "counting_demo rand = \<lparr>de_time = \<lambda>w. ((w, 0), w + 1), de_clearcache = \<lambda>w a n. w, de_memset = \<lambda>w a n. w + 1,
     de_memcpy = \<lambda>w a b n. w + 1, de_bump = \<lambda>w a n i. w + 1, de_store_list = \<lambda>w a xs. w, de_mark = \<lambda>w a. w,
     de_rand = rand, de_qsort = sort_key snd, de_sqrt = \<lambda>x. x\<rparr>"

text \<open>The time that \<open>memtest\<close> takes for \<open>random2\<close> is that between two readings of the clock with nothing in between:
  the accesses are made before the first of them, because a \<open>break\<close> is missing.\<close>

theorem random2_measures_nothing:
  assumes "run_kernel D RANDOM2 mem sz w = Some ((start, stop), w')"
  shows "\<exists>u v. u = snd (time_around D (random_accesses D mem (c_uint (int (sz div 4)))) w) \<and>
    de_time D u = (start, v) \<and> de_time D v = (stop, w')"
  using assms by (auto simp: run_kernel_def time_around_def Let_def split: prod.splits)

theorem random2_measures_nothing_witness:
  "run_kernel (counting_demo (\<lambda>s i. 5)) RANDOM2 4096 4 7 = Some (((10, 0), (11, 0)), 12) \<and>
    de_time (counting_demo (\<lambda>s i. 5)) 10 = ((10, 0), 11) \<and> de_time (counting_demo (\<lambda>s i. 5)) 11 = ((11, 0), 12)"
proof -
  have "random_accesses (counting_demo (\<lambda>s i. 5)) 4096 1 8 = 9"
    by (simp add: random_accesses_def random_step_def counting_demo_def split: prod.split)
  then have run: "run_kernel (counting_demo (\<lambda>s i. 5)) RANDOM2 4096 4 7 = Some (((10, 0), (11, 0)), 12)"
    by (simp add: run_kernel_def time_around_def counting_demo_def c_uint_def)
  from random2_measures_nothing [OF run] run show ?thesis by (auto simp: counting_demo_def)
qed

section \<open>The pointer chase\<close>

text \<open>A list of links in which every element but one has a successor, no two the same and none the first element.\<close>

lemma chase_ends_aux:
  assumes inj: "\<And>i j q. i < length links \<Longrightarrow> j < length links \<Longrightarrow> links ! i = Some q \<Longrightarrow> links ! j = Some q \<Longrightarrow> i = j"
    and range: "\<And>i q. i < length links \<Longrightarrow> links ! i = Some q \<Longrightarrow> 0 < q \<and> q < length links"
    and p: "p < length links" "V \<subseteq> {..<length links}" "p \<notin> V"
    and closed: "\<And>q. q \<in> insert p V \<Longrightarrow> q = 0 \<or> (\<exists>v \<in> V. links ! v = Some q)"
  shows "\<exists>r. chase links p = Some r \<and> r < length links \<and> links ! r = None"
  using p closed
proof (induction "length links - card V" arbitrary: p V rule: less_induct)
  case less
  show ?case
  proof (cases "links ! p")
    case None
    then show ?thesis using less.prems by (subst chase.simps) simp
  next
    case (Some q)
    have q: "0 < q" "q < length links" using range [OF less.prems(1) Some] by simp_all
    have fin: "finite V" using less.prems(2) finite_subset by blast
    have new: "q \<notin> insert p V"
    proof
      assume "q \<in> insert p V"
      then obtain v where v: "v \<in> V" "links ! v = Some q" using less.prems(4) q(1) by blast
      then have "v = p" using inj Some less.prems(1,2) by blast
      then show False using v(1) less.prems(3) by simp
    qed
    have sub: "insert p V \<subseteq> {..<length links}" using less.prems(1,2) by simp
    have "card (insert p V) \<le> length links" using card_mono [OF _ sub] by simp
    then have smaller: "length links - card (insert p V) < length links - card V"
      using fin less.prems(3) by simp
    have "\<And>r. r \<in> insert q (insert p V) \<Longrightarrow> r = 0 \<or> (\<exists>v \<in> insert p V. links ! v = Some r)"
      using less.prems(4) Some by blast
    from less.hyps [OF smaller q(2) sub new this]
    show ?thesis using Some less.prems(1) by (subst chase.simps) simp
  qed
qed

lemma links_of_permutation:
  assumes "mset ns = mset (map (\<lambda>i. (i + 1, v i)) [0..<n])"
  defines "links \<equiv> map (\<lambda>(nexti, val). if n \<le> nexti then None else Some nexti) ns"
  shows "length links = n" "i < n \<Longrightarrow> links ! i = Some q \<Longrightarrow> 0 < q \<and> q < n"
    "i < n \<Longrightarrow> j < n \<Longrightarrow> links ! i = Some q \<Longrightarrow> links ! j = Some q \<Longrightarrow> i = j"
proof -
  have len: "length ns = n" using mset_eq_length [OF assms(1)] by simp
  then show "length links = n" by (simp add: links_def)
  have "mset (map fst ns) = image_mset fst (mset (map (\<lambda>i. (i + 1, v i)) [0..<n]))"
    by (simp only: mset_map assms(1))
  also have "\<dots> = mset (map Suc [0..<n])" by (simp only: mset_map [symmetric] map_map) (simp add: comp_def del: upt_Suc)
  also have "map Suc [0..<n] = [1..<Suc n]" by (simp only: map_Suc_upt One_nat_def)
  finally have m: "mset (map fst ns) = mset [1..<Suc n]" .
  have d: "distinct (map fst ns)" using mset_eq_imp_distinct_iff [OF m] by simp
  have s: "set (map fst ns) = {1..<Suc n}" using mset_eq_setD [OF m] by (simp del: upt_Suc)
  have nth: "links ! i = (if n \<le> map fst ns ! i then None else Some (map fst ns ! i))" if "i < n" for i
    using that len by (auto simp: links_def split: prod.splits)
  have pos: "0 < map fst ns ! i" if "i < n" for i
    using that len s nth_mem [of i "map fst ns"] by auto
  show "i < n \<Longrightarrow> links ! i = Some q \<Longrightarrow> 0 < q \<and> q < n" using nth pos by (auto split: if_splits)
  show "i < n \<Longrightarrow> j < n \<Longrightarrow> links ! i = Some q \<Longrightarrow> links ! j = Some q \<Longrightarrow> i = j"
    using nth d len nth_eq_iff_index_eq [OF d] by (auto split: if_splits)
qed

text \<open>C21: The pointer chase ends, for every permutation that \<open>qsort\<close> makes of the elements, and so for every sequence of
  random numbers: no element leads back to the first, and no two lead to the same one.\<close>

theorem pointer_chase_ends:
  assumes "\<forall>xs. mset (de_qsort D xs) = mset xs" "8 \<le> sz" "sz div 8 < 2 ^ 32"
  shows "\<exists>p. chase (ptrchase_init D sz) 0 = Some p \<and> p < sz div 8 \<and> ptrchase_init D sz ! p = None"
proof -
  let ?n = "sz div 8"
  let ?ns = "de_qsort D (map (\<lambda>i. (c_uint (int i + 1), c_uint (int (de_rand D 1234 i)))) [0..<?n])"
  have c: "c_uint (int i + 1) = i + 1" if "i < ?n" for i
    using that assms(3) c_uint_of_nat [of "i + 1"] by (simp add: add.commute)
  have "map (\<lambda>i. (c_uint (int i + 1), c_uint (int (de_rand D 1234 i)))) [0..<?n] =
      map (\<lambda>i. (i + 1, c_uint (int (de_rand D 1234 i)))) [0..<?n]" using c by simp
  then have perm: "mset ?ns = mset (map (\<lambda>i. (i + 1, c_uint (int (de_rand D 1234 i)))) [0..<?n])"
    using assms(1) by metis
  let ?links = "map (\<lambda>(nexti, val). if ?n \<le> nexti then None else Some nexti) ?ns"
  note l = links_of_permutation [OF perm]
  have "0 < ?n" using assms(2) by simp
  then have "\<exists>r. chase ?links 0 = Some r \<and> r < length ?links \<and> ?links ! r = None"
    using l(2,3) by (intro chase_ends_aux [of ?links 0 "{}"]) (auto simp only: l(1))
  moreover have "ptrchase_init D sz = ?links" by (simp only: ptrchase_init_def Let_def)
  ultimately show ?thesis by (simp only: l(1))
qed

theorem pointer_chase_ends_witness:
  "\<exists>p. chase (ptrchase_init (counting_demo (\<lambda>s i. (i * 7) mod 5)) 4096) 0 = Some p \<and> p < 512"
  using pointer_chase_ends [of "counting_demo (\<lambda>s i. (i * 7) mod 5)" 4096] by (auto simp: counting_demo_def)

section \<open>The sets of nodes\<close>

lemma mask_fold:
  assumes "bm_inv b"
  shows "bm_inv (fold (\<lambda>w b. if bit msk w then numa_bitmask_setbit b w else b) ws b) \<and>
    bm_bits (fold (\<lambda>w b. if bit msk w then numa_bitmask_setbit b w else b) ws b) \<subseteq> bm_bits b \<union> {w \<in> set ws. bit msk w}"
  using assms
proof (induction ws arbitrary: b)
  case (Cons w ws)
  let ?b = "if bit msk w then numa_bitmask_setbit b w else b"
  have "bm_inv ?b" "bm_bits ?b \<subseteq> bm_bits b \<union> {x. x = w \<and> bit msk w}"
    using Cons.prems setbit_bits [OF Cons.prems, of w] by auto
  then show ?case using Cons.IH [of ?b] by (auto simp del: mem_bm_bits)
qed simp

text \<open>The loop over the sets of nodes takes the bits of a number for node numbers: where node numbers are not
  contiguous, a node whose number is not below the number of nodes is in none of the sets.\<close>

theorem sparse_node_in_no_set:
  assumes "bm_inv nodes" "msk < 2 ^ n" "n \<le> node"
  shows "node \<notin> bm_bits (mask_nodes nodes msk)"
proof -
  have "\<not> bit msk node" using assms(2,3) by (metis bit_take_bit_iff leD take_bit_nat_eq_self_iff)
  then show ?thesis
    using mask_fold [of "numa_bitmask_clearall nodes" msk "[0..<64]"] clearall_bits [OF assms(1)]
    by (auto simp: mask_nodes_def simp del: mem_bm_bits)
qed

text \<open>Two nodes with the numbers 0 and 2: in the only set of both, node 2 is missing.\<close>

theorem sparse_node_in_no_set_witness: "2 \<notin> bm_bits (mask_nodes (new_bitmask 64) 3)"
  by (rule sparse_node_in_no_set [of _ _ 2]) simp_all

end
