(* ===== verification/Spec2Isabelle.thy ===== *)
theory Spec2Isabelle
  imports PropsCore PropsLibrary PropsPolicy PropsCompat PropsCpu PropsParse PropsDevice PropsShm PropsNumactl PropsStat PropsTools PropsDemo
begin

text \<open>
  Verification of numactl: the library \<open>libnuma\<close> and the commands \<open>numactl\<close>, \<open>numastat\<close>, \<open>numademo\<close>, \<open>memhog\<close>,
  \<open>migratepages\<close>, \<open>migspeed\<close> and the STREAM benchmark.

  The library keeps what it has found out about the machine in global variables: the sizes of the kernel's masks,
  the masks of the nodes and CPUs of the system and of the task, a cache of the CPUs of every node, the distance
  table, and the flags for errors and warnings.  It is set up once, from \<open>/proc\<close>, \<open>/sys\<close> and trial system calls.
  Its operations build node masks, hand them to the kernel, and read masks and policies back.  The commands parse
  node lists and other arguments, call the library, and print tables.

  How the code is modelled.

  \<^item> \<open>struct bitmask\<close> and \<open>nodemask_t\<close> are a size and a list of 64 bit words; \<open>unsigned int\<close> flags are 32 bit words.
    Other integers are numbers with explicit conversions (\<open>c_int\<close>, \<open>c_uint\<close>, \<open>c_long\<close>, \<open>c_ulong\<close> in Prelude) where
    the code converts or overflows.  The data model is LP64, \<open>char\<close> is signed, as on x86-64 Linux.
  \<^item> Strings are lists of characters without the terminating NUL; a pointer into a string is the rest of it.
  \<^item> A global state is a record that is passed along: \<open>numa\<close> (libnuma.c), \<open>shm\<close> (shm.c), \<open>ctl\<close> (numactl.c), \<open>stat\<close>,
    \<open>hash_state\<close> and \<open>vtab\<close> (numastat.c), \<open>mt\<close> (mt.c), \<open>stream\<close> (stream_lib.c), \<open>demo\<close> (numademo.c).
  \<^item> Everything outside the repository is an argument: the system calls, files and directories (\<open>os\<close>, and for single
    components \<open>shm_os\<close>, \<open>dev\<close>, \<open>route_os\<close>, \<open>stat_os\<close>, \<open>mem_os\<close>, \<open>bench_os\<close>, \<open>demo_os\<close>), with a type variable for the
    world that they change.  \<open>getopt\<close> is the sequence of the options it delivers.  The parser of node lists takes the
    resolution of device names as an argument, as the code calls it through one function.
  \<^item> The result \<open>None\<close> means that control does not come back: the process ends with a message and a failure status, the
    behaviour is undefined in C (an access outside an array, a NULL pointer, an overflow of a buffer), or a loop
    does not end.  Errors that the code reports to its caller are values: -1, a NULL mask (\<open>Some None\<close>), \<open>errno\<close>.
    Output to stderr is not modelled, except the calls of \<open>numa_error\<close> and \<open>numa_warn\<close>, which are recorded.
  \<^item> Loops are folds over index lists or recursive functions with a termination proof; the loops that need not end
    (a full hash table, a clock that stands still, a kernel that never accepts a size) are partial functions,
    and where a theorem says \<open>Some\<close>, it says that they end.  There is no fuel.
  \<^item> A double is a rational number that is rounded to 53 binary digits after every operation (Stdio); the exponent
    is not bounded and there is no signed zero.
\<close>

text \<open>
  The theories, in the order of the code.

  \<^item> Prelude, CString, Stdio: C integers and conversions, \<open>foldM\<close>, the functions of \<open>string.h\<close>, \<open>strtoul\<close>, \<open>fgets\<close>,
    \<open>strtok\<close> and \<open>printf\<close> that the code uses, each with the facts that printed numbers are read back.
  \<^item> Bitset, Bitmask: the bit operations of \<open>libnuma.c\<close> and \<open>numa.h\<close>.  The locale \<open>bitset\<close> states what a mask promises
    (a set of numbers below a capacity) and derives the loops over masks once; \<open>bitset_total\<close> adds the operations
    on all bits.  \<open>struct bitmask\<close> and \<open>nodemask_t\<close> are interpretations.
  \<^item> System, Syscall: the parameter \<open>os\<close>, the globals of the library, errors and warnings (\<open>numa_error\<close>, \<open>numa_warn\<close>),
    allocation, and the system call wrappers of \<open>syscall.c\<close>.  \<open>numa_wf\<close> is the invariant of a library that is set up.
  \<^item> Setup: \<open>numa_init\<close> with everything it reads.  Distance: \<open>distance.c\<close>.  Meminfo: \<open>numa_node_size64\<close>.
  \<^item> Policy, PolicyFacts: memory policies, allocation, migration.  \<open>policy_kernel\<close> is what the manual pages of
    \<open>set_mempolicy\<close> and \<open>get_mempolicy\<close> promise, and the round trips rest on: accepted calls put in force the nodes
    of the mask that the task may use, and what is in force can be read by a caller whose mask has room for all nodes
    (its parameter \<open>N\<close>).  Whether the last bit of a mask counts is left open by the manual and is the parameter \<open>u\<close>.
    Which calls are accepted is never assumed.  PolicyMachine: an abstract machine, an inductive step relation over the
    policy in force, that the functions which set and read the policy implement (\<open>in_force\<close> is the abstraction,
    \<open>run_calls\<close> a client).
  \<^item> CpuMap, CpuCache, RunNode: \<open>cpumap\<close> files, the cache of the CPUs of the nodes, affinity.
  \<^item> Compat: the inline functions of \<open>numa.h\<close> for programs written for version 1.
  \<^item> NodeString, NodeStringFacts: node and CPU lists, against an abstract reading of the notation.
  \<^item> Rtnetlink, RouteFacts, Affinity: \<open>rtnetlink.c\<close>, \<open>affinity.c\<close>, \<open>sysfs.c\<close>: device names and addresses.
  \<^item> Shm, ShmFacts: \<open>shm.c\<close>.  Util: \<open>util.c\<close>.  Report, ReportFacts, Numactl, NumactlFacts: \<open>numactl.c\<close>.
  \<^item> TokenIndex, Table, TableFacts, Selection, NumaStat, NumaStatFacts, ProcessSums: \<open>numastat.c\<close>.  The locale
    \<open>token_index\<close> is the contract of the hash index (interpretation \<open>ht\<close>); the locale \<open>selection\<close> is selection sort
    over a comparison (interpretations \<open>node_order\<close> and \<open>row_order\<close> for the two sorting loops).
  \<^item> Memhog, Migrate, StreamLib, Numademo, Mt: \<open>memhog.c\<close>; \<open>migratepages.c\<close> and \<open>migspeed.c\<close>; \<open>stream_lib.c\<close> and
    \<open>stream_main.c\<close>; \<open>numademo.c\<close>; \<open>mt.c\<close>.
  \<^item> Library: the library as a whole.  A client is an inductive step relation over all public calls, with the world
    free to change in between (\<open>lib_step\<close>, \<open>lib_reach\<close>); \<open>lib_inv\<close> is the invariant of all globals, and the rules for
    \<open>kept\<close> show, by the shape of the code, that every call keeps it and the sizes found at set-up.
  \<^item> Sample: a machine with two nodes, on which the witnesses evaluate.
  \<^item> PropsCore, PropsLibrary, PropsPolicy, PropsCompat, PropsCpu, PropsParse, PropsDevice, PropsShm, PropsNumactl, PropsStat, PropsTools,
    PropsDemo: the properties, each followed by a witness at a concrete input.
\<close>

text \<open>
  What is shown.

  \<^item> Invariants: setting up establishes \<open>numa_wf\<close> on every sane system; every reachable state of the library
    satisfies \<open>lib_inv\<close>, so lookups of CPUs and distances stay inside their tables whatever has been called before;
    the cache of CPUs is transparent as long as no refresh fails.
  \<^item> Refinement: any sequence of calls that set and read the memory policy is a run of the abstract machine with the
    same answers; the masks are sets of numbers and the row index of numastat is a finite map.
  \<^item> Round trips: what the kernel prints (masks, CPU maps, distances, memory sizes) is read back; what numactl prints
    (node lists) is parsed back; a policy that has been set is what is read, up to
    the last bit, which the kernel may drop.
  \<^item> Function: node lists denote what the notation says; the affinity that is set is the CPUs of the nodes; the CPU is
    found on its lowest node; the verification and the dump of shared memory are exact; the commands do what
    their options say; an address leads to the interface in the kernel's reply, whatever its attributes.
  \<^item> The tables of numastat: the index finds the first row of a name, the two sorts sort, the display shares the columns
    out to sections that fit the screen, the sums are exact below 2\<open>^\<close>33 megabytes.
  \<^item> numademo, STREAM, memhog: the pointer chase ends for every random order, random accesses stay in bounds, the arrays
    of STREAM hold the exact values, the memory is filled once and completely.
  \<^item> Errors: what is rejected and with which result, and the places where the code does not do what it means to do;
    these are theorems about the model as it is written, such as \<open>memhog_status_reversed\<close>.
\<close>

text \<open>
  Not modelled: threads (the library's thread-local errno and races on its caches), symbol versions beyond the two
  variants of each function, \<open>clearcache.c\<close> (assembly), the assembly of \<open>syscall.c\<close> for old C libraries and other
  processors, usage texts, and the test and fuzzing programs.  Inside what is modelled, \<open>malloc\<close> does not fail in
  numastat, \<open>strtod\<close> reads plain decimal numbers, and functions of the C library are modelled for the ways
  the code calls them.
\<close>

end
